(* ===== verification/Prelude.thy ===== *)
theory Prelude
  imports Main "HOL-Library.AList" "HOL-Library.Sublist" "HOL-Library.Word"
begin

text \<open>
  What the component theories share: Python's exceptions as values of a sum type, dictionaries that keep
  insertion order, and the collections of facts that carry the component proofs. Dynamic values and the operations on
  strings, numbers and bytes are in the theory \<^verbatim>\<open>Py_Values\<close>.

  Strings are lists of ASCII characters: every string the modelled code computes on (hashes,
  addresses, selectors, JSON keys, operator suffixes, decimal numerals) is ASCII. Python's
  unbounded integers are \<^typ>\<open>int\<close>; bytes are 8-bit words. Floating point numbers, which occur as
  times and delays and in configuration values, are reals.
\<close>

section \<open>Collections of facts for the component proofs\<close>

named_theorems dict_simps "what the dictionary operations do to lookups and keys"
named_theorems str_simps "what the string operations do"
named_theorems res_simps "inversion of computations that may raise"

section \<open>Exceptions and results\<close>

text \<open>
  One constructor per exception class the modelled code raises or catches by name.
  \<open>ExternalError\<close> stands for any exception of a library or of the network; its text is what
  \<open>str(exc)\<close> gives, which two of the callers inspect.
\<close>

datatype exn =
    ValueError
  | KeyError
  | IndexError
  | TypeError
  | AttributeError
  | AssertionError
  | TimeoutError
  | RuntimeError string
  | DecodeFailed
  | AbiNotFound string
  | FilterError string
  | RetryAbort string
  | RetryExhausted int
  | AllEndpointsFailed
  | ExternalError string

type_synonym 'a res = "exn + 'a"

text \<open>Sequencing: an exception skips the rest.\<close>

definition rbind :: "'a res \<Rightarrow> ('a \<Rightarrow> 'b res) \<Rightarrow> 'b res" where
  "rbind m f = (case m of Inl e \<Rightarrow> Inl e | Inr x \<Rightarrow> f x)"

lemma rbind_simps [simp]:
  "rbind (Inl e) f = Inl e"
  "rbind (Inr x) f = f x"
  by (simp_all add: rbind_def)

lemma rbind_Inr_iff [res_simps]: "rbind m f = Inr y \<longleftrightarrow> (\<exists>x. m = Inr x \<and> f x = Inr y)"
  by (cases m) simp_all

lemma rbind_Inl_iff [res_simps]:
  "rbind m f = Inl e \<longleftrightarrow> m = Inl e \<or> (\<exists>x. m = Inr x \<and> f x = Inl e)"
  by (cases m) auto

text \<open>\<open>[f(x) for x in xs]\<close> where \<open>f\<close> may raise: left to right, the first exception wins.\<close>

fun rmap :: "('a \<Rightarrow> 'b res) \<Rightarrow> 'a list \<Rightarrow> 'b list res" where
  "rmap f [] = Inr []"
| "rmap f (x # xs) = rbind (f x) (\<lambda>y. rbind (rmap f xs) (\<lambda>ys. Inr (y # ys)))"

lemma rmap_Inr_length: "rmap f xs = Inr ys \<Longrightarrow> length ys = length xs"
  by (induction xs arbitrary: ys) (auto simp: res_simps)

lemma rmap_total: "(\<And>x. x \<in> set xs \<Longrightarrow> f x = Inr (g x)) \<Longrightarrow> rmap f xs = Inr (map g xs)"
  by (induction xs) simp_all

text \<open>Where a loop stops: at the first element, or somewhere in the rest.\<close>

lemma ex_split_Cons:
  "(\<exists>pre e post. x # xs = pre @ e # post \<and> P pre e) \<longleftrightarrow>
     P [] x \<or> (\<exists>pre e post. xs = pre @ e # post \<and> P (x # pre) e)"
proof
  assume "\<exists>pre e post. x # xs = pre @ e # post \<and> P pre e"
  then obtain pre e post where "x # xs = pre @ e # post" "P pre e" by blast
  then show "P [] x \<or> (\<exists>pre e post. xs = pre @ e # post \<and> P (x # pre) e)"
    by (cases pre) auto
next
  assume "P [] x \<or> (\<exists>pre e post. xs = pre @ e # post \<and> P (x # pre) e)"
  then show "\<exists>pre e post. x # xs = pre @ e # post \<and> P pre e"
    by (metis append_Cons append_Nil)
qed

text \<open>\<open>[y for x in xs if (y := f(x)) is not None]\<close>.\<close>

lemma map_filter_mem [simp]: "y \<in> set (List.map_filter f xs) \<longleftrightarrow> (\<exists>x \<in> set xs. f x = Some y)"
  by (induction xs) (auto simp: List.map_filter_simps split: option.splits)

lemma map_filter_append [simp]:
  "List.map_filter f (xs @ ys) = List.map_filter f xs @ List.map_filter f ys"
  by (simp add: List.map_filter_def)

text \<open>\<open>xs[i]\<close>: a negative index counts from the end.\<close>

definition py_nth :: "'a list \<Rightarrow> int \<Rightarrow> 'a res" where
  "py_nth xs i =
     (if 0 \<le> i \<and> i < int (length xs) then Inr (xs ! nat i)
      else if i < 0 \<and> - int (length xs) \<le> i then Inr (xs ! nat (int (length xs) + i))
      else Inl IndexError)"

section \<open>Dictionaries\<close>

text \<open>
  A \<open>dict\<close> keeps its keys in insertion order and assignment to a present key keeps its place:
  \<^const>\<open>AList.update\<close> is exactly \<open>d[k] = v\<close>, \<^const>\<open>map_of\<close> is \<open>d.get(k)\<close> and
  \<^const>\<open>AList.delete\<close> is \<open>d.pop(k, None)\<close>.
\<close>

type_synonym ('k, 'v) dict = "('k \<times> 'v) list"

abbreviation d_get :: "('k, 'v) dict \<Rightarrow> 'k \<Rightarrow> 'v option" where
  "d_get \<equiv> map_of"

abbreviation d_set :: "'k \<Rightarrow> 'v \<Rightarrow> ('k, 'v) dict \<Rightarrow> ('k, 'v) dict" where
  "d_set \<equiv> AList.update"

abbreviation d_pop :: "'k \<Rightarrow> ('k, 'v) dict \<Rightarrow> ('k, 'v) dict" where
  "d_pop \<equiv> AList.delete"

abbreviation d_keys :: "('k, 'v) dict \<Rightarrow> 'k list" where
  "d_keys \<equiv> map fst"

definition d_has :: "('k, 'v) dict \<Rightarrow> 'k \<Rightarrow> bool" where
  "d_has d k = (map_of d k \<noteq> None)"

definition d_get_default :: "('k, 'v) dict \<Rightarrow> 'k \<Rightarrow> 'v \<Rightarrow> 'v" where
  "d_get_default d k v = (case map_of d k of None \<Rightarrow> v | Some w \<Rightarrow> w)"

text \<open>\<open>d.setdefault(k, v)\<close>, as the new dictionary.\<close>

definition d_setdefault :: "'k \<Rightarrow> 'v \<Rightarrow> ('k, 'v) dict \<Rightarrow> ('k, 'v) dict" where
  "d_setdefault k v d = (if d_has d k then d else d @ [(k, v)])"

text \<open>\<open>d[k]\<close> raises \<open>KeyError\<close> when the key is absent.\<close>

definition d_index :: "('k, 'v) dict \<Rightarrow> 'k \<Rightarrow> 'v res" where
  "d_index d k = (case map_of d k of None \<Rightarrow> Inl KeyError | Some v \<Rightarrow> Inr v)"

text \<open>A dict comprehension: later pairs overwrite the value of earlier ones.\<close>

definition dict_of :: "('k \<times> 'v) list \<Rightarrow> ('k, 'v) dict" where
  "dict_of kvs = fold (\<lambda>(k, v) d. d_set k v d) kvs []"

text \<open>\<open>{**a, **b}\<close>.\<close>

definition d_merge :: "('k, 'v) dict \<Rightarrow> ('k, 'v) dict \<Rightarrow> ('k, 'v) dict" where
  "d_merge a b = fold (\<lambda>(k, v) d. d_set k v d) b a"

lemma d_get_set [dict_simps]: "d_get (d_set k v d) k' = (if k' = k then Some v else d_get d k')"
  by (simp add: update_conv')

lemma d_get_pop [dict_simps]: "d_get (d_pop k d) k' = (if k' = k then None else d_get d k')"
  by (simp add: delete_conv')

lemma d_has_iff [dict_simps]: "d_has d k \<longleftrightarrow> k \<in> set (d_keys d)"
  by (simp add: d_has_def map_of_eq_None_iff)

lemma d_get_setdefault [dict_simps]:
  "d_get (d_setdefault k v d) k' =
     (if k' = k \<and> \<not> d_has d k then Some v else d_get d k')"
  by (auto simp: d_setdefault_def d_has_def map_add_def split: option.splits)

lemma d_keys_set: "set (d_keys (d_set k v d)) = insert k (set (d_keys d))"
  by (simp add: update_keys insert_absorb)

lemma distinct_d_set: "distinct (d_keys d) \<Longrightarrow> distinct (d_keys (d_set k v d))"
  by (rule distinct_update)

lemma distinct_d_setdefault: "distinct (d_keys d) \<Longrightarrow> distinct (d_keys (d_setdefault k v d))"
  by (auto simp: d_setdefault_def dict_simps)

text \<open>
  The contract every key-value component of the program offers: dictionaries here, the
  checkpoint table in \<open>Config_Store\<close>.
\<close>

locale kv_store =
  fixes put :: "'k \<Rightarrow> 'v \<Rightarrow> 's \<Rightarrow> 's"
    and get :: "'s \<Rightarrow> 'k \<Rightarrow> 'v option"
  assumes get_put: "get (put k v s) k' = (if k' = k then Some v else get s k')"
begin

lemma get_put_same: "get (put k v s) k = Some v"
  by (simp add: get_put)

lemma get_put_twice: "get (put k v (put k w s)) k' = get (put k v s) k'"
  by (simp add: get_put)

lemma get_fold_put:
  "get (fold (\<lambda>(k, v) s. put k v s) kvs s) k =
     (case map_of (rev kvs) k of None \<Rightarrow> get s k | Some v \<Rightarrow> Some v)"
  by (induction kvs arbitrary: s)
    (auto simp: get_put map_add_def split: option.splits prod.splits)

lemma get_fold_put_last:
  "kvs \<noteq> [] \<Longrightarrow> list_all (\<lambda>x. fst x = k) kvs \<Longrightarrow>
   get (fold (\<lambda>(k, v) s. put k v s) kvs s) k = Some (snd (last kvs))"
  by (induction kvs rule: rev_induct) (auto simp: get_put)

end

interpretation pydict: kv_store d_set d_get
  by unfold_locales (simp add: dict_simps)

lemma d_get_dict_of [dict_simps]: "d_get (dict_of kvs) k = map_of (rev kvs) k"
  by (simp add: dict_of_def pydict.get_fold_put split: option.splits)

lemma d_get_merge [dict_simps]:
  "d_get (d_merge a b) k = (case map_of (rev b) k of None \<Rightarrow> d_get a k | Some v \<Rightarrow> Some v)"
  by (simp add: d_merge_def pydict.get_fold_put)

lemma distinct_fold_d_set:
  "distinct (d_keys d) \<Longrightarrow> distinct (d_keys (fold (\<lambda>(k, v) d. d_set k v d) kvs d))"
  by (induction kvs arbitrary: d) (auto simp: distinct_d_set split: prod.splits)

lemma distinct_dict_of: "distinct (d_keys (dict_of kvs))"
  by (simp add: dict_of_def distinct_fold_d_set)

lemma map_of_rev_distinct: "distinct (map fst kvs) \<Longrightarrow> map_of (rev kvs) = map_of kvs"
  by (metis distinct_rev map_of_inject_set rev_map set_rev)

lemma d_index_Inr_iff [res_simps]: "d_index d k = Inr v \<longleftrightarrow> d_get d k = Some v"
  by (auto simp: d_index_def split: option.splits)

lemma d_index_Inl_iff [res_simps]: "d_index d k = Inl e \<longleftrightarrow> d_get d k = None \<and> e = KeyError"
  by (auto simp: d_index_def split: option.splits)

end
