(* ===== verification/Py_Values.thy ===== *)
theory Py_Values
  imports Complex_Main Prelude
begin

text \<open>
  Dynamic values and the string, number and byte operations of Python that the sources use.
  Event arguments, subscription filters, ABI and IDL bodies and RPC answers are values of type
  \<open>pv\<close>; the operations on them raise \<open>TypeError\<close> or \<open>ValueError\<close> where Python does.
\<close>

section \<open>Values\<close>

type_synonym byte = "8 word"

datatype pv =
    PNone
  | PBool bool
  | PInt int
  | PFloat real
  | PStr string
  | PBytes "byte list"
  | PList "pv list"
  | PTuple "pv list"
  | PDict "(string \<times> pv) list"

text \<open>
  \<open>==\<close>: numbers compare by value (a bool is the integer it stands for), lists and tuples compare
  elementwise and never equal each other, dictionaries compare without regard to order.
\<close>

fun num_value :: "pv \<Rightarrow> real option" where
  "num_value (PBool b) = Some (if b then 1 else 0)"
| "num_value (PInt n) = Some (of_int n)"
| "num_value (PFloat x) = Some x"
| "num_value v = None"

fun py_eq :: "pv \<Rightarrow> pv \<Rightarrow> bool"
  and py_eqs :: "pv list \<Rightarrow> pv list \<Rightarrow> bool"
  and py_eq_items :: "(string \<times> pv) list \<Rightarrow> (string \<times> pv) list \<Rightarrow> bool" where
  "py_eq PNone v = (v = PNone)"
| "py_eq (PBool a) v = (num_value v = Some (if a then 1 else 0))"
| "py_eq (PInt m) v = (num_value v = Some (of_int m))"
| "py_eq (PFloat x) v = (num_value v = Some x)"
| "py_eq (PStr s) v = (v = PStr s)"
| "py_eq (PBytes bs) v = (v = PBytes bs)"
| "py_eq (PList xs) v = (case v of PList ys \<Rightarrow> py_eqs xs ys | _ \<Rightarrow> False)"
| "py_eq (PTuple xs) v = (case v of PTuple ys \<Rightarrow> py_eqs xs ys | _ \<Rightarrow> False)"
| "py_eq (PDict xs) v =
     (case v of PDict ys \<Rightarrow> length xs = length ys \<and> py_eq_items xs ys | _ \<Rightarrow> False)"
| "py_eqs [] ys = (ys = [])"
| "py_eqs (x # xs) ys = (case ys of [] \<Rightarrow> False | y # ys' \<Rightarrow> py_eq x y \<and> py_eqs xs ys')"
| "py_eq_items [] ys = True"
| "py_eq_items ((k, v) # xs) ys =
     ((case map_of ys k of None \<Rightarrow> False | Some w \<Rightarrow> py_eq v w) \<and> py_eq_items xs ys)"

text \<open>\<open>hash(v)\<close> raises \<open>TypeError\<close> on lists and dictionaries, also inside a tuple.\<close>

fun py_hashable :: "pv \<Rightarrow> bool" where
  "py_hashable (PList xs) = False"
| "py_hashable (PDict d) = False"
| "py_hashable (PTuple xs) = list_all py_hashable xs"
| "py_hashable v = True"

text \<open>\<open>bool(v)\<close>.\<close>

fun py_truthy :: "pv \<Rightarrow> bool" where
  "py_truthy PNone = False"
| "py_truthy (PBool b) = b"
| "py_truthy (PInt n) = (n \<noteq> 0)"
| "py_truthy (PFloat x) = (x \<noteq> 0)"
| "py_truthy (PStr s) = (s \<noteq> [])"
| "py_truthy (PBytes bs) = (bs \<noteq> [])"
| "py_truthy (PList xs) = (xs \<noteq> [])"
| "py_truthy (PTuple xs) = (xs \<noteq> [])"
| "py_truthy (PDict d) = (d \<noteq> [])"

section \<open>Strings\<close>

definition lower_char :: "char \<Rightarrow> char" where
  "lower_char c = (let n = (of_char c :: nat) in if 65 \<le> n \<and> n \<le> 90 then char_of (n + 32) else c)"

definition lower :: "string \<Rightarrow> string" where
  "lower s = map lower_char s"

abbreviation startswith :: "string \<Rightarrow> string \<Rightarrow> bool" where
  "startswith s p \<equiv> prefix p s"

abbreviation endswith :: "string \<Rightarrow> string \<Rightarrow> bool" where
  "endswith s p \<equiv> suffix p s"

definition removeprefix :: "string \<Rightarrow> string \<Rightarrow> string" where
  "removeprefix s p = (if startswith s p then drop (length p) s else s)"

text \<open>\<open>p in s\<close> for strings.\<close>

fun contains :: "string \<Rightarrow> string \<Rightarrow> bool" where
  "contains p [] = (p = [])"
| "contains p (c # cs) = (prefix p (c # cs) \<or> contains p cs)"

definition is_space :: "char \<Rightarrow> bool" where
  "is_space c = (let n = (of_char c :: nat) in n = 32 \<or> (9 \<le> n \<and> n \<le> 13) \<or> (28 \<le> n \<and> n \<le> 31))"

definition strip :: "string \<Rightarrow> string" where
  "strip s = rev (dropWhile is_space (rev (dropWhile is_space s)))"

text \<open>\<open>s[-n:]\<close> for positive \<open>n\<close>.\<close>

definition take_last :: "nat \<Rightarrow> 'a list \<Rightarrow> 'a list" where
  "take_last n xs = drop (length xs - n) xs"

section \<open>Numerals\<close>

definition digit_value :: "char \<Rightarrow> int option" where
  "digit_value c = (let n = (of_char c :: nat) in
     if 48 \<le> n \<and> n \<le> 57 then Some (int n - 48)
     else if 97 \<le> n \<and> n \<le> 122 then Some (int n - 87)
     else if 65 \<le> n \<and> n \<le> 90 then Some (int n - 55)
     else None)"

text \<open>
  The digits of \<open>int(s, base)\<close>: single underscores are allowed between digits. The flag says
  whether the previous character was a digit.
\<close>

fun digits_val :: "int \<Rightarrow> int \<Rightarrow> bool \<Rightarrow> string \<Rightarrow> int option" where
  "digits_val b acc prev [] = (if prev then Some acc else None)"
| "digits_val b acc prev (c # cs) =
     (if c = CHR ''_'' then (if prev then digits_val b acc False cs else None)
      else case digit_value c of
          None \<Rightarrow> None
        | Some d \<Rightarrow> if d < b then digits_val b (acc * b + d) True cs else None)"

text \<open>An optional \<open>0x\<close> with an optional underscore after it, in base 16 only.\<close>

definition drop_radix :: "int \<Rightarrow> string \<Rightarrow> string" where
  "drop_radix b s =
     (if b = 16 \<and> (startswith s ''0x'' \<or> startswith s ''0X'') then
        (let r = drop 2 s in if startswith r ''_'' then drop 1 r else r)
      else s)"

text \<open>\<open>int(s, base)\<close> for bases 10 and 16; \<open>None\<close> where Python raises \<open>ValueError\<close>.\<close>

definition int_of_string :: "int \<Rightarrow> string \<Rightarrow> int option" where
  "int_of_string b s =
     (case strip s of
        [] \<Rightarrow> None
      | c # cs \<Rightarrow>
          if c = CHR ''-'' then map_option uminus (digits_val b 0 False (drop_radix b cs))
          else if c = CHR ''+'' then digits_val b 0 False (drop_radix b cs)
          else digits_val b 0 False (drop_radix b (c # cs)))"

text \<open>\<open>int(v)\<close> on a dynamic value.\<close>

fun py_int :: "pv \<Rightarrow> int res" where
  "py_int (PInt n) = Inr n"
| "py_int (PBool b) = Inr (if b then 1 else 0)"
| "py_int (PFloat x) = Inr (if 0 \<le> x then \<lfloor>x\<rfloor> else \<lceil>x\<rceil>)"
| "py_int (PStr s) = (case int_of_string 10 s of None \<Rightarrow> Inl ValueError | Some n \<Rightarrow> Inr n)"
| "py_int (PBytes bs) =
     (case int_of_string 10 (map (\<lambda>b. char_of (uint b)) bs) of None \<Rightarrow> Inl ValueError | Some n \<Rightarrow> Inr n)"
| "py_int v = Inl TypeError"

definition digit_char :: "nat \<Rightarrow> char" where
  "digit_char d = char_of (48 + d)"

fun nat_str :: "nat \<Rightarrow> string" where
  "nat_str n = (if n < 10 then [digit_char n] else nat_str (n div 10) @ [digit_char (n mod 10)])"

declare nat_str.simps [simp del]

text \<open>\<open>str(n)\<close> on an integer.\<close>

definition int_str :: "int \<Rightarrow> string" where
  "int_str n = (if n < 0 then CHR ''-'' # nat_str (nat (- n)) else nat_str (nat n))"

section \<open>Bytes\<close>

definition hex_digit :: "int \<Rightarrow> char" where
  "hex_digit d = (if d < 10 then char_of (48 + d) else char_of (87 + d))"

text \<open>\<open>bs.hex()\<close>.\<close>

definition bytes_hex :: "byte list \<Rightarrow> string" where
  "bytes_hex bs = concat (map (\<lambda>b. [hex_digit (uint b div 16), hex_digit (uint b mod 16)]) bs)"

definition hex_value :: "char \<Rightarrow> int option" where
  "hex_value c = (case digit_value c of None \<Rightarrow> None | Some d \<Rightarrow> if d < 16 then Some d else None)"

text \<open>\<open>bytes.fromhex(s)\<close>: white space is skipped between bytes.\<close>

fun bytes_fromhex :: "string \<Rightarrow> byte list res" where
  "bytes_fromhex [] = Inr []"
| "bytes_fromhex [c] = (if is_space c then Inr [] else Inl ValueError)"
| "bytes_fromhex (c # d # cs) =
     (if is_space c then bytes_fromhex (d # cs)
      else case (hex_value c, hex_value d) of
          (Some x, Some y) \<Rightarrow> rbind (bytes_fromhex cs) (\<lambda>bs. Inr (word_of_int (16 * x + y) # bs))
        | _ \<Rightarrow> Inl ValueError)"

text \<open>\<open>struct.unpack("<Q", bs)[0]\<close>: eight bytes, least significant first.\<close>

fun le_val :: "byte list \<Rightarrow> int" where
  "le_val [] = 0"
| "le_val (b # bs) = uint b + 256 * le_val bs"

definition unpack_u64_le :: "byte list \<Rightarrow> int res" where
  "unpack_u64_le bs = (if length bs = 8 then Inr (le_val bs) else Inl (ExternalError ''struct.error''))"

fun le_bytes :: "nat \<Rightarrow> int \<Rightarrow> byte list" where
  "le_bytes 0 n = []"
| "le_bytes (Suc k) n = word_of_int n # le_bytes k (n div 256)"

section \<open>Access to dynamic values\<close>

text \<open>\<open>for x in v\<close>: what a value iterates over.\<close>

fun py_iter :: "pv \<Rightarrow> pv list res" where
  "py_iter (PList xs) = Inr xs"
| "py_iter (PTuple xs) = Inr xs"
| "py_iter (PStr s) = Inr (map (\<lambda>c. PStr [c]) s)"
| "py_iter (PBytes bs) = Inr (map (\<lambda>b. PInt (uint b)) bs)"
| "py_iter (PDict d) = Inr (map (\<lambda>(k, v). PStr k) d)"
| "py_iter v = Inl TypeError"

text \<open>\<open>v.get(k)\<close>, \<open>v.get(k, default)\<close> and \<open>v[k]\<close> with a string key.\<close>

fun pv_get :: "pv \<Rightarrow> string \<Rightarrow> pv option res" where
  "pv_get (PDict d) k = Inr (map_of d k)"
| "pv_get v k = Inl AttributeError"

definition pv_get_or :: "pv \<Rightarrow> string \<Rightarrow> pv \<Rightarrow> pv res" where
  "pv_get_or v k dflt = rbind (pv_get v k) (\<lambda>r. Inr (case r of None \<Rightarrow> dflt | Some w \<Rightarrow> w))"

fun pv_index :: "pv \<Rightarrow> string \<Rightarrow> pv res" where
  "pv_index (PDict d) k = d_index d k"
| "pv_index v k = Inl TypeError"

text \<open>
  A value the code uses as a string without checking: a name, a type. JSON ABIs and IDLs have
  strings there; anything else is a \<open>TypeError\<close> here.
\<close>

fun pv_str :: "pv \<Rightarrow> string res" where
  "pv_str (PStr s) = Inr s"
| "pv_str v = Inl TypeError"

text \<open>\<open>",".join(xs)\<close>\<close>

fun join :: "string \<Rightarrow> string list \<Rightarrow> string" where
  "join sep [] = []"
| "join sep [s] = s"
| "join sep (s # t # ss) = s @ sep @ join sep (t # ss)"

section \<open>Facts\<close>

lemma lower_char_idem [str_simps, simp]: "lower_char (lower_char c) = lower_char c"
  by (simp add: lower_char_def Let_def)

lemma lower_idem [str_simps, simp]: "lower (lower s) = lower s"
  by (simp add: lower_def)

lemma lower_length [str_simps, simp]: "length (lower s) = length s"
  by (simp add: lower_def)

lemma lower_Nil [simp]: "lower [] = []"
  by (simp add: lower_def)

lemma lower_append [str_simps]: "lower (s @ t) = lower s @ lower t"
  by (simp add: lower_def)

lemma lower_prefix: "prefix p s \<Longrightarrow> prefix (lower p) (lower s)"
  by (auto simp: prefix_def lower_append)

lemma lower_char_0x [simp]: "lower_char CHR ''0'' = CHR ''0''" "lower_char CHR ''x'' = CHR ''x''"
  by (simp_all add: lower_char_def)

lemma lower_startswith_0x: "startswith s ''0x'' \<Longrightarrow> startswith (lower s) ''0x''"
  using lower_prefix [of "''0x''" s] by (simp add: lower_def)

lemma le_val_bounds: "0 \<le> le_val bs \<and> le_val bs < 256 ^ length bs"
proof (induction bs)
  case Nil
  then show ?case by simp
next
  case (Cons b bs)
  have "uint b < 256" "0 \<le> uint b"
    using uint_lt2p [of b] by simp_all
  with Cons show ?case by simp
qed

lemma unpack_u64_le_bounds: "unpack_u64_le bs = Inr n \<Longrightarrow> 0 \<le> n \<and> n < 2 ^ 64"
  using le_val_bounds [of bs] by (auto simp: unpack_u64_le_def split: if_splits)

lemma le_bytes_length [simp]: "length (le_bytes k n) = k"
  by (induction k arbitrary: n) simp_all

lemma le_val_le_bytes: "0 \<le> n \<Longrightarrow> n < 256 ^ k \<Longrightarrow> le_val (le_bytes k n) = n"
proof (induction k arbitrary: n)
  case 0
  then show ?case by simp
next
  case (Suc k)
  from Suc.prems have "0 \<le> n div 256" "n div 256 < 256 ^ k"
    by (simp_all add: div_less_iff_less_mult)
  then have "le_val (le_bytes k (n div 256)) = n div 256"
    by (rule Suc.IH)
  then show ?case
    by (simp add: uint_word_of_int)
qed

lemma unpack_u64_le_inverse: "0 \<le> n \<Longrightarrow> n < 2 ^ 64 \<Longrightarrow> unpack_u64_le (le_bytes 8 n) = Inr n"
  by (simp add: unpack_u64_le_def le_val_le_bytes)

subsection \<open>Decimal numerals read back\<close>

lemma digit_value_digit_char: "d < 10 \<Longrightarrow> digit_value (digit_char d) = Some (int d)"
  by (simp add: digit_value_def digit_char_def Let_def)

lemma digit_char_not_special:
  "d < 10 \<Longrightarrow> digit_char d \<noteq> CHR ''_'' \<and> digit_char d \<noteq> CHR ''-'' \<and> digit_char d \<noteq> CHR ''+''
     \<and> \<not> is_space (digit_char d)"
proof -
  assume d: "d < 10"
  have eq: "of_char (digit_char d) = (48 + d :: nat)"
    using d by (simp add: digit_char_def)
  have "of_char CHR ''_'' = (95 :: nat)" "of_char CHR ''-'' = (45 :: nat)" "of_char CHR ''+'' = (43 :: nat)"
    by simp_all
  with d eq show ?thesis
    by (auto simp: is_space_def Let_def) 
qed

lemma nat_str_digits: "c \<in> set (nat_str n) \<Longrightarrow> \<exists>d < 10. c = digit_char d"
proof (induction n rule: nat_str.induct)
  case (1 n)
  show ?case
  proof (cases "n < 10")
    case True
    with "1.prems" show ?thesis by (auto simp: nat_str.simps [of n])
  next
    case False
    with "1.prems" consider "c \<in> set (nat_str (n div 10))" | "c = digit_char (n mod 10)"
      by (auto simp: nat_str.simps [of n])
    then show ?thesis
      using "1.IH" [OF False] by cases (auto intro: exI [of _ "n mod 10"])
  qed
qed

lemma nat_str_nonempty [simp]: "nat_str n \<noteq> []"
  by (simp add: nat_str.simps [of n])

lemma digits_val_nat_str:
  "digits_val 10 acc prev (nat_str n @ cs) = digits_val 10 (acc * 10 ^ length (nat_str n) + int n) True cs"
proof (induction n arbitrary: cs prev acc rule: nat_str.induct)
  case (1 n)
  show ?case
  proof (cases "n < 10")
    case True
    then show ?thesis
      by (simp add: nat_str.simps [of n] digit_value_digit_char digit_char_not_special)
  next
    case False
    have m: "n mod 10 < 10" by simp
    have "digits_val 10 acc prev (nat_str n @ cs)
        = digits_val 10 acc prev (nat_str (n div 10) @ digit_char (n mod 10) # cs)"
      using False by (simp add: nat_str.simps [of n])
    also have "\<dots> = digits_val 10 (acc * 10 ^ length (nat_str (n div 10)) + int (n div 10)) True
        (digit_char (n mod 10) # cs)"
      using "1.IH" False by blast
    also have "\<dots> = digits_val 10
        ((acc * 10 ^ length (nat_str (n div 10)) + int (n div 10)) * 10 + int (n mod 10)) True cs"
      by (simp add: digit_value_digit_char [OF m] digit_char_not_special [OF m] del: of_nat_mod)
    also have "(acc * 10 ^ length (nat_str (n div 10)) + int (n div 10)) * 10 + int (n mod 10)
        = acc * 10 ^ length (nat_str n) + int n"
      using False by (simp add: nat_str.simps [of n] algebra_simps zdiv_int zmod_int)
    finally show ?thesis .
  qed
qed

lemma strip_id: "s \<noteq> [] \<Longrightarrow> \<not> is_space (hd s) \<Longrightarrow> \<not> is_space (last s) \<Longrightarrow> strip s = s"
proof -
  assume s: "s \<noteq> []" "\<not> is_space (hd s)" "\<not> is_space (last s)"
  then have "dropWhile is_space s = s"
    by (cases s) simp_all
  moreover from s have "dropWhile is_space (rev s) = rev s"
    by (cases s rule: rev_cases) simp_all
  ultimately show ?thesis
    by (simp add: strip_def)
qed

lemma strip_nat_str: "strip (nat_str n) = nat_str n" "strip (CHR ''-'' # nat_str n) = CHR ''-'' # nat_str n"
proof -
  have d: "\<not> is_space c" if "c \<in> set (nat_str n)" for c
    using nat_str_digits [OF that] digit_char_not_special by blast
  then show "strip (nat_str n) = nat_str n"
    by (intro strip_id) (simp_all add: d)
  show "strip (CHR ''-'' # nat_str n) = CHR ''-'' # nat_str n"
    by (rule strip_id) (simp_all add: d, simp add: is_space_def)
qed

theorem int_of_string_int_str: "int_of_string 10 (int_str n) = Some n"
proof (cases "n < 0")
  case True
  then show ?thesis
    using digits_val_nat_str [of 0 False "nat (- n)" "[]"]
    by (simp add: int_of_string_def int_str_def strip_nat_str drop_radix_def)
next
  case False
  obtain c cs where cs: "nat_str (nat n) = c # cs"
    by (cases "nat_str (nat n)") auto
  then have "c \<noteq> CHR ''-'' \<and> c \<noteq> CHR ''+''"
    using nat_str_digits [of c "nat n"] digit_char_not_special by auto
  with False cs show ?thesis
    using digits_val_nat_str [of 0 False "nat n" "[]"] strip_nat_str(1) [of "nat n"]
    by (simp add: int_of_string_def int_str_def drop_radix_def)
qed

lemma py_int_int_str [simp]: "py_int (PStr (int_str n)) = Inr n"
  by (simp add: int_of_string_int_str)

text \<open>Hexadecimal text reads back as the bytes it was made from.\<close>

lemma hex_digit_code:
  assumes "0 \<le> d" and "d < 16"
  shows "(of_char (hex_digit d) :: nat) = nat (if d < 10 then 48 + d else 87 + d)"
proof -
  have code: "(char_of (int n) :: char) = char_of n" for n
    by (simp add: char_of_def bit_of_nat_iff_bit)
  have "int (of_char (hex_digit d)) = (if d < 10 then 48 + d else 87 + d)"
    using assms code [of "nat (48 + d)"] code [of "nat (87 + d)"] by (simp add: hex_digit_def)
  then show ?thesis by linarith
qed

lemma hex_digit_value:
  assumes "0 \<le> d" and "d < 16"
  shows "hex_value (hex_digit d) = Some d \<and> \<not> is_space (hex_digit d)"
  using assms by (auto simp: hex_value_def digit_value_def is_space_def hex_digit_code [OF assms] Let_def)

lemma bytes_fromhex_hex: "bytes_fromhex (bytes_hex bs) = Inr bs"
proof (induction bs)
  case (Cons b bs)
  have b: "0 \<le> uint b" "uint b < 256" using uint_lt2p [of b] by simp_all
  then have "0 \<le> uint b div 16" "uint b div 16 < 16" by presburger+
  then have "hex_value (hex_digit (uint b div 16)) = Some (uint b div 16) \<and> \<not> is_space (hex_digit (uint b div 16))"
      "hex_value (hex_digit (uint b mod 16)) = Some (uint b mod 16)"
    using hex_digit_value [of "uint b div 16"] hex_digit_value [of "uint b mod 16"] by simp_all
  moreover have "bytes_hex (b # bs) = hex_digit (uint b div 16) # hex_digit (uint b mod 16) # bytes_hex bs"
    by (simp add: bytes_hex_def)
  ultimately show ?case using Cons.IH by simp
qed (simp add: bytes_hex_def)

end
