(* ===== verification/Chain_Types.thy ===== *)
theory Chain_Types
  imports Py_Values
begin

text \<open>
  The data that flows through the worker: the block shapes of \<^verbatim>\<open>core/chains/types.py\<close> and the
  uniform event of \<^verbatim>\<open>core/parser/event.py\<close>. Field names carry a prefix per class, since several
  classes share names (\<open>hash\<close>, \<open>index\<close>, \<open>type\<close>).
\<close>

section \<open>EVM blocks\<close>

record BlockHeader =
  bh_number :: int
  bh_hash :: string
  bh_parent_hash :: string
  bh_timestamp :: int

record Tx =
  tx_hash :: string
  tx_index :: int
  tx_from_addr :: string
  tx_to_addr :: "string option"
  tx_value :: int
  tx_input :: string
  tx_status :: int

record Log =
  lg_tx_hash :: string
  lg_log_index :: int
  lg_address :: string
  lg_topics :: "string list"
  lg_data :: string
  lg_block_number :: int

record Block =
  blk_header :: BlockHeader
  blk_txs :: "Tx list"
  blk_logs :: "Log list"

text \<open>A traced call and its nested calls; the class refers to itself, so it is a datatype.\<close>

datatype InternalCall = InternalCall
  (ic_type: string)
  (ic_from_addr: string)
  (ic_to_addr: "string option")
  (ic_value: int)
  (ic_gas: int)
  (ic_input: string)
  (ic_output: string)
  (ic_error: "string option")
  (ic_calls: "InternalCall list")
  (ic_created_address: "string option")

section \<open>Solana blocks\<close>

record SolanaTokenBalance =
  tb_account_index :: int
  tb_mint :: string
  tb_owner :: "string option"
  tb_amount :: int
  tb_decimals :: int

record SolanaInstruction =
  ix_program_id :: string
  ix_accounts :: "string list"
  ix_data_b58 :: string
  ix_stack_depth :: int

record SolanaTransaction =
  st_signature :: string
  st_slot :: int
  st_success :: bool
  st_fee :: int
  st_account_keys :: "string list"
  st_pre_balances :: "int list"
  st_post_balances :: "int list"
  st_pre_token_balances :: "SolanaTokenBalance list"
  st_post_token_balances :: "SolanaTokenBalance list"
  st_log_messages :: "string list"
  st_instructions :: "SolanaInstruction list"

record SolanaBlock =
  sb_slot :: int
  sb_block_hash :: string
  sb_parent_slot :: int
  sb_block_time :: "int option"
  sb_transactions :: "SolanaTransaction list"

section \<open>Events\<close>

text \<open>The four event kinds, which are also the subscription kinds of \<^verbatim>\<open>core/config/models.py\<close>.\<close>

datatype MatchKind = MK_native_transfer | MK_token_transfer | MK_event | MK_call

fun kind_str :: "MatchKind \<Rightarrow> string" where
  "kind_str MK_native_transfer = ''native_transfer''"
| "kind_str MK_token_transfer = ''token_transfer''"
| "kind_str MK_event = ''event''"
| "kind_str MK_call = ''call''"

record Event =
  ev_chain_id :: string
  ev_block_number :: int
  ev_block_hash :: string
  ev_block_timestamp :: int
  ev_tx_hash :: string
  ev_tx_index :: "int option"
  ev_log_index :: "int option"
  ev_kind :: MatchKind
  ev_contract :: "string option"
  ev_name :: "string option"
  ev_args :: "(string, pv) dict"
  ev_raw :: "(string, pv) dict"

end
