(* ===== verification/Snapshot.thy ===== *)
theory Snapshot
  imports Chain_Types
begin

text \<open>
  The read-only configuration the worker runs on: the snapshot classes of
  \<^verbatim>\<open>core/config/snapshot.py\<close> and the enumerations of \<^verbatim>\<open>core/config/models.py\<close> they are built from.
  How a snapshot is loaded from the database is in \<open>Config_Store\<close>.
\<close>

datatype ChainKind = CK_evm | CK_solana

datatype AbiKind = AK_evm_abi | AK_solana_idl

datatype ChannelType = CT_mq | CT_http | CT_ws | CT_kafka | CT_rabbitmq

fun channel_type_str :: "ChannelType \<Rightarrow> string" where
  "channel_type_str CT_mq = ''mq''"
| "channel_type_str CT_http = ''http''"
| "channel_type_str CT_ws = ''ws''"
| "channel_type_str CT_kafka = ''kafka''"
| "channel_type_str CT_rabbitmq = ''rabbitmq''"

record SnapshotSubscription =
  ss_id :: string
  ss_name :: string
  ss_chain_id :: string
  ss_address :: "string option"
  ss_abi_id :: "string option"
  ss_match_kind :: MatchKind
  ss_match_name :: "string option"
  ss_arg_filters :: "(string, pv) dict"
  ss_enabled :: bool
  ss_channel_ids :: "string list"
  ss_start_block :: "int option"
  ss_business_name :: "string option"

record SnapshotChannel =
  sc_id :: string
  sc_name :: string
  sc_type :: ChannelType
  sc_config :: "(string, pv) dict"

record SnapshotChain =
  sn_id :: string
  sn_kind :: ChainKind
  sn_rpc_http :: string
  sn_rpc_ws :: "string option"
  sn_confirmations :: int
  sn_poll_interval_ms :: int
  sn_commitment :: "string option"
  sn_trace_internal_calls :: bool
  sn_log_query_range_blocks :: int
  sn_slot_query_range_blocks :: int
  sn_rpc_http_fallbacks :: "string list"
  sn_rpc_timeout_ms :: int

record SnapshotAbi =
  sa_id :: string
  sa_name :: string
  sa_kind :: AbiKind
  sa_body :: pv

record ConfigSnapshot =
  snap_version :: int
  snap_subscriptions :: "SnapshotSubscription list"
  snap_channels :: "SnapshotChannel list"
  snap_chains :: "SnapshotChain list"
  snap_abis :: "SnapshotAbi list"

definition subscriptions_for_chain :: "ConfigSnapshot \<Rightarrow> string \<Rightarrow> SnapshotSubscription list" where
  "subscriptions_for_chain snap chain_id =
     filter (\<lambda>s. ss_chain_id s = chain_id \<and> ss_enabled s) (snap_subscriptions snap)"

text \<open>\<open>{c.id: c for c in channels}\<close>, used by the snapshot and by the matcher.\<close>

definition channels_by_id :: "SnapshotChannel list \<Rightarrow> (string, SnapshotChannel) dict" where
  "channels_by_id cs = dict_of (map (\<lambda>c. (sc_id c, c)) cs)"

text \<open>\<open>[by_id[cid] for cid in sub.channel_ids if cid in by_id]\<close>\<close>

definition resolve_channels ::
  "(string, SnapshotChannel) dict \<Rightarrow> SnapshotSubscription \<Rightarrow> SnapshotChannel list" where
  "resolve_channels by_id sub = List.map_filter (d_get by_id) (ss_channel_ids sub)"

definition channels_for_subscription ::
  "ConfigSnapshot \<Rightarrow> SnapshotSubscription \<Rightarrow> SnapshotChannel list" where
  "channels_for_subscription snap sub = resolve_channels (channels_by_id (snap_channels snap)) sub"

fun find_abi :: "SnapshotAbi list \<Rightarrow> string \<Rightarrow> SnapshotAbi option" where
  "find_abi [] abi_id = None"
| "find_abi (a # as) abi_id = (if sa_id a = abi_id then Some a else find_abi as abi_id)"

definition abi_by_id :: "ConfigSnapshot \<Rightarrow> string \<Rightarrow> SnapshotAbi option" where
  "abi_by_id snap abi_id = find_abi (snap_abis snap) abi_id"

lemma channels_by_id_Some:
  "d_get (channels_by_id cs) k = Some c \<Longrightarrow> c \<in> set cs \<and> sc_id c = k"
  by (auto simp: channels_by_id_def dict_simps simp flip: rev_map dest!: map_of_SomeD)

lemma channels_by_id_None: "d_get (channels_by_id cs) k = None \<longleftrightarrow> k \<notin> sc_id ` set cs"
  by (auto simp: channels_by_id_def dict_simps map_of_eq_None_iff image_iff)

lemma resolve_channels_sound:
  "c \<in> set (resolve_channels (channels_by_id cs) sub) \<Longrightarrow> c \<in> set cs \<and> sc_id c \<in> set (ss_channel_ids sub)"
  by (auto simp: resolve_channels_def dest!: channels_by_id_Some)

lemma resolve_channels_complete:
  assumes "set (ss_channel_ids sub) \<subseteq> sc_id ` set cs"
  shows "map sc_id (resolve_channels (channels_by_id cs) sub) = ss_channel_ids sub"
proof -
  have "map sc_id (List.map_filter (d_get (channels_by_id cs)) ids) = ids"
    if "set ids \<subseteq> sc_id ` set cs" for ids
    using that
  proof (induction ids)
    case (Cons i ids)
    obtain c where c: "d_get (channels_by_id cs) i = Some c"
      using Cons.prems channels_by_id_None [of cs i] by (cases "d_get (channels_by_id cs) i") auto
    with Cons channels_by_id_Some [OF c] show ?case
      by (simp add: List.map_filter_simps)
  qed (simp add: List.map_filter_simps)
  from this [OF assms] show ?thesis by (simp add: resolve_channels_def)
qed

end
