(* ===== verification/Config_Store.thy ===== *)
theory Config_Store
  imports Snapshot "HOL-Library.Multiset"
begin

text \<open>
  The configuration database: the tables of \<^verbatim>\<open>core/config/models.py\<close>, the repositories of
  \<^verbatim>\<open>core/config/repositories.py\<close> and \<open>load_snapshot\<close> of \<^verbatim>\<open>core/config/snapshot.py\<close>.

  A table is the list of its rows in insertion order, which is also the order of a \<open>SELECT\<close>
  without \<open>ORDER BY\<close>. \<open>db_fk\<close> says whether the engine enforces the declared foreign keys:
  PostgreSQL does, SQLite, the default, does not unless told to. Identifiers made by \<open>uuid4\<close> and
  the server's clock are arguments of the operations that use them. An operation whose
  constraints fail raises \<open>IntegrityError\<close> and leaves the database as it was.

  The lemmas say that every operation keeps the keys unique and, where they are enforced, the
  references valid; that the checkpoint table is a key-value store; that a loaded snapshot is
  closed and minimal; and what the clean-up of delivery records deletes.
\<close>

section \<open>Rows\<close>

record Chain =
  ch_id :: string
  ch_kind :: ChainKind
  ch_rpc_http :: string
  ch_rpc_ws :: "string option"
  ch_confirmations :: int
  ch_poll_interval_ms :: int
  ch_enabled :: bool
  ch_commitment :: "string option"
  ch_trace_internal_calls :: "bool option"
  ch_log_query_range_blocks :: int
  ch_slot_query_range_blocks :: int
  ch_rpc_http_fallbacks :: "string list"
  ch_rpc_timeout_ms :: int

record Abi =
  ab_id :: string
  ab_name :: string
  ab_kind :: AbiKind
  ab_body :: pv

record Subscription =
  su_id :: string
  su_name :: string
  su_chain_id :: string
  su_address :: "string option"
  su_abi_id :: "string option"
  su_match_kind :: MatchKind
  su_match_name :: "string option"
  su_arg_filters :: "(string, pv) dict"
  su_enabled :: bool
  su_start_block :: "int option"
  su_last_processed_block :: "int option"
  su_business_name :: "string option"

record Channel =
  cn_id :: string
  cn_name :: string
  cn_type :: ChannelType
  cn_config :: "(string, pv) dict"

record SubscriptionChannel =
  lk_subscription_id :: string
  lk_channel_id :: string

record Checkpoint =
  cp_chain_id :: string
  cp_last_block :: int
  cp_last_block_hash :: string

datatype DeliveryStatus = DS_success | DS_failed | DS_retrying | DS_resolved

record DeliveryRecord =
  dr_id :: string
  dr_subscription_id :: string
  dr_channel_id :: string
  dr_chain_id :: string
  dr_event_payload :: "(string, pv) dict"
  dr_error :: "string option"
  dr_attempts :: int
  dr_status :: DeliveryStatus
  dr_created_at :: int
  dr_resolved_at :: "int option"
  dr_is_replay :: bool

record Db =
  db_fk :: bool
  db_chains :: "Chain list"
  db_abis :: "Abi list"
  db_subs :: "Subscription list"
  db_channels :: "Channel list"
  db_links :: "SubscriptionChannel list"
  db_checkpoints :: "Checkpoint list"
  db_version :: "int option"
  db_deliveries :: "DeliveryRecord list"

section \<open>Statements on one table\<close>

abbreviation IntegrityError :: exn where
  "IntegrityError \<equiv> ExternalError ''IntegrityError''"

definition row_get :: "('r \<Rightarrow> 'k) \<Rightarrow> 'k \<Rightarrow> 'r list \<Rightarrow> 'r option" where
  "row_get key k rows = List.find (\<lambda>r. key r = k) rows"

definition row_update :: "('r \<Rightarrow> 'k) \<Rightarrow> 'k \<Rightarrow> ('r \<Rightarrow> 'r) \<Rightarrow> 'r list \<Rightarrow> 'r list" where
  "row_update key k f rows = map (\<lambda>r. if key r = k then f r else r) rows"

definition row_delete :: "('r \<Rightarrow> 'k) \<Rightarrow> 'k \<Rightarrow> 'r list \<Rightarrow> 'r list" where
  "row_delete key k rows = filter (\<lambda>r. key r \<noteq> k) rows"

definition row_insert :: "('r \<Rightarrow> 'k) \<Rightarrow> 'r \<Rightarrow> 'r list \<Rightarrow> 'r list res" where
  "row_insert key r rows = (if key r \<in> key ` set rows then Inl IntegrityError else Inr (rows @ [r]))"

lemma row_get_Some: "row_get key k rows = Some r \<Longrightarrow> r \<in> set rows \<and> key r = k"
  by (auto simp: row_get_def find_Some_iff)

lemma row_get_None: "row_get key k rows = None \<longleftrightarrow> k \<notin> key ` set rows"
  by (auto simp: row_get_def find_None_iff)

lemma row_get_unique: "distinct (map key rows) \<Longrightarrow> r \<in> set rows \<Longrightarrow> row_get key (key r) rows = Some r"
  by (induction rows) (auto simp: row_get_def)

lemma row_get_append:
  "row_get key k (rows @ rs) = (case row_get key k rows of None \<Rightarrow> row_get key k rs | Some r \<Rightarrow> Some r)"
  by (induction rows) (auto simp: row_get_def)

lemma row_get_update:
  "(\<And>r. key (f r) = key r) \<Longrightarrow>
   row_get key k' (row_update key k f rows) =
     (if k' = k then map_option f (row_get key k rows) else row_get key k' rows)"
  by (induction rows) (auto simp: row_get_def row_update_def)

lemma row_update_keys [simp]:
  "(\<And>r. key (f r) = key r) \<Longrightarrow> map key (row_update key k f rows) = map key rows"
  by (induction rows) (auto simp: row_update_def)

lemma row_update_key_set:
  "(\<And>r. key (f r) = key r) \<Longrightarrow> key ` set (row_update key k f rows) = key ` set rows"
  by (metis (mono_tags, lifting) list.set_map row_update_keys)

lemma row_delete_set [simp]: "set (row_delete key k rows) = {r \<in> set rows. key r \<noteq> k}"
  by (simp add: row_delete_def)

lemma image_key_filter [simp]: "key ` {r \<in> S. key r \<noteq> k} = key ` S - {k}"
  by auto

lemma image_restrict: "x \<in> g ` S \<Longrightarrow> x \<notin> g ` {r \<in> S. P r} \<Longrightarrow> x \<in> g ` {r \<in> S. \<not> P r}"
  by blast

lemma row_delete_distinct: "distinct (map g rows) \<Longrightarrow> distinct (map g (row_delete key k rows))"
  by (simp add: row_delete_def distinct_map_filter)

lemma row_insert_iff [res_simps]:
  "row_insert key r rows = Inr rows' \<longleftrightarrow> key r \<notin> key ` set rows \<and> rows' = rows @ [r]"
  by (auto simp: row_insert_def)

section \<open>Repositories\<close>

subsection \<open>Chains\<close>

definition chain_create :: "Chain \<Rightarrow> Db \<Rightarrow> Db res" where
  "chain_create c db = rbind (row_insert ch_id c (db_chains db)) (\<lambda>rows. Inr (db\<lparr>db_chains := rows\<rparr>))"

definition chain_get :: "string \<Rightarrow> Db \<Rightarrow> Chain option" where
  "chain_get chain_id db = row_get ch_id chain_id (db_chains db)"

definition chain_list_enabled :: "Db \<Rightarrow> Chain list" where
  "chain_list_enabled db = filter ch_enabled (db_chains db)"

definition chain_list_all :: "Db \<Rightarrow> Chain list" where
  "chain_list_all db = db_chains db"

text \<open>\<open>flds\<close>: the assignment of the named columns, as a function on the row.\<close>

definition chain_update :: "string \<Rightarrow> (Chain \<Rightarrow> Chain) \<Rightarrow> Db \<Rightarrow> Db" where
  "chain_update chain_id flds db = db\<lparr>db_chains := row_update ch_id chain_id flds (db_chains db)\<rparr>"

text \<open>
  \<open>ondelete\<close> of the models: a deleted chain takes its subscriptions, with their bindings, and its
  checkpoint along; a deleted ABI is set to null in its subscriptions. Only where the engine
  enforces foreign keys.
\<close>

definition cascade_sub :: "string set \<Rightarrow> Db \<Rightarrow> Db" where
  "cascade_sub gone db =
     (if db_fk db then db\<lparr>db_links := filter (\<lambda>l. lk_subscription_id l \<notin> gone) (db_links db)\<rparr> else db)"

definition cascade_chain :: "string \<Rightarrow> Db \<Rightarrow> Db" where
  "cascade_chain chain_id db =
     (if db_fk db then
        let gone = su_id ` {s \<in> set (db_subs db). su_chain_id s = chain_id}
        in cascade_sub gone
             (db\<lparr>db_subs := filter (\<lambda>s. su_chain_id s \<noteq> chain_id) (db_subs db),
                 db_checkpoints := row_delete cp_chain_id chain_id (db_checkpoints db)\<rparr>)
      else db)"

definition chain_delete :: "string \<Rightarrow> Db \<Rightarrow> Db" where
  "chain_delete chain_id db =
     (case chain_get chain_id db of
        None \<Rightarrow> db
      | Some c \<Rightarrow> cascade_chain chain_id (db\<lparr>db_chains := row_delete ch_id chain_id (db_chains db)\<rparr>))"

subsection \<open>Channels\<close>

definition channel_create :: "string \<Rightarrow> string \<Rightarrow> ChannelType \<Rightarrow> (string, pv) dict \<Rightarrow> Db \<Rightarrow> Db res" where
  "channel_create new_id name type config db =
     rbind (row_insert cn_id \<lparr>cn_id = new_id, cn_name = name, cn_type = type, cn_config = config\<rparr> (db_channels db))
       (\<lambda>rows. Inr (db\<lparr>db_channels := rows\<rparr>))"

definition channel_get :: "string \<Rightarrow> Db \<Rightarrow> Channel option" where
  "channel_get channel_id db = row_get cn_id channel_id (db_channels db)"

definition channel_list_all :: "Db \<Rightarrow> Channel list" where
  "channel_list_all db = db_channels db"

definition channel_update :: "string \<Rightarrow> (Channel \<Rightarrow> Channel) \<Rightarrow> Db \<Rightarrow> Db" where
  "channel_update channel_id flds db =
     db\<lparr>db_channels := row_update cn_id channel_id flds (db_channels db)\<rparr>"

definition channel_delete :: "string \<Rightarrow> Db \<Rightarrow> Db" where
  "channel_delete channel_id db =
     (case channel_get channel_id db of
        None \<Rightarrow> db
      | Some c \<Rightarrow>
          let db' = db\<lparr>db_channels := row_delete cn_id channel_id (db_channels db)\<rparr>
          in if db_fk db then db'\<lparr>db_links := row_delete lk_channel_id channel_id (db_links db')\<rparr> else db')"

subsection \<open>Subscriptions\<close>

definition sub_refs_ok :: "Db \<Rightarrow> Subscription \<Rightarrow> bool" where
  "sub_refs_ok db s \<longleftrightarrow>
     (db_fk db \<longrightarrow> su_chain_id s \<in> ch_id ` set (db_chains db) \<and>
        (\<forall>a \<in> set_option (su_abi_id s). a \<in> ab_id ` set (db_abis db)))"

definition sub_create :: "Subscription \<Rightarrow> Db \<Rightarrow> Db res" where
  "sub_create s db =
     (if \<not> sub_refs_ok db s then Inl IntegrityError
      else rbind (row_insert su_id (s\<lparr>su_last_processed_block := None\<rparr>) (db_subs db))
             (\<lambda>rows. Inr (db\<lparr>db_subs := rows\<rparr>)))"

definition sub_get :: "string \<Rightarrow> Db \<Rightarrow> Subscription option" where
  "sub_get sub_id db = row_get su_id sub_id (db_subs db)"

definition sub_list_all :: "Db \<Rightarrow> Subscription list" where
  "sub_list_all db = db_subs db"

text \<open>The join of \<open>list_enabled_with_channels\<close> for one subscription.\<close>

definition bound_channels :: "Db \<Rightarrow> string \<Rightarrow> Channel list" where
  "bound_channels db sub_id =
     List.map_filter (\<lambda>l. channel_get (lk_channel_id l) db)
       (filter (\<lambda>l. lk_subscription_id l = sub_id) (db_links db))"

definition list_enabled_with_channels :: "Db \<Rightarrow> (Subscription \<times> Channel list) list" where
  "list_enabled_with_channels db =
     map (\<lambda>s. (s, bound_channels db (su_id s))) (filter su_enabled (db_subs db))"

definition bind_channel :: "string \<Rightarrow> string \<Rightarrow> Db \<Rightarrow> Db res" where
  "bind_channel sub_id channel_id db =
     (if db_fk db \<and> (sub_get sub_id db = None \<or> channel_get channel_id db = None) then Inl IntegrityError
      else rbind (row_insert (\<lambda>l. (lk_subscription_id l, lk_channel_id l))
                    \<lparr>lk_subscription_id = sub_id, lk_channel_id = channel_id\<rparr> (db_links db))
             (\<lambda>rows. Inr (db\<lparr>db_links := rows\<rparr>)))"

definition unbind_channel :: "string \<Rightarrow> string \<Rightarrow> Db \<Rightarrow> Db" where
  "unbind_channel sub_id channel_id db =
     db\<lparr>db_links := filter (\<lambda>l. \<not> (lk_subscription_id l = sub_id \<and> lk_channel_id l = channel_id)) (db_links db)\<rparr>"

definition sub_update :: "string \<Rightarrow> (Subscription \<Rightarrow> Subscription) \<Rightarrow> Db \<Rightarrow> Db res" where
  "sub_update sub_id flds db =
     (case sub_get sub_id db of
        None \<Rightarrow> Inr db
      | Some s \<Rightarrow>
          if \<not> sub_refs_ok db (flds s) then Inl IntegrityError
          else Inr (db\<lparr>db_subs := row_update su_id sub_id flds (db_subs db)\<rparr>))"

definition sub_delete :: "string \<Rightarrow> Db \<Rightarrow> Db" where
  "sub_delete sub_id db =
     (case sub_get sub_id db of
        None \<Rightarrow> db
      | Some s \<Rightarrow> cascade_sub {sub_id} (db\<lparr>db_subs := row_delete su_id sub_id (db_subs db)\<rparr>))"

subsection \<open>ABIs\<close>

definition abi_create :: "string \<Rightarrow> string \<Rightarrow> AbiKind \<Rightarrow> pv \<Rightarrow> Db \<Rightarrow> Db res" where
  "abi_create new_id name kind body db =
     rbind (row_insert ab_id \<lparr>ab_id = new_id, ab_name = name, ab_kind = kind, ab_body = body\<rparr> (db_abis db))
       (\<lambda>rows. Inr (db\<lparr>db_abis := rows\<rparr>))"

definition abi_get :: "string \<Rightarrow> Db \<Rightarrow> Abi option" where
  "abi_get abi_id db = row_get ab_id abi_id (db_abis db)"

definition abi_list_all :: "Db \<Rightarrow> Abi list" where
  "abi_list_all db = db_abis db"

definition abi_delete :: "string \<Rightarrow> Db \<Rightarrow> Db" where
  "abi_delete abi_id db =
     (case abi_get abi_id db of
        None \<Rightarrow> db
      | Some a \<Rightarrow>
          let db' = db\<lparr>db_abis := row_delete ab_id abi_id (db_abis db)\<rparr>
          in if db_fk db
             then db'\<lparr>db_subs := map (\<lambda>s. if su_abi_id s = Some abi_id then s\<lparr>su_abi_id := None\<rparr> else s) (db_subs db')\<rparr>
             else db')"

subsection \<open>Checkpoints\<close>

definition checkpoint_get :: "string \<Rightarrow> Db \<Rightarrow> Checkpoint option" where
  "checkpoint_get chain_id db = row_get cp_chain_id chain_id (db_checkpoints db)"

text \<open>The two branches of \<open>upsert\<close> on the table: add a row, or set the two columns of the present one.\<close>

definition checkpoint_put :: "string \<Rightarrow> int \<times> string \<Rightarrow> Checkpoint list \<Rightarrow> Checkpoint list" where
  "checkpoint_put chain_id v rows =
     (case row_get cp_chain_id chain_id rows of
        None \<Rightarrow> rows @ [\<lparr>cp_chain_id = chain_id, cp_last_block = fst v, cp_last_block_hash = snd v\<rparr>]
      | Some existing \<Rightarrow>
          row_update cp_chain_id chain_id
            (\<lambda>r. r\<lparr>cp_last_block := fst v, cp_last_block_hash := snd v\<rparr>) rows)"

definition checkpoint_upsert :: "string \<Rightarrow> int \<Rightarrow> string \<Rightarrow> Db \<Rightarrow> Db res" where
  "checkpoint_upsert chain_id last_block last_block_hash db =
     (if db_fk db \<and> checkpoint_get chain_id db = None \<and> chain_get chain_id db = None then Inl IntegrityError
      else Inr (db\<lparr>db_checkpoints := checkpoint_put chain_id (last_block, last_block_hash) (db_checkpoints db)\<rparr>))"

subsection \<open>Configuration version\<close>

definition version_get :: "Db \<Rightarrow> int" where
  "version_get db = (case db_version db of None \<Rightarrow> 0 | Some v \<Rightarrow> v)"

definition version_bump :: "Db \<Rightarrow> int \<times> Db" where
  "version_bump db =
     (case db_version db of
        None \<Rightarrow> (1, db\<lparr>db_version := Some 1\<rparr>)
      | Some v \<Rightarrow> (v + 1, db\<lparr>db_version := Some (v + 1)\<rparr>))"

subsection \<open>Delivery records\<close>

definition delivery_status :: "string \<Rightarrow> DeliveryStatus res" where
  "delivery_status s =
     (if s = ''success'' then Inr DS_success
      else if s = ''failed'' then Inr DS_failed
      else if s = ''retrying'' then Inr DS_retrying
      else if s = ''resolved'' then Inr DS_resolved
      else Inl ValueError)"

definition delivery_create ::
  "string \<Rightarrow> int \<Rightarrow> string \<Rightarrow> string \<Rightarrow> string \<Rightarrow> (string, pv) dict \<Rightarrow> string option \<Rightarrow> int \<Rightarrow> string \<Rightarrow> bool \<Rightarrow>
   Db \<Rightarrow> Db res" where
  "delivery_create new_id now subscription_id channel_id chain_id event_payload error attempts status is_replay db =
     rbind (delivery_status status) (\<lambda>st.
     rbind (row_insert dr_id
              \<lparr>dr_id = new_id, dr_subscription_id = subscription_id, dr_channel_id = channel_id,
               dr_chain_id = chain_id, dr_event_payload = event_payload, dr_error = error,
               dr_attempts = attempts, dr_status = st, dr_created_at = now, dr_resolved_at = None,
               dr_is_replay = is_replay\<rparr> (db_deliveries db))
       (\<lambda>rows. Inr (db\<lparr>db_deliveries := rows\<rparr>)))"

definition delivery_get :: "string \<Rightarrow> Db \<Rightarrow> DeliveryRecord option" where
  "delivery_get delivery_id db = row_get dr_id delivery_id (db_deliveries db)"

text \<open>\<open>ORDER BY created_at DESC\<close>; rows of the same instant stay in insertion order.\<close>

definition newest_first :: "DeliveryRecord list \<Rightarrow> DeliveryRecord list" where
  "newest_first rows = sort_key (\<lambda>r. - dr_created_at r) rows"

definition delivery_list_all ::
  "nat \<Rightarrow> string option \<Rightarrow> string option \<Rightarrow> Db \<Rightarrow> DeliveryRecord list res" where
  "delivery_list_all limit subscription_id status db =
     (let by_sub = (case subscription_id of
                      None \<Rightarrow> db_deliveries db
                    | Some i \<Rightarrow> filter (\<lambda>r. dr_subscription_id r = i) (db_deliveries db))
      in rbind (case status of
                  None \<Rightarrow> Inr by_sub
                | Some s \<Rightarrow> rbind (delivery_status s) (\<lambda>st. Inr (filter (\<lambda>r. dr_status r = st) by_sub)))
           (\<lambda>rows. Inr (take limit (newest_first rows))))"

definition mark_resolved :: "string \<Rightarrow> int \<Rightarrow> Db \<Rightarrow> Db" where
  "mark_resolved delivery_id now db =
     db\<lparr>db_deliveries := row_update dr_id delivery_id
          (\<lambda>r. r\<lparr>dr_status := DS_resolved, dr_resolved_at := Some now\<rparr>) (db_deliveries db)\<rparr>"

definition bump_attempt :: "string \<Rightarrow> string \<Rightarrow> Db \<Rightarrow> Db" where
  "bump_attempt delivery_id error db =
     db\<lparr>db_deliveries := row_update dr_id delivery_id
          (\<lambda>r. r\<lparr>dr_attempts := dr_attempts r + 1, dr_error := Some error\<rparr>) (db_deliveries db)\<rparr>"

definition delivery_delete :: "string \<Rightarrow> Db \<Rightarrow> Db" where
  "delivery_delete delivery_id db =
     db\<lparr>db_deliveries := row_delete dr_id delivery_id (db_deliveries db)\<rparr>"

definition success_rows :: "DeliveryRecord list \<Rightarrow> DeliveryRecord list" where
  "success_rows rows = filter (\<lambda>r. dr_status r = DS_success) rows"

text \<open>The ids the inner query of \<open>cleanup_success\<close> selects.\<close>

definition cleanup_ids :: "nat \<Rightarrow> nat \<Rightarrow> DeliveryRecord list \<Rightarrow> string list" where
  "cleanup_ids keep batch rows = map dr_id (take batch (drop keep (newest_first (success_rows rows))))"

definition cleanup_success :: "nat \<Rightarrow> nat \<Rightarrow> Db \<Rightarrow> nat \<times> Db" where
  "cleanup_success keep batch db =
     (let ids = cleanup_ids keep batch (db_deliveries db);
          rest = filter (\<lambda>r. dr_id r \<notin> set ids) (db_deliveries db)
      in (length (db_deliveries db) - length rest, db\<lparr>db_deliveries := rest\<rparr>))"

section \<open>Loading a snapshot\<close>

definition snap_chain :: "Chain \<Rightarrow> SnapshotChain" where
  "snap_chain c =
     \<lparr>sn_id = ch_id c, sn_kind = ch_kind c, sn_rpc_http = ch_rpc_http c, sn_rpc_ws = ch_rpc_ws c,
      sn_confirmations = ch_confirmations c, sn_poll_interval_ms = ch_poll_interval_ms c,
      sn_commitment = ch_commitment c,
      sn_trace_internal_calls = (case ch_trace_internal_calls c of None \<Rightarrow> False | Some b \<Rightarrow> b),
      sn_log_query_range_blocks = ch_log_query_range_blocks c,
      sn_slot_query_range_blocks = ch_slot_query_range_blocks c,
      sn_rpc_http_fallbacks = ch_rpc_http_fallbacks c, sn_rpc_timeout_ms = ch_rpc_timeout_ms c\<rparr>"

definition snap_abi :: "Abi \<Rightarrow> SnapshotAbi" where
  "snap_abi a = \<lparr>sa_id = ab_id a, sa_name = ab_name a, sa_kind = ab_kind a, sa_body = ab_body a\<rparr>"

definition snap_channel :: "Channel \<Rightarrow> SnapshotChannel" where
  "snap_channel c = \<lparr>sc_id = cn_id c, sc_name = cn_name c, sc_type = cn_type c, sc_config = cn_config c\<rparr>"

definition snap_sub :: "Subscription \<Rightarrow> Channel list \<Rightarrow> SnapshotSubscription" where
  "snap_sub s channels =
     \<lparr>ss_id = su_id s, ss_name = su_name s, ss_chain_id = su_chain_id s, ss_address = su_address s,
      ss_abi_id = su_abi_id s, ss_match_kind = su_match_kind s, ss_match_name = su_match_name s,
      ss_arg_filters = su_arg_filters s, ss_enabled = su_enabled s,
      ss_channel_ids = map cn_id channels, ss_start_block = su_start_block s,
      ss_business_name = su_business_name s\<rparr>"

text \<open>The loop over the bindings: subscriptions without a channel are skipped.\<close>

fun load_bindings ::
  "(Subscription \<times> Channel list) list \<Rightarrow> (string, SnapshotChannel) dict \<Rightarrow> SnapshotSubscription list \<Rightarrow>
   (string, SnapshotChannel) dict \<times> SnapshotSubscription list" where
  "load_bindings [] by_id subs = (by_id, subs)"
| "load_bindings ((s, channels) # rest) by_id subs =
     (if channels = [] then load_bindings rest by_id subs
      else load_bindings rest
             (fold (\<lambda>ch d. d_setdefault (cn_id ch) (snap_channel ch) d) channels by_id)
             (subs @ [snap_sub s channels]))"

definition load_snapshot :: "Db \<Rightarrow> ConfigSnapshot" where
  "load_snapshot db =
     (let (by_id, subs) = load_bindings (list_enabled_with_channels db) [] [];
          active_chain_ids = ss_chain_id ` set subs
      in \<lparr>snap_version = version_get db,
          snap_subscriptions = subs,
          snap_channels = map snd by_id,
          snap_chains = filter (\<lambda>c. sn_id c \<in> active_chain_ids) (map snap_chain (chain_list_enabled db)),
          snap_abis = map snap_abi (abi_list_all db)\<rparr>)"

section \<open>Integrity\<close>

text \<open>Unique primary keys; valid references where the engine enforces them.\<close>

definition keys_ok :: "Db \<Rightarrow> bool" where
  "keys_ok db \<longleftrightarrow>
     distinct (map ch_id (db_chains db)) \<and> distinct (map ab_id (db_abis db)) \<and>
     distinct (map su_id (db_subs db)) \<and> distinct (map cn_id (db_channels db)) \<and>
     distinct (map (\<lambda>l. (lk_subscription_id l, lk_channel_id l)) (db_links db)) \<and>
     distinct (map cp_chain_id (db_checkpoints db)) \<and> distinct (map dr_id (db_deliveries db))"

definition refs_ok :: "Db \<Rightarrow> bool" where
  "refs_ok db \<longleftrightarrow>
     (\<forall>s \<in> set (db_subs db). sub_refs_ok db s) \<and>
     (db_fk db \<longrightarrow>
        (\<forall>l \<in> set (db_links db). lk_subscription_id l \<in> su_id ` set (db_subs db) \<and>
           lk_channel_id l \<in> cn_id ` set (db_channels db)) \<and>
        (\<forall>c \<in> set (db_checkpoints db). cp_chain_id c \<in> ch_id ` set (db_chains db)))"

definition db_ok :: "Db \<Rightarrow> bool" where
  "db_ok db \<longleftrightarrow> keys_ok db \<and> refs_ok db"

definition db_empty :: "bool \<Rightarrow> Db" where
  "db_empty fk = \<lparr>db_fk = fk, db_chains = [], db_abis = [], db_subs = [], db_channels = [], db_links = [],
     db_checkpoints = [], db_version = None, db_deliveries = []\<rparr>"

text \<open>
  The statements the repositories can issue. An update names columns other than the key; a
  failed statement changes nothing and is no step.
\<close>

inductive db_step :: "Db \<Rightarrow> Db \<Rightarrow> bool" where
  step_chain_create: "chain_create c db = Inr db' \<Longrightarrow> db_step db db'"
| step_chain_update: "(\<And>r. ch_id (f r) = ch_id r) \<Longrightarrow> db_step db (chain_update i f db)"
| step_chain_delete: "db_step db (chain_delete i db)"
| step_channel_create: "channel_create i n t cfg db = Inr db' \<Longrightarrow> db_step db db'"
| step_channel_update: "(\<And>r. cn_id (f r) = cn_id r) \<Longrightarrow> db_step db (channel_update i f db)"
| step_channel_delete: "db_step db (channel_delete i db)"
| step_sub_create: "sub_create s db = Inr db' \<Longrightarrow> db_step db db'"
| step_sub_update: "(\<And>r. su_id (f r) = su_id r) \<Longrightarrow> sub_update i f db = Inr db' \<Longrightarrow> db_step db db'"
| step_sub_delete: "db_step db (sub_delete i db)"
| step_bind: "bind_channel i j db = Inr db' \<Longrightarrow> db_step db db'"
| step_unbind: "db_step db (unbind_channel i j db)"
| step_abi_create: "abi_create i n k b db = Inr db' \<Longrightarrow> db_step db db'"
| step_abi_delete: "db_step db (abi_delete i db)"
| step_checkpoint: "checkpoint_upsert i n h db = Inr db' \<Longrightarrow> db_step db db'"
| step_bump: "version_bump db = (v, db') \<Longrightarrow> db_step db db'"
| step_delivery_create: "delivery_create i now s c ch p e a st rp db = Inr db' \<Longrightarrow> db_step db db'"
| step_mark_resolved: "db_step db (mark_resolved i now db)"
| step_bump_attempt: "db_step db (bump_attempt i e db)"
| step_delivery_delete: "db_step db (delivery_delete i db)"
| step_cleanup: "cleanup_success keep batch db = (n, db') \<Longrightarrow> db_step db db'"

inductive db_run :: "Db \<Rightarrow> Db \<Rightarrow> bool" where
  db_run_refl: "db_run db db"
| db_run_step: "db_run db db' \<Longrightarrow> db_step db' db'' \<Longrightarrow> db_run db db''"

subsection \<open>Every statement keeps integrity\<close>

named_theorems op_defs "the statements of the repositories"

declare chain_create_def [op_defs] chain_update_def [op_defs] chain_get_def [op_defs]
  channel_create_def [op_defs] channel_update_def [op_defs] channel_delete_def [op_defs]
  channel_get_def [op_defs] sub_get_def [op_defs] sub_create_def [op_defs] sub_update_def [op_defs]
  bind_channel_def [op_defs] unbind_channel_def [op_defs] abi_create_def [op_defs]
  abi_get_def [op_defs] abi_delete_def [op_defs] checkpoint_upsert_def [op_defs]
  checkpoint_get_def [op_defs] version_bump_def [op_defs] delivery_create_def [op_defs]
  mark_resolved_def [op_defs] bump_attempt_def [op_defs] delivery_delete_def [op_defs]
  cascade_sub_def [op_defs]

lemmas integrity_defs = db_ok_def keys_ok_def refs_ok_def sub_refs_ok_def

lemma chain_ops_ok:
  "db_ok db \<Longrightarrow> chain_create c db = Inr db' \<Longrightarrow> db_ok db'"
  "db_ok db \<Longrightarrow> (\<And>r. ch_id (f r) = ch_id r) \<Longrightarrow> db_ok (chain_update i f db)"
  by (auto simp: op_defs integrity_defs res_simps row_update_key_set split: option.splits)

lemma chain_delete_ok: "db_ok db \<Longrightarrow> db_ok (chain_delete i db)"
  by (auto simp: op_defs chain_delete_def cascade_chain_def Let_def integrity_defs row_delete_distinct
      distinct_map_filter split: option.splits intro!: image_restrict)

lemma channel_ops_ok:
  "db_ok db \<Longrightarrow> channel_create i n t cfg db = Inr db' \<Longrightarrow> db_ok db'"
  "db_ok db \<Longrightarrow> (\<And>r. cn_id (g r) = cn_id r) \<Longrightarrow> db_ok (channel_update i g db)"
  by (auto simp: op_defs integrity_defs res_simps row_update_key_set split: option.splits)

lemma channel_delete_ok: "db_ok db \<Longrightarrow> db_ok (channel_delete i db)"
  by (auto simp: op_defs integrity_defs Let_def row_delete_distinct split: option.splits)

lemma sub_create_ok: "db_ok db \<Longrightarrow> sub_create s db = Inr db' \<Longrightarrow> db_ok db'"
  by (auto simp: op_defs integrity_defs res_simps split: option.splits if_splits)

lemma sub_update_ok:
  assumes "db_ok db" "\<And>r. su_id (f r) = su_id r" "sub_update i f db = Inr db'"
  shows "db_ok db'"
proof (cases "sub_get i db")
  case (Some s)
  then have s: "s \<in> set (db_subs db)" "su_id s = i"
    by (auto simp: op_defs dest: row_get_Some)
  have only: "r = s" if "r \<in> set (db_subs db)" "su_id r = i" for r
    using assms(1) that s by (auto simp: db_ok_def keys_ok_def distinct_map inj_on_def)
  from Some assms(3) have db': "db' = db\<lparr>db_subs := row_update su_id i f (db_subs db)\<rparr>"
    and refs: "sub_refs_ok db (f s)"
    by (auto simp: sub_update_def split: if_splits)
  have upd: "sub_refs_ok db r" if "r \<in> set (row_update su_id i f (db_subs db))" for r
    using that refs only assms(1) by (auto simp: row_update_def db_ok_def refs_ok_def)
  have "sub_refs_ok db' r = sub_refs_ok db r" for r
    by (simp add: db' sub_refs_ok_def)
  with upd assms(1,2) show ?thesis
    by (auto simp: db' db_ok_def keys_ok_def refs_ok_def row_update_key_set)
qed (use assms in \<open>simp add: sub_update_def\<close>)

lemma sub_delete_ok: "db_ok db \<Longrightarrow> db_ok (sub_delete i db)"
  by (auto simp: op_defs sub_delete_def integrity_defs row_delete_distinct distinct_map_filter
      split: option.splits)

lemma bind_ok: "db_ok db \<Longrightarrow> bind_channel i j db = Inr db' \<Longrightarrow> db_ok db'"
  by (auto simp: op_defs integrity_defs res_simps row_get_None split: if_splits)

lemma unbind_ok: "db_ok db \<Longrightarrow> db_ok (unbind_channel i j db)"
  by (auto simp: op_defs integrity_defs distinct_map_filter)

lemma abi_create_ok: "db_ok db \<Longrightarrow> abi_create i n k b db = Inr db' \<Longrightarrow> db_ok db'"
  by (auto simp: op_defs integrity_defs res_simps split: option.splits)

lemma abi_delete_ok:
  assumes "db_ok db"
  shows "db_ok (abi_delete i db)"
proof -
  let ?f = "\<lambda>s. if su_abi_id s = Some i then s\<lparr>su_abi_id := None\<rparr> else s"
  have keys: "map su_id (map ?f ss) = map su_id ss" for ss :: "Subscription list"
    by (induction ss) auto
  then have "su_id ` ?f ` set ss = su_id ` set ss" for ss :: "Subscription list"
    by (metis list.set_map)
  with keys assms show ?thesis
    by (auto simp: op_defs integrity_defs Let_def row_delete_distinct simp del: map_map split: option.splits)
qed

lemma checkpoint_put_keys:
  "map cp_chain_id (checkpoint_put i v rows) =
     map cp_chain_id rows @ (if row_get cp_chain_id i rows = None then [i] else [])"
  by (auto simp: checkpoint_put_def split: option.splits)

lemma checkpoint_upsert_ok: "db_ok db \<Longrightarrow> checkpoint_upsert i n h db = Inr db' \<Longrightarrow> db_ok db'"
proof -
  assume ok: "db_ok db" and up: "checkpoint_upsert i n h db = Inr db'"
  have keys: "cp_chain_id c \<in> insert i (cp_chain_id ` set rows)" if "c \<in> set (checkpoint_put i v rows)" for c v rows
  proof -
    from that have "cp_chain_id c \<in> set (map cp_chain_id (checkpoint_put i v rows))" by simp
    then show ?thesis unfolding checkpoint_put_keys by (auto split: if_splits)
  qed
  have "distinct (map cp_chain_id (checkpoint_put i v (db_checkpoints db)))" for v
    using ok row_get_None [of cp_chain_id i "db_checkpoints db"]
    unfolding checkpoint_put_keys by (auto simp: integrity_defs)
  moreover have "db_fk db \<longrightarrow> i \<in> ch_id ` set (db_chains db)"
    using ok up by (force simp: op_defs integrity_defs row_get_None split: if_splits)
  moreover have "cp_chain_id c \<in> ch_id ` set (db_chains db)"
    if "db_fk db" "i \<in> ch_id ` set (db_chains db)" "c \<in> set (checkpoint_put i (n, h) (db_checkpoints db))" for c
    using keys [OF that(3)] that ok by (auto simp: db_ok_def refs_ok_def)
  moreover have "db' = db\<lparr>db_checkpoints := checkpoint_put i (n, h) (db_checkpoints db)\<rparr>"
    using up by (simp add: checkpoint_upsert_def split: if_splits)
  ultimately show "db_ok db'"
    using ok by (simp add: integrity_defs)
qed

lemma delivery_ops_ok:
  "db_ok db \<Longrightarrow> delivery_create i now s c ch p e a st rp db = Inr db' \<Longrightarrow> db_ok db'"
  "db_ok db \<Longrightarrow> db_ok (mark_resolved i now db)"
  "db_ok db \<Longrightarrow> db_ok (bump_attempt i err db)"
  "db_ok db \<Longrightarrow> db_ok (delivery_delete i db)"
  by (auto simp: op_defs integrity_defs res_simps row_delete_distinct)

lemma cleanup_ok: "db_ok db \<Longrightarrow> cleanup_success keep batch db = (n, db') \<Longrightarrow> db_ok db'"
  by (auto simp: cleanup_success_def Let_def integrity_defs distinct_map_filter)

lemma version_bump_ok: "db_ok db \<Longrightarrow> version_bump db = (v, db') \<Longrightarrow> db_ok db'"
  by (auto simp: op_defs integrity_defs split: option.splits)

lemmas statements_ok = chain_ops_ok chain_delete_ok channel_ops_ok channel_delete_ok sub_create_ok
  sub_update_ok sub_delete_ok bind_ok unbind_ok abi_create_ok abi_delete_ok checkpoint_upsert_ok
  delivery_ops_ok cleanup_ok version_bump_ok

lemma db_step_ok: "db_step db db' \<Longrightarrow> db_ok db \<Longrightarrow> db_ok db'"
  by (induction rule: db_step.induct) (erule (1) statements_ok | blast intro: statements_ok)+

lemma db_run_ok: "db_run db db' \<Longrightarrow> db_ok db \<Longrightarrow> db_ok db'"
  by (induction rule: db_run.induct) (auto intro: db_step_ok)

section \<open>Checkpoints as a key-value store\<close>

definition checkpoint_lookup :: "Checkpoint list \<Rightarrow> string \<Rightarrow> (int \<times> string) option" where
  "checkpoint_lookup rows chain_id =
     map_option (\<lambda>r. (cp_last_block r, cp_last_block_hash r)) (row_get cp_chain_id chain_id rows)"

lemma checkpoint_lookup_put:
  "checkpoint_lookup (checkpoint_put k v rows) k' = (if k' = k then Some v else checkpoint_lookup rows k')"
proof (cases "row_get cp_chain_id k rows")
  case None
  then show ?thesis
    by (cases "row_get cp_chain_id k' rows")
      (auto simp: checkpoint_lookup_def checkpoint_put_def row_get_append, simp_all add: row_get_def)
qed (auto simp: checkpoint_lookup_def checkpoint_put_def row_get_update)

interpretation checkpoints: kv_store checkpoint_put checkpoint_lookup
  by unfold_locales (rule checkpoint_lookup_put)

section \<open>What a snapshot holds\<close>

abbreviation setdefault_channels :: "Channel list \<Rightarrow> (string, SnapshotChannel) dict \<Rightarrow> (string, SnapshotChannel) dict" where
  "setdefault_channels chs d \<equiv> fold (\<lambda>ch d. d_setdefault (cn_id ch) (snap_channel ch) d) chs d"

lemma load_bindings_closed:
  "load_bindings bs by_id subs =
     (setdefault_channels (concat (map snd bs)) by_id,
      subs @ map (\<lambda>(s, cs). snap_sub s cs) (filter (\<lambda>(s, cs). cs \<noteq> []) bs))"
  by (induction bs by_id subs rule: load_bindings.induct) auto

text \<open>The dictionary of channels is keyed by their own ids and holds what the rows say.\<close>

definition channel_dict :: "Channel list \<Rightarrow> (string, SnapshotChannel) dict \<Rightarrow> bool" where
  "channel_dict chs d \<longleftrightarrow> map fst d = map (sc_id \<circ> snd) d \<and> distinct (map fst d) \<and> snd ` set d \<subseteq> snap_channel ` set chs"

lemma snap_channel_id [simp]: "sc_id (snap_channel c) = cn_id c"
  by (simp add: snap_channel_def)

lemma channel_dict_setdefault:
  "channel_dict chs d \<Longrightarrow> c \<in> set chs \<Longrightarrow> channel_dict chs (d_setdefault (cn_id c) (snap_channel c) d)"
  by (auto simp: channel_dict_def d_setdefault_def dict_simps)

lemma channel_dict_fold:
  "channel_dict chs d \<Longrightarrow> set cs \<subseteq> set chs \<Longrightarrow>
   channel_dict chs (setdefault_channels cs d) \<and>
   set (map fst (setdefault_channels cs d)) = set (map fst d) \<union> cn_id ` set cs"
proof (induction cs arbitrary: d)
  case (Cons c cs)
  have "set (map fst (d_setdefault (cn_id c) (snap_channel c) d)) = insert (cn_id c) (set (map fst d))"
    by (auto simp: d_setdefault_def dict_simps)
  with Cons.prems Cons.IH [OF channel_dict_setdefault [OF Cons.prems(1), of c]] show ?case by auto
qed simp

definition loaded_channels :: "Db \<Rightarrow> (string, SnapshotChannel) dict" where
  "loaded_channels db = setdefault_channels (concat (map snd (list_enabled_with_channels db))) []"

lemma bound_channels_rows: "set (bound_channels db i) \<subseteq> set (db_channels db)"
  by (auto simp: bound_channels_def channel_get_def dest: row_get_Some)

lemma bound_rows: "set (concat (map snd (list_enabled_with_channels db))) \<subseteq> set (db_channels db)"
  using bound_channels_rows by (fastforce simp: list_enabled_with_channels_def)

lemma loaded_channels_dict:
  "channel_dict (db_channels db) (loaded_channels db)"
  "set (map fst (loaded_channels db)) = cn_id ` set (concat (map snd (list_enabled_with_channels db)))"
proof -
  have "channel_dict (db_channels db) []" by (simp add: channel_dict_def)
  from channel_dict_fold [OF this bound_rows [of db]]
  show "channel_dict (db_channels db) (loaded_channels db)"
    "set (map fst (loaded_channels db)) = cn_id ` set (concat (map snd (list_enabled_with_channels db)))"
    by (simp_all add: loaded_channels_def)
qed

lemma load_snapshot_channels: "snap_channels (load_snapshot db) = map snd (loaded_channels db)"
  and load_snapshot_subs: "snap_subscriptions (load_snapshot db) =
     [snap_sub s (bound_channels db (su_id s)). s \<leftarrow> db_subs db, su_enabled s, bound_channels db (su_id s) \<noteq> []]"
proof -
  show "snap_channels (load_snapshot db) = map snd (loaded_channels db)"
    by (simp add: load_snapshot_def load_bindings_closed loaded_channels_def)
  have "map (\<lambda>(s, cs). snap_sub s cs) (filter (\<lambda>(s, cs). cs \<noteq> [])
      (map (\<lambda>s. (s, bound_channels db (su_id s))) (filter su_enabled ss))) =
    [snap_sub s (bound_channels db (su_id s)). s \<leftarrow> ss, su_enabled s, bound_channels db (su_id s) \<noteq> []]" for ss
    by (induction ss) auto
  then show "snap_subscriptions (load_snapshot db) =
     [snap_sub s (bound_channels db (su_id s)). s \<leftarrow> db_subs db, su_enabled s, bound_channels db (su_id s) \<noteq> []]"
    by (simp add: load_snapshot_def load_bindings_closed list_enabled_with_channels_def)
qed

lemma loaded_channel_value:
  assumes "keys_ok db" and "c \<in> set (db_channels db)" and "cn_id c \<in> set (map fst (loaded_channels db))"
  shows "d_get (channels_by_id (snap_channels (load_snapshot db))) (cn_id c) = Some (snap_channel c)"
proof -
  let ?d = "loaded_channels db"
  have d: "map fst ?d = map (sc_id \<circ> snd) ?d" "distinct (map fst ?d)" "snd ` set ?d \<subseteq> snap_channel ` set (db_channels db)"
    using loaded_channels_dict(1) by (auto simp: channel_dict_def)
  from assms(3) d(1) have "cn_id c \<in> sc_id ` set (snap_channels (load_snapshot db))"
    by (auto simp: load_snapshot_channels image_image)
  then obtain c' where c': "d_get (channels_by_id (snap_channels (load_snapshot db))) (cn_id c) = Some c'"
    using channels_by_id_None by fastforce
  from channels_by_id_Some [OF c'] d(3) obtain r where "r \<in> set (db_channels db)" "c' = snap_channel r" "cn_id r = cn_id c"
    by (auto simp: load_snapshot_channels)
  moreover from this assms(1,2) have "r = c"
    by (auto simp: keys_ok_def distinct_map inj_on_def)
  ultimately show ?thesis using c' by simp
qed

lemma resolve_bound:
  assumes "keys_ok db" "s \<in> set (db_subs db)" "su_enabled s"
  shows "channels_for_subscription (load_snapshot db) (snap_sub s (bound_channels db (su_id s))) =
    map snap_channel (bound_channels db (su_id s))"
proof -
  let ?by = "channels_by_id (snap_channels (load_snapshot db))"
  have in_d: "cn_id c \<in> set (map fst (loaded_channels db))" if "c \<in> set (bound_channels db (su_id s))" for c
    using that assms(2,3) unfolding loaded_channels_dict(2) by (force simp: list_enabled_with_channels_def)
  have "List.map_filter (d_get ?by) (map cn_id cs) = map snap_channel cs"
    if "set cs \<subseteq> set (bound_channels db (su_id s))" for cs
    using that
    by (induction cs)
      (use bound_channels_rows in_d in \<open>auto simp: List.map_filter_simps loaded_channel_value [OF assms(1)] subset_iff\<close>)
  then show ?thesis
    by (simp add: channels_for_subscription_def resolve_channels_def snap_sub_def)
qed

section \<open>What the clean-up deletes\<close>

lemma newest_first_set [simp]: "set (newest_first rows) = set rows"
  by (simp add: newest_first_def)

lemma newest_first_distinct: "distinct (map dr_id rows) \<Longrightarrow> distinct (map dr_id (newest_first rows))"
proof -
  assume "distinct (map dr_id rows)"
  moreover have "mset (map dr_id (newest_first rows)) = mset (map dr_id rows)"
    by (simp add: newest_first_def)
  ultimately show ?thesis by (metis mset_eq_imp_distinct_iff)
qed

lemma newest_first_sorted: "i < j \<Longrightarrow> j < length rows \<Longrightarrow>
   dr_created_at (newest_first rows ! j) \<le> dr_created_at (newest_first rows ! i)"
proof -
  assume ij: "i < j" "j < length rows"
  have "sorted (map (\<lambda>r. - dr_created_at r) (newest_first rows))"
    by (simp add: newest_first_def)
  moreover have "length (newest_first rows) = length rows" by (simp add: newest_first_def)
  ultimately have "- dr_created_at (newest_first rows ! i) \<le> - dr_created_at (newest_first rows ! j)"
    using ij sorted_nth_mono [of "map (\<lambda>r. - dr_created_at r) (newest_first rows)" i j] by simp
  then show ?thesis by simp
qed

text \<open>The success rows in the order of the query: kept ones, deleted ones, and the rest.\<close>

definition newest_success :: "Db \<Rightarrow> DeliveryRecord list" where
  "newest_success db = newest_first (success_rows (db_deliveries db))"

lemma newest_success_distinct: "distinct (map dr_id (db_deliveries db)) \<Longrightarrow> distinct (map dr_id (newest_success db))"
  by (simp add: newest_success_def newest_first_distinct success_rows_def distinct_map_filter)

lemma newest_success_set: "set (newest_success db) = {r \<in> set (db_deliveries db). dr_status r = DS_success}"
  by (auto simp: newest_success_def success_rows_def)

lemma cleanup_victims: "set (take batch (drop keep (newest_success db))) \<subseteq> set (db_deliveries db)"
  using newest_success_set [of db] by (auto dest: in_set_takeD in_set_dropD)

lemma cleanup_rows:
  assumes "distinct (map dr_id (db_deliveries db))"
  shows "db_deliveries (snd (cleanup_success keep batch db)) =
    filter (\<lambda>r. r \<notin> set (take batch (drop keep (newest_success db)))) (db_deliveries db)"
proof -
  have inj: "inj_on dr_id (set (db_deliveries db))"
    using assms by (simp add: distinct_map)
  have "dr_id r \<in> dr_id ` set (take batch (drop keep (newest_success db))) \<longleftrightarrow>
      r \<in> set (take batch (drop keep (newest_success db)))" if "r \<in> set (db_deliveries db)" for r
    using inj that cleanup_victims by (meson inj_on_image_mem_iff)
  then show ?thesis
    by (auto simp: cleanup_success_def cleanup_ids_def Let_def newest_success_def intro!: filter_cong)
qed

lemma cleanup_count:
  assumes "distinct (map dr_id (db_deliveries db))"
  shows "fst (cleanup_success keep batch db) = min batch (length (newest_success db) - keep)"
proof -
  let ?D = "take batch (drop keep (newest_success db))"
  have sub: "set ?D \<subseteq> set (db_deliveries db)"
    by (rule cleanup_victims)
  have dist: "distinct ?D" "distinct (db_deliveries db)"
    using newest_success_distinct [OF assms] assms by (auto simp: distinct_map)
  have "length (db_deliveries db) - length (filter (\<lambda>r. r \<notin> set ?D) (db_deliveries db)) =
      length (filter (\<lambda>r. r \<in> set ?D) (db_deliveries db))"
    using sum_length_filter_compl [of "\<lambda>r. r \<in> set ?D" "db_deliveries db"] by simp
  also have "\<dots> = card (set ?D)"
  proof -
    have "set (filter (\<lambda>r. r \<in> set ?D) (db_deliveries db)) = set ?D" using sub by auto
    then show ?thesis using dist(2) by (metis distinct_card distinct_filter)
  qed
  also have "\<dots> = length ?D" using dist(1) by (rule distinct_card)
  finally have "fst (cleanup_success keep batch db) = length ?D"
    using cleanup_rows [OF assms, of keep batch]
    by (simp add: cleanup_success_def Let_def)
  then show ?thesis by simp
qed

lemma filter_middle: "distinct (a @ b @ c) \<Longrightarrow> filter (\<lambda>r. r \<notin> set b) (a @ b @ c) = a @ c"
proof -
  assume "distinct (a @ b @ c)"
  then have "filter (\<lambda>r. r \<notin> set b) a = a" "filter (\<lambda>r. r \<notin> set b) c = c" "filter (\<lambda>r. r \<notin> set b) b = []"
    by (auto intro!: filter_True)
  then show ?thesis by simp
qed

lemma newest_success_cleanup:
  assumes "distinct (map dr_id (db_deliveries db))"
  shows "newest_success (snd (cleanup_success keep batch db)) =
    take keep (newest_success db) @ drop (keep + batch) (newest_success db)"
proof -
  let ?L = "newest_success db"
  have L: "?L = take keep ?L @ take batch (drop keep ?L) @ drop (keep + batch) ?L"
    by (metis append_take_drop_id drop_drop add.commute)
  have "newest_success (snd (cleanup_success keep batch db)) =
      filter (\<lambda>r. r \<notin> set (take batch (drop keep ?L))) ?L"
    unfolding newest_success_def [of "snd _"] cleanup_rows [OF assms]
    by (simp add: newest_success_def newest_first_def success_rows_def filter_sort conj_commute)
  also have "\<dots> = take keep ?L @ drop (keep + batch) ?L"
    using filter_middle [of "take keep ?L" "take batch (drop keep ?L)" "drop (keep + batch) ?L"]
      newest_success_distinct [OF assms] L by (metis distinct_map)
  finally show ?thesis .
qed

lemma cleanup_distinct:
  "distinct (map dr_id (db_deliveries db)) \<Longrightarrow> distinct (map dr_id (db_deliveries (snd (cleanup_success keep batch db))))"
  by (simp add: cleanup_success_def Let_def distinct_map_filter)

lemma cleanup_iterate:
  assumes "distinct (map dr_id (db_deliveries db))"
  shows "distinct (map dr_id (db_deliveries (((\<lambda>d. snd (cleanup_success keep batch d)) ^^ k) db))) \<and>
    newest_success (((\<lambda>d. snd (cleanup_success keep batch d)) ^^ k) db) =
    take keep (newest_success db) @ drop (keep + k * batch) (newest_success db)"
proof (induction k)
  case (Suc k)
  then have "newest_success (((\<lambda>d. snd (cleanup_success keep batch d)) ^^ Suc k) db) =
    take keep (take keep (newest_success db) @ drop (keep + k * batch) (newest_success db)) @
    drop (keep + batch) (take keep (newest_success db) @ drop (keep + k * batch) (newest_success db))"
    by (simp add: newest_success_cleanup)
  also have "\<dots> = take keep (newest_success db) @ drop (keep + Suc k * batch) (newest_success db)"
    by (cases "keep \<le> length (newest_success db)") (simp_all add: min_def ac_simps)
  finally show ?case using Suc cleanup_distinct by simp
qed (simp add: assms)

section \<open>Versions\<close>

lemma db_step_version: "db_step db db' \<Longrightarrow> version_get db \<le> version_get db'"
  by (induction rule: db_step.induct)
    (auto simp: op_defs version_get_def chain_delete_def cascade_chain_def sub_delete_def cleanup_success_def
      Let_def res_simps split: option.splits if_splits)

lemma db_run_version: "db_run db db' \<Longrightarrow> version_get db \<le> version_get db'"
  by (induction rule: db_run.induct) (auto dest: db_step_version)

section \<open>Properties\<close>

text \<open>
  Whatever sequence of repository statements runs on a fresh database, primary keys stay
  unique, and where the engine enforces foreign keys no row is left dangling: subscriptions name
  existing chains and ABIs, bindings existing subscriptions and channels, checkpoints existing chains.
\<close>

theorem db_integrity:
  assumes "db_run (db_empty fk) db"
  shows "keys_ok db \<and> refs_ok db"
proof -
  have "db_ok (db_empty fk)" by (simp add: integrity_defs db_empty_def)
  from db_run_ok [OF assms this] show ?thesis by (simp add: db_ok_def)
qed

definition ex_chain :: Chain where
  "ex_chain = \<lparr>ch_id = ''eth'', ch_kind = CK_evm, ch_rpc_http = ''http://n'', ch_rpc_ws = None,
     ch_confirmations = 2, ch_poll_interval_ms = 3000, ch_enabled = True, ch_commitment = None,
     ch_trace_internal_calls = None, ch_log_query_range_blocks = 100, ch_slot_query_range_blocks = 1000,
     ch_rpc_http_fallbacks = [], ch_rpc_timeout_ms = 10000\<rparr>"

definition ex_row :: Subscription where
  "ex_row = \<lparr>su_id = ''s1'', su_name = ''n'', su_chain_id = ''eth'', su_address = None, su_abi_id = None,
     su_match_kind = MK_event, su_match_name = None, su_arg_filters = [], su_enabled = True,
     su_start_block = None, su_last_processed_block = None, su_business_name = None\<rparr>"

definition ex_db :: Db where
  "ex_db = (db_empty True)\<lparr>db_chains := [ex_chain], db_subs := [ex_row],
     db_channels := [\<lparr>cn_id = ''c1'', cn_name = ''hook'', cn_type = CT_http, cn_config = []\<rparr>],
     db_links := [\<lparr>lk_subscription_id = ''s1'', lk_channel_id = ''c1''\<rparr>]\<rparr>"

lemma ex_db_run: "db_run (db_empty True) ex_db"
proof -
  have "db_run (db_empty True) (db_empty True)" by (rule db_run_refl)
  then have "db_run (db_empty True) ((db_empty True)\<lparr>db_chains := [ex_chain]\<rparr>)"
    by (rule db_run_step)
      (rule step_chain_create [of ex_chain], simp add: chain_create_def row_insert_def db_empty_def)
  then have "db_run (db_empty True) ((db_empty True)\<lparr>db_chains := [ex_chain], db_subs := [ex_row]\<rparr>)"
    by (rule db_run_step)
      (rule step_sub_create [of ex_row],
        simp add: sub_create_def sub_refs_ok_def row_insert_def db_empty_def ex_chain_def ex_row_def)
  then have "db_run (db_empty True) ((db_empty True)\<lparr>db_chains := [ex_chain], db_subs := [ex_row],
     db_channels := [\<lparr>cn_id = ''c1'', cn_name = ''hook'', cn_type = CT_http, cn_config = []\<rparr>]\<rparr>)"
    by (rule db_run_step)
      (rule step_channel_create [of "''c1''" "''hook''" CT_http "[]"],
        simp add: channel_create_def row_insert_def db_empty_def)
  then show ?thesis
    by (rule db_run_step)
      (rule step_bind [of "''s1''" "''c1''"],
        simp add: bind_channel_def sub_get_def channel_get_def row_get_def row_insert_def db_empty_def ex_db_def ex_row_def)
qed

theorem db_integrity_witness: "keys_ok ex_db \<and> refs_ok ex_db \<and> db_links ex_db \<noteq> []"
  using db_integrity [OF ex_db_run] by (simp add: ex_db_def)

text \<open>
  A written checkpoint is read back: after a successful \<open>upsert\<close> the chain's checkpoint is the
  block just written, whether the row existed or not, every other chain's checkpoint is what it
  was, and so are the other tables; the write fails only for a chain that does not exist.
\<close>

theorem checkpoint_read_back:
  "(checkpoint_upsert ch n h db = Inr db' \<longrightarrow>
     map_option (\<lambda>c. (cp_last_block c, cp_last_block_hash c)) (checkpoint_get ch' db') =
       (if ch' = ch then Some (n, h)
        else map_option (\<lambda>c. (cp_last_block c, cp_last_block_hash c)) (checkpoint_get ch' db)) \<and>
     db' = db\<lparr>db_checkpoints := db_checkpoints db'\<rparr>) \<and>
   (checkpoint_upsert ch n h db = Inl e \<longrightarrow> chain_get ch db = None)"
proof -
  have get: "map_option (\<lambda>c. (cp_last_block c, cp_last_block_hash c)) (checkpoint_get k d) =
      checkpoint_lookup (db_checkpoints d) k" for k d
    by (simp add: checkpoint_get_def checkpoint_lookup_def)
  show ?thesis
    unfolding get by (auto simp: checkpoint_upsert_def checkpoints.get_put)
qed

theorem checkpoint_read_back_witness:
  "\<exists>db'. checkpoint_upsert ''eth'' 7 ''h7'' ex_db = Inr db' \<and>
     map_option (\<lambda>c. (cp_last_block c, cp_last_block_hash c)) (checkpoint_get ''eth'' db') = Some (7, ''h7'')"
proof -
  obtain db' where "checkpoint_upsert ''eth'' 7 ''h7'' ex_db = Inr db'"
    by (simp add: checkpoint_upsert_def chain_get_def ex_db_def ex_chain_def row_get_def)
  with checkpoint_read_back [of "''eth''" 7 "''h7''" ex_db db' "''eth''"] show ?thesis by auto
qed

text \<open>
  C35. A loaded snapshot is closed and minimal: it holds exactly the enabled subscriptions with at
  least one bound channel, each resolving, in binding order, to the rows of all its channels; its
  channels are listed once each and all used; its chains are exactly the enabled chains that such a
  subscription follows.
\<close>

theorem load_snapshot_closed:
  assumes "keys_ok db"
  shows "map ss_id (snap_subscriptions (load_snapshot db)) =
      [su_id s. s \<leftarrow> db_subs db, su_enabled s, bound_channels db (su_id s) \<noteq> []] \<and>
    (\<forall>s \<in> set (db_subs db). su_enabled s \<and> bound_channels db (su_id s) \<noteq> [] \<longrightarrow>
      snap_sub s (bound_channels db (su_id s)) \<in> set (snap_subscriptions (load_snapshot db)) \<and>
      channels_for_subscription (load_snapshot db) (snap_sub s (bound_channels db (su_id s))) =
        map snap_channel (bound_channels db (su_id s))) \<and>
    distinct (map sc_id (snap_channels (load_snapshot db))) \<and>
    sc_id ` set (snap_channels (load_snapshot db)) =
      (\<Union>s \<in> set (snap_subscriptions (load_snapshot db)). set (ss_channel_ids s)) \<and>
    snap_chains (load_snapshot db) =
      [snap_chain c. c \<leftarrow> db_chains db, ch_enabled c,
         ch_id c \<in> ss_chain_id ` set (snap_subscriptions (load_snapshot db))]"
proof (intro conjI)
  have "map ss_id [snap_sub s (bound_channels db (su_id s)). s \<leftarrow> ss, su_enabled s, bound_channels db (su_id s) \<noteq> []] =
      [su_id s. s \<leftarrow> ss, su_enabled s, bound_channels db (su_id s) \<noteq> []]" for ss
    by (induction ss) (auto simp: snap_sub_def)
  then show "map ss_id (snap_subscriptions (load_snapshot db)) =
      [su_id s. s \<leftarrow> db_subs db, su_enabled s, bound_channels db (su_id s) \<noteq> []]"
    by (simp add: load_snapshot_subs)
  show "\<forall>s \<in> set (db_subs db). su_enabled s \<and> bound_channels db (su_id s) \<noteq> [] \<longrightarrow>
      snap_sub s (bound_channels db (su_id s)) \<in> set (snap_subscriptions (load_snapshot db)) \<and>
      channels_for_subscription (load_snapshot db) (snap_sub s (bound_channels db (su_id s))) =
        map snap_channel (bound_channels db (su_id s))"
    using resolve_bound [OF assms] by (auto simp: load_snapshot_subs)
  have keyed: "map sc_id (snap_channels (load_snapshot db)) = map fst (loaded_channels db)"
    using loaded_channels_dict(1) by (simp add: channel_dict_def load_snapshot_channels)
  then show "distinct (map sc_id (snap_channels (load_snapshot db)))"
    using loaded_channels_dict(1) by (simp add: channel_dict_def)
  have "sc_id ` set (snap_channels (load_snapshot db)) = set (map fst (loaded_channels db))"
    using keyed by (metis list.set_map)
  also have "\<dots> = (\<Union>s \<in> set (snap_subscriptions (load_snapshot db)). set (ss_channel_ids s))"
    unfolding loaded_channels_dict(2)
    by (force simp: load_snapshot_subs list_enabled_with_channels_def snap_sub_def)
  finally show "sc_id ` set (snap_channels (load_snapshot db)) =
      (\<Union>s \<in> set (snap_subscriptions (load_snapshot db)). set (ss_channel_ids s))" .
  have "filter (\<lambda>c. sn_id c \<in> A) (map snap_chain (filter ch_enabled cs)) =
      [snap_chain c. c \<leftarrow> cs, ch_enabled c, ch_id c \<in> A]" for A cs
    by (induction cs) (auto simp: snap_chain_def)
  moreover have "snap_chains (load_snapshot db) =
      filter (\<lambda>c. sn_id c \<in> ss_chain_id ` set (snap_subscriptions (load_snapshot db)))
        (map snap_chain (filter ch_enabled (db_chains db)))"
    by (simp add: load_snapshot_def case_prod_beta Let_def chain_list_enabled_def)
  ultimately show "snap_chains (load_snapshot db) =
      [snap_chain c. c \<leftarrow> db_chains db, ch_enabled c,
         ch_id c \<in> ss_chain_id ` set (snap_subscriptions (load_snapshot db))]"
    by simp
qed

lemma ex_db_keys: "keys_ok ex_db"
  by code_simp

theorem load_snapshot_closed_witness:
  "map ss_id (snap_subscriptions (load_snapshot ex_db)) = [''s1''] \<and> map sc_id (snap_channels (load_snapshot ex_db)) = [''c1'']"
proof
  show "map ss_id (snap_subscriptions (load_snapshot ex_db)) = [''s1'']"
    using load_snapshot_closed [OF ex_db_keys] by (simp, code_simp)
  show "map sc_id (snap_channels (load_snapshot ex_db)) = [''c1'']"
    by code_simp
qed

text \<open>
  C18. Clean-up of delivery records: one run deletes exactly \<open>min batch (count - keep)\<close> rows, all of
  them successes, never one of the \<open>keep\<close> newest; rows of any other status stay, in place. Run
  repeatedly it converges: as soon as the batches add up to the excess, exactly the newest \<open>keep\<close>
  successes are left.
\<close>

theorem cleanup_exact:
  assumes "distinct (map dr_id (db_deliveries db))"
  shows "fst (cleanup_success keep batch db) = min batch (length (newest_success db) - keep) \<and>
    newest_success (snd (cleanup_success keep batch db)) =
      take keep (newest_success db) @ drop (keep + batch) (newest_success db) \<and>
    filter (\<lambda>r. dr_status r \<noteq> DS_success) (db_deliveries (snd (cleanup_success keep batch db))) =
      filter (\<lambda>r. dr_status r \<noteq> DS_success) (db_deliveries db) \<and>
    (length (newest_success db) \<le> keep + k * batch \<longrightarrow>
      newest_success (((\<lambda>d. snd (cleanup_success keep batch d)) ^^ k) db) = take keep (newest_success db))"
proof -
  have "r \<notin> set (take batch (drop keep (newest_success db)))" if "dr_status r \<noteq> DS_success" for r
    using that newest_success_set [of db] by (auto dest!: in_set_takeD in_set_dropD)
  then have "filter (\<lambda>r. dr_status r \<noteq> DS_success) (db_deliveries (snd (cleanup_success keep batch db))) =
      filter (\<lambda>r. dr_status r \<noteq> DS_success) (db_deliveries db)"
    unfolding cleanup_rows [OF assms] by (auto intro!: filter_cong)
  with assms show ?thesis
    by (simp add: cleanup_count newest_success_cleanup cleanup_iterate)
qed

definition ex_delivery :: "string \<Rightarrow> int \<Rightarrow> DeliveryRecord" where
  "ex_delivery i t = \<lparr>dr_id = i, dr_subscription_id = ''s1'', dr_channel_id = ''c1'', dr_chain_id = ''eth'',
     dr_event_payload = [], dr_error = None, dr_attempts = 1, dr_status = DS_success, dr_created_at = t,
     dr_resolved_at = None, dr_is_replay = False\<rparr>"

definition ex_deliveries :: Db where
  "ex_deliveries = ex_db\<lparr>db_deliveries := [ex_delivery ''d1'' 1, ex_delivery ''d2'' 2, ex_delivery ''d3'' 3]\<rparr>"

lemma ex_deliveries_distinct: "distinct (map dr_id (db_deliveries ex_deliveries))"
  by code_simp

lemma ex_deliveries_newest: "map dr_id (newest_success ex_deliveries) = [''d3'', ''d2'', ''d1'']"
  by code_simp

theorem cleanup_exact_witness:
  "fst (cleanup_success 1 1 ex_deliveries) = 1 \<and>
   map dr_id (newest_success (((\<lambda>d. snd (cleanup_success 1 1 d)) ^^ 2) ex_deliveries)) = [''d3'']"
proof -
  have "length (newest_success ex_deliveries) = 3"
    using arg_cong [OF ex_deliveries_newest, of length] by simp
  with cleanup_exact [OF ex_deliveries_distinct, of 1 1 2] show ?thesis
    using arg_cong [OF ex_deliveries_newest, of "take 1"] by (simp add: take_map)
qed

text \<open>
  Which successes a clean-up run deletes when it cannot delete the whole excess: the newest of
  the excess. The oldest record of all survives the run while a record at least as recent is deleted,
  against the operation's own description, which says it deletes the oldest rows.
\<close>

theorem cleanup_spares_oldest:
  assumes "distinct (map dr_id (db_deliveries db))" and "0 < batch" and "keep + batch < length (newest_success db)"
  shows "last (newest_success db) \<in> set (db_deliveries (snd (cleanup_success keep batch db))) \<and>
    newest_success db ! keep \<notin> set (db_deliveries (snd (cleanup_success keep batch db))) \<and>
    dr_created_at (last (newest_success db)) \<le> dr_created_at (newest_success db ! keep)"
proof -
  let ?L = "newest_success db"
  have dist: "distinct ?L" using newest_success_distinct [OF assms(1)] by (simp add: distinct_map)
  have len: "length ?L = length (success_rows (db_deliveries db))"
    by (simp add: newest_success_def newest_first_def)
  have last: "last ?L = ?L ! (length ?L - 1)" using assms(3) by (intro last_conv_nth) auto
  have "last ?L \<in> set (drop (keep + batch) ?L)"
    using assms(3) by (metis drop_eq_Nil last_drop last_in_set not_le)
  then have "last ?L \<in> set (newest_success (snd (cleanup_success keep batch db)))"
    by (simp add: newest_success_cleanup [OF assms(1)])
  moreover have "?L ! keep \<in> set (take batch (drop keep ?L))"
    using assms(2,3) by (auto simp: in_set_conv_nth intro!: exI [of _ 0])
  then have "?L ! keep \<notin> set (db_deliveries (snd (cleanup_success keep batch db)))"
    by (simp add: cleanup_rows [OF assms(1)])
  moreover have "dr_created_at (last ?L) \<le> dr_created_at (?L ! keep)"
    unfolding last using newest_first_sorted [of keep "length ?L - 1"] assms(2,3) len
    by (simp add: newest_success_def)
  ultimately show ?thesis by (simp add: newest_success_set)
qed

theorem cleanup_spares_oldest_witness:
  "last (newest_success ex_deliveries) \<in> set (db_deliveries (snd (cleanup_success 1 1 ex_deliveries)))"
proof -
  have "length (newest_success ex_deliveries) = 3"
    using arg_cong [OF ex_deliveries_newest, of length] by simp
  with cleanup_spares_oldest [OF ex_deliveries_distinct, of 1 1] show ?thesis by simp
qed

end
