(* ===== verification/Filters.thy ===== *)
theory Filters
  imports Py_Values
begin

text \<open>
  \<^verbatim>\<open>core/matcher/filters.py\<close>: the argument filters of a subscription. A filter is a dictionary whose
  keys are a field name with an optional operator suffix; all entries have to hold. Evaluation may
  raise (a value that is not a number, an unhashable value), which the matcher catches.
\<close>

section \<open>Operations\<close>

datatype filter_op = OpEq | OpIn | OpGte | OpLte

definition operator_suffixes :: "(string \<times> filter_op) list" where
  "operator_suffixes = [(''_in'', OpIn), (''_gte'', OpGte), (''_lte'', OpLte)]"

definition forbidden_typo_suffixes :: "string list" where
  "forbidden_typo_suffixes =
     [''_eq'', ''_ne'', ''_gt'', ''_lt'', ''_ge'', ''_le'', ''_neq'', ''_like'']"

text \<open>\<open>_split\<close>: the first suffix that fits is cut off.\<close>

fun split_suffix :: "(string \<times> filter_op) list \<Rightarrow> string \<Rightarrow> string \<times> filter_op" where
  "split_suffix [] key = (key, OpEq)"
| "split_suffix ((s, op) # rest) key =
     (if endswith key s then (take (length key - length s) key, op) else split_suffix rest key)"

definition split_key :: "string \<Rightarrow> string \<times> filter_op" where
  "split_key key = split_suffix operator_suffixes key"

text \<open>\<open>_norm\<close>: only strings that start with \<open>0x\<close> are lowered.\<close>

fun norm_val :: "pv \<Rightarrow> pv" where
  "norm_val (PStr s) = PStr (if startswith s ''0x'' then lower s else s)"
| "norm_val v = v"

fun validate_filters :: "(string, pv) dict \<Rightarrow> unit res" where
  "validate_filters [] = Inr ()"
| "validate_filters ((k, v) # rest) =
     (if list_ex (\<lambda>(s, op). endswith k s) operator_suffixes then validate_filters rest
      else if list_ex (\<lambda>s. endswith k s) forbidden_typo_suffixes then Inl (FilterError k)
      else validate_filters rest)"

text \<open>One entry: \<open>Inr True\<close> when it holds. Sets need hashable members and a hashable probe.\<close>

fun check_entry :: "filter_op \<Rightarrow> pv \<Rightarrow> pv \<Rightarrow> bool res" where
  "check_entry OpEq actual expected = Inr (py_eq (norm_val actual) (norm_val expected))"
| "check_entry OpIn actual expected =
     rbind (py_iter expected) (\<lambda>vs.
       if \<not> list_all py_hashable vs then Inl TypeError
       else if \<not> py_hashable actual then Inl TypeError
       else Inr (list_ex (\<lambda>v. py_eq (norm_val actual) (norm_val v)) vs))"
| "check_entry OpGte actual expected =
     rbind (py_int actual) (\<lambda>a. rbind (py_int expected) (\<lambda>e. Inr (\<not> a < e)))"
| "check_entry OpLte actual expected =
     rbind (py_int actual) (\<lambda>a. rbind (py_int expected) (\<lambda>e. Inr (\<not> a > e)))"

fun evaluate :: "(string, pv) dict \<Rightarrow> (string, pv) dict \<Rightarrow> bool res" where
  "evaluate [] args = Inr True"
| "evaluate ((key, expected) # rest) args =
     (let (field, op) = split_key key
      in case d_get args field of
           None \<Rightarrow> Inr False
         | Some actual \<Rightarrow>
             rbind (check_entry op actual expected) (\<lambda>ok.
               if ok then evaluate rest args else Inr False))"

section \<open>Facts\<close>

text \<open>An entry on its own.\<close>

definition entry_result :: "string \<times> pv \<Rightarrow> (string, pv) dict \<Rightarrow> bool res" where
  "entry_result e args =
     (case d_get args (fst (split_key (fst e))) of
        None \<Rightarrow> Inr False
      | Some actual \<Rightarrow> check_entry (snd (split_key (fst e))) actual (snd e))"

lemma evaluate_Cons:
  "evaluate (e # rest) args =
     rbind (entry_result e args) (\<lambda>ok. if ok then evaluate rest args else Inr False)"
  by (cases e) (auto simp: entry_result_def case_prod_beta Let_def split: option.split)

lemma evaluate_True_iff:
  "evaluate fs args = Inr True \<longleftrightarrow> (\<forall>e \<in> set fs. entry_result e args = Inr True)"
  by (induction fs) (auto simp: evaluate_Cons res_simps simp del: evaluate.simps(2))

lemma evaluate_raises_iff:
  "evaluate fs args = Inl x \<longleftrightarrow>
     (\<exists>pre e post. fs = pre @ e # post \<and> entry_result e args = Inl x \<and>
        (\<forall>e' \<in> set pre. entry_result e' args = Inr True))"
proof (induction fs)
  case (Cons f fs)
  then show ?case
    unfolding ex_split_Cons evaluate_Cons
    by (cases "entry_result f args") auto
qed simp

lemma norm_val_hashable [simp]: "py_hashable (norm_val v) = py_hashable v"
  by (cases v) simp_all

lemma norm_val_idem [simp]: "norm_val (norm_val v) = norm_val v"
  by (cases v) (auto simp: lower_startswith_0x)

lemma split_key_gte: "split_key (f @ ''_gte'') = (f, OpGte)"
  and split_key_lte: "split_key (f @ ''_lte'') = (f, OpLte)"
  and split_key_in: "split_key (f @ ''_in'') = (f, OpIn)"
  by (simp_all add: split_key_def operator_suffixes_def suffix_def append_eq_append_conv2)

section \<open>Properties\<close>

text \<open>
  Filters combine by conjunction: evaluation is true exactly when every entry, taken alone, is
  satisfied, so the order of the entries never changes which events pass; and it raises exactly when
  an entry raises before any entry has failed.
\<close>

theorem evaluate_conjunction:
  "(evaluate fs args = Inr True \<longleftrightarrow> (\<forall>e \<in> set fs. entry_result e args = Inr True)) \<and>
   (set fs = set gs \<longrightarrow> (evaluate fs args = Inr True \<longleftrightarrow> evaluate gs args = Inr True)) \<and>
   (evaluate fs args = Inl x \<longleftrightarrow>
     (\<exists>pre e post. fs = pre @ e # post \<and> entry_result e args = Inl x \<and>
        (\<forall>e' \<in> set pre. entry_result e' args = Inr True)))"
  using evaluate_True_iff evaluate_raises_iff by simp

theorem evaluate_conjunction_witness:
  "evaluate [(''value_gte'', PInt 5), (''to'', PStr ''0xAB'')]
     [(''to'', PStr ''0xab''), (''value'', PStr ''7'')] = Inr True \<and>
   evaluate [(''to'', PStr ''0xAB''), (''value_gte'', PInt 5)]
     [(''to'', PStr ''0xab''), (''value'', PStr ''7'')] = Inr True"
proof -
  have "evaluate [(''value_gte'', PInt 5), (''to'', PStr ''0xAB'')]
      [(''to'', PStr ''0xab''), (''value'', PStr ''7'')] = Inr True"
    by code_simp
  moreover have "set [(''value_gte'', PInt 5), (''to'', PStr ''0xAB'')] =
      set [(''to'', PStr ''0xAB''), (''value_gte'', PInt 5)]"
    by auto
  ultimately show ?thesis
    using evaluate_conjunction [of "[(''value_gte'', PInt 5), (''to'', PStr ''0xAB'')]"
        "[(''to'', PStr ''0xab''), (''value'', PStr ''7'')]"
        "[(''to'', PStr ''0xAB''), (''value_gte'', PInt 5)]"] by blast
qed

text \<open>
  Range filters compare the exact integers: event amounts are decimal strings, and a bound given
  as an integer or as a decimal string selects exactly the events whose amount is on the right side
  of it, at any magnitude.
\<close>

theorem range_filters_exact:
  assumes "d_get args f = Some (PStr (int_str n))"
  shows "evaluate [(f @ ''_gte'', PInt lo), (f @ ''_lte'', PStr (int_str hi))] args = Inr (lo \<le> n \<and> n \<le> hi)"
  using assms by (auto simp: split_key_gte split_key_lte int_of_string_int_str)

theorem range_filters_exact_witness:
  "evaluate [(''value_gte'', PInt 10), (''value_lte'', PStr (int_str (2 ^ 200)))]
     [(''value'', PStr (int_str (2 ^ 199)))] = Inr True"
  using range_filters_exact [of "[(''value'', PStr (int_str (2 ^ 199)))]" "''value''" "2 ^ 199" 10 "2 ^ 200"]
  by simp

end
