(* ===== verification/Web_Schemas.thy ===== *)
theory Web_Schemas
  imports Config_Store Filters
begin

text \<open>
  \<^verbatim>\<open>apps/web/schemas.py\<close>: the request bodies of the management API and their validators, and the scan of
  \<^verbatim>\<open>scripts/validate_arg_filters.py\<close> over stored filters. A record holds the values of a body after pydantic
  has read them at their declared types (a \<open>Literal\<close> is the datatype of its values); the constraints
  on the fields and the validators are functions that return the body, perhaps normalised, or raise
  \<open>ValueError\<close>, which the framework answers with 422. The response models have the columns of their rows.

  The lemmas show what a validated body satisfies, that validation changes nothing the second time, and
  that the two places which check filters agree.
\<close>

section \<open>Chains\<close>

record ChainCreate =
  pc_id :: string
  pc_kind :: ChainKind
  pc_rpc_http :: string
  pc_rpc_ws :: "string option"
  pc_confirmations :: int
  pc_poll_interval_ms :: int
  pc_commitment :: "string option"
  pc_trace_internal_calls :: bool
  pc_log_query_range_blocks :: int
  pc_slot_query_range_blocks :: int
  pc_rpc_http_fallbacks :: "string list"
  pc_rpc_timeout_ms :: int
  pc_enabled :: bool

text \<open>\<open>Field(min_length=..., max_length=...)\<close> and \<open>Field(ge=..., le=...)\<close>.\<close>

definition str_between :: "nat \<Rightarrow> nat \<Rightarrow> string \<Rightarrow> bool" where
  "str_between lo hi s \<longleftrightarrow> lo \<le> length s \<and> length s \<le> hi"

definition int_between :: "int \<Rightarrow> int \<Rightarrow> int \<Rightarrow> bool" where
  "int_between lo hi n \<longleftrightarrow> lo \<le> n \<and> n \<le> hi"

definition chain_fields_ok :: "ChainCreate \<Rightarrow> bool" where
  "chain_fields_ok p \<longleftrightarrow>
     str_between 1 64 (pc_id p) \<and> pc_rpc_http p \<noteq> [] \<and>
     int_between 0 10000 (pc_confirmations p) \<and> int_between 100 60000 (pc_poll_interval_ms p) \<and>
     (\<forall>c \<in> set_option (pc_commitment p). c \<in> {''confirmed'', ''finalized''}) \<and>
     int_between 1 10000 (pc_log_query_range_blocks p) \<and> int_between 1 500000 (pc_slot_query_range_blocks p) \<and>
     int_between 100 120000 (pc_rpc_timeout_ms p)"

definition check_kind_fields :: "ChainCreate \<Rightarrow> ChainCreate res" where
  "check_kind_fields p =
     (if pc_kind p = CK_solana \<and> pc_commitment p = None then Inl ValueError
      else if pc_kind p = CK_evm \<and> pc_commitment p \<noteq> None then Inl ValueError
      else Inr p)"

text \<open>The loop of \<open>_normalize_fallbacks\<close>, with its \<open>seen\<close> and \<open>out\<close>.\<close>

fun collect_fallbacks :: "string \<Rightarrow> string list \<Rightarrow> string set \<Rightarrow> string list \<Rightarrow> string list" where
  "collect_fallbacks primary [] seen out = out"
| "collect_fallbacks primary (u # us) seen out =
     (if u \<noteq> primary \<and> u \<notin> seen then collect_fallbacks primary us (insert u seen) (out @ [u])
      else collect_fallbacks primary us seen out)"

definition normalize_fallbacks :: "ChainCreate \<Rightarrow> ChainCreate" where
  "normalize_fallbacks p =
     p\<lparr>pc_rpc_http_fallbacks :=
         collect_fallbacks (pc_rpc_http p)
           (map strip (filter (\<lambda>u. u \<noteq> [] \<and> strip u \<noteq> []) (pc_rpc_http_fallbacks p))) {} []\<rparr>"

definition chain_create_model :: "ChainCreate \<Rightarrow> ChainCreate res" where
  "chain_create_model p =
     (if \<not> chain_fields_ok p then Inl ValueError
      else rbind (check_kind_fields p) (\<lambda>p. Inr (normalize_fallbacks p)))"

section \<open>Channels\<close>

record ChannelCreate =
  pn_name :: string
  pn_type :: ChannelType
  pn_config :: "(string, pv) dict"

definition channel_create_model :: "ChannelCreate \<Rightarrow> ChannelCreate res" where
  "channel_create_model p = (if str_between 1 255 (pn_name p) then Inr p else Inl ValueError)"

section \<open>Subscriptions\<close>

record SubscriptionCreate =
  ps_name :: string
  ps_business_name :: "string option"
  ps_chain_id :: string
  ps_address :: "string option"
  ps_abi_id :: "string option"
  ps_match_kind :: MatchKind
  ps_match_name :: "string option"
  ps_arg_filters :: "(string, pv) dict"
  ps_start_block :: "int option"
  ps_enabled :: bool

text \<open>\<open>ArgFilterValue = str | int | bool | list[str | int | bool]\<close>\<close>

fun scalar_filter :: "pv \<Rightarrow> bool" where
  "scalar_filter (PStr s) = True"
| "scalar_filter (PInt n) = True"
| "scalar_filter (PBool b) = True"
| "scalar_filter v = False"

fun arg_filter_value :: "pv \<Rightarrow> bool" where
  "arg_filter_value (PList xs) = list_all scalar_filter xs"
| "arg_filter_value v = scalar_filter v"

definition filter_shape_ok :: "(string, pv) dict \<Rightarrow> bool" where
  "filter_shape_ok fs \<longleftrightarrow> list_all (\<lambda>(k, v). arg_filter_value v) fs"

definition normalize_business_name :: "string option \<Rightarrow> string option" where
  "normalize_business_name v =
     (case v of
        None \<Rightarrow> None
      | Some s \<Rightarrow> let s' = strip s in if s' = [] then None else Some s')"

definition check_operator_grammar :: "(string, pv) dict \<Rightarrow> (string, pv) dict res" where
  "check_operator_grammar v = (case validate_filters v of Inl e \<Rightarrow> Inl ValueError | Inr u \<Rightarrow> Inr v)"

text \<open>The business name is normalised before its length is checked.\<close>

definition subscription_create_model :: "SubscriptionCreate \<Rightarrow> SubscriptionCreate res" where
  "subscription_create_model p =
     (let b = normalize_business_name (ps_business_name p)
      in if \<not> str_between 1 255 (ps_name p) \<or> (\<exists>s \<in> set_option b. 255 < length s) \<or> \<not> filter_shape_ok (ps_arg_filters p)
         then Inl ValueError
         else rbind (check_operator_grammar (ps_arg_filters p)) (\<lambda>fs.
                Inr (p\<lparr>ps_business_name := b, ps_arg_filters := fs\<rparr>)))"

record ReplayRequest =
  pr_from_block :: int
  pr_to_block :: int

definition replay_request_model :: "ReplayRequest \<Rightarrow> ReplayRequest res" where
  "replay_request_model p = (if 0 \<le> pr_from_block p \<and> 0 \<le> pr_to_block p then Inr p else Inl ValueError)"

section \<open>ABIs\<close>

record AbiCreate =
  pa_name :: string
  pa_kind :: AbiKind
  pa_body :: pv

definition abi_create_model :: "AbiCreate \<Rightarrow> AbiCreate res" where
  "abi_create_model p =
     (if str_between 1 255 (pa_name p) \<and> (case pa_body p of PDict d \<Rightarrow> True | PList xs \<Rightarrow> True | _ \<Rightarrow> False)
      then Inr p else Inl ValueError)"

section \<open>Scan of the stored filters\<close>

datatype OffenderReason = ValueShape | OperatorGrammar string

record Offender =
  of_subscription_id :: string
  of_name :: string
  of_reason :: OffenderReason

definition scan_row :: "Subscription \<Rightarrow> Offender option" where
  "scan_row row =
     (if \<not> filter_shape_ok (su_arg_filters row)
      then Some \<lparr>of_subscription_id = su_id row, of_name = su_name row, of_reason = ValueShape\<rparr>
      else case validate_filters (su_arg_filters row) of
          Inl (FilterError k) \<Rightarrow>
            Some \<lparr>of_subscription_id = su_id row, of_name = su_name row, of_reason = OperatorGrammar k\<rparr>
        | _ \<Rightarrow> None)"

definition scan_database :: "Db \<Rightarrow> Offender list" where
  "scan_database db = List.map_filter scan_row (db_subs db)"

section \<open>Facts\<close>

lemma collect_fallbacks_spec:
  assumes "set out = seen" and "distinct out"
  shows "distinct (collect_fallbacks primary us seen out) \<and>
    set (collect_fallbacks primary us seen out) = seen \<union> (set us - {primary}) \<and>
    (\<exists>new. collect_fallbacks primary us seen out = out @ new \<and> subseq new us)"
  using assms
proof (induction primary us seen out rule: collect_fallbacks.induct)
  case (2 primary u us seen out)
  show ?case
  proof (cases "u \<noteq> primary \<and> u \<notin> seen")
    case True
    note IH = 2(1) [OF True]
    have "set (out @ [u]) = insert u seen" "distinct (out @ [u])" using 2(3,4) True by auto
    from IH [OF this] True show ?thesis by auto
  next
    case False
    note IH = 2(2) [OF False 2(3,4)]
    show ?thesis using IH False by (auto intro: list_emb_Cons)
  qed
qed auto

lemma collect_fallbacks_id:
  "distinct us \<Longrightarrow> primary \<notin> set us \<Longrightarrow> set us \<inter> seen = {} \<Longrightarrow> collect_fallbacks primary us seen out = out @ us"
  by (induction primary us seen out rule: collect_fallbacks.induct) auto

lemma strip_dropWhile_fixed:
  assumes "s \<noteq> []" and "dropWhile is_space s = s" and "dropWhile is_space (rev s) = rev s"
  shows "strip s = s"
  using assms by (simp add: strip_def)

lemma dropWhile_rev_head: "xs \<noteq> [] \<Longrightarrow> \<not> P (hd xs) \<Longrightarrow> dropWhile P (rev xs) \<noteq> [] \<and> hd (rev (dropWhile P (rev xs))) = hd xs"
proof -
  assume xs: "xs \<noteq> []" "\<not> P (hd xs)"
  then have ne: "dropWhile P (rev xs) \<noteq> []" by (metis dropWhile_eq_Nil_conv hd_in_set set_rev)
  obtain ys where ys: "xs = rev (dropWhile P (rev xs)) @ ys"
    by (metis rev_append rev_rev_ident takeWhile_dropWhile_id)
  from arg_cong [OF ys, of hd] ne show ?thesis by simp
qed

lemma strip_idem [simp]: "strip (strip s) = strip s"
proof (cases "strip s = []")
  case True
  moreover have "strip [] = []" by (simp add: strip_def)
  ultimately show ?thesis by simp
next
  case False
  let ?t = "dropWhile is_space s"
  have t: "?t \<noteq> []" using False unfolding strip_def by (metis dropWhile.simps(1) rev.simps(1))
  have hd_t: "\<not> is_space (hd ?t)" using t by (rule hd_dropWhile)
  have "hd (strip s) = hd ?t" using dropWhile_rev_head [OF t, of is_space, OF hd_t] by (simp add: strip_def)
  moreover have "\<not> is_space (last (strip s))"
    using False hd_dropWhile [of is_space "rev ?t"] by (simp add: strip_def last_rev)
  ultimately show ?thesis using False hd_t by (intro strip_id) auto
qed

lemma validate_filters_cases: "validate_filters fs = Inr () \<or> (\<exists>k. validate_filters fs = Inl (FilterError k))"
  by (induction fs rule: validate_filters.induct) auto

lemma subscription_model_filters:
  "subscription_create_model p = Inr q \<Longrightarrow> filter_shape_ok (ps_arg_filters q) \<and> validate_filters (ps_arg_filters q) = Inr ()"
  by (auto simp: subscription_create_model_def check_operator_grammar_def Let_def res_simps
      split: if_splits sum.splits)

lemma scan_row_id: "scan_row row = Some off \<Longrightarrow> of_subscription_id off = su_id row"
  using validate_filters_cases [of "su_arg_filters row"] by (auto simp: scan_row_def split: if_splits)

lemma scan_row_None:
  "scan_row row = None \<longleftrightarrow> filter_shape_ok (su_arg_filters row) \<and> validate_filters (su_arg_filters row) = Inr ()"
  using validate_filters_cases [of "su_arg_filters row"] by (auto simp: scan_row_def)

lemma scan_database_Nil:
  "scan_database db = [] \<longleftrightarrow>
     (\<forall>s \<in> set (db_subs db). filter_shape_ok (su_arg_filters s) \<and> validate_filters (su_arg_filters s) = Inr ())"
proof -
  have "List.map_filter f xs = [] \<longleftrightarrow> (\<forall>x \<in> set xs. f x = None)" for f :: "Subscription \<Rightarrow> Offender option" and xs
    by (auto simp: map_filter_def filter_empty_conv)
  then show ?thesis by (simp add: scan_database_def scan_row_None)
qed

section \<open>Properties\<close>

text \<open>
  A chain body that passes validation has a commitment exactly if it is a Solana chain, all its numbers
  in their ranges, and fallback URLs that are stripped, not empty, pairwise different and different from
  the primary, in the order of the request, none lost; and validating it again changes nothing.
\<close>

theorem chain_body_normal:
  assumes "chain_create_model p = Inr q"
  shows "(pc_commitment q = None \<longleftrightarrow> pc_kind q = CK_evm) \<and> chain_fields_ok q \<and>
    distinct (pc_rpc_http q # pc_rpc_http_fallbacks q) \<and>
    set (pc_rpc_http_fallbacks q) = strip ` set (pc_rpc_http_fallbacks p) - {[], pc_rpc_http p} \<and>
    subseq (pc_rpc_http_fallbacks q) (map strip (pc_rpc_http_fallbacks p)) \<and>
    chain_create_model q = Inr q"
proof -
  define us where "us = map strip (filter (\<lambda>u. u \<noteq> [] \<and> strip u \<noteq> []) (pc_rpc_http_fallbacks p))"
  define out where "out = collect_fallbacks (pc_rpc_http p) us {} []"
  have q: "q = p\<lparr>pc_rpc_http_fallbacks := out\<rparr>" and ok: "chain_fields_ok p" "check_kind_fields p = Inr p"
    using assms by (auto simp: us_def out_def chain_create_model_def normalize_fallbacks_def check_kind_fields_def res_simps split: if_splits)
  have out_facts: "distinct out" "set out = set us - {pc_rpc_http p}" "subseq out us"
    using collect_fallbacks_spec [of "[]" "{}" "pc_rpc_http p" us] by (auto simp: out_def)
  have nil: "strip [] = []" by (simp add: strip_def)
  have us: "set us = strip ` set (pc_rpc_http_fallbacks p) - {[]}" using nil by (auto simp: us_def)
  have "subseq us (map strip (pc_rpc_http_fallbacks p))"
    unfolding us_def by (rule subseq_map) simp
  then have sub: "subseq out (map strip (pc_rpc_http_fallbacks p))" using out_facts(3) by (rule subseq_order.trans [rotated])
  have kind: "pc_commitment p = None \<longleftrightarrow> pc_kind p = CK_evm"
    using ok(2) by (cases "pc_kind p") (auto simp: check_kind_fields_def split: if_splits)
  have okq: "chain_fields_ok q" "check_kind_fields q = Inr q"
    using ok by (auto simp: q chain_fields_ok_def check_kind_fields_def split: if_splits)
  have fixed: "strip u = u \<and> u \<noteq> [] \<and> u \<noteq> pc_rpc_http p" if "u \<in> set out" for u
    using that out_facts(2) us by auto
  have keep: "u \<noteq> [] \<and> strip u \<noteq> []" if "u \<in> set out" for u using fixed [OF that] by simp
  have "filter (\<lambda>u. u \<noteq> [] \<and> strip u \<noteq> []) out = out" by (intro filter_True ballI keep)
  moreover have "map strip out = out" using fixed by (metis map_idI)
  moreover have "collect_fallbacks (pc_rpc_http p) out {} [] = out"
    using collect_fallbacks_id [of out "pc_rpc_http p" "{}" "[]"] out_facts(1) fixed by simp blast
  ultimately have "normalize_fallbacks q = q" by (simp add: normalize_fallbacks_def q)
  then have "chain_create_model q = Inr q" using okq by (simp add: chain_create_model_def)
  moreover have "distinct (pc_rpc_http q # pc_rpc_http_fallbacks q)" using out_facts(1) fixed by (auto simp: q)
  moreover have "set out = strip ` set (pc_rpc_http_fallbacks p) - {[], pc_rpc_http p}" using out_facts(2) us by blast
  ultimately show ?thesis using kind okq sub q by simp
qed

definition ex_chain_body :: ChainCreate where
  "ex_chain_body = \<lparr>pc_id = ''sol'', pc_kind = CK_solana, pc_rpc_http = ''http://a'', pc_rpc_ws = None, pc_confirmations = 0,
     pc_poll_interval_ms = 3000, pc_commitment = Some ''finalized'', pc_trace_internal_calls = False,
     pc_log_query_range_blocks = 100, pc_slot_query_range_blocks = 1000,
     pc_rpc_http_fallbacks = ['' http://b'', ''http://a'', '' '', ''http://b''], pc_rpc_timeout_ms = 10000, pc_enabled = True\<rparr>"

theorem chain_body_normal_witness:
  "\<exists>q. chain_create_model ex_chain_body = Inr q \<and> pc_rpc_http_fallbacks q = [''http://b''] \<and> chain_create_model q = Inr q"
proof -
  obtain q where q: "chain_create_model ex_chain_body = Inr q" "pc_rpc_http_fallbacks q = [''http://b'']"
    by (simp add: chain_create_model_def chain_fields_ok_def check_kind_fields_def normalize_fallbacks_def ex_chain_body_def
        str_between_def int_between_def strip_def is_space_def)
  with chain_body_normal [OF q(1)] show ?thesis by blast
qed

text \<open>
  The scan lists exactly the stored subscriptions whose filters the API would refuse.
\<close>

theorem scan_finds_refused_filters:
  "map of_subscription_id (scan_database db) =
     map su_id (filter (\<lambda>s. subscription_create_model
       \<lparr>ps_name = ''n'', ps_business_name = None, ps_chain_id = su_chain_id s, ps_address = su_address s, ps_abi_id = su_abi_id s,
        ps_match_kind = su_match_kind s, ps_match_name = su_match_name s, ps_arg_filters = su_arg_filters s,
        ps_start_block = su_start_block s, ps_enabled = su_enabled s\<rparr> = Inl ValueError) (db_subs db))"
proof -
  have "map of_subscription_id (List.map_filter scan_row rows) =
      map su_id (filter (\<lambda>s. scan_row s \<noteq> None) rows)" for rows
    by (induction rows) (auto simp: List.map_filter_simps scan_row_id split: option.splits)
  moreover have "scan_row s \<noteq> None \<longleftrightarrow> subscription_create_model
      \<lparr>ps_name = ''n'', ps_business_name = None, ps_chain_id = su_chain_id s, ps_address = su_address s, ps_abi_id = su_abi_id s,
       ps_match_kind = su_match_kind s, ps_match_name = su_match_name s, ps_arg_filters = su_arg_filters s,
       ps_start_block = su_start_block s, ps_enabled = su_enabled s\<rparr> = Inl ValueError" for s
    using validate_filters_cases [of "su_arg_filters s"]
    by (auto simp: scan_row_None subscription_create_model_def check_operator_grammar_def normalize_business_name_def str_between_def)
  ultimately show ?thesis by (simp add: scan_database_def)
qed


end
