(* ===== verification/Confirmation_Buffer.thy ===== *)
theory Confirmation_Buffer
  imports Chain_Types
begin

text \<open>
  The reorg guard of the EVM path, \<^verbatim>\<open>core/chains/confirmation_buffer.py\<close>: a sliding window over
  the last headers. A header leaves the window, as confirmed, when the tip is \<open>confirmations\<close>
  above it. The operations raise before they change the buffer, so \<open>Inl\<close> means that the buffer
  is as it was.

  The lemmas say what a call does to the window (which prefix is kept, what is dropped, what is
  emitted), that the window stays a linked chain no longer than \<open>confirmations\<close>, and, over any
  run of heads, that what was emitted together with what is buffered is one unbroken chain.
\<close>

section \<open>State and operations\<close>

record ConfirmationBuffer =
  cb_confirmations :: int
  cb_buf :: "BlockHeader list"

record ReorgEvent =
  re_rewound_to :: int
  re_new_branch :: "BlockHeader list"
  re_dropped :: "BlockHeader list"
  re_confirmed :: "BlockHeader list"
  re_deep :: bool
  re_divergent_oldest :: int
  re_new_head :: "BlockHeader option"

text \<open>\<open>ReorgEvent | list[BlockHeader]\<close>, the result of \<open>handle_new_head\<close>.\<close>

datatype HeadResult = Confirmed "BlockHeader list" | Reorg ReorgEvent

type_synonym resolver = "int \<Rightarrow> string \<Rightarrow> BlockHeader res"

definition cb_init :: "int \<Rightarrow> ConfirmationBuffer res" where
  "cb_init confirmations =
     (if confirmations < 0 then Inl ValueError
      else Inr \<lparr>cb_confirmations = confirmations, cb_buf = []\<rparr>)"

definition cb_tip :: "ConfirmationBuffer \<Rightarrow> BlockHeader option" where
  "cb_tip b = (if cb_buf b = [] then None else Some (last (cb_buf b)))"

text \<open>\<open>while self._buf and tip_num - self._buf[0].number >= self._confirmations: popleft()\<close>\<close>

fun drain_loop ::
  "int \<Rightarrow> int \<Rightarrow> BlockHeader list \<Rightarrow> BlockHeader list \<Rightarrow> BlockHeader list \<times> BlockHeader list" where
  "drain_loop c tip confirmed [] = (confirmed, [])"
| "drain_loop c tip confirmed (h # hs) =
     (if tip - bh_number h \<ge> c then drain_loop c tip (confirmed @ [h]) hs
      else (confirmed, h # hs))"

definition drain_confirmed :: "ConfirmationBuffer \<Rightarrow> BlockHeader list \<times> ConfirmationBuffer" where
  "drain_confirmed b =
     (if cb_buf b = [] then ([], b)
      else let tip_num = bh_number (last (cb_buf b));
               (confirmed, rest) = drain_loop (cb_confirmations b) tip_num [] (cb_buf b)
           in (confirmed, b\<lparr>cb_buf := rest\<rparr>))"

definition cb_append ::
  "ConfirmationBuffer \<Rightarrow> BlockHeader \<Rightarrow> (BlockHeader list \<times> ConfirmationBuffer) res" where
  "cb_append b head =
     (if cb_buf b \<noteq> [] \<and> bh_hash (last (cb_buf b)) \<noteq> bh_parent_hash head then Inl ValueError
      else Inr (drain_confirmed (b\<lparr>cb_buf := cb_buf b @ [head]\<rparr>)))"

text \<open>
  The walk along the new branch: \<open>for _ in range(max_walk)\<close>. \<open>branch\<close> grows from the new head
  backwards; \<open>None\<close> means that the walk was exhausted without a common ancestor.
\<close>

fun walk_back ::
  "nat \<Rightarrow> (string, BlockHeader) dict \<Rightarrow> resolver \<Rightarrow> BlockHeader list \<Rightarrow> BlockHeader \<Rightarrow>
   (BlockHeader list \<times> BlockHeader) option res" where
  "walk_back 0 by_hash resolve_parent branch cursor = Inr None"
| "walk_back (Suc k) by_hash resolve_parent branch cursor =
     (case d_get by_hash (bh_parent_hash cursor) of
        Some ancestor \<Rightarrow> Inr (Some (branch, ancestor))
      | None \<Rightarrow>
          rbind (resolve_parent (bh_number cursor - 1) (bh_parent_hash cursor))
            (\<lambda>parent. walk_back k by_hash resolve_parent (branch @ [parent]) parent))"

text \<open>\<open>while self._buf and self._buf[-1].hash != ancestor.hash: dropped.append(self._buf.pop())\<close>;
  the buffer is given last element first.\<close>

fun pop_divergent ::
  "string \<Rightarrow> BlockHeader list \<Rightarrow> BlockHeader list \<Rightarrow> BlockHeader list \<times> BlockHeader list" where
  "pop_divergent anc_hash dropped [] = (dropped, [])"
| "pop_divergent anc_hash dropped (h # hs) =
     (if bh_hash h \<noteq> anc_hash then pop_divergent anc_hash (dropped @ [h]) hs
      else (dropped, h # hs))"

definition handle_new_head ::
  "ConfirmationBuffer \<Rightarrow> BlockHeader \<Rightarrow> resolver \<Rightarrow> (HeadResult \<times> ConfirmationBuffer) res" where
  "handle_new_head b head resolve_parent =
     (if cb_buf b = [] \<or> bh_hash (last (cb_buf b)) = bh_parent_hash head then
        rbind (cb_append b head) (\<lambda>(confirmed, b'). Inr (Confirmed confirmed, b'))
      else
        let by_hash = dict_of (map (\<lambda>h. (bh_hash h, h)) (cb_buf b));
            max_walk = length (cb_buf b) + 1
        in rbind (walk_back max_walk by_hash resolve_parent [head] head) (\<lambda>found.
             case found of
               Some (branch, ancestor) \<Rightarrow>
                 let (dropped, kept) = pop_divergent (bh_hash ancestor) [] (rev (cb_buf b));
                     new_branch_ordered = rev branch;
                     (confirmed, b') =
                       drain_confirmed (b\<lparr>cb_buf := rev kept @ new_branch_ordered\<rparr>)
                 in Inr (Reorg \<lparr>re_rewound_to = bh_number ancestor,
                                re_new_branch = new_branch_ordered,
                                re_dropped = rev dropped,
                                re_confirmed = confirmed,
                                re_deep = False,
                                re_divergent_oldest = -1,
                                re_new_head = None\<rparr>, b')
             | None \<Rightarrow>
                 let divergent_oldest =
                       (case cb_buf b of [] \<Rightarrow> -1 | h # _ \<Rightarrow> bh_number h);
                     (confirmed, b') = drain_confirmed (b\<lparr>cb_buf := [head]\<rparr>)
                 in Inr (Reorg \<lparr>re_rewound_to = -1,
                                re_new_branch = [],
                                re_dropped = [],
                                re_confirmed = confirmed,
                                re_deep = True,
                                re_divergent_oldest = divergent_oldest,
                                re_new_head = Some head\<rparr>, b')))"

text \<open>What a call hands on for processing.\<close>

fun result_confirmed :: "HeadResult \<Rightarrow> BlockHeader list" where
  "result_confirmed (Confirmed cs) = cs"
| "result_confirmed (Reorg ev) = re_confirmed ev"

fun result_deep :: "HeadResult \<Rightarrow> bool" where
  "result_deep (Confirmed cs) = False"
| "result_deep (Reorg ev) = re_deep ev"

section \<open>Chains of headers\<close>

text \<open>Each header names its predecessor's hash.\<close>

definition linked :: "BlockHeader list \<Rightarrow> bool" where
  "linked hs = successively (\<lambda>a b. bh_hash a = bh_parent_hash b) hs"

text \<open>
  Heights follow the parent relation: \<open>ht\<close> gives the height of the block with a given hash. This
  is how a chain numbers its blocks.
\<close>

definition header_ok :: "(string \<Rightarrow> int) \<Rightarrow> BlockHeader \<Rightarrow> bool" where
  "header_ok ht h =
     (bh_number h = ht (bh_hash h) \<and> ht (bh_hash h) = ht (bh_parent_hash h) + 1)"

lemma linked_simps [simp]:
  "linked []"
  "linked [h]"
  "linked (a # b # hs) \<longleftrightarrow> bh_hash a = bh_parent_hash b \<and> linked (b # hs)"
  by (simp_all add: linked_def)

lemma linked_append:
  "linked (xs @ ys) \<longleftrightarrow>
     linked xs \<and> linked ys \<and>
     (xs \<noteq> [] \<longrightarrow> ys \<noteq> [] \<longrightarrow> bh_hash (last xs) = bh_parent_hash (hd ys))"
  by (auto simp: linked_def successively_append_iff)

lemma linked_numbers:
  "linked hs \<Longrightarrow> list_all (header_ok ht) hs \<Longrightarrow> i < length hs \<Longrightarrow>
   bh_number (hs ! i) = bh_number (hd hs) + int i"
proof (induction hs arbitrary: i rule: induct_list012)
  case (3 a b hs)
  show ?case
  proof (cases i)
    case (Suc j)
    have "bh_number b = bh_number a + 1"
      using "3.prems" by (simp add: header_ok_def)
    moreover have "bh_number ((b # hs) ! j) = bh_number (hd (b # hs)) + int j"
      using "3.IH"(2) [of j] "3.prems" Suc by simp
    ultimately show ?thesis using Suc by simp
  qed simp
qed simp_all

lemma linked_numbers_map:
  "linked hs \<Longrightarrow> list_all (header_ok ht) hs \<Longrightarrow>
   map bh_number hs = map (\<lambda>i. bh_number (hd hs) + int i) [0..<length hs]"
  using linked_numbers [of hs ht] by (intro nth_equalityI) simp_all

lemma linked_number_last:
  "linked hs \<Longrightarrow> list_all (header_ok ht) hs \<Longrightarrow> hs \<noteq> [] \<Longrightarrow>
   bh_number (last hs) = bh_number (hd hs) + int (length hs) - 1"
  using linked_numbers [of hs ht "length hs - 1"]
  by (simp add: last_conv_nth of_nat_diff Suc_le_eq)

section \<open>Draining\<close>

lemma drain_loop_eq:
  "drain_loop c tip acc hs =
     (acc @ takeWhile (\<lambda>h. tip - bh_number h \<ge> c) hs, dropWhile (\<lambda>h. tip - bh_number h \<ge> c) hs)"
  by (induction hs arbitrary: acc) simp_all

text \<open>The headers at depth \<open>confirmations\<close> or more below the tip.\<close>

definition deep_enough :: "ConfirmationBuffer \<Rightarrow> BlockHeader \<Rightarrow> bool" where
  "deep_enough b h = (bh_number (last (cb_buf b)) - bh_number h \<ge> cb_confirmations b)"

lemma drain_confirmed_eq:
  "drain_confirmed b =
     (takeWhile (deep_enough b) (cb_buf b), b\<lparr>cb_buf := dropWhile (deep_enough b) (cb_buf b)\<rparr>)"
  by (cases b) (auto simp: drain_confirmed_def drain_loop_eq deep_enough_def [abs_def] Let_def)

lemma drain_confirmed_split:
  "drain_confirmed b = (cs, b') \<Longrightarrow>
   cs @ cb_buf b' = cb_buf b \<and> cb_confirmations b' = cb_confirmations b"
  by (auto simp: drain_confirmed_eq)

lemma drain_confirmed_deep_enough:
  "drain_confirmed b = (cs, b') \<Longrightarrow> h \<in> set cs \<Longrightarrow> deep_enough b h"
  by (auto simp: drain_confirmed_eq dest: set_takeWhileD)

lemma drain_confirmed_front:
  "drain_confirmed b = (cs, b') \<Longrightarrow> cb_buf b' \<noteq> [] \<Longrightarrow> \<not> deep_enough b (hd (cb_buf b'))"
  using hd_dropWhile [of "deep_enough b" "cb_buf b"]
  by (auto simp: drain_confirmed_eq simp del: dropWhile_eq_Nil_conv)

text \<open>On a chain whose heights rise, draining takes all the headers that are deep enough.\<close>

lemma drain_confirmed_all:
  assumes d: "drain_confirmed b = (cs, b')"
    and chain: "linked (cb_buf b)" "list_all (header_ok ht) (cb_buf b)"
    and h: "h \<in> set (cb_buf b')"
  shows "\<not> deep_enough b h"
proof -
  have ne: "cb_buf b' \<noteq> []"
    using h by auto
  have split: "cs @ cb_buf b' = cb_buf b"
    using drain_confirmed_split [OF d] by simp
  have chain': "linked (cb_buf b')" "list_all (header_ok ht) (cb_buf b')"
    using chain unfolding split [symmetric] by (simp_all add: linked_append)
  obtain i where "i < length (cb_buf b')" "cb_buf b' ! i = h"
    using h by (auto simp: in_set_conv_nth)
  then have "bh_number (hd (cb_buf b')) \<le> bh_number h"
    using linked_numbers [OF chain'] by fastforce
  then show ?thesis
    using drain_confirmed_front [OF d ne] by (simp add: deep_enough_def)
qed

text \<open>The tip itself stays, unless no confirmation is asked for.\<close>

lemma drain_confirmed_keeps_tip:
  assumes "drain_confirmed b = (cs, b')" and "0 < cb_confirmations b" and "cb_buf b \<noteq> []"
  shows "cb_buf b' \<noteq> [] \<and> last (cb_buf b') = last (cb_buf b)"
proof -
  have buf': "cb_buf b' = dropWhile (deep_enough b) (cb_buf b)"
    using assms(1) by (auto simp: drain_confirmed_eq)
  have "\<not> deep_enough b (last (cb_buf b))" using assms(2) by (simp add: deep_enough_def)
  then have ne: "cb_buf b' \<noteq> []"
    using assms(3) buf' by (metis dropWhile_eq_Nil_conv last_in_set)
  moreover have "last (cb_buf b) = last (cs @ cb_buf b')"
    using drain_confirmed_split [OF assms(1)] by simp
  ultimately show ?thesis by simp
qed

section \<open>Reorganisations\<close>

lemma pop_divergent_eq:
  "pop_divergent a acc hs =
     (acc @ takeWhile (\<lambda>h. bh_hash h \<noteq> a) hs, dropWhile (\<lambda>h. bh_hash h \<noteq> a) hs)"
  by (induction hs arbitrary: acc) simp_all

lemma by_hash_lookup:
  assumes "d_get (dict_of (map (\<lambda>h. (bh_hash h, h)) hs)) k = Some a"
  shows "a \<in> set hs \<and> bh_hash a = k"
proof -
  have "map_of (rev (map (\<lambda>h. (bh_hash h, h)) hs)) k = Some a"
    using assms by (simp add: dict_simps)
  then have "(k, a) \<in> set (map (\<lambda>h. (bh_hash h, h)) hs)"
    by (metis map_of_SomeD set_rev)
  then show ?thesis by auto
qed

lemma by_hash_None:
  "d_get (dict_of (map (\<lambda>h. (bh_hash h, h)) hs)) k = None \<longleftrightarrow> k \<notin> bh_hash ` set hs"
  by (auto simp: dict_simps map_of_eq_None_iff image_iff)

text \<open>The branch of \<open>handle_new_head\<close> for a head that does not link, with the loops in closed form.\<close>

definition header_index :: "ConfirmationBuffer \<Rightarrow> (string, BlockHeader) dict" where
  "header_index b = dict_of (map (\<lambda>h. (bh_hash h, h)) (cb_buf b))"

lemma handle_new_head_mismatch:
  assumes "cb_buf b \<noteq> []" and "bh_hash (last (cb_buf b)) \<noteq> bh_parent_hash head"
  shows "handle_new_head b head r =
    (case walk_back (length (cb_buf b) + 1) (header_index b) r [head] head of
       Inl e \<Rightarrow> Inl e
     | Inr None \<Rightarrow>
         Inr (Reorg \<lparr>re_rewound_to = -1, re_new_branch = [], re_dropped = [],
                     re_confirmed = fst (drain_confirmed (b\<lparr>cb_buf := [head]\<rparr>)), re_deep = True,
                     re_divergent_oldest = bh_number (hd (cb_buf b)), re_new_head = Some head\<rparr>,
              snd (drain_confirmed (b\<lparr>cb_buf := [head]\<rparr>)))
     | Inr (Some (br, anc)) \<Rightarrow>
         (let full = rev (dropWhile (\<lambda>h. bh_hash h \<noteq> bh_hash anc) (rev (cb_buf b))) @ rev br
          in Inr (Reorg \<lparr>re_rewound_to = bh_number anc, re_new_branch = rev br,
                     re_dropped = rev (takeWhile (\<lambda>h. bh_hash h \<noteq> bh_hash anc) (rev (cb_buf b))),
                     re_confirmed = fst (drain_confirmed (b\<lparr>cb_buf := full\<rparr>)), re_deep = False,
                     re_divergent_oldest = -1, re_new_head = None\<rparr>,
              snd (drain_confirmed (b\<lparr>cb_buf := full\<rparr>)))))"
  using assms
  by (auto simp: handle_new_head_def Let_def pop_divergent_eq header_index_def case_prod_beta rbind_def
      simp del: walk_back.simps split: sum.split option.split list.split)

lemma handle_new_head_link:
  assumes "cb_buf b = [] \<or> bh_hash (last (cb_buf b)) = bh_parent_hash head"
  shows "handle_new_head b head r =
    Inr (Confirmed (fst (drain_confirmed (b\<lparr>cb_buf := cb_buf b @ [head]\<rparr>))),
         snd (drain_confirmed (b\<lparr>cb_buf := cb_buf b @ [head]\<rparr>)))"
  using assms by (auto simp: handle_new_head_def cb_append_def case_prod_beta)

text \<open>The three outcomes of a call.\<close>

lemma handle_new_head_cases:
  assumes "handle_new_head b head r = Inr (res, b')"
  obtains
    (clean) cs where "res = Confirmed cs"
      "cb_buf b = [] \<or> bh_hash (last (cb_buf b)) = bh_parent_hash head"
      "drain_confirmed (b\<lparr>cb_buf := cb_buf b @ [head]\<rparr>) = (cs, b')"
  | (deep) ev where "res = Reorg ev" "re_deep ev" "cb_buf b \<noteq> []" "re_new_head ev = Some head"
      "walk_back (length (cb_buf b) + 1) (header_index b) r [head] head = Inr None"
      "re_divergent_oldest ev = bh_number (hd (cb_buf b))"
      "drain_confirmed (b\<lparr>cb_buf := [head]\<rparr>) = (re_confirmed ev, b')"
  | (reorg) ev br anc where "res = Reorg ev" "\<not> re_deep ev" "cb_buf b \<noteq> []"
      "walk_back (length (cb_buf b) + 1) (header_index b) r [head] head = Inr (Some (br, anc))"
      "re_rewound_to ev = bh_number anc" "re_new_branch ev = rev br"
      "re_dropped ev = rev (takeWhile (\<lambda>h. bh_hash h \<noteq> bh_hash anc) (rev (cb_buf b)))"
      "drain_confirmed
        (b\<lparr>cb_buf := rev (dropWhile (\<lambda>h. bh_hash h \<noteq> bh_hash anc) (rev (cb_buf b))) @ rev br\<rparr>)
        = (re_confirmed ev, b')"
proof (cases "cb_buf b = [] \<or> bh_hash (last (cb_buf b)) = bh_parent_hash head")
  case True
  then show thesis
    using assms by (intro clean) (auto simp: handle_new_head_link)
next
  case False
  then have m: "cb_buf b \<noteq> []" "bh_hash (last (cb_buf b)) \<noteq> bh_parent_hash head" by auto
  from assms show thesis
    unfolding handle_new_head_mismatch [OF m]
    using m(1) deep reorg
    by (auto simp: Let_def simp del: walk_back.simps split: sum.splits option.splits)
qed

text \<open>
  The contract of \<open>resolve_parent\<close>, as the class states it: the header returned for a hash has
  that hash. \<open>Chain_Runner\<close> provides it with a lookup in the prefetched ancestors.
\<close>

locale parent_resolver =
  fixes resolve_parent :: resolver
  assumes resolved_hash: "resolve_parent n h = Inr p \<Longrightarrow> bh_hash p = h"
begin

lemma walk_back_branch:
  assumes "walk_back k by_hash resolve_parent br cur = Inr (Some (br', anc))"
    and "br \<noteq> []" and "last br = cur" and "linked (rev br)"
  shows "linked (rev br') \<and> br' \<noteq> [] \<and> hd br' = hd br \<and> length br' < length br + k \<and>
         d_get by_hash (bh_parent_hash (last br')) = Some anc"
  using assms
proof (induction k arbitrary: br cur)
  case (Suc k)
  show ?case
  proof (cases "d_get by_hash (bh_parent_hash cur)")
    case None
    with Suc.prems(1) obtain p
      where p: "resolve_parent (bh_number cur - 1) (bh_parent_hash cur) = Inr p"
        and w: "walk_back k by_hash resolve_parent (br @ [p]) p = Inr (Some (br', anc))"
      by (auto simp: res_simps)
    have "linked (rev (br @ [p]))"
      using Suc.prems resolved_hash [OF p] by (cases br rule: rev_cases) auto
    with Suc.IH [OF w] Suc.prems(2) show ?thesis by auto
  next
    case (Some a)
    with Suc.prems show ?thesis by auto
  qed
qed simp

lemma handle_new_head_reorg:
  assumes h: "handle_new_head b head resolve_parent = Inr (Reorg ev, b')" and nd: "\<not> re_deep ev"
  obtains kept anc where
    "cb_buf b = kept @ re_dropped ev" and "kept \<noteq> []" and "bh_hash (last kept) = bh_hash anc"
    and "anc \<in> set (cb_buf b)" and "re_rewound_to ev = bh_number anc"
    and "linked (re_new_branch ev)" and "re_new_branch ev \<noteq> []" and "last (re_new_branch ev) = head"
    and "bh_parent_hash (hd (re_new_branch ev)) = bh_hash anc"
    and "length (re_new_branch ev) \<le> length (cb_buf b) + 1"
    and "drain_confirmed (b\<lparr>cb_buf := kept @ re_new_branch ev\<rparr>) = (re_confirmed ev, b')"
proof -
  from h nd obtain br anc
    where w: "walk_back (length (cb_buf b) + 1) (header_index b) resolve_parent [head] head
        = Inr (Some (br, anc))"
      and ev: "re_rewound_to ev = bh_number anc" "re_new_branch ev = rev br"
      and dr: "re_dropped ev = rev (takeWhile (\<lambda>h. bh_hash h \<noteq> bh_hash anc) (rev (cb_buf b)))"
      and dc: "drain_confirmed
          (b\<lparr>cb_buf := rev (dropWhile (\<lambda>h. bh_hash h \<noteq> bh_hash anc) (rev (cb_buf b))) @ rev br\<rparr>)
          = (re_confirmed ev, b')"
    by (cases rule: handle_new_head_cases [OF h]) auto
  define kept where "kept = rev (dropWhile (\<lambda>h. bh_hash h \<noteq> bh_hash anc) (rev (cb_buf b)))"
  have br: "linked (rev br)" "br \<noteq> []" "hd br = head" "length br \<le> length (cb_buf b) + 1"
      "d_get (header_index b) (bh_parent_hash (last br)) = Some anc"
    using walk_back_branch [OF w] by auto
  have anc: "anc \<in> set (cb_buf b)" "bh_hash anc = bh_parent_hash (last br)"
    using by_hash_lookup [OF br(5) [unfolded header_index_def]] by auto
  have "cb_buf b = rev (takeWhile (\<lambda>h. bh_hash h \<noteq> bh_hash anc) (rev (cb_buf b)) @
      dropWhile (\<lambda>h. bh_hash h \<noteq> bh_hash anc) (rev (cb_buf b)))"
    by (simp only: takeWhile_dropWhile_id rev_rev_ident)
  then have split: "cb_buf b = kept @ re_dropped ev"
    by (simp only: rev_append kept_def dr)
  have ne: "dropWhile (\<lambda>h. bh_hash h \<noteq> bh_hash anc) (rev (cb_buf b)) \<noteq> []"
    using anc(1) by auto
  then have "kept \<noteq> []" "bh_hash (last kept) = bh_hash anc"
    using hd_dropWhile [OF ne] by (auto simp only: kept_def rev_is_Nil_conv last_rev)
  with split anc br ev dc show thesis
    by (intro that [of kept anc]) (simp_all add: kept_def hd_rev last_rev)
qed

end

section \<open>Runs of heads\<close>

text \<open>
  A run offers heads one after the other, each with a resolver of its own. The state is what has
  been emitted so far and the buffer. Heads and resolved headers come from a chain whose heights
  follow the parent relation. A call that raises leaves the state; deep reorganisations, which
  restart the window, are treated apart.
\<close>

definition resolver_ok :: "(string \<Rightarrow> int) \<Rightarrow> resolver \<Rightarrow> bool" where
  "resolver_ok ht r = (\<forall>n h p. r n h = Inr p \<longrightarrow> bh_hash p = h \<and> header_ok ht p)"

inductive head_step ::
  "(string \<Rightarrow> int) \<Rightarrow> BlockHeader list \<times> ConfirmationBuffer \<Rightarrow>
   BlockHeader list \<times> ConfirmationBuffer \<Rightarrow> bool" for ht where
  accepted: "handle_new_head b h r = Inr (res, b') \<Longrightarrow> \<not> result_deep res \<Longrightarrow>
     header_ok ht h \<Longrightarrow> resolver_ok ht r \<Longrightarrow> head_step ht (em, b) (em @ result_confirmed res, b')"
| failed: "handle_new_head b h r = Inl e \<Longrightarrow> head_step ht (em, b) (em, b)"

inductive head_run ::
  "(string \<Rightarrow> int) \<Rightarrow> int \<Rightarrow> BlockHeader list \<times> ConfirmationBuffer \<Rightarrow> bool" for ht c where
  start: "cb_init c = Inr b \<Longrightarrow> head_run ht c ([], b)"
| step: "head_run ht c s \<Longrightarrow> head_step ht s s' \<Longrightarrow> head_run ht c s'"

inductive_cases head_stepE: "head_step ht (em, b) s'"

lemma resolver_ok_resolver: "resolver_ok ht r \<Longrightarrow> parent_resolver r"
  by unfold_locales (auto simp: resolver_ok_def)

lemma walk_back_header_ok:
  assumes "walk_back k by_hash r br cur = Inr (Some (br', anc))" and "resolver_ok ht r"
    and "list_all (header_ok ht) br"
  shows "list_all (header_ok ht) br'"
  using assms
  by (induction k arbitrary: br cur) (auto simp: res_simps resolver_ok_def split: option.splits)

definition run_inv ::
  "(string \<Rightarrow> int) \<Rightarrow> int \<Rightarrow> BlockHeader list \<times> ConfirmationBuffer \<Rightarrow> bool" where
  "run_inv ht c = (\<lambda>(em, b). cb_confirmations b = c \<and> linked (em @ cb_buf b) \<and>
     list_all (header_ok ht) (em @ cb_buf b) \<and> int (length (cb_buf b)) \<le> c \<and>
     (em \<noteq> [] \<longrightarrow> cb_buf b \<noteq> []))"

text \<open>Draining a well-numbered chain leaves at most \<open>confirmations\<close> headers.\<close>

lemma drain_run_inv:
  assumes d: "drain_confirmed (b\<lparr>cb_buf := full\<rparr>) = (cs, b')" and c: "cb_confirmations b = c" "1 \<le> c"
    and full: "linked (em @ full)" "list_all (header_ok ht) (em @ full)" "full \<noteq> []"
  shows "run_inv ht c (em @ cs, b')"
proof -
  have split: "cs @ cb_buf b' = full" "cb_confirmations b' = c"
    using drain_confirmed_split [OF d] c by simp_all
  have ne: "cb_buf b' \<noteq> []" "last (cb_buf b') = last full"
    using drain_confirmed_keeps_tip [OF d] c full(3) by simp_all
  have "linked (cb_buf b')" "list_all (header_ok ht) (cb_buf b')"
    using full split(1) by (auto simp: linked_append simp flip: append_assoc)
  then have "bh_number (last full) = bh_number (hd (cb_buf b')) + int (length (cb_buf b')) - 1"
    using linked_number_last ne by metis
  moreover have "bh_number (last full) - bh_number (hd (cb_buf b')) < c"
    using drain_confirmed_front [OF d ne(1)] c by (simp add: deep_enough_def)
  ultimately have "int (length (cb_buf b')) \<le> c" by linarith
  with full split ne show ?thesis
    by (auto simp: run_inv_def)
qed

lemma head_step_run_inv:
  assumes "head_step ht s s'" and "run_inv ht c s" and "1 \<le> c"
  shows "run_inv ht c s'"
  using assms(1)
proof cases
  case (accepted b h r res b' em)
  note inv = assms(2) [unfolded accepted run_inv_def, simplified]
  from accepted(3) show ?thesis
  proof (cases rule: handle_new_head_cases)
    case (clean cs)
    have "linked (em @ cb_buf b @ [h])"
      using clean(2) inv by (auto simp: linked_append)
    then show ?thesis
      using drain_run_inv [OF clean(3), of c em ht] clean(1) accepted inv assms(3) by simp
  next
    case (deep ev)
    then show ?thesis using accepted by simp
  next
    case (reorg ev br anc)
    have hd: "handle_new_head b h r = Inr (Reorg ev, b')" and pr: "parent_resolver r"
      using accepted reorg(1) resolver_ok_resolver by auto
    obtain kept and anc' :: BlockHeader where k: "cb_buf b = kept @ re_dropped ev" "kept \<noteq> []"
        "bh_hash (last kept) = bh_hash anc'" "linked (re_new_branch ev)" "re_new_branch ev \<noteq> []"
        "bh_parent_hash (hd (re_new_branch ev)) = bh_hash anc'"
        "drain_confirmed (b\<lparr>cb_buf := kept @ re_new_branch ev\<rparr>) = (re_confirmed ev, b')"
      by (rule parent_resolver.handle_new_head_reorg [OF pr hd reorg(2)]) blast
    have "list_all (header_ok ht) (re_new_branch ev)"
      using walk_back_header_ok [OF reorg(4)] accepted reorg(6) by simp
    moreover have "linked (em @ kept @ re_new_branch ev)"
      using inv k by (auto simp: linked_append)
    ultimately show ?thesis
      using drain_run_inv [OF k(7), of c em ht] reorg(1) accepted inv assms(3) k by simp
  qed
next
  case (failed b h r e em)
  then show ?thesis using assms(2) by simp
qed

lemma head_run_inv: "head_run ht c s \<Longrightarrow> 1 \<le> c \<Longrightarrow> run_inv ht c s"
proof (induction rule: head_run.induct)
  case (start b)
  then show ?case by (auto simp: run_inv_def cb_init_def split: if_splits)
next
  case (step s s')
  then show ?case by (blast intro: head_step_run_inv)
qed

text \<open>On every path a call drains one chain of headers that ends in the head.\<close>

lemma handle_new_head_drains:
  assumes h: "handle_new_head b head r = Inr (res, b')" and r: "resolver_ok ht r"
    and chain: "linked (cb_buf b)" "list_all (header_ok ht) (cb_buf b)" "header_ok ht head"
  obtains full where "full \<noteq> []" "last full = head" "linked full" "list_all (header_ok ht) full"
    "drain_confirmed (b\<lparr>cb_buf := full\<rparr>) = (result_confirmed res, b')"
  using h
proof (cases rule: handle_new_head_cases)
  case (clean cs)
  then show thesis
    using chain by (intro that [of "cb_buf b @ [head]"]) (auto simp: linked_append)
next
  case (deep ev)
  then show thesis
    using chain by (intro that [of "[head]"]) simp_all
next
  case (reorg ev br anc)
  have hd: "handle_new_head b head r = Inr (Reorg ev, b')"
    using h reorg(1) by simp
  obtain kept and anc' :: BlockHeader where k: "cb_buf b = kept @ re_dropped ev" "kept \<noteq> []"
      "bh_hash (last kept) = bh_hash anc'" "linked (re_new_branch ev)" "re_new_branch ev \<noteq> []"
      "last (re_new_branch ev) = head" "bh_parent_hash (hd (re_new_branch ev)) = bh_hash anc'"
      "drain_confirmed (b\<lparr>cb_buf := kept @ re_new_branch ev\<rparr>) = (re_confirmed ev, b')"
    by (rule parent_resolver.handle_new_head_reorg [OF resolver_ok_resolver [OF r] hd reorg(2)]) blast
  have "list_all (header_ok ht) (re_new_branch ev)"
    using walk_back_header_ok [OF reorg(4) r] chain reorg(6) by simp
  then show thesis
    using k chain reorg(1)
    by (intro that [of "kept @ re_new_branch ev"]) (auto simp: linked_append)
qed

section \<open>Missed heads\<close>

text \<open>
  Reference: appending the headers of a chain one by one. A head that arrives after some heads
  were missed takes the reorganisation path and has the same effect.
\<close>

fun append_all ::
  "ConfirmationBuffer \<Rightarrow> BlockHeader list \<Rightarrow> (BlockHeader list \<times> ConfirmationBuffer) res" where
  "append_all b [] = Inr ([], b)"
| "append_all b (h # hs) =
     rbind (cb_append b h) (\<lambda>(cs, b'). rbind (append_all b' hs) (\<lambda>(cs', b''). Inr (cs @ cs', b'')))"

text \<open>Draining in two stages, as the tip rises, is draining once.\<close>

lemma drain_twice:
  assumes d: "drain_confirmed (b\<lparr>cb_buf := xs\<rparr>) = (cs, b')"
    and tip: "bh_number (last xs) \<le> bh_number (last ys)" and ne: "ys \<noteq> []" "xs \<noteq> []"
  shows "drain_confirmed (b\<lparr>cb_buf := xs @ ys\<rparr>) =
    (case drain_confirmed (b'\<lparr>cb_buf := cb_buf b' @ ys\<rparr>) of (cs', b'') \<Rightarrow> (cs @ cs', b''))"
proof -
  let ?D = "deep_enough (b\<lparr>cb_buf := xs @ ys\<rparr>)"
  have split: "xs = cs @ cb_buf b'" "cb_confirmations b' = cb_confirmations b"
    using drain_confirmed_split [OF d] by simp_all
  have b': "b' = b\<lparr>cb_buf := cb_buf b'\<rparr>"
    using d by (auto simp: drain_confirmed_eq)
  have "?D h" if "h \<in> set cs" for h
    using drain_confirmed_deep_enough [OF d that] tip ne by (simp add: deep_enough_def)
  then have tw: "takeWhile ?D (cs @ zs) = cs @ takeWhile ?D zs"
    and dw: "dropWhile ?D (cs @ zs) = dropWhile ?D zs" for zs
    by (simp_all add: takeWhile_append dropWhile_append)
  have "deep_enough (b'\<lparr>cb_buf := cb_buf b' @ ys\<rparr>) = ?D"
    using ne split by (simp add: deep_enough_def [abs_def])
  then show ?thesis
    using tw [of "cb_buf b' @ ys"] dw [of "cb_buf b' @ ys"] split b'
    by (simp add: drain_confirmed_eq)
qed

lemma append_all_eq:
  assumes "linked (cb_buf b @ hs)" and "list_all (header_ok ht) (cb_buf b @ hs)" and "hs \<noteq> []"
    and "0 < cb_confirmations b"
  shows "append_all b hs = Inr (drain_confirmed (b\<lparr>cb_buf := cb_buf b @ hs\<rparr>))"
  using assms
proof (induction hs arbitrary: b)
  case (Cons h hs)
  obtain cs b' where d: "drain_confirmed (b\<lparr>cb_buf := cb_buf b @ [h]\<rparr>) = (cs, b')"
    by fastforce
  have app: "cb_append b h = Inr (cs, b')"
    using Cons.prems(1) d by (auto simp: cb_append_def linked_append)
  show ?case
  proof (cases "hs = []")
    case True
    with app d show ?thesis by simp
  next
    case False
    have s: "cb_buf b @ [h] = cs @ cb_buf b'" "cb_confirmations b' = cb_confirmations b"
      using drain_confirmed_split [OF d] by simp_all
    have full: "cb_buf b @ h # hs = cs @ cb_buf b' @ hs"
      using s(1) by (metis append_Cons append_Nil append_assoc)
    have "append_all b' hs = Inr (drain_confirmed (b'\<lparr>cb_buf := cb_buf b' @ hs\<rparr>))"
      using Cons.IH [of b'] Cons.prems False s(2) unfolding full by (simp add: linked_append)
    moreover have "linked (h # hs)" "list_all (header_ok ht) (h # hs)"
      using Cons.prems by (auto simp: linked_append)
    then have "bh_number (last (cb_buf b @ [h])) \<le> bh_number (last hs)"
      using linked_number_last [of "h # hs" ht] False by simp
    ultimately show ?thesis
      using drain_twice [OF d _ False] app by (simp add: case_prod_beta)
  qed
qed simp

text \<open>The walk over missed headers: \<open>rev hs\<close> is the branch when every parent resolves.\<close>

definition resolves_chain :: "resolver \<Rightarrow> BlockHeader list \<Rightarrow> bool" where
  "resolves_chain r hs =
     successively (\<lambda>p h. r (bh_number h - 1) (bh_parent_hash h) = Inr p) hs"

lemma walk_back_chain:
  assumes "resolves_chain r (hs @ [cur])" and "linked (hs @ [cur])"
    and "d_get by_hash (bh_parent_hash (hd (hs @ [cur]))) = Some anc"
    and "\<forall>h \<in> set hs. d_get by_hash (bh_hash h) = None"
    and "length hs < k"
  shows "walk_back k by_hash r br cur = Inr (Some (br @ rev hs, anc))"
  using assms
proof (induction hs arbitrary: cur br k rule: rev_induct)
  case Nil
  then show ?case by (cases k) simp_all
next
  case (snoc p hs)
  obtain k' where k: "k = Suc k'" "length hs < k'"
    using snoc.prems(5) by (cases k) auto
  have res: "r (bh_number cur - 1) (bh_parent_hash cur) = Inr p" and pc: "bh_parent_hash cur = bh_hash p"
    using snoc.prems(1,2) by (simp_all add: resolves_chain_def linked_def successively_append_iff)
  have "walk_back k' by_hash r (br @ [p]) p = Inr (Some ((br @ [p]) @ rev hs, anc))"
    using snoc.prems k(2)
    by (intro snoc.IH)
      (auto simp: resolves_chain_def successively_append_iff linked_append hd_append)
  then show ?case
    using snoc.prems(4) res pc k(1) by simp
qed

section \<open>Properties\<close>

text \<open>
  A small chain for the witnesses, in which a block's height is the length of its hash: the buffer
  holds \<open>a\<close> and \<open>ab\<close>, and the branch \<open>ac\<close>, \<open>acd\<close> forks off at \<open>a\<close>.
\<close>

definition ex_header :: "string \<Rightarrow> BlockHeader" where
  "ex_header h = \<lparr>bh_number = int (length h), bh_hash = h, bh_parent_hash = butlast h, bh_timestamp = 0\<rparr>"

definition ex_buffer :: ConfirmationBuffer where
  "ex_buffer = \<lparr>cb_confirmations = 2, cb_buf = [ex_header ''a'', ex_header ''ab'']\<rparr>"

definition ex_resolver :: resolver where
  "ex_resolver n h = (if h = ''ac'' \<or> h = ''abc'' then Inr (ex_header h) else Inl KeyError)"

definition ex_event :: ReorgEvent where
  "ex_event = \<lparr>re_rewound_to = 1, re_new_branch = [ex_header ''ac'', ex_header ''acd''],
     re_dropped = [ex_header ''ab''], re_confirmed = [ex_header ''a''], re_deep = False,
     re_divergent_oldest = -1, re_new_head = None\<rparr>"

definition ex_buffer' :: ConfirmationBuffer where
  "ex_buffer' = \<lparr>cb_confirmations = 2, cb_buf = [ex_header ''ac'', ex_header ''acd'']\<rparr>"

lemmas ex_chain_defs = ex_header_def ex_buffer_def ex_resolver_def ex_event_def ex_buffer'_def

lemma ex_reorg: "handle_new_head ex_buffer (ex_header ''acd'') ex_resolver = Inr (Reorg ex_event, ex_buffer')"
  by (simp add: ex_chain_defs handle_new_head_def dict_of_def Let_def drain_confirmed_def)

lemma ex_resolver_ok: "resolver_ok (\<lambda>h. int (length h)) ex_resolver"
  by (auto simp: resolver_ok_def header_ok_def ex_resolver_def ex_header_def split: if_splits)

text \<open>
  C2. A head that does not link but whose branch meets the buffer rewinds the buffer to the common
  ancestor: the headers after it are reported as dropped, the new branch, which starts at the
  ancestor's child and ends in the head, is put in their place, and the headers that are now deep
  enough are taken off the front. Nothing else changes.
\<close>

theorem reorg_rewinds_to_ancestor:
  assumes "parent_resolver r"
    and "handle_new_head b head r = Inr (Reorg ev, b')" and "\<not> re_deep ev"
  shows "\<exists>kept anc.
    cb_buf b = kept @ re_dropped ev \<and> re_confirmed ev @ cb_buf b' = kept @ re_new_branch ev \<and>
    kept \<noteq> [] \<and> bh_hash (last kept) = bh_hash anc \<and> anc \<in> set (cb_buf b) \<and>
    re_rewound_to ev = bh_number anc \<and>
    linked (re_new_branch ev) \<and> bh_parent_hash (hd (re_new_branch ev)) = bh_hash anc \<and>
    last (re_new_branch ev) = head \<and> cb_confirmations b' = cb_confirmations b"
proof (rule parent_resolver.handle_new_head_reorg [OF assms])
  fix kept anc
  assume k: "cb_buf b = kept @ re_dropped ev" "kept \<noteq> []" "bh_hash (last kept) = bh_hash anc"
    "anc \<in> set (cb_buf b)" "re_rewound_to ev = bh_number anc" "linked (re_new_branch ev)"
    "last (re_new_branch ev) = head" "bh_parent_hash (hd (re_new_branch ev)) = bh_hash anc"
    "drain_confirmed (b\<lparr>cb_buf := kept @ re_new_branch ev\<rparr>) = (re_confirmed ev, b')"
  then show ?thesis
    using drain_confirmed_split [OF k(9)] by auto
qed

theorem reorg_rewinds_to_ancestor_witness:
  "handle_new_head ex_buffer (ex_header ''acd'') ex_resolver = Inr (Reorg ex_event, ex_buffer') \<and>
   (\<exists>kept. cb_buf ex_buffer = kept @ re_dropped ex_event \<and>
     re_confirmed ex_event @ cb_buf ex_buffer' = kept @ re_new_branch ex_event)"
  using reorg_rewinds_to_ancestor [OF resolver_ok_resolver [OF ex_resolver_ok] ex_reorg]
    ex_reorg
  by (auto simp: ex_event_def)

text \<open>
  C1. Over any run of heads without a deep reorganisation, with at least one confirmation, the
  emitted headers followed by the buffered ones form one linked chain: nothing emitted is ever
  skipped, repeated or contradicted by a later emission, heights rise by one, and the buffer never
  holds more than \<open>confirmations\<close> headers.
\<close>

theorem emitted_chain_unbroken:
  assumes "head_run ht c (em, b)" and "1 \<le> c"
  shows "linked (em @ cb_buf b) \<and>
    map bh_number (em @ cb_buf b) =
      map (\<lambda>i. bh_number (hd (em @ cb_buf b)) + int i) [0..<length (em @ cb_buf b)] \<and>
    int (length (cb_buf b)) \<le> c"
proof -
  have inv: "linked (em @ cb_buf b)" "list_all (header_ok ht) (em @ cb_buf b)"
      "int (length (cb_buf b)) \<le> c"
    using head_run_inv [OF assms] by (simp_all add: run_inv_def)
  then show ?thesis
    using linked_numbers_map [OF inv(1,2)] by blast
qed

theorem emitted_chain_unbroken_witness:
  "linked ([ex_header ''a''] @ cb_buf ex_buffer') \<and>
   map bh_number ([ex_header ''a''] @ cb_buf ex_buffer') = [1, 2, 3]"
proof -
  let ?ht = "\<lambda>h :: string. int (length h)"
  have s0: "head_run ?ht 2 ([], \<lparr>cb_confirmations = 2, cb_buf = []\<rparr>)"
    by (rule head_run.start) (simp add: cb_init_def)
  have "head_step ?ht ([], \<lparr>cb_confirmations = 2, cb_buf = []\<rparr>)
      ([] @ result_confirmed (Confirmed []), \<lparr>cb_confirmations = 2, cb_buf = [ex_header ''a'']\<rparr>)"
    by (rule head_step.accepted [where h = "ex_header ''a''", OF _ _ _ ex_resolver_ok])
      (simp_all add: handle_new_head_def cb_append_def drain_confirmed_def ex_header_def header_ok_def)
  with s0 have s1: "head_run ?ht 2 ([], \<lparr>cb_confirmations = 2, cb_buf = [ex_header ''a'']\<rparr>)"
    by (auto intro: head_run.step)
  have "head_step ?ht ([], \<lparr>cb_confirmations = 2, cb_buf = [ex_header ''a'']\<rparr>)
      ([] @ result_confirmed (Confirmed []), ex_buffer)"
    by (rule head_step.accepted [where h = "ex_header ''ab''", OF _ _ _ ex_resolver_ok])
      (simp_all add: handle_new_head_def cb_append_def drain_confirmed_def ex_header_def header_ok_def
        ex_buffer_def)
  with s1 have s2: "head_run ?ht 2 ([], ex_buffer)"
    by (auto intro: head_run.step)
  have "head_step ?ht ([], ex_buffer) ([] @ result_confirmed (Reorg ex_event), ex_buffer')"
    by (rule head_step.accepted [OF ex_reorg _ _ ex_resolver_ok])
      (simp_all add: ex_event_def ex_header_def header_ok_def)
  with s2 have "head_run ?ht 2 ([ex_header ''a''], ex_buffer')"
    by (auto intro: head_run.step simp: ex_event_def)
  from emitted_chain_unbroken [OF this] show ?thesis
    by (simp add: ex_buffer'_def ex_header_def)
qed

text \<open>
  C5. A header is emitted exactly when the head just processed is at least \<open>confirmations\<close> above
  it, on every path: clean link, reorganisation and deep reorganisation. Every emitted header is
  at that depth; and when the buffered headers form a chain whose heights rise along the parent
  relation, as they do on every run (C1), and the head and the resolved parents belong to it,
  every header that the call leaves in the buffer is not at that depth yet, and the head is the
  last of what the call emitted and kept.
\<close>

theorem confirmed_only_at_depth:
  assumes "handle_new_head b head r = Inr (res, b')" and "parent_resolver r"
  shows "(\<forall>x \<in> set (result_confirmed res). bh_number head - bh_number x \<ge> cb_confirmations b) \<and>
    (resolver_ok ht r \<and> linked (cb_buf b) \<and> list_all (header_ok ht) (cb_buf b @ [head]) \<longrightarrow>
      (\<forall>y \<in> set (cb_buf b'). bh_number head - bh_number y < cb_confirmations b) \<and>
      result_confirmed res @ cb_buf b' \<noteq> [] \<and> last (result_confirmed res @ cb_buf b') = head)"
proof (intro conjI [OF ballI impI])
  fix x assume x: "x \<in> set (result_confirmed res)"
  from assms(1) show "bh_number head - bh_number x \<ge> cb_confirmations b"
  proof (cases rule: handle_new_head_cases)
    case (clean cs)
    then show ?thesis
      using drain_confirmed_deep_enough [OF clean(3)] x by (simp add: deep_enough_def)
  next
    case (deep ev)
    then show ?thesis
      using drain_confirmed_deep_enough [OF deep(7)] x by (simp add: deep_enough_def)
  next
    case (reorg ev br anc)
    have "br \<noteq> []" "hd br = head"
      using parent_resolver.walk_back_branch [OF assms(2) reorg(4)] by simp_all
    then show ?thesis
      using drain_confirmed_deep_enough [OF reorg(8)] x reorg(1) by (simp add: deep_enough_def last_rev)
  qed
next
  assume c: "resolver_ok ht r \<and> linked (cb_buf b) \<and> list_all (header_ok ht) (cb_buf b @ [head])"
  then obtain full where f: "full \<noteq> []" "last full = head" "linked full" "list_all (header_ok ht) full"
      "drain_confirmed (b\<lparr>cb_buf := full\<rparr>) = (result_confirmed res, b')"
    using handle_new_head_drains [OF assms(1)] by auto
  then have "\<forall>y \<in> set (cb_buf b'). bh_number head - bh_number y < cb_confirmations b"
    using drain_confirmed_all [OF f(5), of ht] by (auto simp: deep_enough_def not_le)
  moreover have "result_confirmed res @ cb_buf b' = full"
    using drain_confirmed_split [OF f(5)] by simp
  ultimately show "(\<forall>y \<in> set (cb_buf b'). bh_number head - bh_number y < cb_confirmations b) \<and>
      result_confirmed res @ cb_buf b' \<noteq> [] \<and> last (result_confirmed res @ cb_buf b') = head"
    using f by simp
qed

theorem confirmed_only_at_depth_witness:
  "bh_number (ex_header ''acd'') - bh_number (ex_header ''a'') \<ge> cb_confirmations ex_buffer \<and>
   bh_number (ex_header ''acd'') - bh_number (ex_header ''ac'') < cb_confirmations ex_buffer \<and>
   bh_number (ex_header ''acd'') - bh_number (ex_header ''acd'') < cb_confirmations ex_buffer"
proof -
  have "linked (cb_buf ex_buffer)"
      "list_all (header_ok (\<lambda>h. int (length h))) (cb_buf ex_buffer @ [ex_header ''acd''])"
    by (simp_all add: ex_chain_defs header_ok_def)
  then show ?thesis
    using confirmed_only_at_depth [OF ex_reorg resolver_ok_resolver [OF ex_resolver_ok],
        of "\<lambda>h. int (length h)"] ex_resolver_ok
    by (simp add: ex_event_def ex_buffer'_def)
qed

text \<open>
  C9. Missed heads are recovered: when the head's ancestors up to the tip resolve and are no more
  than the buffer can walk, processing the head alone has the same effect, in emitted headers and
  in the resulting buffer, as appending every missed header in order.
\<close>

theorem missed_heads_recovered:
  assumes "cb_buf b \<noteq> []" and "0 < cb_confirmations b"
    and "linked (cb_buf b @ missed @ [head])" and "list_all (header_ok ht) (cb_buf b @ missed @ [head])"
    and "missed \<noteq> []" and "length missed \<le> length (cb_buf b)"
    and "resolves_chain r (missed @ [head])"
    and "\<forall>m \<in> set missed. bh_hash m \<notin> bh_hash ` set (cb_buf b)"
  shows "\<exists>ev b'. handle_new_head b head r = Inr (Reorg ev, b') \<and> \<not> re_deep ev \<and>
    re_dropped ev = [] \<and> append_all b (missed @ [head]) = Inr (re_confirmed ev, b')"
proof -
  let ?tip = "last (cb_buf b)"
  have ph: "bh_parent_hash (hd (missed @ [head])) = bh_hash ?tip"
    using assms(1,3) by (auto simp: linked_append)
  have mis: "bh_hash ?tip \<noteq> bh_parent_hash head"
    using assms(3,5,8) assms(1)
    by (auto simp: linked_append) (metis imageI last_in_set)
  obtain anc where anc: "d_get (header_index b) (bh_hash ?tip) = Some anc"
    using assms(1) by_hash_None [of "cb_buf b" "bh_hash ?tip"]
    by (fastforce simp: header_index_def)
  then have anc_hash: "bh_hash anc = bh_hash ?tip"
    using by_hash_lookup by (metis header_index_def)
  have w: "walk_back (length (cb_buf b) + 1) (header_index b) r [head] head
      = Inr (Some ([head] @ rev missed, anc))"
    using assms ph anc
    by (intro walk_back_chain) (auto simp: header_index_def by_hash_None linked_append)
  have "dropWhile (\<lambda>h. bh_hash h \<noteq> bh_hash anc) (rev (cb_buf b)) = rev (cb_buf b)"
      "takeWhile (\<lambda>h. bh_hash h \<noteq> bh_hash anc) (rev (cb_buf b)) = []"
    using assms(1) anc_hash by (cases "cb_buf b" rule: rev_cases; simp)+
  then show ?thesis
    using append_all_eq [of b "missed @ [head]" ht] assms
    unfolding handle_new_head_mismatch [OF assms(1) mis] w
    by (simp add: Let_def del: append_all.simps)
qed

theorem missed_heads_recovered_witness:
  "\<exists>ev b'. handle_new_head ex_buffer (ex_header ''abcd'') ex_resolver = Inr (Reorg ev, b') \<and>
     append_all ex_buffer [ex_header ''abc'', ex_header ''abcd''] = Inr (re_confirmed ev, b')"
  using missed_heads_recovered [of ex_buffer "[ex_header ''abc'']" "ex_header ''abcd''"
      "\<lambda>h. int (length h)" ex_resolver]
  by (auto simp: ex_chain_defs header_ok_def resolves_chain_def)

end
