(* ===== verification/Payload.thy ===== *)
theory Payload
  imports Snapshot
begin

text \<open>
  What a subscriber receives: \<^verbatim>\<open>core/notifier/payload.py\<close>, and \<open>json.dumps(payload, separators=(",", ":"))\<close>
  as the channel drivers call it. Event arguments come out of ABI decoders and may hold bytes and
  tuples; the lemmas show that \<open>_safe\<close> removes them, so that serialising a payload cannot raise,
  and that it loses nothing else.
\<close>

section \<open>Operations\<close>

text \<open>\<open>_safe\<close>; the keys of a dictionary are strings here, on which \<open>str\<close> is the identity.\<close>

fun safe :: "pv \<Rightarrow> pv" where
  "safe (PBytes bs) = PStr (''0x'' @ bytes_hex bs)"
| "safe (PDict d) = PDict (map (\<lambda>(k, v). (k, safe v)) d)"
| "safe (PList xs) = PList (map safe xs)"
| "safe (PTuple xs) = PList (map safe xs)"
| "safe (PInt n) = PInt n"
| "safe (PFloat x) = PFloat x"
| "safe (PBool b) = PBool b"
| "safe (PStr s) = PStr s"
| "safe PNone = PNone"

fun pv_opt_str :: "string option \<Rightarrow> pv" where
  "pv_opt_str None = PNone"
| "pv_opt_str (Some s) = PStr s"

fun pv_opt_int :: "int option \<Rightarrow> pv" where
  "pv_opt_int None = PNone"
| "pv_opt_int (Some n) = PInt n"

text \<open>The \<open>"event"\<close> object of a payload.\<close>

definition payload_event :: "Event \<Rightarrow> pv" where
  "payload_event ev = PDict
     [(''kind'', PStr (kind_str (ev_kind ev))),
      (''name'', pv_opt_str (ev_name ev)),
      (''contract'', safe (pv_opt_str (ev_contract ev))),
      (''block_number'', PInt (ev_block_number ev)),
      (''block_hash'', safe (PStr (ev_block_hash ev))),
      (''block_timestamp'', PInt (ev_block_timestamp ev)),
      (''tx_hash'', safe (PStr (ev_tx_hash ev))),
      (''tx_index'', pv_opt_int (ev_tx_index ev)),
      (''log_index'', pv_opt_int (ev_log_index ev)),
      (''args'', safe (PDict (ev_args ev)))]"

text \<open>\<open>now\<close> and \<open>gen_id\<close> are what the clock and the generator of delivery ids give at the call.\<close>

definition build_payload ::
  "int \<Rightarrow> string \<Rightarrow> Event \<Rightarrow> SnapshotSubscription \<Rightarrow> bool \<Rightarrow> (string, pv) dict" where
  "build_payload now gen_id event subscription replay =
     [(''subscription_id'', PStr (ss_id subscription)),
      (''subscription_name'', PStr (ss_name subscription))] @
     (case ss_business_name subscription of
        None \<Rightarrow> []
      | Some b \<Rightarrow> if b = [] then [] else [(''business_name'', PStr b)]) @
     [(''chain_id'', PStr (ev_chain_id event)),
      (''event'', payload_event event),
      (''delivered_at'', PInt now),
      (''delivery_id'', PStr gen_id)] @
     (if replay then [(''replay'', PBool True)] else [])"

section \<open>Serialisation\<close>

text \<open>The ASCII encoder: everything outside the range from space to tilde is escaped.\<close>

definition json_char :: "char \<Rightarrow> string" where
  "json_char c =
     (let n = (of_char c :: nat) in
      if n = 34 then [CHR 0x5C, CHR 0x22]
      else if n = 92 then [CHR 0x5C, CHR 0x5C]
      else if n = 10 then [CHR 0x5C, CHR ''n'']
      else if n = 13 then [CHR 0x5C, CHR ''r'']
      else if n = 9 then [CHR 0x5C, CHR ''t'']
      else if n = 12 then [CHR 0x5C, CHR ''f'']
      else if n = 8 then [CHR 0x5C, CHR ''b'']
      else if 32 \<le> n \<and> n \<le> 126 then [c]
      else CHR 0x5C # ''u00'' @ [hex_digit (int n div 16), hex_digit (int n mod 16)])"

definition json_str :: "string \<Rightarrow> string" where
  "json_str s = CHR 0x22 # concat (map json_char s) @ [CHR 0x22]"

text \<open>\<open>float_repr\<close> is \<open>float.__repr__\<close>. Values \<open>json\<close> cannot serialise raise \<open>TypeError\<close>.\<close>

fun json_dumps :: "(real \<Rightarrow> string) \<Rightarrow> pv \<Rightarrow> string res"
  and json_items :: "(real \<Rightarrow> string) \<Rightarrow> (string \<times> pv) list \<Rightarrow> string list res"
  and json_elems :: "(real \<Rightarrow> string) \<Rightarrow> pv list \<Rightarrow> string list res" where
  "json_dumps fr PNone = Inr ''null''"
| "json_dumps fr (PBool b) = Inr (if b then ''true'' else ''false'')"
| "json_dumps fr (PInt n) = Inr (int_str n)"
| "json_dumps fr (PFloat x) = Inr (fr x)"
| "json_dumps fr (PStr s) = Inr (json_str s)"
| "json_dumps fr (PBytes bs) = Inl TypeError"
| "json_dumps fr (PList xs) = rbind (json_elems fr xs) (\<lambda>ss. Inr (''['' @ join '','' ss @ '']''))"
| "json_dumps fr (PTuple xs) = rbind (json_elems fr xs) (\<lambda>ss. Inr (''['' @ join '','' ss @ '']''))"
| "json_dumps fr (PDict d) = rbind (json_items fr d) (\<lambda>ss. Inr (''{'' @ join '','' ss @ ''}''))"
| "json_elems fr [] = Inr []"
| "json_elems fr (x # xs) = rbind (json_dumps fr x) (\<lambda>s. rbind (json_elems fr xs) (\<lambda>ss. Inr (s # ss)))"
| "json_items fr [] = Inr []"
| "json_items fr ((k, x) # xs) =
     rbind (json_dumps fr x) (\<lambda>s. rbind (json_items fr xs) (\<lambda>ss. Inr ((json_str k @ '':'' @ s) # ss)))"

section \<open>What serialises\<close>

text \<open>The values JSON has: no bytes and no tuples at any depth.\<close>

fun json_value :: "pv \<Rightarrow> bool" where
  "json_value (PBytes bs) = False"
| "json_value (PTuple xs) = False"
| "json_value (PList xs) = list_all json_value xs"
| "json_value (PDict d) = list_all (\<lambda>(k, v). json_value v) d"
| "json_value v = True"

lemma safe_json_value: "json_value (safe v)"
  by (induction v rule: safe.induct) (auto simp: list_all_iff)

lemma safe_id: "json_value v \<Longrightarrow> safe v = v"
  by (induction v rule: json_value.induct) (auto simp: list_all_iff map_idI split: prod.splits)

lemma json_value_dumps:
  "json_value v \<Longrightarrow> \<exists>s. json_dumps fr v = Inr s"
  "list_all (\<lambda>(k, v). json_value v) d \<Longrightarrow> \<exists>ss. json_items fr d = Inr ss"
  "list_all json_value xs \<Longrightarrow> \<exists>ss. json_elems fr xs = Inr ss"
  by (induction fr v and fr d and fr xs rule: json_dumps_json_items_json_elems.induct) auto

lemma json_value_opt [simp]: "json_value (pv_opt_str s)" "json_value (pv_opt_int n)"
  by (cases s; simp) (cases n; simp)

lemma safe_opt [simp]: "safe (pv_opt_str s) = pv_opt_str s"
  by (cases s) simp_all

lemma payload_json_value: "json_value (PDict (build_payload now i ev sub replay))"
proof -
  have "json_value (safe (PDict (ev_args ev)))" by (rule safe_json_value)
  then show ?thesis
    by (auto simp: build_payload_def payload_event_def split: option.split)
qed

lemma payload_keys:
  "distinct (d_keys (build_payload now i ev sub replay))"
  "d_get (build_payload now i ev sub replay) ''chain_id'' = Some (PStr (ev_chain_id ev))"
  "d_get (build_payload now i ev sub replay) ''subscription_id'' = Some (PStr (ss_id sub))"
  "d_get (build_payload now i ev sub replay) ''replay'' = (if replay then Some (PBool True) else None)"
  by (auto simp: build_payload_def split: option.split)

section \<open>Properties\<close>

text \<open>What a receiver reads as \<open>payload["event"]["args"][k]\<close>.\<close>

definition payload_arg :: "(string, pv) dict \<Rightarrow> string \<Rightarrow> pv option" where
  "payload_arg p k =
     (case d_get p ''event'' of
        Some (PDict e) \<Rightarrow> (case d_get e ''args'' of Some (PDict args) \<Rightarrow> d_get args k | _ \<Rightarrow> None)
      | _ \<Rightarrow> None)"

lemma payload_arg_safe: "payload_arg (build_payload now i ev sub replay) k = map_option safe (d_get (ev_args ev) k)"
proof -
  have "d_get (map (\<lambda>(k, v). (k, safe v)) d) k = map_option safe (d_get d k)" for d
    by (induction d) auto
  then show ?thesis
    by (simp add: payload_arg_def build_payload_def payload_event_def split: option.split)
qed

text \<open>
  C40. A payload always serialises, whatever the decoders put into an event's arguments; arguments
  that are JSON already are passed on unchanged, and bytes are passed on as hexadecimal text from
  which they can be read back.
\<close>

theorem payload_serialises:
  "(\<exists>s. json_dumps fr (PDict (build_payload now i ev sub replay)) = Inr s) \<and>
   (\<forall>k v. d_get (ev_args ev) k = Some v \<and> json_value v \<longrightarrow>
      payload_arg (build_payload now i ev sub replay) k = Some v) \<and>
   (\<forall>k bs. d_get (ev_args ev) k = Some (PBytes bs) \<longrightarrow>
      (\<exists>h. payload_arg (build_payload now i ev sub replay) k = Some (PStr (''0x'' @ h)) \<and>
         bytes_fromhex h = Inr bs))"
  using json_value_dumps(1) [OF payload_json_value] bytes_fromhex_hex
  by (auto simp: payload_arg_safe safe_id)

definition ex_bytes_event :: Event where
  "ex_bytes_event = \<lparr>ev_chain_id = ''eth'', ev_block_number = 12, ev_block_hash = ''h'',
     ev_block_timestamp = 0, ev_tx_hash = ''t'', ev_tx_index = None, ev_log_index = Some 1,
     ev_kind = MK_event, ev_contract = Some ''0xab'', ev_name = Some ''Stored'',
     ev_args = [(''id'', PInt 7), (''data'', PBytes [1, 255])], ev_raw = []\<rparr>"

theorem payload_serialises_witness:
  "\<forall>sub. payload_arg (build_payload 0 ''d1'' ex_bytes_event sub False) ''id'' = Some (PInt 7) \<and>
     (\<exists>h. payload_arg (build_payload 0 ''d1'' ex_bytes_event sub False) ''data'' = Some (PStr (''0x'' @ h)) \<and>
        bytes_fromhex h = Inr [1, 255])"
  using payload_serialises [where ev = ex_bytes_event and now = 0 and i = "''d1''" and replay = False]
  by (simp add: ex_bytes_event_def)

end
