(* ===== verification/Retry.thy ===== *)
theory Retry
  imports Py_Values
begin

text \<open>
  \<^verbatim>\<open>core/notifier/retry.py\<close>: bounded retry with exponential backoff, which every channel driver
  uses. The operation is given by its outcome at each attempt; a run returns the outcome, the
  attempts that were made and the delays slept between them. The lemmas characterise all three by
  the first attempt that ends the loop.
\<close>

section \<open>The loop\<close>

text \<open>The body of \<open>for attempt in range(1, max_attempts + 1)\<close>.\<close>

fun retry_loop ::
  "(int \<Rightarrow> 'a res) \<Rightarrow> int \<Rightarrow> real \<Rightarrow> real \<Rightarrow> int list \<Rightarrow> int list \<Rightarrow> real list \<Rightarrow>
   'a res \<times> int list \<times> real list" where
  "retry_loop op max_attempts base_delay factor [] calls sleeps =
     (Inl (RetryExhausted max_attempts), calls, sleeps)"
| "retry_loop op max_attempts base_delay factor (attempt # rest) calls sleeps =
     (case op attempt of
        Inr x \<Rightarrow> (Inr x, calls @ [attempt], sleeps)
      | Inl (RetryAbort msg) \<Rightarrow> (Inl (RetryAbort msg), calls @ [attempt], sleeps)
      | Inl e \<Rightarrow>
          if attempt \<ge> max_attempts then
            (Inl (RetryExhausted max_attempts), calls @ [attempt], sleeps)
          else
            retry_loop op max_attempts base_delay factor rest (calls @ [attempt])
              (sleeps @ [base_delay * factor ^ nat (attempt - 1)]))"

definition retry_with_backoff ::
  "(int \<Rightarrow> 'a res) \<Rightarrow> int \<Rightarrow> real \<Rightarrow> real \<Rightarrow> 'a res \<times> int list \<times> real list" where
  "retry_with_backoff op max_attempts base_delay factor =
     retry_loop op max_attempts base_delay factor [1..max_attempts] [] []"

section \<open>What ends the loop\<close>

text \<open>An outcome that is retried: any exception but \<open>RetryAbort\<close>.\<close>

definition retryable :: "'a res \<Rightarrow> bool" where
  "retryable r = (case r of Inr x \<Rightarrow> False | Inl e \<Rightarrow> (\<forall>msg. e \<noteq> RetryAbort msg))"

lemma retryable_simps [simp]:
  "\<not> retryable (Inr x)"
  "\<not> retryable (Inl (RetryAbort msg))"
  by (simp_all add: retryable_def)

lemma retry_loop_final:
  "\<not> retryable (op attempt) \<Longrightarrow>
   retry_loop op m d f (attempt # rest) calls sleeps = (op attempt, calls @ [attempt], sleeps)"
  by (auto simp: retryable_def split: sum.splits exn.splits)

lemma retry_loop_retry:
  "retryable (op attempt) \<Longrightarrow>
   retry_loop op m d f (attempt # rest) calls sleeps =
     (if attempt \<ge> m then (Inl (RetryExhausted m), calls @ [attempt], sleeps)
      else retry_loop op m d f rest (calls @ [attempt]) (sleeps @ [d * f ^ nat (attempt - 1)]))"
  by (auto simp: retryable_def split: sum.splits exn.splits)

definition backoff_delays :: "real \<Rightarrow> real \<Rightarrow> int \<Rightarrow> int \<Rightarrow> real list" where
  "backoff_delays d f i j = map (\<lambda>a. d * f ^ nat (a - 1)) [i..j - 1]"

lemma backoff_delays_rec:
  "i < j \<Longrightarrow> backoff_delays d f i j = (d * f ^ nat (i - 1)) # backoff_delays d f (i + 1) j"
  by (simp add: backoff_delays_def upto_rec1)

lemma retry_loop_stops:
  assumes "\<not> retryable (op k)" and "i \<le> k" and "k \<le> m"
    and "\<forall>a. i \<le> a \<and> a < k \<longrightarrow> retryable (op a)"
  shows "retry_loop op m d f [i..m] calls sleeps =
    (op k, calls @ [i..k], sleeps @ backoff_delays d f i k)"
  using assms
proof (induction "nat (k - i)" arbitrary: i calls sleeps)
  case 0
  then have "i = k" by simp
  with 0 show ?case
    by (simp add: upto_rec1 [of k m] retry_loop_final backoff_delays_def del: retry_loop.simps)
next
  case (Suc n)
  then have lt: "i < k" and r: "retryable (op i)" by auto
  have "retry_loop op m d f [i + 1..m] (calls @ [i]) (sleeps @ [d * f ^ nat (i - 1)]) =
      (op k, (calls @ [i]) @ [i + 1..k], (sleeps @ [d * f ^ nat (i - 1)]) @ backoff_delays d f (i + 1) k)"
    using Suc by (intro Suc.hyps(1)) auto
  then show ?case
    using lt Suc.prems
    by (simp add: upto_rec1 [of i m] upto_rec1 [of i k] retry_loop_retry [of op i, OF r]
        backoff_delays_rec [OF lt] del: retry_loop.simps)
qed

lemma retry_loop_exhausts:
  assumes "1 \<le> i" and "i \<le> m" and "\<forall>a. i \<le> a \<and> a \<le> m \<longrightarrow> retryable (op a)"
  shows "retry_loop op m d f [i..m] calls sleeps =
    (Inl (RetryExhausted m), calls @ [i..m], sleeps @ backoff_delays d f i m)"
  using assms
proof (induction "nat (m - i)" arbitrary: i calls sleeps)
  case 0
  then have "i = m" by simp
  with 0 show ?case
    by (simp add: upto_rec1 [of m m] retry_loop_retry backoff_delays_def del: retry_loop.simps)
next
  case (Suc n)
  then have lt: "i < m" and r: "retryable (op i)" by auto
  have "retry_loop op m d f [i + 1..m] (calls @ [i]) (sleeps @ [d * f ^ nat (i - 1)]) =
      (Inl (RetryExhausted m), (calls @ [i]) @ [i + 1..m],
       (sleeps @ [d * f ^ nat (i - 1)]) @ backoff_delays d f (i + 1) m)"
    using Suc by (intro Suc.hyps(1)) auto
  then show ?case
    using lt by (simp add: upto_rec1 [of i m] retry_loop_retry [of op i, OF r]
        backoff_delays_rec [OF lt] del: retry_loop.simps)
qed

lemma retry_loop_calls:
  "length (fst (snd (retry_loop op m d f as calls sleeps))) \<le> length calls + length as"
proof (induction as arbitrary: calls sleeps)
  case (Cons a as)
  then show ?case
    using Cons [of "calls @ [a]" "sleeps @ [d * f ^ nat (a - 1)]"]
    by (cases "retryable (op a)")
      (simp_all add: retry_loop_final retry_loop_retry del: retry_loop.simps)
qed simp

section \<open>Properties\<close>

text \<open>
  The loop ends at the first attempt that succeeds or aborts, with that outcome and no further
  call, having slept \<open>base_delay * factor ^ (j - 1)\<close> after each failed attempt \<open>j\<close>; when every one
  of the \<open>max_attempts\<close> attempts fails it makes exactly that many calls, sleeps one time fewer, and
  raises \<open>RetryExhausted\<close> with the number of attempts.
\<close>

theorem retry_outcome:
  assumes "1 \<le> max_attempts"
  shows "(\<forall>k. 1 \<le> k \<and> k \<le> max_attempts \<and> \<not> retryable (op k) \<and>
             (\<forall>a. 1 \<le> a \<and> a < k \<longrightarrow> retryable (op a)) \<longrightarrow>
           retry_with_backoff op max_attempts base_delay factor =
             (op k, [1..k], map (\<lambda>j. base_delay * factor ^ nat (j - 1)) [1..k - 1])) \<and>
         ((\<forall>a. 1 \<le> a \<and> a \<le> max_attempts \<longrightarrow> retryable (op a)) \<longrightarrow>
           retry_with_backoff op max_attempts base_delay factor =
             (Inl (RetryExhausted max_attempts), [1..max_attempts],
              map (\<lambda>j. base_delay * factor ^ nat (j - 1)) [1..max_attempts - 1]))"
  using assms retry_loop_stops [of op _ 1 max_attempts base_delay factor "[]" "[]"]
    retry_loop_exhausts [of 1 max_attempts op base_delay factor "[]" "[]"]
  by (auto simp: retry_with_backoff_def backoff_delays_def)

theorem retry_outcome_witness:
  "retry_with_backoff (\<lambda>a. if a = 3 then Inr ''ok'' else Inl (RuntimeError ''http 503'')) 3 1 4
     = (Inr ''ok'', [1, 2, 3], [1, 4]) \<and>
   retry_with_backoff (\<lambda>a. Inl (RuntimeError ''http 503'') :: string res) 3 1 4
     = (Inl (RetryExhausted 3), [1, 2, 3], [1, 4])"
proof -
  have "[1..3] = [1, 2, 3 :: int]" "[1..2] = [1, 2 :: int]"
    by code_simp+
  then show ?thesis
    using retry_outcome [of 3 "\<lambda>a. if a = 3 then Inr ''ok'' else Inl (RuntimeError ''http 503'')" 1 4]
      retry_outcome [of 3 "\<lambda>a. Inl (RuntimeError ''http 503'') :: string res" 1 4]
    by (auto simp: retryable_def dest: spec [of _ "3 :: int"])
qed

text \<open>
  A call that may not be repeated is not: after \<open>RetryAbort\<close> (an HTTP 4xx) no further attempt is
  made, whatever the number of attempts allowed, and no attempt is made at all when none is allowed.
\<close>

theorem retry_call_bound:
  "length (fst (snd (retry_with_backoff op max_attempts base_delay factor))) \<le> nat max_attempts \<and>
   (op 1 = Inl (RetryAbort msg) \<and> 1 \<le> max_attempts \<longrightarrow>
      retry_with_backoff op max_attempts base_delay factor = (Inl (RetryAbort msg), [1], [])) \<and>
   (max_attempts \<le> 0 \<longrightarrow>
      retry_with_backoff op max_attempts base_delay factor = (Inl (RetryExhausted max_attempts), [], []))"
  using retry_loop_calls [of op max_attempts base_delay factor "[1..max_attempts]" "[]" "[]"]
  by (auto simp: retry_with_backoff_def upto_rec1 [of 1 max_attempts])

theorem retry_call_bound_witness:
  "retry_with_backoff (\<lambda>a. Inl (RetryAbort ''http 404'') :: string res) 5 1 4
     = (Inl (RetryAbort ''http 404''), [1], [])"
  using retry_call_bound [of "\<lambda>a. Inl (RetryAbort ''http 404'') :: string res" 5 1 4 "''http 404''"]
  by simp

end
