(* ===== verification/Channels.thy ===== *)
theory Channels
  imports Payload Retry
begin

text \<open>
  The five channel drivers: \<^verbatim>\<open>core/notifier/channel.py\<close>, \<^verbatim>\<open>http.py\<close>, \<^verbatim>\<open>redis_streams.py\<close>, \<^verbatim>\<open>kafka.py\<close>,
  \<^verbatim>\<open>rabbitmq.py\<close> and \<^verbatim>\<open>websocket.py\<close>. A driver serialises the payload, prepares one transmission
  and runs it under \<open>retry_with_backoff\<close> with the retry settings of its configuration.

  The network and the client libraries are a parameter: \<open>net w k\<close> is what the \<open>k\<close>-th attempt to
  transmit \<open>w\<close> gives, an exception or, for HTTP, a status code (for the others the number is not
  looked at). \<open>conn\<close> and \<open>clo\<close> are the outcomes of opening and closing a client.

  \<open>channel_driver\<close> is the contract the notifier relies on: a send that returns was accepted by exactly
  one transmission, its last, and a send that raises by none.
\<close>

section \<open>Registry of driver classes\<close>

text \<open>
  \<open>__init_subclass__\<close> and \<open>register_channel\<close>. A class is given by its identity and its two class
  attributes, \<open>None\<close> when absent.
\<close>

record ChannelClass =
  cc_name :: string
  cc_type :: "pv option"
  cc_config_schema :: "pv option"

definition register_channel ::
  "string \<Rightarrow> ChannelClass \<Rightarrow> (string, ChannelClass) dict \<Rightarrow> (string, ChannelClass) dict res" where
  "register_channel t cls reg =
     (if d_has reg t \<and> d_get reg t \<noteq> Some cls then Inl ValueError else Inr (d_set t cls reg))"

definition init_subclass ::
  "ChannelClass \<Rightarrow> (string, ChannelClass) dict \<Rightarrow> (string, ChannelClass) dict res" where
  "init_subclass cls reg =
     (case cc_type cls of
        Some (PStr t) \<Rightarrow>
          if t = [] then Inl TypeError
          else (case cc_config_schema cls of
                  Some (PDict sch) \<Rightarrow> register_channel t cls reg
                | _ \<Rightarrow> Inl TypeError)
      | _ \<Rightarrow> Inl TypeError)"

section \<open>Configuration values\<close>

definition upper_char :: "char \<Rightarrow> char" where
  "upper_char c = (let n = (of_char c :: nat) in if 97 \<le> n \<and> n \<le> 122 then char_of (n - 32) else c)"

definition upper :: "string \<Rightarrow> string" where
  "upper s = map upper_char s"

text \<open>\<open>config[k]\<close>, \<open>config.get(k)\<close> and \<open>config.get(k, default)\<close> are \<^const>\<open>d_index\<close>, and:\<close>

definition cfg_get :: "(string, pv) dict \<Rightarrow> string \<Rightarrow> pv" where
  "cfg_get d k = d_get_default d k PNone"

text \<open>\<open>dict(v)\<close>: a mapping, or an iterable of pairs. A header name that is not a string is refused.\<close>

definition pair_of :: "pv \<Rightarrow> (string \<times> pv) res" where
  "pair_of v = rbind (py_iter v) (\<lambda>xs.
     case xs of [PStr k, w] \<Rightarrow> Inr (k, w) | [_, _] \<Rightarrow> Inl TypeError | _ \<Rightarrow> Inl ValueError)"

definition py_dict :: "pv \<Rightarrow> (string, pv) dict res" where
  "py_dict v =
     (case v of
        PDict d \<Rightarrow> Inr d
      | _ \<Rightarrow> rbind (py_iter v) (\<lambda>xs. rbind (rmap pair_of xs) (\<lambda>ps. Inr (dict_of ps))))"

text \<open>
  The library functions a driver uses: \<open>float.__repr__\<close> (in \<open>json.dumps\<close>), \<open>float(s)\<close> on a string,
  and the hexadecimal HMAC-SHA256 of a body under a secret.
\<close>

record ChannelEnv =
  ce_float_repr :: "real \<Rightarrow> string"
  ce_float :: "string \<Rightarrow> real res"
  ce_hmac :: "string \<Rightarrow> string \<Rightarrow> string"

definition py_float :: "ChannelEnv \<Rightarrow> pv \<Rightarrow> real res" where
  "py_float E v =
     (case v of
        PStr s \<Rightarrow> ce_float E s
      | _ \<Rightarrow> (case num_value v of Some x \<Rightarrow> Inr x | None \<Rightarrow> Inl TypeError))"

section \<open>Transmissions and retries\<close>

datatype Wire =
    HttpRequest string pv "(string, pv) dict" string
  | XAdd bool pv string pv
  | Produce pv "string option" string
  | AmqpPublish "pv option" pv string
  | PubSub pv string

type_synonym net = "Wire \<Rightarrow> int \<Rightarrow> int res"

type_synonym sent = "unit res \<times> int list \<times> real list"

text \<open>\<open>Channel._retry_config\<close>\<close>

definition retry_config :: "(string, pv) dict \<Rightarrow> (pv \<times> pv \<times> pv) res" where
  "retry_config cfg =
     (let retry = d_get_default cfg ''retry'' (PDict [])
      in rbind (pv_get_or retry ''max_attempts'' (PInt 3)) (\<lambda>m.
         rbind (pv_get_or retry ''base_delay'' (PFloat 1)) (\<lambda>d.
         rbind (pv_get_or retry ''backoff_factor'' (PFloat 4)) (\<lambda>f. Inr (m, d, f)))))"

text \<open>
  \<open>retry_with_backoff\<close> on values taken from the configuration as they are: \<open>range\<close> needs an integer,
  and a delay that is not a number raises \<open>TypeError\<close> at the first sleep.
\<close>

definition retry_untyped_delay :: "(int \<Rightarrow> unit res) \<Rightarrow> int \<Rightarrow> sent" where
  "retry_untyped_delay op m =
     (if m < 1 then (Inl (RetryExhausted m), [], [])
      else if retryable (op 1) then
        (if 1 \<ge> m then (Inl (RetryExhausted m), [1], []) else (Inl TypeError, [1], []))
      else (op 1, [1], []))"

fun int_like :: "pv \<Rightarrow> int option" where
  "int_like (PInt n) = Some n"
| "int_like (PBool b) = Some (if b then 1 else 0)"
| "int_like v = None"

definition retry_op :: "(int \<Rightarrow> unit res) \<Rightarrow> pv \<times> pv \<times> pv \<Rightarrow> sent" where
  "retry_op op = (\<lambda>(m, d, f).
     case int_like m of
       None \<Rightarrow> (Inl TypeError, [], [])
     | Some n \<Rightarrow>
         (case (num_value d, num_value f) of
            (Some x, Some y) \<Rightarrow> retry_with_backoff op n x y
          | _ \<Rightarrow> retry_untyped_delay op n))"

text \<open>The common tail of every \<open>send\<close>: the prepared operation under the configured retries.\<close>

definition send_prepared :: "(string, pv) dict \<Rightarrow> (int \<Rightarrow> unit res) res \<Rightarrow> sent" where
  "send_prepared cfg prep =
     (case prep of
        Inl e \<Rightarrow> (Inl e, [], [])
      | Inr op \<Rightarrow> (case retry_config cfg of Inl e \<Rightarrow> (Inl e, [], []) | Inr rc \<Rightarrow> retry_op op rc))"

definition ignore_reply :: "int res \<Rightarrow> unit res" where
  "ignore_reply r = rbind r (\<lambda>_. Inr ())"

section \<open>HTTP\<close>

record HttpChannel =
  hc_config :: "(string, pv) dict"
  hc_url :: pv
  hc_method :: string
  hc_headers :: "(string, pv) dict"
  hc_hmac_secret :: pv
  hc_timeout :: real
  hc_client :: bool

definition http_init :: "ChannelEnv \<Rightarrow> (string, pv) dict \<Rightarrow> HttpChannel res" where
  "http_init E config =
     rbind (d_index config ''url'') (\<lambda>url.
     rbind (case d_get_default config ''method'' (PStr ''POST'') of PStr s \<Rightarrow> Inr (upper s) | _ \<Rightarrow> Inl AttributeError) (\<lambda>m.
     rbind (py_dict (d_get_default config ''headers'' (PDict []))) (\<lambda>hs.
     rbind (py_float E (d_get_default config ''timeout_seconds'' (PFloat 10))) (\<lambda>t.
       Inr \<lparr>hc_config = config, hc_url = url, hc_method = m, hc_headers = hs,
            hc_hmac_secret = cfg_get config ''hmac_secret'', hc_timeout = t, hc_client = False\<rparr>))))"

text \<open>\<open>_post_once\<close>; the text of the exception names the status and the URL.\<close>

definition http_error_text :: "HttpChannel \<Rightarrow> int \<Rightarrow> string" where
  "http_error_text ch st = ''http '' @ int_str st @ '' from '' @ (case hc_url ch of PStr u \<Rightarrow> u | _ \<Rightarrow> [])"

definition post_once :: "net \<Rightarrow> HttpChannel \<Rightarrow> string \<Rightarrow> (string, pv) dict \<Rightarrow> int \<Rightarrow> unit res" where
  "post_once net ch body headers attempt =
     rbind (net (HttpRequest (hc_method ch) (hc_url ch) headers body) attempt) (\<lambda>status_code.
       if 200 \<le> status_code \<and> status_code < 300 then Inr ()
       else if 400 \<le> status_code \<and> status_code < 500 \<and> status_code \<notin> {408, 429}
         then Inl (RetryAbort (http_error_text ch status_code))
       else Inl (RuntimeError (http_error_text ch status_code)))"

text \<open>\<open>headers\<close> with the content type and, under a secret, the signature.\<close>

definition http_headers :: "ChannelEnv \<Rightarrow> HttpChannel \<Rightarrow> string \<Rightarrow> (string, pv) dict res" where
  "http_headers E ch body =
     (let headers = d_setdefault ''Content-Type'' (PStr ''application/json'') (hc_headers ch)
      in if \<not> py_truthy (hc_hmac_secret ch) then Inr headers
         else case hc_hmac_secret ch of
             PStr secret \<Rightarrow> Inr (d_set ''X-Signature'' (PStr (''sha256='' @ ce_hmac E secret body)) headers)
           | _ \<Rightarrow> Inl AttributeError)"

definition http_prepare :: "ChannelEnv \<Rightarrow> net \<Rightarrow> HttpChannel \<Rightarrow> (string, pv) dict \<Rightarrow> (int \<Rightarrow> unit res) res" where
  "http_prepare E net ch payload =
     (if \<not> hc_client ch then Inl AssertionError
      else rbind (json_dumps (ce_float_repr E) (PDict payload)) (\<lambda>body.
           rbind (http_headers E ch body) (\<lambda>headers. Inr (post_once net ch body headers))))"

definition http_send :: "ChannelEnv \<Rightarrow> net \<Rightarrow> HttpChannel \<Rightarrow> (string, pv) dict \<Rightarrow> sent" where
  "http_send E net ch payload = send_prepared (hc_config ch) (http_prepare E net ch payload)"

section \<open>Redis streams\<close>

record RedisStreamsChannel =
  rc_config :: "(string, pv) dict"
  rc_stream :: pv
  rc_maxlen :: pv
  rc_redis_url :: pv
  rc_own_client :: bool

definition redis_streams_init :: "(string, pv) dict \<Rightarrow> RedisStreamsChannel res" where
  "redis_streams_init config =
     rbind (d_index config ''stream'') (\<lambda>s.
       Inr \<lparr>rc_config = config, rc_stream = s, rc_maxlen = cfg_get config ''maxlen'',
            rc_redis_url = cfg_get config ''redis_url'', rc_own_client = False\<rparr>)"

text \<open>The fields of \<open>XAdd\<close>: own or shared client, stream, body, \<open>maxlen\<close> (\<open>None\<close> for no trimming).\<close>

definition xadd_once :: "net \<Rightarrow> RedisStreamsChannel \<Rightarrow> string \<Rightarrow> int \<Rightarrow> unit res" where
  "xadd_once net ch body attempt =
     ignore_reply (net (XAdd (rc_own_client ch) (rc_stream ch) body (rc_maxlen ch)) attempt)"

definition redis_streams_prepare ::
  "ChannelEnv \<Rightarrow> net \<Rightarrow> RedisStreamsChannel \<Rightarrow> (string, pv) dict \<Rightarrow> (int \<Rightarrow> unit res) res" where
  "redis_streams_prepare E net ch payload =
     rbind (json_dumps (ce_float_repr E) (PDict payload)) (\<lambda>body. Inr (xadd_once net ch body))"

definition redis_streams_send :: "ChannelEnv \<Rightarrow> net \<Rightarrow> RedisStreamsChannel \<Rightarrow> (string, pv) dict \<Rightarrow> sent" where
  "redis_streams_send E net ch payload = send_prepared (rc_config ch) (redis_streams_prepare E net ch payload)"

section \<open>Kafka\<close>

record KafkaChannel =
  kc_config :: "(string, pv) dict"
  kc_bootstrap_servers :: pv
  kc_topic :: pv
  kc_key :: pv
  kc_compression :: pv
  kc_linger_ms :: pv
  kc_batch_size :: pv
  kc_acks :: pv
  kc_producer :: bool

definition kafka_init :: "(string, pv) dict \<Rightarrow> KafkaChannel res" where
  "kafka_init config =
     rbind (d_index config ''bootstrap_servers'') (\<lambda>b.
     rbind (d_index config ''topic'') (\<lambda>t.
       Inr \<lparr>kc_config = config, kc_bootstrap_servers = b, kc_topic = t,
            kc_key = cfg_get config ''key'',
            kc_compression = d_get_default config ''compression_type'' (PStr ''none''),
            kc_linger_ms = d_get_default config ''linger_ms'' (PInt 10),
            kc_batch_size = d_get_default config ''batch_size'' (PInt 16384),
            kc_acks = d_get_default config ''acks'' (PStr ''1''),
            kc_producer = False\<rparr>))"

text \<open>\<open>self._key.encode() if self._key else None\<close>, evaluated at each attempt.\<close>

definition kafka_produce :: "net \<Rightarrow> KafkaChannel \<Rightarrow> string \<Rightarrow> int \<Rightarrow> unit res" where
  "kafka_produce net ch body attempt =
     rbind (if \<not> py_truthy (kc_key ch) then Inr None
            else case kc_key ch of PStr k \<Rightarrow> Inr (Some k) | _ \<Rightarrow> Inl AttributeError) (\<lambda>key.
       ignore_reply (net (Produce (kc_topic ch) key body) attempt))"

definition kafka_prepare :: "ChannelEnv \<Rightarrow> net \<Rightarrow> KafkaChannel \<Rightarrow> (string, pv) dict \<Rightarrow> (int \<Rightarrow> unit res) res" where
  "kafka_prepare E net ch payload =
     (if \<not> kc_producer ch then Inl AssertionError
      else rbind (json_dumps (ce_float_repr E) (PDict payload)) (\<lambda>body. Inr (kafka_produce net ch body)))"

definition kafka_send :: "ChannelEnv \<Rightarrow> net \<Rightarrow> KafkaChannel \<Rightarrow> (string, pv) dict \<Rightarrow> sent" where
  "kafka_send E net ch payload = send_prepared (kc_config ch) (kafka_prepare E net ch payload)"

section \<open>RabbitMQ\<close>

record RabbitMQChannel =
  qc_config :: "(string, pv) dict"
  qc_url :: pv
  qc_exchange_name :: pv
  qc_routing_key :: pv
  qc_queue_name :: pv
  qc_connection :: bool
  qc_channel :: bool

definition rabbitmq_init :: "(string, pv) dict \<Rightarrow> RabbitMQChannel res" where
  "rabbitmq_init config =
     rbind (d_index config ''url'') (\<lambda>u.
       Inr \<lparr>qc_config = config, qc_url = u,
            qc_exchange_name = d_get_default config ''exchange'' (PStr []),
            qc_routing_key = d_get_default config ''routing_key'' (PStr []),
            qc_queue_name = cfg_get config ''queue'', qc_connection = False, qc_channel = False\<rparr>)"

text \<open>No exchange name means the default exchange.\<close>

definition rabbitmq_publish :: "net \<Rightarrow> RabbitMQChannel \<Rightarrow> string \<Rightarrow> int \<Rightarrow> unit res" where
  "rabbitmq_publish net ch body attempt =
     ignore_reply (net (AmqpPublish (if py_truthy (qc_exchange_name ch) then Some (qc_exchange_name ch) else None)
       (qc_routing_key ch) body) attempt)"

definition rabbitmq_prepare :: "ChannelEnv \<Rightarrow> net \<Rightarrow> RabbitMQChannel \<Rightarrow> (string, pv) dict \<Rightarrow> (int \<Rightarrow> unit res) res" where
  "rabbitmq_prepare E net ch payload =
     (if \<not> qc_channel ch then Inl AssertionError
      else rbind (json_dumps (ce_float_repr E) (PDict payload)) (\<lambda>body. Inr (rabbitmq_publish net ch body)))"

definition rabbitmq_send :: "ChannelEnv \<Rightarrow> net \<Rightarrow> RabbitMQChannel \<Rightarrow> (string, pv) dict \<Rightarrow> sent" where
  "rabbitmq_send E net ch payload = send_prepared (qc_config ch) (rabbitmq_prepare E net ch payload)"

section \<open>WebSocket fan-out\<close>

record WebSocketChannel =
  wc_config :: "(string, pv) dict"
  wc_fanout_channel :: pv

definition websocket_init :: "(string, pv) dict \<Rightarrow> WebSocketChannel res" where
  "websocket_init config =
     rbind (d_index config ''ws_fanout_channel'') (\<lambda>c. Inr \<lparr>wc_config = config, wc_fanout_channel = c\<rparr>)"

definition ws_publish_once :: "net \<Rightarrow> WebSocketChannel \<Rightarrow> string \<Rightarrow> int \<Rightarrow> unit res" where
  "ws_publish_once net ch body attempt = ignore_reply (net (PubSub (wc_fanout_channel ch) body) attempt)"

definition websocket_prepare :: "ChannelEnv \<Rightarrow> net \<Rightarrow> WebSocketChannel \<Rightarrow> (string, pv) dict \<Rightarrow> (int \<Rightarrow> unit res) res" where
  "websocket_prepare E net ch payload =
     rbind (json_dumps (ce_float_repr E) (PDict payload)) (\<lambda>body. Inr (ws_publish_once net ch body))"

definition websocket_send :: "ChannelEnv \<Rightarrow> net \<Rightarrow> WebSocketChannel \<Rightarrow> (string, pv) dict \<Rightarrow> sent" where
  "websocket_send E net ch payload = send_prepared (wc_config ch) (websocket_prepare E net ch payload)"

section \<open>A channel of any type\<close>

datatype Channel =
    Http HttpChannel
  | RedisStreams RedisStreamsChannel
  | Kafka KafkaChannel
  | RabbitMQ RabbitMQChannel
  | WebSocket WebSocketChannel

text \<open>
  \<open>cls = CHANNEL_REGISTRY[cfg.type]; cls(config=cfg.config, bus=bus)\<close>: the worker imports all five
  drivers, so that every channel type is registered.
\<close>

definition channel_factory :: "ChannelEnv \<Rightarrow> SnapshotChannel \<Rightarrow> Channel res" where
  "channel_factory E cfg =
     (case sc_type cfg of
        CT_http \<Rightarrow> rbind (http_init E (sc_config cfg)) (\<lambda>c. Inr (Http c))
      | CT_mq \<Rightarrow> rbind (redis_streams_init (sc_config cfg)) (\<lambda>c. Inr (RedisStreams c))
      | CT_kafka \<Rightarrow> rbind (kafka_init (sc_config cfg)) (\<lambda>c. Inr (Kafka c))
      | CT_rabbitmq \<Rightarrow> rbind (rabbitmq_init (sc_config cfg)) (\<lambda>c. Inr (RabbitMQ c))
      | CT_ws \<Rightarrow> rbind (websocket_init (sc_config cfg)) (\<lambda>c. Inr (WebSocket c)))"

definition channel_start :: "(Channel \<Rightarrow> unit res) \<Rightarrow> Channel \<Rightarrow> Channel res" where
  "channel_start conn ch =
     (case ch of
        Http c \<Rightarrow> rbind (conn ch) (\<lambda>_. Inr (Http (c\<lparr>hc_client := True\<rparr>)))
      | RedisStreams c \<Rightarrow>
          if py_truthy (rc_redis_url c)
          then rbind (conn ch) (\<lambda>_. Inr (RedisStreams (c\<lparr>rc_own_client := True\<rparr>)))
          else Inr ch
      | Kafka c \<Rightarrow> rbind (conn ch) (\<lambda>_. Inr (Kafka (c\<lparr>kc_producer := True\<rparr>)))
      | RabbitMQ c \<Rightarrow> rbind (conn ch) (\<lambda>_. Inr (RabbitMQ (c\<lparr>qc_connection := True, qc_channel := True\<rparr>)))
      | WebSocket c \<Rightarrow> Inr ch)"

text \<open>A client whose closing raises stays set.\<close>

definition channel_stop :: "(Channel \<Rightarrow> unit res) \<Rightarrow> Channel \<Rightarrow> Channel res" where
  "channel_stop clo ch =
     (case ch of
        Http c \<Rightarrow> if hc_client c then rbind (clo ch) (\<lambda>_. Inr (Http (c\<lparr>hc_client := False\<rparr>))) else Inr ch
      | RedisStreams c \<Rightarrow>
          if rc_own_client c then rbind (clo ch) (\<lambda>_. Inr (RedisStreams (c\<lparr>rc_own_client := False\<rparr>))) else Inr ch
      | Kafka c \<Rightarrow> if kc_producer c then rbind (clo ch) (\<lambda>_. Inr (Kafka (c\<lparr>kc_producer := False\<rparr>))) else Inr ch
      | RabbitMQ c \<Rightarrow>
          if qc_connection c
          then rbind (clo ch) (\<lambda>_. Inr (RabbitMQ (c\<lparr>qc_connection := False, qc_channel := False\<rparr>)))
          else Inr ch
      | WebSocket c \<Rightarrow> Inr ch)"

definition channel_send :: "ChannelEnv \<Rightarrow> net \<Rightarrow> Channel \<Rightarrow> (string, pv) dict \<Rightarrow> sent" where
  "channel_send E net ch payload =
     (case ch of
        Http c \<Rightarrow> http_send E net c payload
      | RedisStreams c \<Rightarrow> redis_streams_send E net c payload
      | Kafka c \<Rightarrow> kafka_send E net c payload
      | RabbitMQ c \<Rightarrow> rabbitmq_send E net c payload
      | WebSocket c \<Rightarrow> websocket_send E net c payload)"

section \<open>The contract of a driver\<close>

lemma retry_with_backoff_cases:
  obtains
    (ends) k where "1 \<le> k" "\<not> retryable (op k)" "\<forall>j. 1 \<le> j \<and> j < k \<longrightarrow> retryable (op j)"
      "retry_with_backoff op m d f = (op k, [1..k], backoff_delays d f 1 k)"
  | (exhausts) "\<forall>j. 1 \<le> j \<and> j \<le> m \<longrightarrow> retryable (op j)"
      "\<exists>sl. retry_with_backoff op m d f = (Inl (RetryExhausted m), [1..m], sl)"
proof (cases "\<exists>k. 1 \<le> k \<and> k \<le> m \<and> \<not> retryable (op k)")
  case True
  define n where "n = (LEAST n. 1 \<le> int n \<and> int n \<le> m \<and> \<not> retryable (op (int n)))"
  from True obtain k where k: "1 \<le> k" "k \<le> m" "\<not> retryable (op k)" by blast
  then have "1 \<le> int (nat k) \<and> int (nat k) \<le> m \<and> \<not> retryable (op (int (nat k)))" by simp
  then have n: "1 \<le> int n" "int n \<le> m" "\<not> retryable (op (int n))"
    unfolding n_def by (metis (mono_tags, lifting) LeastI)+
  have least: "retryable (op j)" if "1 \<le> j" "j < int n" for j
    using that n(2) not_less_Least [of "nat j" "\<lambda>n. 1 \<le> int n \<and> int n \<le> m \<and> \<not> retryable (op (int n))"]
    by (auto simp: n_def)
  show thesis
    using n least retry_loop_stops [of op "int n" 1 m d f "[]" "[]"]
    by (intro ends [of "int n"]) (auto simp: retry_with_backoff_def)
next
  case False
  then show thesis
    using retry_loop_exhausts [of 1 m op d f "[]" "[]"]
    by (intro exhausts) (cases "1 \<le> m"; auto simp: retry_with_backoff_def)+
qed

lemma not_retryable_success: "retryable r \<Longrightarrow> r \<noteq> Inr x"
  by auto

lemma retry_op_sound:
  assumes "retry_op op rc = (r, calls, sl)"
  shows "(r = Inr () \<longrightarrow> (\<exists>k \<ge> 1. calls = [1..k] \<and> op k = Inr () \<and> (\<forall>j. 1 \<le> j \<and> j < k \<longrightarrow> op j \<noteq> Inr ()))) \<and>
         (r \<noteq> Inr () \<longrightarrow> (\<exists>k. calls = [1..k]) \<and> (\<forall>k \<in> set calls. op k \<noteq> Inr ()))"
proof -
  obtain m d f where rc: "rc = (m, d, f)" by (cases rc)
  have nil: "\<exists>k. [] = [1..k :: int]" by (rule exI [of _ 0]) simp
  consider (no_int) "int_like m = None" | (typed) n x y where "int_like m = Some n" "num_value d = Some x" "num_value f = Some y"
    | (untyped) n where "int_like m = Some n" "num_value d = None \<or> num_value f = None"
    by (cases "int_like m"; cases "num_value d"; cases "num_value f") auto
  then show ?thesis
  proof cases
    case no_int
    then show ?thesis using assms rc nil by (auto simp: retry_op_def)
  next
    case typed
    then have eq: "retry_with_backoff op n x y = (r, calls, sl)" using assms rc by (simp add: retry_op_def)
    show ?thesis
    proof (rule retry_with_backoff_cases [of op n x y])
      fix k assume k: "1 \<le> k" "\<not> retryable (op k)" "\<forall>j. 1 \<le> j \<and> j < k \<longrightarrow> retryable (op j)"
        "retry_with_backoff op n x y = (op k, [1..k], backoff_delays x y 1 k)"
      then have rk: "r = op k" "calls = [1..k]" using eq by simp_all
      have "op j \<noteq> Inr ()" if "1 \<le> j" "j < k" for j using k(3) that by fastforce
      then show ?thesis using k(1) rk by (auto simp: order.order_iff_strict)
    next
      assume "\<forall>j. 1 \<le> j \<and> j \<le> n \<longrightarrow> retryable (op j)"
        "\<exists>sl. retry_with_backoff op n x y = (Inl (RetryExhausted n), [1..n], sl)"
      then show ?thesis using eq by (auto dest: not_retryable_success)
    qed
  next
    case untyped
    then have "retry_untyped_delay op n = (r, calls, sl)"
      using assms rc by (auto simp: retry_op_def split: option.splits)
    then show ?thesis
      by (auto simp: retry_untyped_delay_def split: if_splits intro: exI [of _ 0] exI [of _ 1])
  qed
qed

text \<open>Whether the \<open>k\<close>-th transmission of a prepared send is taken by the other side.\<close>

definition accepts :: "(int \<Rightarrow> unit res) res \<Rightarrow> int \<Rightarrow> bool" where
  "accepts prep k = (case prep of Inl e \<Rightarrow> False | Inr op \<Rightarrow> op k = Inr ())"

lemma send_prepared_sound:
  assumes "send_prepared cfg prep = (r, calls, sl)"
  shows "(r = Inr () \<longrightarrow> (\<exists>k \<ge> 1. calls = [1..k] \<and> accepts prep k \<and> (\<forall>j. 1 \<le> j \<and> j < k \<longrightarrow> \<not> accepts prep j))) \<and>
         (r \<noteq> Inr () \<longrightarrow> (\<exists>k. calls = [1..k]) \<and> (\<forall>k \<in> set calls. \<not> accepts prep k))"
proof -
  have nil: "\<exists>k. [] = [1..k :: int]" by (rule exI [of _ 0]) simp
  show ?thesis
  proof (cases prep)
    case (Inl e)
    then show ?thesis using assms nil by (auto simp: send_prepared_def)
  next
    case (Inr op)
    then show ?thesis
      using assms nil retry_op_sound [of op _ r calls sl]
      by (auto simp: send_prepared_def accepts_def split: sum.splits)
  qed
qed

locale channel_driver =
  fixes send :: "'c \<Rightarrow> (string, pv) dict \<Rightarrow> sent"
    and accepted :: "'c \<Rightarrow> (string, pv) dict \<Rightarrow> int \<Rightarrow> bool"
  assumes send_returns: "send c p = (Inr (), calls, sl) \<Longrightarrow>
      \<exists>k \<ge> 1. calls = [1..k] \<and> accepted c p k \<and> (\<forall>j. 1 \<le> j \<and> j < k \<longrightarrow> \<not> accepted c p j)"
    and send_raises: "send c p = (Inl e, calls, sl) \<Longrightarrow>
      (\<exists>k. calls = [1..k]) \<and> (\<forall>k \<in> set calls. \<not> accepted c p k)"
begin

lemma accepted_count:
  "filter (accepted c p) (fst (snd (send c p))) =
     (if fst (send c p) = Inr () then [last (fst (snd (send c p)))] else [])"
proof -
  obtain r calls sl where s: "send c p = (r, calls, sl)" by (metis prod.collapse)
  show ?thesis
  proof (cases r)
    case (Inl e)
    then show ?thesis using send_raises [of c p e calls sl] s by (auto simp: filter_empty_conv)
  next
    case (Inr u)
    then obtain k where k: "1 \<le> k" "calls = [1..k]" "accepted c p k" "\<forall>j. 1 \<le> j \<and> j < k \<longrightarrow> \<not> accepted c p j"
      using send_returns [of c p calls sl] s by auto
    have "filter (accepted c p) [1..k - 1] = []" using k(4) by (auto simp: filter_empty_conv)
    then show ?thesis using k Inr s by (simp add: upto_rec2 [of 1 k])
  qed
qed

end

text \<open>Every driver, and the channel of any type, meets the contract.\<close>

lemma send_prepared_driver:
  assumes "\<And>c p. send c p = send_prepared (cfg c) (prep c p)"
  shows "channel_driver send (\<lambda>c p. accepts (prep c p))"
  by unfold_locales (auto simp: assms dest!: send_prepared_sound)

interpretation http: channel_driver "http_send E net" "\<lambda>c p. accepts (http_prepare E net c p)" for E net
  by (rule send_prepared_driver [where cfg = hc_config]) (simp add: http_send_def)

interpretation redis_streams: channel_driver "redis_streams_send E net" "\<lambda>c p. accepts (redis_streams_prepare E net c p)" for E net
  by (rule send_prepared_driver [where cfg = rc_config]) (simp add: redis_streams_send_def)

interpretation kafka: channel_driver "kafka_send E net" "\<lambda>c p. accepts (kafka_prepare E net c p)" for E net
  by (rule send_prepared_driver [where cfg = kc_config]) (simp add: kafka_send_def)

interpretation rabbitmq: channel_driver "rabbitmq_send E net" "\<lambda>c p. accepts (rabbitmq_prepare E net c p)" for E net
  by (rule send_prepared_driver [where cfg = qc_config]) (simp add: rabbitmq_send_def)

interpretation websocket: channel_driver "websocket_send E net" "\<lambda>c p. accepts (websocket_prepare E net c p)" for E net
  by (rule send_prepared_driver [where cfg = wc_config]) (simp add: websocket_send_def)

definition channel_prepare :: "ChannelEnv \<Rightarrow> net \<Rightarrow> Channel \<Rightarrow> (string, pv) dict \<Rightarrow> (int \<Rightarrow> unit res) res" where
  "channel_prepare E net ch payload =
     (case ch of
        Http c \<Rightarrow> http_prepare E net c payload
      | RedisStreams c \<Rightarrow> redis_streams_prepare E net c payload
      | Kafka c \<Rightarrow> kafka_prepare E net c payload
      | RabbitMQ c \<Rightarrow> rabbitmq_prepare E net c payload
      | WebSocket c \<Rightarrow> websocket_prepare E net c payload)"

definition channel_config :: "Channel \<Rightarrow> (string, pv) dict" where
  "channel_config ch =
     (case ch of Http c \<Rightarrow> hc_config c | RedisStreams c \<Rightarrow> rc_config c | Kafka c \<Rightarrow> kc_config c
      | RabbitMQ c \<Rightarrow> qc_config c | WebSocket c \<Rightarrow> wc_config c)"

lemma channel_send_prepared: "channel_send E net ch p = send_prepared (channel_config ch) (channel_prepare E net ch p)"
  by (cases ch) (simp_all add: channel_send_def channel_prepare_def channel_config_def http_send_def
      redis_streams_send_def kafka_send_def rabbitmq_send_def websocket_send_def)

interpretation channel: channel_driver "channel_send E net" "\<lambda>c p. accepts (channel_prepare E net c p)" for E net
  by (rule send_prepared_driver [where cfg = channel_config]) (rule channel_send_prepared)

section \<open>Properties\<close>

text \<open>
  C19. No driver transmits after the other side has accepted, and none reports success without it:
  among all attempts of one \<open>send\<close>, on any type of channel and whatever the network does, exactly one
  is accepted, the last, if \<open>send\<close> returns, and none if it raises.
\<close>

theorem channel_accepts_once:
  "filter (accepts (channel_prepare E net ch payload)) (fst (snd (channel_send E net ch payload))) =
     (if fst (channel_send E net ch payload) = Inr ()
      then [last (fst (snd (channel_send E net ch payload)))] else [])"
  by (rule channel.accepted_count)

text \<open>The statuses after which an HTTP delivery is over.\<close>

definition http_final :: "int \<Rightarrow> bool" where
  "http_final st \<longleftrightarrow> (200 \<le> st \<and> st < 300) \<or> (400 \<le> st \<and> st < 500 \<and> st \<notin> {408, 429})"

lemma post_once_status:
  "net (HttpRequest (hc_method ch) (hc_url ch) headers body) k = Inr st \<Longrightarrow>
   retryable (post_once net ch body headers k) = (\<not> http_final st) \<and>
   (post_once net ch body headers k = Inr () \<longleftrightarrow> 200 \<le> st \<and> st < 300)"
  by (auto simp: post_once_def http_final_def retryable_def)

text \<open>
  The HTTP retry policy: a delivery ends at the first answer that is a 2xx or a 4xx other than
  408 and 429, successfully exactly for a 2xx; all other answers are retried, and when the configured
  number of attempts is used up the delivery fails after exactly that many requests.
\<close>

theorem http_retry_policy:
  assumes "http_prepare E net ch payload = Inr (post_once net ch body headers)"
    and "\<forall>k. net (HttpRequest (hc_method ch) (hc_url ch) headers body) k = Inr (st k)"
    and "retry_config (hc_config ch) = Inr (PInt m, PFloat d, PFloat f)" and "1 \<le> m"
  shows "(\<forall>k. 1 \<le> k \<and> k \<le> m \<and> http_final (st k) \<and> (\<forall>j. 1 \<le> j \<and> j < k \<longrightarrow> \<not> http_final (st j)) \<longrightarrow>
            fst (snd (http_send E net ch payload)) = [1..k] \<and>
            (fst (http_send E net ch payload) = Inr () \<longleftrightarrow> 200 \<le> st k \<and> st k < 300)) \<and>
         ((\<forall>k. 1 \<le> k \<and> k \<le> m \<longrightarrow> \<not> http_final (st k)) \<longrightarrow>
            fst (http_send E net ch payload) = Inl (RetryExhausted m) \<and>
            fst (snd (http_send E net ch payload)) = [1..m])"
proof -
  let ?op = "post_once net ch body headers"
  have op: "retryable (?op k) = (\<not> http_final (st k))" "?op k = Inr () \<longleftrightarrow> 200 \<le> st k \<and> st k < 300" for k
    using post_once_status [of net ch headers body k "st k"] assms(2) by simp_all
  have send: "http_send E net ch payload = retry_loop ?op m d f [1..m] [] []"
    using assms(1,3) by (simp add: http_send_def send_prepared_def retry_op_def retry_with_backoff_def)
  show ?thesis
    using assms(4) retry_loop_stops [of ?op _ 1 m d f "[]" "[]"] retry_loop_exhausts [of 1 m ?op d f "[]" "[]"]
    by (auto simp: send op)
qed

definition ex_http :: HttpChannel where
  "ex_http = \<lparr>hc_config = [(''url'', PStr ''http://x'')], hc_url = PStr ''http://x'', hc_method = ''POST'',
     hc_headers = [], hc_hmac_secret = PNone, hc_timeout = 10, hc_client = True\<rparr>"

definition ex_env :: ChannelEnv where
  "ex_env = \<lparr>ce_float_repr = (\<lambda>x. ''1.0''), ce_float = (\<lambda>s. Inl ValueError), ce_hmac = (\<lambda>k b. k)\<rparr>"

definition ex_status :: "int \<Rightarrow> int" where
  "ex_status k = (if k = 1 then 503 else if k = 2 then 429 else 204)"

theorem http_retry_policy_witness:
  "fst (snd (http_send ex_env (\<lambda>w k. Inr (ex_status k)) ex_http [(''a'', PInt 1)])) = [1, 2, 3] \<and>
   fst (http_send ex_env (\<lambda>w k. Inr (ex_status k)) ex_http [(''a'', PInt 1)]) = Inr ()"
proof -
  let ?net = "\<lambda>w k. Inr (ex_status k)"
  let ?body = "projr (json_dumps (ce_float_repr ex_env) (PDict [(''a'', PInt 1)]))"
  let ?headers = "[(''Content-Type'', PStr ''application/json'')]"
  have prep: "http_prepare ex_env ?net ex_http [(''a'', PInt 1)] = Inr (post_once ?net ex_http ?body ?headers)"
    by (simp add: http_prepare_def http_headers_def ex_http_def d_setdefault_def d_has_def)
  have rc: "retry_config (hc_config ex_http) = Inr (PInt 3, PFloat 1, PFloat 4)"
    by (simp add: retry_config_def ex_http_def d_get_default_def pv_get_or_def)
  have three: "[1..3] = [1, 2, 3 :: int]" by code_simp
  have "\<not> http_final (ex_status j)" if "1 \<le> j" "j < 3" for j
  proof -
    from that have "j = 1 \<or> j = 2" by linarith
    then show ?thesis by (auto simp: http_final_def ex_status_def)
  qed
  moreover have "http_final (ex_status 3)" "200 \<le> ex_status 3" "ex_status 3 < 300"
    by (simp_all add: http_final_def ex_status_def)
  ultimately show ?thesis
    using http_retry_policy [OF prep _ rc, of ex_status, THEN conjunct1, rule_format, of 3] by (simp add: three)
qed

end
