(* ===== verification/Matcher.thy ===== *)
theory Matcher
  imports Snapshot Filters
begin

text \<open>
  \<^verbatim>\<open>core/matcher/matcher.py\<close>: which subscriptions an event is delivered to. The matcher indexes the
  enabled subscriptions by chain and kind; the main lemma is that the indexed lookup gives exactly
  the subscriptions a scan over the snapshot would, in the same order, and that a subscription whose
  filter raises is left out without affecting the others.
\<close>

section \<open>Operations\<close>

definition addr_norm :: "string \<Rightarrow> string" where
  "addr_norm s = (if startswith s ''0x'' then lower s else s)"

record Matcher =
  m_by_key :: "(string \<times> MatchKind, SnapshotSubscription list) dict"
  m_channels :: "(string, SnapshotChannel) dict"

text \<open>\<open>self._by_key.setdefault((s.chain_id, s.match_kind), []).append(s)\<close>, for enabled ones.\<close>

definition index_subscription ::
  "SnapshotSubscription \<Rightarrow> (string \<times> MatchKind, SnapshotSubscription list) dict \<Rightarrow>
   (string \<times> MatchKind, SnapshotSubscription list) dict" where
  "index_subscription s d =
     (if \<not> ss_enabled s then d
      else let k = (ss_chain_id s, ss_match_kind s);
               d' = d_setdefault k [] d
           in d_set k (d_get_default d' k [] @ [s]) d')"

definition matcher_init :: "ConfigSnapshot \<Rightarrow> Matcher" where
  "matcher_init snap =
     \<lparr>m_by_key = fold index_subscription (snap_subscriptions snap) [],
      m_channels = channels_by_id (snap_channels snap)\<rparr>"

text \<open>\<open>_matches\<close>\<close>

definition sub_matches :: "SnapshotSubscription \<Rightarrow> Event \<Rightarrow> bool res" where
  "sub_matches sub ev =
     (if (case ss_start_block sub of None \<Rightarrow> False | Some n \<Rightarrow> ev_block_number ev < n) then Inr False
      else if (case ss_address sub of
                 None \<Rightarrow> False
               | Some a \<Rightarrow> (case ev_contract ev of
                             None \<Rightarrow> True
                           | Some c \<Rightarrow> addr_norm a \<noteq> addr_norm c)) then Inr False
      else if ss_match_name sub \<noteq> None \<and> ev_name ev \<noteq> ss_match_name sub then Inr False
      else evaluate (ss_arg_filters sub) (ev_args ev))"

text \<open>One candidate: \<open>None\<close> when it does not match or its filter raises.\<close>

definition try_candidate ::
  "Matcher \<Rightarrow> Event \<Rightarrow> SnapshotSubscription \<Rightarrow> (SnapshotSubscription \<times> SnapshotChannel list) option" where
  "try_candidate m ev sub =
     (case sub_matches sub ev of
        Inl e \<Rightarrow> None
      | Inr False \<Rightarrow> None
      | Inr True \<Rightarrow> Some (sub, resolve_channels (m_channels m) sub))"

definition match_event :: "Matcher \<Rightarrow> Event \<Rightarrow> (SnapshotSubscription \<times> SnapshotChannel list) list" where
  "match_event m ev =
     List.map_filter (try_candidate m ev) (d_get_default (m_by_key m) (ev_chain_id ev, ev_kind ev) [])"

text \<open>\<open>[(sub, chans) for sub, chans in matcher.match(event) if chans]\<close>, as every caller filters it.\<close>

definition match_hits :: "Matcher \<Rightarrow> Event \<Rightarrow> (SnapshotSubscription \<times> SnapshotChannel list) list" where
  "match_hits m ev = filter (\<lambda>(sub, chans). chans \<noteq> []) (match_event m ev)"

section \<open>The index\<close>

abbreviation wanted :: "string \<times> MatchKind \<Rightarrow> SnapshotSubscription \<Rightarrow> bool" where
  "wanted k s \<equiv> ss_enabled s \<and> (ss_chain_id s, ss_match_kind s) = k"

lemma index_subscription_get:
  "d_get_default (index_subscription s d) k [] =
     d_get_default d k [] @ (if wanted k s then [s] else [])"
  by (auto simp: index_subscription_def Let_def d_get_default_def d_get_set d_get_setdefault d_has_def
      split: option.splits)

lemma index_fold_get:
  "d_get_default (fold index_subscription ss d) k [] = d_get_default d k [] @ filter (wanted k) ss"
  by (induction ss arbitrary: d) (simp_all add: index_subscription_get)

lemma matcher_candidates:
  "d_get_default (m_by_key (matcher_init snap)) k [] = filter (wanted k) (snap_subscriptions snap)"
  by (simp add: matcher_init_def index_fold_get) (simp add: d_get_default_def)

lemma try_candidate_iff:
  "try_candidate (matcher_init snap) ev s = Some (s', cs) \<longleftrightarrow>
     sub_matches s ev = Inr True \<and> s' = s \<and> cs = channels_for_subscription snap s"
  by (auto simp: try_candidate_def channels_for_subscription_def matcher_init_def
      split: sum.splits bool.splits)

lemma match_event_mem:
  "(s, cs) \<in> set (match_event (matcher_init snap) ev) \<longleftrightarrow>
     s \<in> set (snap_subscriptions snap) \<and> wanted (ev_chain_id ev, ev_kind ev) s \<and>
     sub_matches s ev = Inr True \<and> cs = channels_for_subscription snap s"
  by (auto simp: match_event_def matcher_candidates try_candidate_iff)

lemma match_event_scan:
  "match_event (matcher_init snap) ev =
     [(s, channels_for_subscription snap s). s \<leftarrow> snap_subscriptions snap,
        ss_enabled s, ss_chain_id s = ev_chain_id ev, ss_match_kind s = ev_kind ev,
        sub_matches s ev = Inr True]"
proof -
  have "List.map_filter (try_candidate (matcher_init snap) ev)
      (filter (wanted (ev_chain_id ev, ev_kind ev)) ss) =
    [(s, channels_for_subscription snap s). s \<leftarrow> ss,
        ss_enabled s, ss_chain_id s = ev_chain_id ev, ss_match_kind s = ev_kind ev,
        sub_matches s ev = Inr True]" for ss
    by (induction ss)
      (auto simp: List.map_filter_simps try_candidate_def channels_for_subscription_def matcher_init_def
        split: sum.splits bool.splits)
  then show ?thesis
    by (simp add: match_event_def matcher_candidates)
qed

section \<open>Properties\<close>

text \<open>
  C6. The indexed matcher is a scan: for every event it returns, in the snapshot's order, exactly
  the enabled subscriptions of the event's chain and kind whose conditions hold, each with its
  bound channels; a subscription whose filter raises is skipped and nothing else changes.
\<close>

theorem match_equals_scan:
  "match_event (matcher_init snap) ev =
     [(s, channels_for_subscription snap s). s \<leftarrow> snap_subscriptions snap,
        ss_enabled s, ss_chain_id s = ev_chain_id ev, ss_match_kind s = ev_kind ev,
        sub_matches s ev = Inr True]"
  by (rule match_event_scan)

text \<open>
  A delivered event satisfies its subscription: it is not older than the subscription's start
  block, comes from its contract up to hexadecimal case, carries its name and passes all its filters.
\<close>

theorem match_conditions:
  assumes "(s, cs) \<in> set (match_event (matcher_init snap) ev)"
  shows "(\<forall>n. ss_start_block s = Some n \<longrightarrow> n \<le> ev_block_number ev) \<and>
    (\<forall>a. ss_address s = Some a \<longrightarrow> (\<exists>c. ev_contract ev = Some c \<and> addr_norm a = addr_norm c)) \<and>
    (\<forall>nm. ss_match_name s = Some nm \<longrightarrow> ev_name ev = Some nm) \<and>
    (\<forall>e \<in> set (ss_arg_filters s). entry_result e (ev_args ev) = Inr True) \<and>
    (\<forall>c \<in> set cs. c \<in> set (snap_channels snap) \<and> sc_id c \<in> set (ss_channel_ids s))"
proof -
  have m: "sub_matches s ev = Inr True" and cs: "cs = channels_for_subscription snap s"
    using assms by (simp_all add: match_event_mem)
  then show ?thesis
    by (auto simp: sub_matches_def evaluate_True_iff channels_for_subscription_def
        split: if_splits option.splits dest: resolve_channels_sound)
qed

definition ex_sub :: SnapshotSubscription where
  "ex_sub = \<lparr>ss_id = ''s1'', ss_name = ''big transfers'', ss_chain_id = ''eth'', ss_address = Some ''0xAB'',
     ss_abi_id = None, ss_match_kind = MK_token_transfer, ss_match_name = None,
     ss_arg_filters = [(''value_gte'', PInt 5)], ss_enabled = True, ss_channel_ids = [''c1''],
     ss_start_block = Some 10, ss_business_name = None\<rparr>"

definition ex_channel :: SnapshotChannel where
  "ex_channel = \<lparr>sc_id = ''c1'', sc_name = ''hook'', sc_type = CT_http,
     sc_config = [(''url'', PStr ''http://x'')]\<rparr>"

definition ex_snapshot :: ConfigSnapshot where
  "ex_snapshot = \<lparr>snap_version = 1, snap_subscriptions = [ex_sub], snap_channels = [ex_channel],
     snap_chains = [], snap_abis = []\<rparr>"

definition ex_transfer :: Event where
  "ex_transfer = \<lparr>ev_chain_id = ''eth'', ev_block_number = 12, ev_block_hash = ''h'',
     ev_block_timestamp = 0, ev_tx_hash = ''t'', ev_tx_index = Some 0, ev_log_index = Some 1,
     ev_kind = MK_token_transfer, ev_contract = Some ''0xab'', ev_name = Some ''Transfer'',
     ev_args = [(''value'', PStr ''7'')], ev_raw = []\<rparr>"

lemma ex_transfer_matches: "(ex_sub, [ex_channel]) \<in> set (match_event (matcher_init ex_snapshot) ex_transfer)"
  by code_simp

theorem match_conditions_witness:
  "ss_start_block ex_sub = Some 10 \<and> 10 \<le> ev_block_number ex_transfer \<and> ex_channel \<in> set (snap_channels ex_snapshot)"
  using match_conditions [OF ex_transfer_matches] by (auto simp: ex_sub_def)

end
