(* ===== verification/Notifier.thy ===== *)
theory Notifier
  imports Channels Matcher
begin

text \<open>
  \<^verbatim>\<open>core/notifier/notifier.py\<close>: the notifier owns the started channels and sends an event to every
  channel of every matching subscription, concurrently, under a semaphore.

  \<open>dispatch\<close> gives the outcome of every send in the order in which the tasks are created. How the
  tasks of all dispatches interleave under the semaphore is in \<open>Dispatch_Loop\<close>.
\<close>

section \<open>State and lifecycle\<close>

record Notifier =
  nt_max_concurrency :: int
  nt_channels :: "(string, Channel) dict"
  nt_on_failure :: bool
  nt_on_success :: bool

definition notifier_init :: "int \<Rightarrow> bool \<Rightarrow> bool \<Rightarrow> Notifier" where
  "notifier_init max_concurrency on_failure on_success =
     \<lparr>nt_max_concurrency = max_concurrency, nt_channels = [], nt_on_failure = on_failure, nt_on_success = on_success\<rparr>"

text \<open>\<open>start\<close>: an exception leaves the channels started so far in place.\<close>

fun notifier_start ::
  "ChannelEnv \<Rightarrow> (Channel \<Rightarrow> unit res) \<Rightarrow> SnapshotChannel list \<Rightarrow> Notifier \<Rightarrow> exn option \<times> Notifier" where
  "notifier_start E conn [] n = (None, n)"
| "notifier_start E conn (cfg # rest) n =
     (case rbind (channel_factory E cfg) (channel_start conn) of
        Inl e \<Rightarrow> (Some e, n)
      | Inr inst \<Rightarrow> notifier_start E conn rest (n\<lparr>nt_channels := d_set (sc_id cfg) inst (nt_channels n)\<rparr>))"

text \<open>\<open>stop\<close>: every channel is stopped, exceptions are swallowed, and the channels are forgotten.\<close>

definition notifier_stop :: "(Channel \<Rightarrow> unit res) \<Rightarrow> Notifier \<Rightarrow> Channel res list \<times> Notifier" where
  "notifier_stop clo n = (map (channel_stop clo \<circ> snd) (nt_channels n), n\<lparr>nt_channels := []\<rparr>)"

section \<open>One send\<close>

text \<open>The calls of \<open>on_success\<close> and \<open>on_failure\<close>, with the exception in place of its \<open>repr\<close>.\<close>

datatype Callback =
    OnSuccess string string pv "(string, pv) dict"
  | OnFailure string string pv "(string, pv) dict" exn int

record SendTask =
  tk_channel :: Channel
  tk_payload :: "(string, pv) dict"
  tk_sub :: string
  tk_chan :: string

record SendOutcome =
  so_sub :: string
  so_chan :: string
  so_status :: string
  so_calls :: "int list"
  so_callback :: "Callback option"

text \<open>\<open>getattr(exc, "attempts", 1)\<close>\<close>

fun exn_attempts :: "exn \<Rightarrow> int" where
  "exn_attempts (RetryExhausted n) = n"
| "exn_attempts e = 1"

text \<open>\<open>_send_one\<close>; an exception of a callback is swallowed, so that its outcome is not looked at.\<close>

definition send_one :: "ChannelEnv \<Rightarrow> net \<Rightarrow> Notifier \<Rightarrow> SendTask \<Rightarrow> SendOutcome" where
  "send_one E net n t =
     (let chain = d_get_default (tk_payload t) ''chain_id'' (PStr [])
      in case channel_send E net (tk_channel t) (tk_payload t) of
           (Inr u, calls, sleeps) \<Rightarrow>
             \<lparr>so_sub = tk_sub t, so_chan = tk_chan t, so_status = ''success'', so_calls = calls,
              so_callback = (if nt_on_success n
                then Some (OnSuccess (tk_sub t) (tk_chan t) chain (tk_payload t)) else None)\<rparr>
         | (Inl e, calls, sleeps) \<Rightarrow>
             \<lparr>so_sub = tk_sub t, so_chan = tk_chan t, so_status = ''failed'', so_calls = calls,
              so_callback = (if nt_on_failure n
                then Some (OnFailure (tk_sub t) (tk_chan t) chain (tk_payload t) e (exn_attempts e)) else None)\<rparr>)"

section \<open>Dispatch\<close>

text \<open>
  The tasks \<open>dispatch\<close> creates. One payload is built per subscription, before its channels are looked
  up; \<open>clk i\<close> is the clock and the delivery id at the \<open>i\<close>-th. A channel that was not started is
  logged and skipped.
\<close>

fun dispatch_tasks ::
  "Notifier \<Rightarrow> (nat \<Rightarrow> int \<times> string) \<Rightarrow> Event \<Rightarrow> bool \<Rightarrow> (SnapshotSubscription \<times> SnapshotChannel list) list \<Rightarrow>
   SendTask list" where
  "dispatch_tasks n clk ev replay [] = []"
| "dispatch_tasks n clk ev replay ((sub, chans) # hits) =
     (let payload = build_payload (fst (clk 0)) (snd (clk 0)) ev sub replay
      in List.map_filter (\<lambda>ch_cfg.
           case d_get (nt_channels n) (sc_id ch_cfg) of
             None \<Rightarrow> None
           | Some ch \<Rightarrow> Some \<lparr>tk_channel = ch, tk_payload = payload, tk_sub = ss_id sub, tk_chan = sc_id ch_cfg\<rparr>) chans
         @ dispatch_tasks n (clk \<circ> Suc) ev replay hits)"

text \<open>\<open>net i\<close> is what the network does for the \<open>i\<close>-th task.\<close>

definition dispatch ::
  "ChannelEnv \<Rightarrow> (nat \<Rightarrow> net) \<Rightarrow> (nat \<Rightarrow> int \<times> string) \<Rightarrow> Notifier \<Rightarrow> Event \<Rightarrow>
   (SnapshotSubscription \<times> SnapshotChannel list) list \<Rightarrow> bool \<Rightarrow> SendOutcome list" where
  "dispatch E net clk n ev hits replay =
     map (\<lambda>(i, t). send_one E (net i) n t) (enumerate 0 (dispatch_tasks n clk ev replay hits))"

section \<open>Facts\<close>

text \<open>A start that did not raise has started every configured channel, and only those.\<close>

lemma notifier_start_keeps:
  "notifier_start E conn cs n = (e, n') \<Longrightarrow>
   nt_max_concurrency n' = nt_max_concurrency n \<and> nt_on_failure n' = nt_on_failure n \<and> nt_on_success n' = nt_on_success n"
  by (induction E conn cs n rule: notifier_start.induct) (auto split: sum.splits)

lemma notifier_start_keys:
  "notifier_start E conn cs n = (None, n') \<Longrightarrow>
   set (d_keys (nt_channels n')) = set (d_keys (nt_channels n)) \<union> sc_id ` set cs"
proof (induction E conn cs n rule: notifier_start.induct)
  case (2 E conn cfg rest n)
  from "2.prems" obtain inst where inst: "rbind (channel_factory E cfg) (channel_start conn) = Inr inst"
      and rest: "notifier_start E conn rest (n\<lparr>nt_channels := d_set (sc_id cfg) inst (nt_channels n)\<rparr>) = (None, n')"
    by (auto split: sum.splits)
  show ?case using "2.IH" [OF inst rest] d_keys_set [of "sc_id cfg" inst "nt_channels n"] by auto
qed simp

lemma dispatch_tasks_pairs:
  "map (\<lambda>t. (tk_sub t, tk_chan t)) (dispatch_tasks n clk ev replay hits) =
     [(ss_id s, sc_id c). (s, cs) \<leftarrow> hits, c \<leftarrow> cs, d_has (nt_channels n) (sc_id c)]"
proof (induction n clk ev replay hits rule: dispatch_tasks.induct)
  case (2 n clk ev replay sub chans hits)
  have "map (\<lambda>t. (tk_sub t, tk_chan t)) (List.map_filter (\<lambda>ch_cfg.
           case d_get (nt_channels n) (sc_id ch_cfg) of
             None \<Rightarrow> None
           | Some ch \<Rightarrow> Some \<lparr>tk_channel = ch, tk_payload = p, tk_sub = ss_id sub, tk_chan = sc_id ch_cfg\<rparr>) chans) =
      [(ss_id sub, sc_id c). c \<leftarrow> chans, d_has (nt_channels n) (sc_id c)]" for p
    by (induction chans) (auto simp: List.map_filter_simps d_has_def split: option.splits)
  with "2.IH" show ?case by (simp add: Let_def comp_def)
qed simp

lemma dispatch_tasks_payload:
  "t \<in> set (dispatch_tasks n clk ev replay hits) \<Longrightarrow>
   \<exists>i s cs. (s, cs) \<in> set hits \<and> tk_sub t = ss_id s \<and> tk_payload t = build_payload (fst (clk i)) (snd (clk i)) ev s replay"
proof (induction n clk ev replay hits rule: dispatch_tasks.induct)
  case (2 n clk ev replay sub chans hits)
  show ?case
  proof (cases "t \<in> set (dispatch_tasks n (clk \<circ> Suc) ev replay hits)")
    case True
    from "2.IH" [OF refl this] obtain i s cs where "(s, cs) \<in> set hits" "tk_sub t = ss_id s"
        "tk_payload t = build_payload (fst (clk (Suc i))) (snd (clk (Suc i))) ev s replay" by auto
    then show ?thesis by (metis list.set_intros(2))
  next
    case False
    with "2.prems" have "tk_sub t = ss_id sub" "tk_payload t = build_payload (fst (clk 0)) (snd (clk 0)) ev sub replay"
      by (auto simp: Let_def split: option.splits)
    then show ?thesis by (metis list.set_intros(1))
  qed
qed simp

lemma send_one_pair [simp]: "so_sub (send_one E net n t) = tk_sub t" "so_chan (send_one E net n t) = tk_chan t"
  by (auto simp: send_one_def Let_def split: prod.splits sum.splits)

lemma dispatch_pairs:
  "map (\<lambda>out. (so_sub out, so_chan out)) (dispatch E net clk n ev hits replay) =
     [(ss_id s, sc_id c). (s, cs) \<leftarrow> hits, c \<leftarrow> cs, d_has (nt_channels n) (sc_id c)]"
proof -
  have "map (\<lambda>out. (so_sub out, so_chan out)) (map (\<lambda>(i, t). send_one E (net i) n t) (enumerate k ts)) =
      map (\<lambda>t. (tk_sub t, tk_chan t)) ts" for k ts
    by (induction ts arbitrary: k) simp_all
  then show ?thesis by (simp add: dispatch_def dispatch_tasks_pairs)
qed

text \<open>Each send is reported through exactly one callback, which says whether the channel accepted it.\<close>

definition reported :: "SendOutcome \<Rightarrow> bool" where
  "reported out \<longleftrightarrow>
     (so_status out = ''success'' \<and> so_calls out \<noteq> [] \<and>
        (\<exists>chain p. so_callback out = Some (OnSuccess (so_sub out) (so_chan out) chain p))) \<or>
     (so_status out = ''failed'' \<and>
        (\<exists>chain p e a. so_callback out = Some (OnFailure (so_sub out) (so_chan out) chain p e a)))"

lemma send_one_reported:
  assumes "nt_on_success n" and "nt_on_failure n"
  shows "reported (send_one E net n t)"
proof -
  obtain r calls sl where s: "channel_send E net (tk_channel t) (tk_payload t) = (r, calls, sl)" by (metis prod.collapse)
  show ?thesis
  proof (cases r)
    case (Inr u)
    then obtain k where "1 \<le> k" "calls = [1..k]"
      using s channel.send_returns [of E net "tk_channel t" "tk_payload t" calls sl] by auto
    then show ?thesis using assms s Inr by (auto simp: send_one_def reported_def Let_def)
  qed (use assms s in \<open>auto simp: send_one_def reported_def Let_def\<close>)
qed

lemma dispatch_reported:
  "nt_on_success n \<Longrightarrow> nt_on_failure n \<Longrightarrow> list_all reported (dispatch E net clk n ev hits replay)"
  by (auto simp: dispatch_def list_all_iff send_one_reported)

text \<open>A stopped notifier sends nothing and reports nothing.\<close>

lemma dispatch_stopped: "dispatch E net clk (snd (notifier_stop clo n)) ev hits replay = []"
proof -
  have "dispatch_tasks n' clk ev replay hits = []" if "nt_channels n' = []" for n'
    using that
    by (induction n' clk ev replay hits rule: dispatch_tasks.induct) (auto simp: Let_def List.map_filter_def)
  then show ?thesis by (simp add: dispatch_def notifier_stop_def)
qed

section \<open>Properties\<close>

text \<open>
  C4. Delivery is complete and exact: after the notifier was started on a snapshot, dispatching an
  event sends it once to every channel bound to every subscription the event matches, in the
  snapshot's order and to nobody else, and every send is reported by exactly one callback, a success
  only after an accepted transmission.
\<close>

theorem dispatch_complete:
  assumes "notifier_start E conn (snap_channels snap) (notifier_init permits True True) = (None, n)"
  shows "map (\<lambda>out. (so_sub out, so_chan out))
           (dispatch E net clk n ev (match_hits (matcher_init snap) ev) replay) =
         [(ss_id s, sc_id c). s \<leftarrow> snap_subscriptions snap, ss_enabled s, ss_chain_id s = ev_chain_id ev,
            ss_match_kind s = ev_kind ev, sub_matches s ev = Inr True, c \<leftarrow> channels_for_subscription snap s] \<and>
         list_all reported (dispatch E net clk n ev (match_hits (matcher_init snap) ev) replay)"
proof -
  have keys: "d_has (nt_channels n) (sc_id c)" if "c \<in> set (snap_channels snap)" for c
    using notifier_start_keys [OF assms] that by (simp add: dict_simps notifier_init_def)
  have cbs: "nt_on_success n" "nt_on_failure n"
    using notifier_start_keeps [OF assms] by (simp_all add: notifier_init_def)
  have started: "list_all (\<lambda>c. d_has (nt_channels n) (sc_id c)) (channels_for_subscription snap s)" for s
    using keys by (auto simp: list_all_iff channels_for_subscription_def dest!: resolve_channels_sound)
  have all: "list_all (\<lambda>c. d_has (nt_channels n) (sc_id c)) cs \<Longrightarrow>
      [(ss_id s, sc_id c). c \<leftarrow> cs, d_has (nt_channels n) (sc_id c)] = [(ss_id s, sc_id c). c \<leftarrow> cs]" for s cs
    by (induction cs) auto
  note chans = all [OF started]
  have hits: "match_hits (matcher_init snap) ev =
      filter (\<lambda>(s, cs). cs \<noteq> []) [(s, channels_for_subscription snap s). s \<leftarrow> snap_subscriptions snap,
        ss_enabled s, ss_chain_id s = ev_chain_id ev, ss_match_kind s = ev_kind ev, sub_matches s ev = Inr True]"
    unfolding match_hits_def match_event_scan ..
  have "[(ss_id s, sc_id c). (s, cs) \<leftarrow> filter (\<lambda>(s, cs). cs \<noteq> []) [(s, channels_for_subscription snap s). s \<leftarrow> ss,
        ss_enabled s, ss_chain_id s = ev_chain_id ev, ss_match_kind s = ev_kind ev, sub_matches s ev = Inr True],
        c \<leftarrow> cs, d_has (nt_channels n) (sc_id c)] =
      [(ss_id s, sc_id c). s \<leftarrow> ss, ss_enabled s, ss_chain_id s = ev_chain_id ev,
        ss_match_kind s = ev_kind ev, sub_matches s ev = Inr True, c \<leftarrow> channels_for_subscription snap s]" for ss
    by (induction ss) (auto simp: chans)
  then show ?thesis
    using dispatch_reported [OF cbs] by (simp add: dispatch_pairs hits)
qed

definition ex_notifier :: Notifier where
  "ex_notifier = \<lparr>nt_max_concurrency = 50, nt_channels = [(''c1'', Http ex_http)], nt_on_failure = True, nt_on_success = True\<rparr>"

lemma ex_notifier_started:
  "notifier_start ex_env (\<lambda>c. Inr ()) (snap_channels ex_snapshot) (notifier_init 50 True True) = (None, ex_notifier)"
  by (simp add: ex_snapshot_def ex_channel_def notifier_init_def channel_factory_def http_init_def channel_start_def
      ex_notifier_def ex_http_def d_index_def d_get_default_def cfg_get_def py_dict_def py_float_def upper_def upper_char_def)

theorem dispatch_complete_witness:
  "map (\<lambda>out. (so_sub out, so_chan out))
     (dispatch ex_env (\<lambda>i w k. Inr 200) (\<lambda>i. (0, ''d'')) ex_notifier ex_transfer
       (match_hits (matcher_init ex_snapshot) ex_transfer) False) = [(''s1'', ''c1'')]"
proof -
  have "[(ss_id s, sc_id c). s \<leftarrow> snap_subscriptions ex_snapshot, ss_enabled s, ss_chain_id s = ev_chain_id ex_transfer,
      ss_match_kind s = ev_kind ex_transfer, sub_matches s ex_transfer = Inr True,
      c \<leftarrow> channels_for_subscription ex_snapshot s] = [(''s1'', ''c1'')]"
    by code_simp
  then show ?thesis
    using dispatch_complete [OF ex_notifier_started, where net = "\<lambda>i w k. Inr 200" and clk = "\<lambda>i. (0, ''d'')"
        and ev = ex_transfer and replay = False] by simp
qed

end
