(* ===== verification/Parser_Base.thy ===== *)
theory Parser_Base
  imports Chain_Types
begin

text \<open>
  Parsers and pipelines: \<^verbatim>\<open>core/parser/base.py\<close> and \<^verbatim>\<open>core/parser/pipeline.py\<close>.

  A parser is a Python generator. Running it yields events until it ends or raises; what it yielded
  before an exception has already been consumed. A run is therefore a list of events with an optional
  exception, together with the state it leaves behind (the ABI registry, whose caches a parser
  fills). A pipeline runs its parsers in order and goes on after one that raised.

  \<open>event_parser\<close> is the contract every parser of the program meets: events carry the identity of
  the block they were parsed from. The pipeline lemmas rest on it alone.
\<close>

section \<open>Generators\<close>

type_synonym 's gen = "(Event list \<times> exn option) \<times> 's"

abbreviation gen_events :: "'s gen \<Rightarrow> Event list" where
  "gen_events g \<equiv> fst (fst g)"

abbreviation gen_exn :: "'s gen \<Rightarrow> exn option" where
  "gen_exn g \<equiv> snd (fst g)"

text \<open>\<open>ev = f(x); if ev is not None: yield ev\<close>\<close>

fun yield_option :: "Event option res \<times> 's \<Rightarrow> 's gen" where
  "yield_option (Inl e, s) = (([], Some e), s)"
| "yield_option (Inr None, s) = (([], None), s)"
| "yield_option (Inr (Some ev), s) = (([ev], None), s)"

text \<open>\<open>for x in xs: yield from f(x)\<close>\<close>

fun gen_each :: "('a \<Rightarrow> 's \<Rightarrow> 's gen) \<Rightarrow> 'a list \<Rightarrow> 's \<Rightarrow> 's gen" where
  "gen_each f [] s = (([], None), s)"
| "gen_each f (x # xs) s =
     (case f x s of
        ((evs, Some e), s') \<Rightarrow> ((evs, Some e), s')
      | ((evs, None), s') \<Rightarrow>
          (case gen_each f xs s' of ((evs', e), s'') \<Rightarrow> ((evs @ evs', e), s'')))"

text \<open>One generator after another: the second does not run when the first raised.\<close>

definition gen_then :: "'s gen \<Rightarrow> ('s \<Rightarrow> 's gen) \<Rightarrow> 's gen" where
  "gen_then g k =
     (case g of
        ((evs, Some e), s') \<Rightarrow> ((evs, Some e), s')
      | ((evs, None), s') \<Rightarrow> (case k s' of ((evs', e), s'') \<Rightarrow> ((evs @ evs', e), s'')))"

text \<open>A pipeline: \<open>for p in parsers: try: yield from p.parse(block) except Exception: log\<close>.\<close>

fun pipeline_run :: "('b \<Rightarrow> 's \<Rightarrow> 's gen) list \<Rightarrow> 'b \<Rightarrow> 's \<Rightarrow> Event list \<times> 's" where
  "pipeline_run [] block s = ([], s)"
| "pipeline_run (p # ps) block s =
     (case p block s of ((evs, e), s') \<Rightarrow>
        (case pipeline_run ps block s' of (evs', s'') \<Rightarrow> (evs @ evs', s'')))"

definition evm_pipeline_run :: "(Block \<Rightarrow> 's \<Rightarrow> 's gen) list \<Rightarrow> Block \<Rightarrow> 's \<Rightarrow> Event list \<times> 's" where
  "evm_pipeline_run parsers block s = pipeline_run parsers block s"

definition solana_pipeline_run ::
  "(SolanaBlock \<Rightarrow> 's \<Rightarrow> 's gen) list \<Rightarrow> SolanaBlock \<Rightarrow> 's \<Rightarrow> Event list \<times> 's" where
  "solana_pipeline_run parsers block s = pipeline_run parsers block s"

section \<open>Lemmas on generators\<close>

lemma yield_option_events:
  "ev \<in> set (gen_events (yield_option r)) \<longleftrightarrow> fst r = Inr (Some ev)"
  by (cases r rule: yield_option.cases) auto

lemma gen_each_Cons_events:
  "ev \<in> set (gen_events (gen_each f (x # xs) s)) \<longleftrightarrow>
     ev \<in> set (gen_events (f x s)) \<or>
     (gen_exn (f x s) = None \<and> ev \<in> set (gen_events (gen_each f xs (snd (f x s)))))"
proof -
  obtain evs e s' where f: "f x s = ((evs, e), s')" by (metis prod.collapse)
  obtain evs' e' s'' where g: "gen_each f xs s' = ((evs', e'), s'')" by (metis prod.collapse)
  show ?thesis by (cases e) (simp_all add: f g)
qed

lemma gen_then_done [simp]: "gen_then (([], None), s) k = k s"
  by (simp add: gen_then_def split: prod.split)

lemma gen_then_return [simp]: "gen_then g (\<lambda>s. (([], None), s)) = g"
  by (simp add: gen_then_def split: prod.split option.split)

lemma gen_then_assoc: "gen_then (gen_then g k) k' = gen_then g (\<lambda>s. gen_then (k s) k')"
  by (auto simp: gen_then_def split: prod.splits option.splits)

lemma gen_each_Nil: "gen_each f [] = (\<lambda>s. (([], None), s))"
  by (rule ext) simp

lemma gen_each_Cons: "gen_each f (x # xs) s = gen_then (f x s) (gen_each f xs)"
  by (simp add: gen_then_def)

lemma gen_each_append: "gen_each f (xs @ ys) s = gen_then (gen_each f xs s) (gen_each f ys)"
proof (induction xs arbitrary: s)
  case (Cons x xs)
  have "gen_each f (xs @ ys) = (\<lambda>s. gen_then (gen_each f xs s) (gen_each f ys))"
    by (rule ext) (rule Cons.IH)
  then show ?case by (simp add: gen_each_Cons gen_then_assoc del: gen_each.simps(2))
qed simp

lemma gen_then_mem: "ev \<in> set (gen_events (gen_then g k)) \<Longrightarrow> ev \<in> set (gen_events g) \<or> (\<exists>s. ev \<in> set (gen_events (k s)))"
  by (auto simp: gen_then_def split: prod.splits option.splits) (metis fst_conv)

text \<open>An event of a loop comes from the step of one of its elements, in some state.\<close>

lemma gen_each_mem:
  "ev \<in> set (gen_events (gen_each f xs s)) \<Longrightarrow> \<exists>x \<in> set xs. \<exists>s'. ev \<in> set (gen_events (f x s'))"
proof (induction xs arbitrary: s)
  case (Cons x xs)
  then show ?case unfolding gen_each_Cons_events by (auto; blast)
qed simp

text \<open>Steps that neither raise nor use the state: a loop is a comprehension.\<close>

lemma gen_each_pure:
  "(\<And>x s. x \<in> set xs \<Longrightarrow> f x s = ((g x, None), s)) \<Longrightarrow> gen_each f xs s = ((concat (map g xs), None), s)"
  by (induction xs) simp_all

lemma gen_each_no_exn:
  "(\<And>x s. x \<in> set xs \<Longrightarrow> gen_exn (f x s) = None) \<Longrightarrow> gen_exn (gen_each f xs s) = None"
proof (induction xs arbitrary: s)
  case (Cons x xs)
  obtain evs s' where "f x s = ((evs, None), s')" using Cons.prems [of x s] by (metis list.set_intros(1) prod.collapse)
  with Cons show ?case by (auto split: prod.splits) (metis snd_conv fst_conv)
qed simp

lemma gen_each_state:
  "(\<And>x s. x \<in> set xs \<Longrightarrow> P s \<Longrightarrow> P (snd (f x s))) \<Longrightarrow> P s \<Longrightarrow> P (snd (gen_each f xs s))"
proof (induction xs arbitrary: s)
  case (Cons x xs)
  obtain evs e s' where f: "f x s = ((evs, e), s')" by (metis prod.collapse)
  have s': "P s'" using Cons.prems(1) [of x s] Cons.prems(2) f by simp
  then have "P (snd (gen_each f xs s'))" using Cons by simp
  with s' show ?case by (cases e) (auto simp: f split: prod.splits)
qed simp

text \<open>
  When the outcome of a step is the same in all states of an invariant that steps keep, the state
  can be forgotten: the loop runs as on the unit state.
\<close>

abbreviation gen_stateless :: "('a \<Rightarrow> Event list \<times> exn option) \<Rightarrow> 'a list \<Rightarrow> Event list \<times> exn option" where
  "gen_stateless g xs \<equiv> fst (gen_each (\<lambda>x s. (g x, s)) xs ())"

lemma gen_each_forget:
  assumes "\<And>x s. x \<in> set xs \<Longrightarrow> P s \<Longrightarrow> fst (f x s) = g x \<and> P (snd (f x s))" and "P s"
  shows "fst (gen_each f xs s) = gen_stateless g xs \<and> P (snd (gen_each f xs s))"
  using assms
proof (induction xs arbitrary: s)
  case (Cons x xs)
  obtain evs e s' where f: "f x s = ((evs, e), s')" by (metis prod.collapse)
  have g: "g x = (evs, e)" "P s'" using Cons.prems(1) [of x s] Cons.prems(2) f by auto
  have "fst (gen_each f xs s') = gen_stateless g xs \<and> P (snd (gen_each f xs s'))"
    using Cons g(2) by simp
  with g show ?case by (cases e) (auto simp: f split: prod.splits)
qed simp

text \<open>A loop stops at the first step that raises, keeping what was yielded so far.\<close>

lemma gen_stateless_cut:
  "(\<forall>y \<in> set pre. snd (g y) = None) \<Longrightarrow> snd (g x) = Some e \<Longrightarrow>
   gen_stateless g (pre @ x # post) = (concat (map (fst \<circ> g) pre) @ fst (g x), Some e)"
proof (induction pre)
  case Nil
  then show ?case by (cases "g x") simp
next
  case (Cons y pre)
  then show ?case by (cases "g y") (auto split: prod.splits)
qed

lemma gen_stateless_all:
  "(\<forall>y \<in> set xs. snd (g y) = None) \<Longrightarrow> gen_stateless g xs = (concat (map (fst \<circ> g) xs), None)"
proof (induction xs)
  case (Cons y xs)
  then show ?case by (cases "g y") (auto split: prod.splits)
qed simp

lemma gen_stateless_append:
  "gen_stateless g (xs @ ys) =
     (case gen_stateless g xs of
        (evs, Some e) \<Rightarrow> (evs, Some e)
      | (evs, None) \<Rightarrow> (case gen_stateless g ys of (evs', e) \<Rightarrow> (evs @ evs', e)))"
proof (induction xs)
  case (Cons x xs)
  then show ?case by (cases "g x") (auto split: prod.splits option.splits)
qed (auto split: prod.splits)

lemma gen_stateless_nested:
  "gen_stateless (\<lambda>x. gen_stateless g (h x)) xs = gen_stateless g (concat (map h xs))"
proof (induction xs)
  case (Cons x xs)
  have "gen_stateless (\<lambda>x. gen_stateless g (h x)) (x # xs) =
      (case gen_stateless g (h x) of
        (evs, Some e) \<Rightarrow> (evs, Some e)
      | (evs, None) \<Rightarrow> (case gen_stateless (\<lambda>x. gen_stateless g (h x)) xs of (evs', e) \<Rightarrow> (evs @ evs', e)))"
    by (auto split: prod.splits option.splits)
  then show ?case unfolding Cons.IH by (simp only: list.map concat.simps gen_stateless_append)
qed simp

section \<open>The contract of a parser\<close>

definition from_block :: "string \<Rightarrow> int \<Rightarrow> string \<Rightarrow> int \<Rightarrow> Event \<Rightarrow> bool" where
  "from_block chain n h ts ev \<longleftrightarrow>
     ev_chain_id ev = chain \<and> ev_block_number ev = n \<and> ev_block_hash ev = h \<and> ev_block_timestamp ev = ts"

locale event_parser =
  fixes parse :: "'b \<Rightarrow> 's \<Rightarrow> 's gen"
    and chain :: string
    and num :: "'b \<Rightarrow> int"
    and hsh :: "'b \<Rightarrow> string"
    and ts :: "'b \<Rightarrow> int"
    and kinds :: "MatchKind set"
  assumes parse_origin: "ev \<in> set (gen_events (parse b s)) \<Longrightarrow> from_block chain (num b) (hsh b) (ts b) ev"
    and parse_kind: "ev \<in> set (gen_events (parse b s)) \<Longrightarrow> ev_kind ev \<in> kinds"
begin

lemma parse_events: "list_all (\<lambda>ev. from_block chain (num b) (hsh b) (ts b) ev \<and> ev_kind ev \<in> kinds) (gen_events (parse b s))"
  by (simp add: list_all_iff parse_origin parse_kind)

end

lemma pipeline_run_mem:
  "ev \<in> set (fst (pipeline_run ps b s)) \<Longrightarrow> \<exists>p \<in> set ps. \<exists>s'. ev \<in> set (gen_events (p b s'))"
proof (induction ps arbitrary: s)
  case (Cons p ps)
  obtain evs e s' where "p b s = ((evs, e), s')" by (metis prod.collapse)
  with Cons show ?case
    by (auto split: prod.splits) (metis fst_conv)+
qed simp

text \<open>Whatever some of them raise, the events of all parsers together keep the contract.\<close>

lemma pipeline_origin:
  assumes "\<forall>p \<in> set ps. event_parser p chain num hsh ts kinds"
    and "ev \<in> set (fst (pipeline_run ps b s))"
  shows "from_block chain (num b) (hsh b) (ts b) ev \<and> ev_kind ev \<in> kinds"
  using pipeline_run_mem [OF assms(2)] assms(1)
  by (meson event_parser.parse_origin event_parser.parse_kind)

text \<open>A parser that raises costs only its own remaining events.\<close>

lemma pipeline_isolation:
  "fst (pipeline_run (p # ps) b s) = gen_events (p b s) @ fst (pipeline_run ps b (snd (p b s)))"
  by (auto split: prod.splits)

abbreviation sb_time :: "SolanaBlock \<Rightarrow> int" where
  "sb_time b \<equiv> (case sb_block_time b of None \<Rightarrow> 0 | Some t \<Rightarrow> t)"

abbreviation evm_parser :: "(Block \<Rightarrow> 's \<Rightarrow> 's gen) \<Rightarrow> string \<Rightarrow> MatchKind set \<Rightarrow> bool" where
  "evm_parser p chain kinds \<equiv>
     event_parser p chain (\<lambda>b. bh_number (blk_header b)) (\<lambda>b. bh_hash (blk_header b)) (\<lambda>b. bh_timestamp (blk_header b)) kinds"

abbreviation solana_parser :: "(SolanaBlock \<Rightarrow> 's \<Rightarrow> 's gen) \<Rightarrow> string \<Rightarrow> MatchKind set \<Rightarrow> bool" where
  "solana_parser p chain kinds \<equiv> event_parser p chain sb_slot sb_block_hash sb_time kinds"

end
