(* ===== verification/Abi_Decoder.thy ===== *)
theory Abi_Decoder
  imports Chain_Types
begin

text \<open>
  \<^verbatim>\<open>core/abi/decoder.py\<close>: canonical signatures, event and call decoding for EVM ABIs, and the Anchor
  (Solana) type resolution and value normalisation.

  The cryptographic hashes, \<open>eth_abi.decode\<close>, the borsh parser and base58 are library code: they
  are the fields of a record that every definition takes as an argument. The constructs that
  \<open>_resolve_type\<close> assembles are the datatype \<open>borsh_ty\<close>.
\<close>

section \<open>Library code\<close>

datatype borsh_ty =
    BScalar string
  | BStruct "(string \<times> borsh_ty) list"
  | BVec borsh_ty
  | BOption borsh_ty
  | BArray pv borsh_ty

record AbiLib =
  al_log_topic :: "string \<Rightarrow> byte list"
  al_selector :: "string \<Rightarrow> byte list"
  al_decode :: "string list \<Rightarrow> byte list \<Rightarrow> pv list res"
  al_sha256 :: "string \<Rightarrow> byte list"
  al_body_hash :: "pv \<Rightarrow> string"
  al_borsh :: "borsh_ty \<Rightarrow> byte list \<Rightarrow> (string, pv) dict res"
  al_b58encode :: "byte list \<Rightarrow> string"
  al_b58decode :: "string \<Rightarrow> byte list res"
  al_b64decode :: "string \<Rightarrow> byte list res"

section \<open>Signatures\<close>

lemma pv_member_size: "map_of d k = Some v \<Longrightarrow> size v < Suc (size_list (size_prod (\<lambda>x. 0) size) d)"
proof -
  assume "map_of d k = Some v"
  then have "(k, v) \<in> set d" by (rule map_of_SomeD)
  then have "size_prod (\<lambda>x. 0) size (k, v) \<le> size_list (size_prod (\<lambda>x. 0) size) d"
    by (rule size_list_estimation') simp
  then show ?thesis by simp
qed

lemma rmap_cong [fundef_cong]:
  "xs = ys \<Longrightarrow> (\<And>x. x \<in> set ys \<Longrightarrow> f x = g x) \<Longrightarrow> rmap f xs = rmap g ys"
proof -
  assume "xs = ys" and "\<And>x. x \<in> set ys \<Longrightarrow> f x = g x"
  moreover have "(\<And>x. x \<in> set zs \<Longrightarrow> f x = g x) \<Longrightarrow> rmap f zs = rmap g zs" for zs
    by (induction zs) simp_all
  ultimately show ?thesis by simp
qed

text \<open>
  \<open>_canonical_type\<close>. Components that are no list iterate over strings or numbers, on which the
  recursion fails at once.
\<close>

definition flat_components :: "pv \<Rightarrow> string list res" where
  "flat_components comps = rbind (py_iter comps) (\<lambda>xs. if xs = [] then Inr [] else Inl TypeError)"

definition render_tuple :: "string \<Rightarrow> string list \<Rightarrow> string" where
  "render_tuple t inner = ''('' @ join '','' inner @ '')'' @ drop (length ''tuple'') t"

function (sequential) canonical_type :: "pv \<Rightarrow> string res" where
  "canonical_type (PDict d) =
     (case map_of d ''type'' of
        None \<Rightarrow> Inl KeyError
      | Some (PStr t) \<Rightarrow>
          if startswith t ''tuple'' then
            (case map_of d ''components'' of
               None \<Rightarrow> Inr (render_tuple t [])
             | Some (PList cs) \<Rightarrow> rbind (rmap canonical_type cs) (\<lambda>inner. Inr (render_tuple t inner))
             | Some (PTuple cs) \<Rightarrow> rbind (rmap canonical_type cs) (\<lambda>inner. Inr (render_tuple t inner))
             | Some v \<Rightarrow> rbind (flat_components v) (\<lambda>inner. Inr (render_tuple t inner)))
          else Inr t
      | Some v \<Rightarrow> Inl AttributeError)"
| "canonical_type v = Inl TypeError"
  by pat_completeness auto

termination
proof (relation "measure size", goal_cases)
  case (2 d v t w cs c)
  then show ?case
    using pv_member_size [of d "''components''" w] size_list_estimation' [of c cs "size c" size] by simp
next
  case (3 d v t w cs c)
  then show ?case
    using pv_member_size [of d "''components''" w] size_list_estimation' [of c cs "size c" size] by simp
qed simp_all

text \<open>\<open>canonical_event_signature\<close> and \<open>canonical_function_signature\<close>: the same text on both kinds.\<close>

definition canonical_signature :: "pv \<Rightarrow> string res" where
  "canonical_signature entry =
     rbind (pv_get_or entry ''inputs'' (PList [])) (\<lambda>inputs.
     rbind (py_iter inputs) (\<lambda>is.
     rbind (rmap canonical_type is) (\<lambda>types.
     rbind (pv_index entry ''name'') (\<lambda>name.
     rbind (pv_str name) (\<lambda>n. Inr (n @ ''('' @ join '','' types @ '')''))))))"

definition event_topic0 :: "AbiLib \<Rightarrow> pv \<Rightarrow> string res" where
  "event_topic0 L event_abi =
     rbind (canonical_signature event_abi) (\<lambda>sig. Inr (''0x'' @ bytes_hex (al_log_topic L sig)))"

definition function_selector :: "AbiLib \<Rightarrow> pv \<Rightarrow> string res" where
  "function_selector L fn_abi =
     rbind (canonical_signature fn_abi) (\<lambda>sig. Inr (''0x'' @ bytes_hex (al_selector L sig)))"

section \<open>Decoding\<close>

fun split_inputs :: "pv list \<Rightarrow> pv list \<Rightarrow> pv list \<Rightarrow> (pv list \<times> pv list) res" where
  "split_inputs [] indexed not_indexed = Inr (indexed, not_indexed)"
| "split_inputs (inp # rest) indexed not_indexed =
     rbind (pv_get_or inp ''indexed'' PNone) (\<lambda>f.
       if py_truthy f then split_inputs rest (indexed @ [inp]) not_indexed
       else split_inputs rest indexed (not_indexed @ [inp]))"

definition split_indexed :: "pv \<Rightarrow> (pv list \<times> pv list) res" where
  "split_indexed event_abi =
     rbind (pv_get_or event_abi ''inputs'' (PList [])) (\<lambda>inputs.
     rbind (py_iter inputs) (\<lambda>is. split_inputs is [] []))"

definition normalize_value :: "string \<Rightarrow> pv \<Rightarrow> pv res" where
  "normalize_value t v =
     (if t = ''address'' then
        (case v of PStr s \<Rightarrow> Inr (PStr (lower s)) | _ \<Rightarrow> Inl AssertionError)
      else if (startswith t ''uint'' \<or> startswith t ''int'') \<and> \<not> endswith t '']'' then
        rbind (py_int v) (\<lambda>n. Inr (PStr (int_str n)))
      else if startswith t ''bytes'' \<and> \<not> endswith t '']'' then
        (case v of PBytes bs \<Rightarrow> Inr (PStr (''0x'' @ bytes_hex bs)) | _ \<Rightarrow> Inl AssertionError)
      else Inr v)"

text \<open>\<open>args[inp["name"]] = value\<close>\<close>

definition set_arg :: "pv \<Rightarrow> pv \<Rightarrow> (string, pv) dict \<Rightarrow> (string, pv) dict res" where
  "set_arg inp value args =
     rbind (pv_index inp ''name'') (\<lambda>n. rbind (pv_str n) (\<lambda>name. Inr (d_set name value args)))"

definition is_reference_type :: "string \<Rightarrow> bool" where
  "is_reference_type t \<longleftrightarrow> t = ''string'' \<or> t = ''bytes'' \<or> endswith t '']'' \<or> startswith t ''(''"

text \<open>One indexed topic: the raw hash for a reference type, else the decoded value.\<close>

definition decode_topic :: "AbiLib \<Rightarrow> string \<Rightarrow> string \<Rightarrow> pv res" where
  "decode_topic L t topic_hex =
     (if is_reference_type t then Inr (PStr topic_hex)
      else
        rbind (bytes_fromhex (removeprefix topic_hex ''0x'')) (\<lambda>raw.
        rbind (al_decode L [t] raw) (\<lambda>decoded.
          case decoded of [] \<Rightarrow> Inl IndexError | d # _ \<Rightarrow> normalize_value t d)))"

text \<open>The loop over \<open>zip(indexed, topics[1:], strict=True)\<close>.\<close>

fun decode_topics ::
  "AbiLib \<Rightarrow> pv list \<Rightarrow> string list \<Rightarrow> (string, pv) dict \<Rightarrow> (string, pv) dict res" where
  "decode_topics L [] [] args = Inr args"
| "decode_topics L (inp # inps) (topic_hex # topics) args =
     rbind (canonical_type inp) (\<lambda>t.
     rbind (decode_topic L t topic_hex) (\<lambda>v.
     rbind (set_arg inp v args) (\<lambda>args'. decode_topics L inps topics args')))"
| "decode_topics L inps topics args = Inl ValueError"

text \<open>The loop over \<open>zip(inputs, decoded_tuple, strict=True)\<close>, in both decoders.\<close>

fun assign_values :: "pv list \<Rightarrow> pv list \<Rightarrow> (string, pv) dict \<Rightarrow> (string, pv) dict res" where
  "assign_values [] [] args = Inr args"
| "assign_values (inp # inps) (val # vals) args =
     rbind (canonical_type inp) (\<lambda>t.
     rbind (normalize_value t val) (\<lambda>value.
     rbind (set_arg inp value args) (\<lambda>args'. assign_values inps vals args')))"
| "assign_values inps vals args = Inl ValueError"

text \<open>\<open>except (ValueError, OverflowError, EthAbiDecodingError) as exc: raise DecodeFailed\<close>\<close>

definition abi_decode :: "AbiLib \<Rightarrow> string list \<Rightarrow> byte list \<Rightarrow> pv list res" where
  "abi_decode L types raw =
     (case al_decode L types raw of
        Inr vs \<Rightarrow> Inr vs
      | Inl e \<Rightarrow>
          if e = ValueError \<or> e = ExternalError ''OverflowError'' \<or> e = ExternalError ''DecodingError''
          then Inl DecodeFailed else Inl e)"

definition decode_event ::
  "AbiLib \<Rightarrow> pv \<Rightarrow> string list \<Rightarrow> string \<Rightarrow> (string, pv) dict res" where
  "decode_event L event_abi topics data =
     rbind (split_indexed event_abi) (\<lambda>(indexed, not_indexed).
       if length topics \<noteq> 1 + length indexed then Inl DecodeFailed
       else
         rbind (decode_topics L indexed (drop 1 topics) []) (\<lambda>args.
           if not_indexed = [] then Inr args
           else
             rbind (rmap canonical_type not_indexed) (\<lambda>types.
             rbind (bytes_fromhex (removeprefix data ''0x'')) (\<lambda>raw.
             rbind (abi_decode L types raw) (\<lambda>vals. assign_values not_indexed vals args)))))"

definition decode_function_call :: "AbiLib \<Rightarrow> pv \<Rightarrow> string \<Rightarrow> (string, pv) dict res" where
  "decode_function_call L fn_abi calldata =
     rbind (function_selector L fn_abi) (\<lambda>expected.
     rbind (bytes_fromhex (removeprefix calldata ''0x'')) (\<lambda>raw.
       if length raw < 4 then Inl DecodeFailed
       else if ''0x'' @ bytes_hex (take 4 raw) \<noteq> expected then Inl DecodeFailed
       else
         rbind (pv_get_or fn_abi ''inputs'' (PList [])) (\<lambda>inputs.
         rbind (py_iter inputs) (\<lambda>is.
         rbind (rmap canonical_type is) (\<lambda>types.
         rbind (abi_decode L types (drop 4 raw)) (\<lambda>vals. assign_values is vals []))))))"

section \<open>Anchor IDLs\<close>

definition anchor_scalars :: "string list" where
  "anchor_scalars = [''bool'', ''u8'', ''u16'', ''u32'', ''u64'', ''u128'', ''i8'', ''i16'', ''i32'', ''i64'', ''i128'',
     ''bytes'', ''string'', ''pubkey'', ''publicKey'']"

definition max_type_depth :: nat where
  "max_type_depth = 8"

text \<open>The first entry of the \<open>types\<close> section with the wanted name.\<close>

fun find_type :: "pv list \<Rightarrow> pv \<Rightarrow> pv option res" where
  "find_type [] name = Inr None"
| "find_type (t # ts) name =
     rbind (pv_get_or t ''name'' PNone) (\<lambda>n. if py_eq n name then Inr (Some t) else find_type ts name)"

text \<open>
  \<open>_resolve_type\<close>; the first argument is \<open>_MAX_TYPE_DEPTH - depth\<close>, which bounds the recursion.
  \<open>resolve_fields\<close> is its loop over the fields of a struct.
\<close>

fun resolve_type :: "nat \<Rightarrow> pv \<Rightarrow> pv list \<Rightarrow> pv \<Rightarrow> borsh_ty option res"
  and resolve_fields :: "nat \<Rightarrow> pv \<Rightarrow> pv list \<Rightarrow> pv list \<Rightarrow> (string \<times> borsh_ty) list option res" where
  "resolve_type 0 types_section seen type_spec = Inr None"
| "resolve_type (Suc left) types_section seen type_spec =
     (case type_spec of
        PStr s \<Rightarrow> Inr (if s \<in> set anchor_scalars then Some (BScalar s) else None)
      | PDict d \<Rightarrow>
          (case map_of d ''defined'' of
             Some name \<Rightarrow>
               if \<not> py_hashable name then Inl TypeError
               else if list_ex (py_eq name) seen then Inr None
               else rbind (rbind (py_iter types_section) (\<lambda>ts. find_type ts name)) (\<lambda>found.
                 case found of
                   None \<Rightarrow> Inr None
                 | Some t \<Rightarrow>
                     rbind (pv_get_or t ''type'' (PDict [])) (\<lambda>kind_obj.
                     rbind (pv_get_or kind_obj ''kind'' PNone) (\<lambda>kind.
                       if \<not> py_eq kind (PStr ''struct'') then Inr None
                       else
                         rbind (pv_get_or kind_obj ''fields'' (PList [])) (\<lambda>flds.
                         rbind (py_iter flds) (\<lambda>fs.
                         rbind (resolve_fields left types_section (name # seen) fs) (\<lambda>r.
                           Inr (map_option BStruct r)))))))
           | None \<Rightarrow>
               (case map_of d ''vec'' of
                  Some inner \<Rightarrow> rbind (resolve_type left types_section seen inner) (\<lambda>r. Inr (map_option BVec r))
                | None \<Rightarrow>
                    (case map_of d ''option'' of
                       Some inner \<Rightarrow> rbind (resolve_type left types_section seen inner) (\<lambda>r. Inr (map_option BOption r))
                     | None \<Rightarrow>
                         (case map_of d ''array'' of
                            Some (PList [inner, count]) \<Rightarrow>
                              rbind (resolve_type left types_section seen inner) (\<lambda>r. Inr (map_option (BArray count) r))
                          | _ \<Rightarrow> Inr None))))
      | _ \<Rightarrow> Inr None)"
| "resolve_fields left types_section seen [] = Inr (Some [])"
| "resolve_fields left types_section seen (f # fs) =
     rbind (pv_get_or f ''type'' PNone) (\<lambda>ft.
     rbind (resolve_type left types_section seen ft) (\<lambda>r.
       case r of
         None \<Rightarrow> Inr None
       | Some resolved \<Rightarrow>
           rbind (pv_index f ''name'') (\<lambda>n.
           rbind (pv_str n) (\<lambda>name.
           rbind (resolve_fields left types_section seen fs) (\<lambda>rest.
             Inr (map_option (\<lambda>l. (name, resolved) # l) rest))))))"

definition anchor_event_discriminator :: "AbiLib \<Rightarrow> string \<Rightarrow> byte list" where
  "anchor_event_discriminator L event_name = take 8 (al_sha256 L (''event:'' @ event_name))"

definition anchor_call_discriminator :: "AbiLib \<Rightarrow> string \<Rightarrow> byte list" where
  "anchor_call_discriminator L fn_name = take 8 (al_sha256 L (''global:'' @ fn_name))"

definition build_anchor_event_struct :: "pv \<Rightarrow> pv \<Rightarrow> borsh_ty option res" where
  "build_anchor_event_struct idl_event types_section =
     (let ts = (if py_truthy types_section then types_section else PList [])
      in rbind (pv_get_or idl_event ''fields'' (PList [])) (\<lambda>flds.
         rbind (py_iter flds) (\<lambda>fs.
         rbind (resolve_fields max_type_depth ts [] fs) (\<lambda>r. Inr (map_option BStruct r)))))"

function (sequential) normalize_borsh_value :: "AbiLib \<Rightarrow> pv \<Rightarrow> pv" where
  "normalize_borsh_value L (PBytes bs) = (if length bs = 32 then PStr (al_b58encode L bs) else PBytes bs)"
| "normalize_borsh_value L (PInt n) = (if \<bar>n\<bar> > 2 ^ 53 then PStr (int_str n) else PInt n)"
| "normalize_borsh_value L (PList xs) = PList (map (normalize_borsh_value L) xs)"
| "normalize_borsh_value L (PDict d) =
     PDict (map (\<lambda>kv. (fst kv, normalize_borsh_value L (snd kv))) (filter (\<lambda>kv. fst kv \<noteq> ''_io'') d))"
| "normalize_borsh_value L v = v"
  by pat_completeness auto

termination
proof (relation "measure (size \<circ> snd)", goal_cases)
  case (2 L xs x)
  then show ?case using size_list_estimation' [of x xs "size x" size] by simp
next
  case (3 L d kv)
  then have "size_prod (\<lambda>x. 0) size kv \<le> size_list (size_prod (\<lambda>x. 0) size) d"
    by (intro size_list_estimation') auto
  then show ?case by (cases kv) simp
qed simp

definition decode_anchor_borsh :: "AbiLib \<Rightarrow> borsh_ty \<Rightarrow> byte list \<Rightarrow> (string, pv) dict res" where
  "decode_anchor_borsh L struct body_bytes =
     (case al_borsh L struct body_bytes of
        Inl e \<Rightarrow> Inl DecodeFailed
      | Inr parsed \<Rightarrow>
          Inr (map (\<lambda>kv. (fst kv, normalize_borsh_value L (snd kv))) (filter (\<lambda>kv. fst kv \<noteq> ''_io'') parsed)))"

section \<open>What decoding delivers\<close>

definition input_name :: "pv \<Rightarrow> string option" where
  "input_name inp = (case pv_index inp ''name'' of Inr (PStr s) \<Rightarrow> Some s | _ \<Rightarrow> None)"

lemma pv_str_iff [res_simps]: "pv_str v = Inr s \<longleftrightarrow> v = PStr s"
  by (cases v) auto

lemma set_arg_Inr:
  "set_arg inp value args = Inr args' \<longleftrightarrow> (\<exists>n. input_name inp = Some n \<and> args' = d_set n value args)"
  by (auto simp: set_arg_def input_name_def res_simps split: sum.splits pv.splits)

definition arg_names :: "(string, pv) dict \<Rightarrow> string option set" where
  "arg_names args = Some ` set (d_keys args)"

lemma arg_names_simps [simp]:
  "arg_names [] = {}"
  "arg_names (d_set n v args) = insert (Some n) (arg_names args)"
  unfolding arg_names_def d_keys_set by simp_all

lemma decode_topics_keys:
  "decode_topics L inps topics args = Inr args' \<Longrightarrow> arg_names args' = arg_names args \<union> input_name ` set inps"
proof (induction L inps topics args arbitrary: args' rule: decode_topics.induct)
  case (2 L inp inps topic_hex topics args)
  then obtain n w where "input_name inp = Some n" "decode_topics L inps topics (d_set n w args) = Inr args'"
    by (auto simp: res_simps set_arg_Inr)
  with "2.IH" show ?case by auto
qed auto

lemma assign_values_keys:
  "assign_values inps vals args = Inr args' \<Longrightarrow> arg_names args' = arg_names args \<union> input_name ` set inps"
proof (induction inps vals args arbitrary: args' rule: assign_values.induct)
  case (2 inp inps val vals args)
  then obtain n w where "input_name inp = Some n" "assign_values inps vals (d_set n w args) = Inr args'"
    by (auto simp: res_simps set_arg_Inr)
  with "2.IH" show ?case by auto
qed auto

lemma split_inputs_set:
  "split_inputs is a b = Inr (ind, nind) \<Longrightarrow> set ind \<union> set nind = set is \<union> set a \<union> set b"
proof (induction "is" arbitrary: a b)
  case (Cons inp rest)
  then have "split_inputs rest (a @ [inp]) b = Inr (ind, nind) \<or> split_inputs rest a (b @ [inp]) = Inr (ind, nind)"
    by (auto simp: res_simps split: if_splits)
  with Cons.IH [of "a @ [inp]" b] Cons.IH [of a "b @ [inp]"] show ?case by auto
qed auto

definition event_inputs :: "pv \<Rightarrow> pv list res" where
  "event_inputs entry = rbind (pv_get_or entry ''inputs'' (PList [])) py_iter"

lemma split_indexed_set:
  "split_indexed ev = Inr (ind, nind) \<Longrightarrow> \<exists>is. event_inputs ev = Inr is \<and> set ind \<union> set nind = set is"
  by (auto simp: split_indexed_def event_inputs_def res_simps dest: split_inputs_set)

lemma decode_event_keys:
  assumes "decode_event L ev topics data = Inr args"
  shows "\<exists>is. event_inputs ev = Inr is \<and> arg_names args = input_name ` set is"
proof -
  obtain ind nind where split: "split_indexed ev = Inr (ind, nind)"
    using assms by (auto simp: decode_event_def res_simps)
  then obtain "is" where "is": "event_inputs ev = Inr is" "set ind \<union> set nind = set is"
    using split_indexed_set by blast
  obtain args1 where a1: "decode_topics L ind (drop 1 topics) [] = Inr args1"
    and a2: "(nind = [] \<and> args = args1) \<or> (\<exists>vals. assign_values nind vals args1 = Inr args)"
    using assms split by (auto simp: decode_event_def res_simps split: if_splits)
  have "arg_names args1 = input_name ` set ind"
    using decode_topics_keys [OF a1] by simp
  with a2 assign_values_keys "is"(2) have "arg_names args = input_name ` set is"
    by (auto simp flip: "is"(2) simp: image_Un)
  with "is"(1) show ?thesis by blast
qed

lemma decode_call_keys:
  assumes "decode_function_call L fn data = Inr args"
  shows "\<exists>is. event_inputs fn = Inr is \<and> arg_names args = input_name ` set is"
  using assms
  by (fastforce simp: decode_function_call_def event_inputs_def res_simps split: if_splits
      dest: assign_values_keys)

section \<open>Integers in decoded Anchor values\<close>

text \<open>No integer outside the range a JSON reader with doubles keeps exact.\<close>

function (sequential) ints_safe :: "pv \<Rightarrow> bool" where
  "ints_safe (PInt n) = (\<bar>n\<bar> \<le> 2 ^ 53)"
| "ints_safe (PList xs) = list_all ints_safe xs"
| "ints_safe (PTuple xs) = list_all ints_safe xs"
| "ints_safe (PDict d) = list_all (\<lambda>kv. ints_safe (snd kv)) d"
| "ints_safe v = True"
  by pat_completeness auto

termination
proof (relation "measure size", goal_cases)
  case (4 d kv)
  then have "size_prod (\<lambda>x. 0) size kv \<le> size_list (size_prod (\<lambda>x. 0) size) d"
    by (intro size_list_estimation') auto
  then show ?case by (cases kv) simp
qed (auto intro: less_Suc_eq_le [THEN iffD2] size_list_estimation')

text \<open>What the borsh parser yields: numbers, strings, bytes, lists and containers, no tuples.\<close>

function (sequential) no_tuple :: "pv \<Rightarrow> bool" where
  "no_tuple (PTuple xs) = False"
| "no_tuple (PList xs) = list_all no_tuple xs"
| "no_tuple (PDict d) = list_all (\<lambda>kv. no_tuple (snd kv)) d"
| "no_tuple v = True"
  by pat_completeness auto

termination
proof (relation "measure size", goal_cases)
  case (3 d kv)
  then have "size_prod (\<lambda>x. 0) size kv \<le> size_list (size_prod (\<lambda>x. 0) size) d"
    by (intro size_list_estimation') auto
  then show ?case by (cases kv) simp
qed (auto intro: less_Suc_eq_le [THEN iffD2] size_list_estimation')

lemma normalize_borsh_safe: "no_tuple v \<Longrightarrow> ints_safe (normalize_borsh_value L v)"
  by (induction L v rule: normalize_borsh_value.induct) (auto simp: list_all_iff)

section \<open>Properties\<close>

text \<open>A library instance that satisfies the documented shapes, for concrete evaluation.\<close>

definition ascii_bytes :: "string \<Rightarrow> byte list" where
  "ascii_bytes s = map (\<lambda>c. word_of_int (of_char c)) s"

definition ex_lib :: AbiLib where
  "ex_lib = \<lparr>al_log_topic = (\<lambda>s. take 32 (ascii_bytes s @ replicate 32 0)),
     al_selector = (\<lambda>s. take 4 (ascii_bytes s @ replicate 4 0)),
     al_decode = (\<lambda>types raw. Inr (map (\<lambda>t. PInt (le_val raw)) types)),
     al_sha256 = ascii_bytes, al_body_hash = (\<lambda>b. ''h''),
     al_borsh = (\<lambda>ty raw. Inr [(''n'', PInt (le_val raw))]),
     al_b58encode = bytes_hex, al_b58decode = bytes_fromhex, al_b64decode = bytes_fromhex\<rparr>"

text \<open>
  A decoded event or call has an argument for every input its ABI entry declares, under the
  input's name, and no other; an event is decoded only when the log has one topic per indexed input
  after the signature topic.
\<close>

theorem decoded_arguments:
  "(decode_event L entry topics data = Inr args \<longrightarrow>
     (\<exists>is ind nind. event_inputs entry = Inr is \<and> arg_names args = input_name ` set is \<and>
        split_indexed entry = Inr (ind, nind) \<and> length topics = 1 + length ind)) \<and>
   (decode_function_call L entry data = Inr args \<longrightarrow>
     (\<exists>is. event_inputs entry = Inr is \<and> arg_names args = input_name ` set is))"
proof -
  have "\<exists>ind nind. split_indexed entry = Inr (ind, nind) \<and> length topics = 1 + length ind"
    if "decode_event L entry topics data = Inr args"
    using that by (auto simp: decode_event_def res_simps split: if_splits)
  then show ?thesis
    using decode_event_keys [of L entry topics data args] decode_call_keys [of L entry data args] by auto
qed

definition ex_event_abi :: pv where
  "ex_event_abi = PDict [(''type'', PStr ''event''), (''name'', PStr ''Paid''),
     (''inputs'', PList
       [PDict [(''name'', PStr ''who''), (''type'', PStr ''uint256''), (''indexed'', PBool True)],
        PDict [(''name'', PStr ''amount''), (''type'', PStr ''uint256'')]])]"

theorem decoded_arguments_witness:
  "\<exists>args. decode_event ex_lib ex_event_abi [''0xaa'', ''0x07''] ''0x0901'' = Inr args \<and>
     arg_names args = {Some ''who'', Some ''amount''}"
proof -
  have run: "decode_event ex_lib ex_event_abi [''0xaa'', ''0x07''] ''0x0901'' =
      Inr [(''who'', PStr ''7''), (''amount'', PStr ''265'')]"
    by code_simp
  obtain "is" where "event_inputs ex_event_abi = Inr is"
      "arg_names [(''who'', PStr ''7''), (''amount'', PStr ''265'')] = input_name ` set is"
    using decoded_arguments [of ex_lib ex_event_abi "[''0xaa'', ''0x07'']" "''0x0901''"] run by blast
  with run show ?thesis by (auto simp: arg_names_def)
qed

text \<open>
  Decoded Anchor values survive a JSON reader that keeps numbers as doubles: whatever the borsh
  parser returns, every integer left in the decoded arguments, at any depth, is at most \<open>2^53\<close> in
  magnitude; larger ones are decimal strings.
\<close>

theorem anchor_ints_safe:
  assumes "decode_anchor_borsh L struct body = Inr args"
    and "\<forall>parsed. al_borsh L struct body = Inr parsed \<longrightarrow> list_all (\<lambda>kv. no_tuple (snd kv)) parsed"
  shows "list_all (\<lambda>kv. ints_safe (snd kv) \<and> fst kv \<noteq> ''_io'') args"
  using assms
  by (cases "al_borsh L struct body")
    (auto simp: decode_anchor_borsh_def list_all_iff intro!: normalize_borsh_safe)

theorem anchor_ints_safe_witness:
  "\<exists>args. decode_anchor_borsh ex_lib (BScalar ''u64'') (le_bytes 8 (2 ^ 60)) = Inr args \<and>
     args = [(''n'', PStr (int_str (2 ^ 60)))] \<and> list_all (\<lambda>kv. ints_safe (snd kv) \<and> fst kv \<noteq> ''_io'') args"
proof -
  have run: "decode_anchor_borsh ex_lib (BScalar ''u64'') (le_bytes 8 (2 ^ 60)) = Inr [(''n'', PStr (int_str (2 ^ 60)))]"
    by (simp add: decode_anchor_borsh_def ex_lib_def le_val_le_bytes)
  with anchor_ints_safe [OF run] show ?thesis by (simp add: ex_lib_def)
qed

end
