(* ===== verification/Abi_Registry.thy ===== *)
theory Abi_Registry
  imports Abi_Decoder Snapshot
begin

text \<open>
  \<^verbatim>\<open>core/abi/registry.py\<close>: the registry of ABIs with its indexes by topic, selector and Anchor
  discriminator, and the caches in front of them. A compiled decoder is the closure over the ABI
  entry it decodes with, so it is represented by that entry.

  The main result is that the caches are invisible: whatever was looked up and refreshed before, a
  lookup gives what a registry built from the last snapshot alone would give.
\<close>

section \<open>State\<close>

datatype Decoder = EventDecoder pv | CallDecoder pv

record AbiRegistry =
  ar_abis :: "(string, SnapshotAbi) dict"
  ar_hashes :: "(string, string) dict"
  ar_decoders :: "(string \<times> string, Decoder) dict"
  ar_topic0_index :: "(string, string \<times> pv) dict"
  ar_topic0_cache :: "(string, pv \<times> Decoder) dict"
  ar_selector_index :: "(string, string \<times> pv) dict"
  ar_selector_cache :: "(string, pv \<times> Decoder) dict"
  ar_anchor_index :: "(string \<times> string, string \<times> string \<times> borsh_ty) dict"
  ar_anchor_cache :: "(string \<times> string, string \<times> borsh_ty) dict"
  ar_anchor_call_index :: "(string \<times> string, string \<times> string \<times> borsh_ty) dict"
  ar_anchor_call_cache :: "(string \<times> string, string \<times> borsh_ty) dict"

definition registry_init :: AbiRegistry where
  "registry_init = \<lparr>ar_abis = [], ar_hashes = [], ar_decoders = [], ar_topic0_index = [], ar_topic0_cache = [],
     ar_selector_index = [], ar_selector_cache = [], ar_anchor_index = [], ar_anchor_cache = [],
     ar_anchor_call_index = [], ar_anchor_call_cache = []\<rparr>"

section \<open>Indexes\<close>

text \<open>\<open>abi.body if isinstance(abi.body, list) else [abi.body]\<close>\<close>

fun body_entries :: "pv \<Rightarrow> pv list" where
  "body_entries (PList xs) = xs"
| "body_entries v = [v]"

text \<open>
  The loop over the entries of one ABI: \<open>kind\<close> is \<open>"event"\<close> or \<open>"function"\<close>, \<open>sig\<close> computes the
  topic or selector. An entry whose signature cannot be computed is skipped, the first of two
  entries with one signature wins, and an entry that is no dictionary raises.
\<close>

fun index_entries ::
  "string \<Rightarrow> (pv \<Rightarrow> string res) \<Rightarrow> string \<Rightarrow> pv list \<Rightarrow> (string, string \<times> pv) dict \<Rightarrow> (string, string \<times> pv) dict res" where
  "index_entries kind sig abi_id [] idx = Inr idx"
| "index_entries kind sig abi_id (entry # rest) idx =
     rbind (pv_get_or entry ''type'' PNone) (\<lambda>t.
       if t \<noteq> PStr kind then index_entries kind sig abi_id rest idx
       else case sig entry of
           Inl e \<Rightarrow> index_entries kind sig abi_id rest idx
         | Inr s \<Rightarrow>
             if d_has idx (lower s) then index_entries kind sig abi_id rest idx
             else rbind (pv_get_or entry ''name'' (PStr [])) (\<lambda>n.
                    index_entries kind sig abi_id rest (idx @ [(lower s, (abi_id, n))])))"

fun index_abis ::
  "string \<Rightarrow> (pv \<Rightarrow> string res) \<Rightarrow> (string, SnapshotAbi) dict \<Rightarrow> (string, string \<times> pv) dict \<Rightarrow> (string, string \<times> pv) dict res" where
  "index_abis kind sig [] idx = Inr idx"
| "index_abis kind sig ((abi_id, abi) # rest) idx =
     rbind (index_entries kind sig abi_id (body_entries (sa_body abi)) idx) (\<lambda>idx'. index_abis kind sig rest idx')"

definition rebuild_topic0_index :: "AbiLib \<Rightarrow> (string, SnapshotAbi) dict \<Rightarrow> (string, string \<times> pv) dict res" where
  "rebuild_topic0_index L abis = index_abis ''event'' (event_topic0 L) abis []"

definition rebuild_selector_index :: "AbiLib \<Rightarrow> (string, SnapshotAbi) dict \<Rightarrow> (string, string \<times> pv) dict res" where
  "rebuild_selector_index L abis = index_abis ''function'' (function_selector L) abis []"

text \<open>
  The two Anchor indexes. \<open>prep\<close> is the identity for events; for instructions it makes the pseudo
  event \<open>{"name": name, "fields": ix_def.get("args", ix_def.get("fields", []))}\<close>. \<open>disc\<close> is the
  discriminator of a name.
\<close>

definition pseudo_event :: "pv \<Rightarrow> pv res" where
  "pseudo_event ix_def =
     rbind (pv_get_or ix_def ''name'' (PStr [])) (\<lambda>name.
     rbind (pv_get_or ix_def ''fields'' (PList [])) (\<lambda>flds.
     rbind (pv_get_or ix_def ''args'' flds) (\<lambda>args.
       Inr (PDict [(''name'', name), (''fields'', args)]))))"

fun index_idl_items ::
  "(pv \<Rightarrow> pv res) \<Rightarrow> (string \<Rightarrow> byte list) \<Rightarrow> string \<Rightarrow> string \<Rightarrow> pv \<Rightarrow> pv list \<Rightarrow>
   (string \<times> string, string \<times> string \<times> borsh_ty) dict \<Rightarrow> (string \<times> string, string \<times> string \<times> borsh_ty) dict res" where
  "index_idl_items prep disc abi_id program_id types [] idx = Inr idx"
| "index_idl_items prep disc abi_id program_id types (item # rest) idx =
     rbind (prep item) (\<lambda>ev.
     rbind (pv_get_or ev ''name'' (PStr [])) (\<lambda>n.
     rbind (build_anchor_event_struct ev types) (\<lambda>struct.
       case struct of
         None \<Rightarrow> index_idl_items prep disc abi_id program_id types rest idx
       | Some st \<Rightarrow>
           rbind (pv_str n) (\<lambda>name.
             let key = (program_id, bytes_hex (disc name))
             in if d_has idx key then index_idl_items prep disc abi_id program_id types rest idx
                else index_idl_items prep disc abi_id program_id types rest (idx @ [(key, (abi_id, name, st))])))))"

text \<open>\<open>body.get("metadata", {}).get("address")\<close>; \<open>None\<close> when it is missing or empty.\<close>

definition idl_program_id :: "pv \<Rightarrow> string option res" where
  "idl_program_id body =
     rbind (pv_get_or body ''metadata'' (PDict [])) (\<lambda>meta.
     rbind (pv_get_or meta ''address'' PNone) (\<lambda>addr.
       if py_truthy addr then rbind (pv_str addr) (\<lambda>s. Inr (Some s)) else Inr None))"

fun index_idls ::
  "string \<Rightarrow> (pv \<Rightarrow> pv res) \<Rightarrow> (string \<Rightarrow> byte list) \<Rightarrow> (string, SnapshotAbi) dict \<Rightarrow>
   (string \<times> string, string \<times> string \<times> borsh_ty) dict \<Rightarrow> (string \<times> string, string \<times> string \<times> borsh_ty) dict res" where
  "index_idls section_key prep disc [] idx = Inr idx"
| "index_idls section_key prep disc ((abi_id, abi) # rest) idx =
     (if sa_kind abi \<noteq> AK_solana_idl then index_idls section_key prep disc rest idx
      else
        let body = (case sa_body abi of PDict d \<Rightarrow> PDict d | _ \<Rightarrow> PDict [])
        in rbind (idl_program_id body) (\<lambda>pid.
             case pid of
               None \<Rightarrow> index_idls section_key prep disc rest idx
             | Some program_id \<Rightarrow>
                 rbind (pv_get_or body ''types'' (PList [])) (\<lambda>types.
                 rbind (pv_get_or body section_key (PList [])) (\<lambda>sec.
                 rbind (py_iter sec) (\<lambda>items.
                 rbind (index_idl_items prep disc abi_id program_id types items idx) (\<lambda>idx'.
                   index_idls section_key prep disc rest idx'))))))"

definition rebuild_anchor_index ::
  "AbiLib \<Rightarrow> (string, SnapshotAbi) dict \<Rightarrow> (string \<times> string, string \<times> string \<times> borsh_ty) dict res" where
  "rebuild_anchor_index L abis = index_idls ''events'' Inr (anchor_event_discriminator L) abis []"

definition rebuild_anchor_call_index ::
  "AbiLib \<Rightarrow> (string, SnapshotAbi) dict \<Rightarrow> (string \<times> string, string \<times> string \<times> borsh_ty) dict res" where
  "rebuild_anchor_call_index L abis = index_idls ''instructions'' pseudo_event (anchor_call_discriminator L) abis []"

section \<open>Refresh\<close>

definition evict :: "string \<Rightarrow> AbiRegistry \<Rightarrow> AbiRegistry" where
  "evict abi_id r =
     r\<lparr>ar_decoders := filter (\<lambda>kv. fst (fst kv) \<noteq> abi_id) (ar_decoders r),
       ar_hashes := d_pop abi_id (ar_hashes r)\<rparr>"

text \<open>The loop over \<open>list(self._hashes.keys())\<close>.\<close>

definition evict_stale :: "AbiLib \<Rightarrow> (string, SnapshotAbi) dict \<Rightarrow> string \<Rightarrow> AbiRegistry \<Rightarrow> AbiRegistry" where
  "evict_stale L new_abis abi_id r =
     (case d_get new_abis abi_id of
        None \<Rightarrow> evict abi_id r
      | Some a \<Rightarrow> if d_get (ar_hashes r) abi_id \<noteq> Some (al_body_hash L (sa_body a)) then evict abi_id r else r)"

text \<open>
  \<open>refresh\<close>. Rebuilding an index may raise on a malformed body; the registry then keeps what was
  done so far, with the exception in the first component.
\<close>

definition refresh :: "AbiLib \<Rightarrow> ConfigSnapshot \<Rightarrow> AbiRegistry \<Rightarrow> exn option \<times> AbiRegistry" where
  "refresh L snap r =
     (let new_abis = dict_of (map (\<lambda>a. (sa_id a, a)) (snap_abis snap));
          r1 = fold (evict_stale L new_abis) (d_keys (ar_hashes r)) r;
          r2 = r1\<lparr>ar_abis := new_abis,
                  ar_hashes := map (\<lambda>(aid, a). (aid, al_body_hash L (sa_body a))) new_abis\<rparr>
      in case rebuild_topic0_index L new_abis of
           Inl e \<Rightarrow> (Some e, r2)
         | Inr ti \<Rightarrow>
         (let r3 = r2\<lparr>ar_topic0_index := ti, ar_topic0_cache := []\<rparr>
          in case rebuild_selector_index L new_abis of
           Inl e \<Rightarrow> (Some e, r3)
         | Inr si \<Rightarrow>
         (let r4 = r3\<lparr>ar_selector_index := si, ar_selector_cache := []\<rparr>
          in case rebuild_anchor_index L new_abis of
           Inl e \<Rightarrow> (Some e, r4)
         | Inr ai \<Rightarrow>
         (let r5 = r4\<lparr>ar_anchor_index := ai, ar_anchor_cache := []\<rparr>
          in case rebuild_anchor_call_index L new_abis of
           Inl e \<Rightarrow> (Some e, r5)
         | Inr ci \<Rightarrow> (None, r5\<lparr>ar_anchor_call_index := ci, ar_anchor_call_cache := []\<rparr>)))))"

section \<open>Lookups\<close>

definition get_abi :: "string \<Rightarrow> AbiRegistry \<Rightarrow> SnapshotAbi res" where
  "get_abi abi_id r = (case d_get (ar_abis r) abi_id of None \<Rightarrow> Inl (AbiNotFound abi_id) | Some a \<Rightarrow> Inr a)"

definition get_body :: "string \<Rightarrow> AbiRegistry \<Rightarrow> pv res" where
  "get_body abi_id r = rbind (get_abi abi_id r) (\<lambda>a. Inr (sa_body a))"

fun find_topic0 :: "(string, string \<times> pv) dict \<Rightarrow> string \<Rightarrow> pv \<Rightarrow> string option" where
  "find_topic0 [] abi_id name = None"
| "find_topic0 ((t0, (aid, n)) # rest) abi_id name =
     (if aid = abi_id \<and> n = name then Some t0 else find_topic0 rest abi_id name)"

definition event_topic0_for :: "AbiRegistry \<Rightarrow> string \<Rightarrow> string \<Rightarrow> string option" where
  "event_topic0_for r abi_id event_name = find_topic0 (ar_topic0_index r) abi_id (PStr event_name)"

text \<open>The search of \<open>get_event_decoder\<close> and \<open>get_call_decoder\<close>; here the signature is not guarded.\<close>

fun find_entry :: "string \<Rightarrow> (pv \<Rightarrow> string res) \<Rightarrow> string \<Rightarrow> pv list \<Rightarrow> pv res" where
  "find_entry kind sig h [] = Inl KeyError"
| "find_entry kind sig h (entry # rest) =
     rbind (pv_get_or entry ''type'' PNone) (\<lambda>t.
       if t \<noteq> PStr kind then find_entry kind sig h rest
       else rbind (sig entry) (\<lambda>s. if lower s = lower h then Inr entry else find_entry kind sig h rest))"

definition get_decoder ::
  "(pv \<Rightarrow> Decoder) \<Rightarrow> string \<Rightarrow> (pv \<Rightarrow> string res) \<Rightarrow> string \<Rightarrow> string \<Rightarrow> AbiRegistry \<Rightarrow> Decoder res \<times> AbiRegistry" where
  "get_decoder mk kind sig abi_id h r =
     (let key = (abi_id, lower h)
      in case d_get (ar_decoders r) key of
           Some d \<Rightarrow> (Inr d, r)
         | None \<Rightarrow>
             (case d_get (ar_abis r) abi_id of
                None \<Rightarrow> (Inl (AbiNotFound abi_id), r)
              | Some a \<Rightarrow>
                  (case find_entry kind sig h (body_entries (sa_body a)) of
                     Inl e \<Rightarrow> (Inl e, r)
                   | Inr entry \<Rightarrow> (Inr (mk entry), r\<lparr>ar_decoders := d_set key (mk entry) (ar_decoders r)\<rparr>))))"

definition get_event_decoder :: "AbiLib \<Rightarrow> string \<Rightarrow> string \<Rightarrow> AbiRegistry \<Rightarrow> Decoder res \<times> AbiRegistry" where
  "get_event_decoder L abi_id topic0 r = get_decoder EventDecoder ''event'' (event_topic0 L) abi_id topic0 r"

definition get_call_decoder :: "AbiLib \<Rightarrow> string \<Rightarrow> string \<Rightarrow> AbiRegistry \<Rightarrow> Decoder res \<times> AbiRegistry" where
  "get_call_decoder L abi_id selector r =
     get_decoder CallDecoder ''function'' (function_selector L) abi_id selector r"

definition lookup_event_by_topic0 ::
  "AbiLib \<Rightarrow> string \<Rightarrow> AbiRegistry \<Rightarrow> (pv \<times> Decoder) option res \<times> AbiRegistry" where
  "lookup_event_by_topic0 L topic0 r =
     (let key = lower topic0
      in case d_get (ar_topic0_cache r) key of
           Some c \<Rightarrow> (Inr (Some c), r)
         | None \<Rightarrow>
             (case d_get (ar_topic0_index r) key of
                None \<Rightarrow> (Inr None, r)
              | Some (abi_id, event_name) \<Rightarrow>
                  (case get_event_decoder L abi_id topic0 r of
                     (Inl e, r') \<Rightarrow> (Inl e, r')
                   | (Inr d, r') \<Rightarrow>
                       (Inr (Some (event_name, d)),
                        r'\<lparr>ar_topic0_cache := d_set key (event_name, d) (ar_topic0_cache r')\<rparr>))))"

definition lookup_function_by_selector ::
  "AbiLib \<Rightarrow> string \<Rightarrow> AbiRegistry \<Rightarrow> (pv \<times> Decoder) option res \<times> AbiRegistry" where
  "lookup_function_by_selector L selector r =
     (let key = lower selector
      in case d_get (ar_selector_cache r) key of
           Some c \<Rightarrow> (Inr (Some c), r)
         | None \<Rightarrow>
             (case d_get (ar_selector_index r) key of
                None \<Rightarrow> (Inr None, r)
              | Some (abi_id, fn_name) \<Rightarrow>
                  (case get_call_decoder L abi_id selector r of
                     (Inl e, r') \<Rightarrow> (Inl e, r')
                   | (Inr d, r') \<Rightarrow>
                       (Inr (Some (fn_name, d)),
                        r'\<lparr>ar_selector_cache := d_set key (fn_name, d) (ar_selector_cache r')\<rparr>))))"

definition lookup_idl_event_by_discriminator ::
  "string \<Rightarrow> string \<Rightarrow> AbiRegistry \<Rightarrow> (string \<times> borsh_ty) option \<times> AbiRegistry" where
  "lookup_idl_event_by_discriminator program_id disc r =
     (case d_get (ar_anchor_cache r) (program_id, disc) of
        Some c \<Rightarrow> (Some c, r)
      | None \<Rightarrow>
          (case d_get (ar_anchor_index r) (program_id, disc) of
             None \<Rightarrow> (None, r)
           | Some (abi_id, name, st) \<Rightarrow>
               (Some (name, st), r\<lparr>ar_anchor_cache := d_set (program_id, disc) (name, st) (ar_anchor_cache r)\<rparr>)))"

definition lookup_idl_call_by_discriminator ::
  "string \<Rightarrow> string \<Rightarrow> AbiRegistry \<Rightarrow> (string \<times> borsh_ty) option \<times> AbiRegistry" where
  "lookup_idl_call_by_discriminator program_id disc r =
     (case d_get (ar_anchor_call_cache r) (program_id, disc) of
        Some c \<Rightarrow> (Some c, r)
      | None \<Rightarrow>
          (case d_get (ar_anchor_call_index r) (program_id, disc) of
             None \<Rightarrow> (None, r)
           | Some (abi_id, name, st) \<Rightarrow>
               (Some (name, st), r\<lparr>ar_anchor_call_cache := d_set (program_id, disc) (name, st) (ar_anchor_call_cache r)\<rparr>)))"

text \<open>Applying a compiled decoder.\<close>

fun run_event_decoder :: "AbiLib \<Rightarrow> Decoder \<Rightarrow> string list \<Rightarrow> string \<Rightarrow> (string, pv) dict res" where
  "run_event_decoder L (EventDecoder entry) topics data = decode_event L entry topics data"
| "run_event_decoder L (CallDecoder entry) topics data = Inl TypeError"

fun run_call_decoder :: "AbiLib \<Rightarrow> Decoder \<Rightarrow> string \<Rightarrow> (string, pv) dict res" where
  "run_call_decoder L (CallDecoder entry) calldata = decode_function_call L entry calldata"
| "run_call_decoder L (EventDecoder entry) calldata = Inl TypeError"

section \<open>Caches agree with the ABIs\<close>

text \<open>What the library guarantees of the hashes it computes.\<close>

definition lib_ok :: "AbiLib \<Rightarrow> bool" where
  "lib_ok L \<longleftrightarrow> (\<forall>s. length (al_log_topic L s) = 32) \<and> (\<forall>s. length (al_selector L s) = 4)"

definition snapshot_abis :: "ConfigSnapshot \<Rightarrow> (string, SnapshotAbi) dict" where
  "snapshot_abis snap = dict_of (map (\<lambda>a. (sa_id a, a)) (snap_abis snap))"

text \<open>A decoder compiled from scratch.\<close>

definition fresh_decoder ::
  "(pv \<Rightarrow> Decoder) \<Rightarrow> string \<Rightarrow> (pv \<Rightarrow> string res) \<Rightarrow> (string, SnapshotAbi) dict \<Rightarrow> string \<Rightarrow> string \<Rightarrow> Decoder res" where
  "fresh_decoder mk kind sig abis abi_id h =
     (case d_get abis abi_id of
        None \<Rightarrow> Inl (AbiNotFound abi_id)
      | Some a \<Rightarrow> rbind (find_entry kind sig h (body_entries (sa_body a))) (\<lambda>entry. Inr (mk entry)))"

abbreviation fresh_event :: "AbiLib \<Rightarrow> (string, SnapshotAbi) dict \<Rightarrow> string \<Rightarrow> string \<Rightarrow> Decoder res" where
  "fresh_event L \<equiv> fresh_decoder EventDecoder ''event'' (event_topic0 L)"

abbreviation fresh_call :: "AbiLib \<Rightarrow> (string, SnapshotAbi) dict \<Rightarrow> string \<Rightarrow> string \<Rightarrow> Decoder res" where
  "fresh_call L \<equiv> fresh_decoder CallDecoder ''function'' (function_selector L)"

definition decoders_sound :: "AbiLib \<Rightarrow> (string, SnapshotAbi) dict \<Rightarrow> (string \<times> string, Decoder) dict \<Rightarrow> bool" where
  "decoders_sound L abis ds \<longleftrightarrow>
     (\<forall>((aid, h), d) \<in> set ds. fresh_event L abis aid h = Inr d \<or> fresh_call L abis aid h = Inr d)"

definition named_sound ::
  "(string \<Rightarrow> string \<Rightarrow> Decoder res) \<Rightarrow> (string, string \<times> pv) dict \<Rightarrow> (string, pv \<times> Decoder) dict \<Rightarrow> bool" where
  "named_sound fresh idx cache \<longleftrightarrow>
     (\<forall>k n d. d_get cache k = Some (n, d) \<longrightarrow> (\<exists>aid. d_get idx k = Some (aid, n) \<and> fresh aid k = Inr d))"

definition struct_sound ::
  "('k, string \<times> string \<times> borsh_ty) dict \<Rightarrow> ('k, string \<times> borsh_ty) dict \<Rightarrow> bool" where
  "struct_sound idx cache \<longleftrightarrow>
     (\<forall>k n st. d_get cache k = Some (n, st) \<longrightarrow> (\<exists>aid. d_get idx k = Some (aid, n, st)))"

definition reg_ok :: "AbiLib \<Rightarrow> ConfigSnapshot \<Rightarrow> AbiRegistry \<Rightarrow> bool" where
  "reg_ok L snap r \<longleftrightarrow>
     ar_abis r = snapshot_abis snap \<and>
     ar_hashes r = map (\<lambda>(aid, a). (aid, al_body_hash L (sa_body a))) (snapshot_abis snap) \<and>
     rebuild_topic0_index L (snapshot_abis snap) = Inr (ar_topic0_index r) \<and>
     rebuild_selector_index L (snapshot_abis snap) = Inr (ar_selector_index r) \<and>
     rebuild_anchor_index L (snapshot_abis snap) = Inr (ar_anchor_index r) \<and>
     rebuild_anchor_call_index L (snapshot_abis snap) = Inr (ar_anchor_call_index r) \<and>
     decoders_sound L (snapshot_abis snap) (ar_decoders r) \<and>
     named_sound (fresh_event L (snapshot_abis snap)) (ar_topic0_index r) (ar_topic0_cache r) \<and>
     named_sound (fresh_call L (snapshot_abis snap)) (ar_selector_index r) (ar_selector_cache r) \<and>
     struct_sound (ar_anchor_index r) (ar_anchor_cache r) \<and>
     struct_sound (ar_anchor_call_index r) (ar_anchor_call_cache r)"

subsection \<open>Shapes of keys\<close>

lemma find_entry_lower: "find_entry kind sig (lower h) es = find_entry kind sig h es"
  by (induction es) (simp_all cong: if_cong)

lemma fresh_lower: "fresh_decoder mk kind sig abis aid (lower h) = fresh_decoder mk kind sig abis aid h"
  by (simp add: fresh_decoder_def find_entry_lower split: option.split)

lemma find_entry_sig:
  "find_entry kind sig h es = Inr e \<Longrightarrow> \<exists>s. sig e = Inr s \<and> lower s = lower h"
  by (induction es) (auto simp: res_simps split: if_splits)

lemma fresh_sig: "fresh_decoder mk kind sig abis aid h = Inr d \<Longrightarrow> \<exists>e s. d = mk e \<and> sig e = Inr s \<and> lower s = lower h"
  by (auto simp: fresh_decoder_def res_simps split: option.splits dest: find_entry_sig)

lemma index_entries_Cons:
  "index_entries kind sig aid (e # es) idx = Inr idx' \<Longrightarrow>
   index_entries kind sig aid es idx = Inr idx' \<or>
   (\<exists>s n. sig e = Inr s \<and> \<not> d_has idx (lower s) \<and> pv_get_or e ''name'' (PStr []) = Inr n \<and>
      index_entries kind sig aid es (idx @ [(lower s, (aid, n))]) = Inr idx')"
  by (auto simp: res_simps split: if_splits sum.splits)

lemma index_entries_keys:
  "index_entries kind sig aid es idx = Inr idx' \<Longrightarrow> \<forall>k \<in> set (d_keys idx). \<exists>e s. sig e = Inr s \<and> k = lower s \<Longrightarrow>
   \<forall>k \<in> set (d_keys idx'). \<exists>e s. sig e = Inr s \<and> k = lower s"
proof (induction es arbitrary: idx)
  case (Cons e es)
  from index_entries_Cons [OF Cons.prems(1)] show ?case
  proof
    assume "\<exists>s n. sig e = Inr s \<and> \<not> d_has idx (lower s) \<and> pv_get_or e ''name'' (PStr []) = Inr n \<and>
        index_entries kind sig aid es (idx @ [(lower s, (aid, n))]) = Inr idx'"
    then obtain s n where s: "sig e = Inr s" "index_entries kind sig aid es (idx @ [(lower s, (aid, n))]) = Inr idx'"
      by blast
    with Cons.prems(2) show ?thesis by (intro Cons.IH [OF s(2)]) auto
  qed (use Cons in blast)
qed simp

lemma index_abis_keys:
  "index_abis kind sig abis idx = Inr idx' \<Longrightarrow> \<forall>k \<in> set (d_keys idx). \<exists>e s. sig e = Inr s \<and> k = lower s \<Longrightarrow>
   \<forall>k \<in> set (d_keys idx'). \<exists>e s. sig e = Inr s \<and> k = lower s"
proof (induction kind sig abis idx arbitrary: idx' rule: index_abis.induct)
  case (2 kind sig aid a rest idx)
  then obtain idx1 where i1: "index_entries kind sig aid (body_entries (sa_body a)) idx = Inr idx1"
      and i2: "index_abis kind sig rest idx1 = Inr idx'"
    by (auto simp: res_simps)
  from "2.IH" [OF i2 index_entries_keys [OF i1 "2.prems"(2)]] show ?case .
qed simp

lemma bytes_hex_length: "length (bytes_hex bs) = 2 * length bs"
  by (induction bs) (simp_all add: bytes_hex_def)

lemma sig_lengths:
  "lib_ok L \<Longrightarrow> event_topic0 L e = Inr s \<Longrightarrow> length s = 66"
  "lib_ok L \<Longrightarrow> function_selector L e = Inr s \<Longrightarrow> length s = 10"
  by (auto simp: lib_ok_def event_topic0_def function_selector_def res_simps bytes_hex_length)

lemma topic0_index_length:
  assumes "lib_ok L" "rebuild_topic0_index L abis = Inr idx" "d_get idx k = Some v"
  shows "length k = 66"
proof -
  have "k \<in> set (d_keys idx)" using assms(3) by (auto dest: map_of_SomeD intro: rev_image_eqI)
  then show ?thesis
    using index_abis_keys [of "''event''" "event_topic0 L" abis "[]" idx] assms(1,2)
    by (auto simp: rebuild_topic0_index_def sig_lengths)
qed

lemma selector_index_length:
  assumes "lib_ok L" "rebuild_selector_index L abis = Inr idx" "d_get idx k = Some v"
  shows "length k = 10"
proof -
  have "k \<in> set (d_keys idx)" using assms(3) by (auto dest: map_of_SomeD intro: rev_image_eqI)
  then show ?thesis
    using index_abis_keys [of "''function''" "function_selector L" abis "[]" idx] assms(1,2)
    by (auto simp: rebuild_selector_index_def sig_lengths)
qed

lemma fresh_lengths:
  "lib_ok L \<Longrightarrow> fresh_event L abis aid h = Inr d \<Longrightarrow> length h = 66"
  "lib_ok L \<Longrightarrow> fresh_call L abis aid h = Inr d \<Longrightarrow> length h = 10"
  by (metis fresh_sig lower_length sig_lengths)+

subsection \<open>Lookups\<close>

lemma decoders_sound_set:
  "decoders_sound L abis ds \<Longrightarrow> fresh_event L abis aid h = Inr d \<or> fresh_call L abis aid h = Inr d \<Longrightarrow>
   decoders_sound L abis (d_set (aid, lower h) d ds)"
proof -
  assume ds: "decoders_sound L abis ds" and d: "fresh_event L abis aid h = Inr d \<or> fresh_call L abis aid h = Inr d"
  have "set (d_set k v xs) \<subseteq> insert (k, v) (set xs)" for k :: "string \<times> string" and v :: Decoder and xs
    by (induction xs) auto
  then show ?thesis
    using ds d by (fastforce simp: decoders_sound_def fresh_lower)
qed

text \<open>A key of the right length finds the right kind of decoder, cached or not.\<close>

lemma get_event_decoder_fresh:
  assumes "lib_ok L" "ar_abis r = abis" "decoders_sound L abis (ar_decoders r)" "length t = 66"
    and "get_event_decoder L aid t r = (res, r')"
  shows "res = fresh_event L abis aid t \<and> decoders_sound L abis (ar_decoders r') \<and>
    r' = r\<lparr>ar_decoders := ar_decoders r'\<rparr>"
proof (cases "d_get (ar_decoders r) (aid, lower t)")
  case (Some d)
  then have "((aid, lower t), d) \<in> set (ar_decoders r)" by (rule map_of_SomeD)
  with assms(3) have "fresh_event L abis aid t = Inr d \<or> fresh_call L abis aid t = Inr d"
    by (auto simp: decoders_sound_def fresh_lower)
  with assms(1,4) have "fresh_event L abis aid t = Inr d" by (auto dest: fresh_lengths(2))
  with Some assms(3,5) show ?thesis by (simp add: get_event_decoder_def get_decoder_def Let_def)
next
  case None
  then show ?thesis
    using assms(2,3,5)
    by (auto simp: get_event_decoder_def get_decoder_def Let_def fresh_decoder_def
        intro!: decoders_sound_set split: option.splits sum.splits)
qed

lemma get_call_decoder_fresh:
  assumes "lib_ok L" "ar_abis r = abis" "decoders_sound L abis (ar_decoders r)" "length t = 10"
    and "get_call_decoder L aid t r = (res, r')"
  shows "res = fresh_call L abis aid t \<and> decoders_sound L abis (ar_decoders r') \<and>
    r' = r\<lparr>ar_decoders := ar_decoders r'\<rparr>"
proof (cases "d_get (ar_decoders r) (aid, lower t)")
  case (Some d)
  then have "((aid, lower t), d) \<in> set (ar_decoders r)" by (rule map_of_SomeD)
  with assms(3) have "fresh_event L abis aid t = Inr d \<or> fresh_call L abis aid t = Inr d"
    by (auto simp: decoders_sound_def fresh_lower)
  with assms(1,4) have "fresh_call L abis aid t = Inr d" by (auto dest: fresh_lengths(1))
  with Some assms(3,5) show ?thesis by (simp add: get_call_decoder_def get_decoder_def Let_def)
next
  case None
  then show ?thesis
    using assms(2,3,5)
    by (auto simp: get_call_decoder_def get_decoder_def Let_def fresh_decoder_def
        intro!: decoders_sound_set split: option.splits sum.splits)
qed

text \<open>The lookups without caches.\<close>

definition named_spec ::
  "(string \<Rightarrow> string \<Rightarrow> Decoder res) \<Rightarrow> (string, string \<times> pv) dict \<Rightarrow> string \<Rightarrow> (pv \<times> Decoder) option res" where
  "named_spec fresh idx h =
     (case d_get idx (lower h) of
        None \<Rightarrow> Inr None
      | Some (aid, n) \<Rightarrow> rbind (fresh aid h) (\<lambda>d. Inr (Some (n, d))))"

definition struct_spec :: "('k, string \<times> string \<times> borsh_ty) dict \<Rightarrow> 'k \<Rightarrow> (string \<times> borsh_ty) option" where
  "struct_spec idx k = map_option snd (d_get idx k)"

lemma lookup_event_ok:
  assumes "lib_ok L" "reg_ok L snap r" "lookup_event_by_topic0 L t r = (res, r')"
  shows "res = named_spec (fresh_event L (snapshot_abis snap)) (ar_topic0_index r) t \<and> reg_ok L snap r'"
proof (cases "d_get (ar_topic0_cache r) (lower t)")
  case (Some c)
  then obtain n d where c: "d_get (ar_topic0_cache r) (lower t) = Some (n, d)" by (cases c) auto
  with assms(2) obtain aid where "d_get (ar_topic0_index r) (lower t) = Some (aid, n)"
      "fresh_event L (snapshot_abis snap) aid (lower t) = Inr d"
    by (fastforce simp: reg_ok_def named_sound_def)
  with c assms(2,3) show ?thesis
    by (auto simp: lookup_event_by_topic0_def named_spec_def fresh_lower)
next
  case None
  show ?thesis
  proof (cases "d_get (ar_topic0_index r) (lower t)")
    case None2: None
    with None assms(2,3) show ?thesis by (auto simp: lookup_event_by_topic0_def named_spec_def)
  next
    case (Some e)
    then obtain aid n where e: "d_get (ar_topic0_index r) (lower t) = Some (aid, n)" by (cases e) auto
    obtain dres r1 where g: "get_event_decoder L aid t r = (dres, r1)" by (cases "get_event_decoder L aid t r")
    have "length t = 66"
      using topic0_index_length [OF assms(1) _ e] assms(2) by (auto simp: reg_ok_def)
    with get_event_decoder_fresh [OF assms(1) _ _ _ g, of "snapshot_abis snap"] assms(2)
    have d: "dres = fresh_event L (snapshot_abis snap) aid t"
        "decoders_sound L (snapshot_abis snap) (ar_decoders r1)" "r1 = r\<lparr>ar_decoders := ar_decoders r1\<rparr>"
      by (auto simp: reg_ok_def)
    show ?thesis
    proof (cases dres)
      case (Inl x)
      have "reg_ok L snap r1" using assms(2) d(2) by (subst d(3)) (simp add: reg_ok_def)
      with Inl None e g d(1) assms(3) show ?thesis
        by (auto simp: lookup_event_by_topic0_def named_spec_def Let_def)
    next
      case (Inr dec)
      have "named_sound (fresh_event L (snapshot_abis snap)) (ar_topic0_index r)
          (d_set (lower t) (n, dec) (ar_topic0_cache r))"
        using assms(2) e Inr d(1) by (auto simp: reg_ok_def named_sound_def dict_simps fresh_lower)
      then have "reg_ok L snap (r1\<lparr>ar_topic0_cache := d_set (lower t) (n, dec) (ar_topic0_cache r1)\<rparr>)"
        using assms(2) d(2) by (subst (1 2) d(3)) (simp add: reg_ok_def)
      with Inr None e g d(1) assms(3) show ?thesis
        by (auto simp: lookup_event_by_topic0_def named_spec_def Let_def)
    qed
  qed
qed

lemma lookup_function_ok:
  assumes "lib_ok L" "reg_ok L snap r" "lookup_function_by_selector L t r = (res, r')"
  shows "res = named_spec (fresh_call L (snapshot_abis snap)) (ar_selector_index r) t \<and> reg_ok L snap r'"
proof (cases "d_get (ar_selector_cache r) (lower t)")
  case (Some c)
  then obtain n d where c: "d_get (ar_selector_cache r) (lower t) = Some (n, d)" by (cases c) auto
  with assms(2) obtain aid where "d_get (ar_selector_index r) (lower t) = Some (aid, n)"
      "fresh_call L (snapshot_abis snap) aid (lower t) = Inr d"
    by (fastforce simp: reg_ok_def named_sound_def)
  with c assms(2,3) show ?thesis
    by (auto simp: lookup_function_by_selector_def named_spec_def fresh_lower)
next
  case None
  show ?thesis
  proof (cases "d_get (ar_selector_index r) (lower t)")
    case None2: None
    with None assms(2,3) show ?thesis by (auto simp: lookup_function_by_selector_def named_spec_def)
  next
    case (Some e)
    then obtain aid n where e: "d_get (ar_selector_index r) (lower t) = Some (aid, n)" by (cases e) auto
    obtain dres r1 where g: "get_call_decoder L aid t r = (dres, r1)" by (cases "get_call_decoder L aid t r")
    have "length t = 10"
      using selector_index_length [OF assms(1) _ e] assms(2) by (auto simp: reg_ok_def)
    with get_call_decoder_fresh [OF assms(1) _ _ _ g, of "snapshot_abis snap"] assms(2)
    have d: "dres = fresh_call L (snapshot_abis snap) aid t"
        "decoders_sound L (snapshot_abis snap) (ar_decoders r1)" "r1 = r\<lparr>ar_decoders := ar_decoders r1\<rparr>"
      by (auto simp: reg_ok_def)
    show ?thesis
    proof (cases dres)
      case (Inl x)
      have "reg_ok L snap r1" using assms(2) d(2) by (subst d(3)) (simp add: reg_ok_def)
      with Inl None e g d(1) assms(3) show ?thesis
        by (auto simp: lookup_function_by_selector_def named_spec_def Let_def)
    next
      case (Inr dec)
      have "named_sound (fresh_call L (snapshot_abis snap)) (ar_selector_index r)
          (d_set (lower t) (n, dec) (ar_selector_cache r))"
        using assms(2) e Inr d(1) by (auto simp: reg_ok_def named_sound_def dict_simps fresh_lower)
      then have "reg_ok L snap (r1\<lparr>ar_selector_cache := d_set (lower t) (n, dec) (ar_selector_cache r1)\<rparr>)"
        using assms(2) d(2) by (subst (1 2) d(3)) (simp add: reg_ok_def)
      with Inr None e g d(1) assms(3) show ?thesis
        by (auto simp: lookup_function_by_selector_def named_spec_def Let_def)
    qed
  qed
qed

lemma struct_sound_hit: "struct_sound idx cache \<Longrightarrow> d_get cache k = Some c \<Longrightarrow> map_option snd (d_get idx k) = Some c"
  by (cases c) (fastforce simp: struct_sound_def)

lemma lookup_idl_ok:
  assumes "reg_ok L snap r"
  shows "lookup_idl_event_by_discriminator p d r = (res, r') \<Longrightarrow>
      res = struct_spec (ar_anchor_index r) (p, d) \<and> reg_ok L snap r'"
    and "lookup_idl_call_by_discriminator p d r = (res, r') \<Longrightarrow>
      res = struct_spec (ar_anchor_call_index r) (p, d) \<and> reg_ok L snap r'"
proof -
  have upd: "struct_sound idx cache \<Longrightarrow> d_get idx k = Some (aid, n, st) \<Longrightarrow> struct_sound idx (d_set k (n, st) cache)"
    for idx :: "('k, string \<times> string \<times> borsh_ty) dict" and cache k aid n st
    by (auto simp: struct_sound_def dict_simps)
  show "res = struct_spec (ar_anchor_index r) (p, d) \<and> reg_ok L snap r'"
    if "lookup_idl_event_by_discriminator p d r = (res, r')"
  proof (cases "d_get (ar_anchor_cache r) (p, d)")
    case None
    with that assms show ?thesis
      by (auto simp: lookup_idl_event_by_discriminator_def reg_ok_def upd struct_spec_def split: option.splits)
  next
    case (Some c)
    with assms have "struct_spec (ar_anchor_index r) (p, d) = Some c"
      unfolding struct_spec_def reg_ok_def by (metis struct_sound_hit)
    with Some that assms show ?thesis by (simp add: lookup_idl_event_by_discriminator_def)
  qed
  show "res = struct_spec (ar_anchor_call_index r) (p, d) \<and> reg_ok L snap r'"
    if "lookup_idl_call_by_discriminator p d r = (res, r')"
  proof (cases "d_get (ar_anchor_call_cache r) (p, d)")
    case None
    with that assms show ?thesis
      by (auto simp: lookup_idl_call_by_discriminator_def reg_ok_def upd struct_spec_def split: option.splits)
  next
    case (Some c)
    with assms have "struct_spec (ar_anchor_call_index r) (p, d) = Some c"
      unfolding struct_spec_def reg_ok_def by (metis struct_sound_hit)
    with Some that assms show ?thesis by (simp add: lookup_idl_call_by_discriminator_def)
  qed
qed

subsection \<open>Refresh\<close>

definition stale :: "AbiLib \<Rightarrow> (string, SnapshotAbi) dict \<Rightarrow> (string, string) dict \<Rightarrow> string \<Rightarrow> bool" where
  "stale L new_abis hashes aid \<longleftrightarrow>
     (case d_get new_abis aid of
        None \<Rightarrow> True
      | Some a \<Rightarrow> d_get hashes aid \<noteq> Some (al_body_hash L (sa_body a)))"

lemma evict_fold:
  "distinct ks \<Longrightarrow>
   ar_decoders (fold (evict_stale L new_abis) ks r) =
     filter (\<lambda>kv. \<not> (fst (fst kv) \<in> set ks \<and> stale L new_abis (ar_hashes r) (fst (fst kv)))) (ar_decoders r)"
proof (induction ks arbitrary: r)
  case (Cons k ks)
  let ?r = "evict_stale L new_abis k r"
  have dec: "ar_decoders ?r = filter (\<lambda>kv. \<not> (fst (fst kv) = k \<and> stale L new_abis (ar_hashes r) k)) (ar_decoders r)"
    by (auto simp: evict_stale_def evict_def stale_def split: option.splits intro!: filter_cong)
  have hsh: "stale L new_abis (ar_hashes ?r) j = stale L new_abis (ar_hashes r) j" if "j \<in> set ks" for j
    using that Cons.prems by (auto simp: evict_stale_def evict_def stale_def dict_simps split: option.splits)
  have "fold (evict_stale L new_abis) (k # ks) r = fold (evict_stale L new_abis) ks ?r" by simp
  then show ?case
    using Cons by (auto simp: dec hsh intro!: filter_cong)
qed simp

text \<open>The content hash tells the bodies published under one id apart.\<close>

definition hash_faithful :: "AbiLib \<Rightarrow> ConfigSnapshot \<Rightarrow> ConfigSnapshot \<Rightarrow> bool" where
  "hash_faithful L old new \<longleftrightarrow>
     (\<forall>a \<in> set (snap_abis old). \<forall>b \<in> set (snap_abis new).
        sa_id a = sa_id b \<and> al_body_hash L (sa_body a) = al_body_hash L (sa_body b) \<longrightarrow> sa_body a = sa_body b)"

lemma snapshot_abis_mem: "d_get (snapshot_abis snap) aid = Some a \<Longrightarrow> a \<in> set (snap_abis snap) \<and> sa_id a = aid"
  by (auto simp: snapshot_abis_def dict_simps simp flip: rev_map dest!: map_of_SomeD)

lemma fresh_same_body:
  "d_get abis aid = Some a \<Longrightarrow> d_get abis' aid = Some b \<Longrightarrow> sa_body a = sa_body b \<Longrightarrow>
   fresh_decoder mk kind sig abis aid h = fresh_decoder mk kind sig abis' aid h"
  by (simp add: fresh_decoder_def)

lemma fresh_known: "fresh_decoder mk kind sig abis aid h = Inr d \<Longrightarrow> \<exists>a. d_get abis aid = Some a"
  by (auto simp: fresh_decoder_def split: option.splits)

lemma refresh_decoders_sound:
  assumes "reg_ok L old r" "hash_faithful L old snap"
  shows "decoders_sound L (snapshot_abis snap)
    (ar_decoders (fold (evict_stale L (snapshot_abis snap)) (d_keys (ar_hashes r)) r))"
proof -
  have hs: "d_get (ar_hashes r) aid = map_option (\<lambda>a. al_body_hash L (sa_body a)) (d_get (snapshot_abis old) aid)" for aid
    using assms(1) by (simp add: reg_ok_def map_of_map [unfolded comp_def])
  have keys: "d_keys (ar_hashes r) = d_keys (snapshot_abis old)"
    using assms(1) by (auto simp: reg_ok_def)
  have dist: "distinct (d_keys (ar_hashes r))"
    unfolding keys by (simp add: snapshot_abis_def distinct_dict_of)
  have "fresh_event L (snapshot_abis snap) aid h = Inr d \<or> fresh_call L (snapshot_abis snap) aid h = Inr d"
    if mem: "((aid, h), d) \<in> set (ar_decoders r)"
      and keep: "\<not> (aid \<in> set (d_keys (ar_hashes r)) \<and> stale L (snapshot_abis snap) (ar_hashes r) aid)" for aid h d
  proof -
    from mem assms(1) have d: "fresh_event L (snapshot_abis old) aid h = Inr d \<or> fresh_call L (snapshot_abis old) aid h = Inr d"
      by (auto simp: reg_ok_def decoders_sound_def)
    then obtain a where a: "d_get (snapshot_abis old) aid = Some a" by (auto dest: fresh_known)
    then have "aid \<in> set (d_keys (ar_hashes r))" unfolding keys by (auto dest: map_of_SomeD intro: rev_image_eqI)
    with keep have "\<not> stale L (snapshot_abis snap) (ar_hashes r) aid" by blast
    then obtain b where b: "d_get (snapshot_abis snap) aid = Some b" "al_body_hash L (sa_body a) = al_body_hash L (sa_body b)"
      using a by (auto simp: stale_def hs split: option.splits)
    with a assms(2) have "sa_body a = sa_body b"
      using snapshot_abis_mem [OF a] snapshot_abis_mem [OF b(1)] by (auto simp: hash_faithful_def)
    with d a b(1) fresh_same_body show ?thesis by metis
  qed
  then show ?thesis
    unfolding evict_fold [OF dist] by (auto simp: decoders_sound_def)
qed

lemma evict_stale_frame: "\<exists>ds hs. evict_stale L new k r = r\<lparr>ar_decoders := ds, ar_hashes := hs\<rparr>"
proof (cases "evict_stale L new k r = r")
  case True
  then show ?thesis by (intro exI [of _ "ar_decoders r"] exI [of _ "ar_hashes r"]) simp
qed (auto simp: evict_stale_def evict_def split: option.splits if_splits)

lemma refresh_None:
  assumes "refresh L snap r = (None, r')"
  shows "\<exists>ti si ai ci.
    rebuild_topic0_index L (snapshot_abis snap) = Inr ti \<and> rebuild_selector_index L (snapshot_abis snap) = Inr si \<and>
    rebuild_anchor_index L (snapshot_abis snap) = Inr ai \<and> rebuild_anchor_call_index L (snapshot_abis snap) = Inr ci \<and>
    r' = (fold (evict_stale L (snapshot_abis snap)) (d_keys (ar_hashes r)) r)
      \<lparr>ar_abis := snapshot_abis snap,
       ar_hashes := map (\<lambda>(aid, a). (aid, al_body_hash L (sa_body a))) (snapshot_abis snap),
       ar_topic0_index := ti, ar_topic0_cache := [], ar_selector_index := si, ar_selector_cache := [],
       ar_anchor_index := ai, ar_anchor_cache := [], ar_anchor_call_index := ci, ar_anchor_call_cache := []\<rparr>"
  using assms by (auto simp: refresh_def snapshot_abis_def Let_def split: sum.splits)

lemma refresh_ok_from:
  assumes "decoders_sound L (snapshot_abis snap)
      (ar_decoders (fold (evict_stale L (snapshot_abis snap)) (d_keys (ar_hashes r)) r))"
    and "refresh L snap r = (None, r')"
  shows "reg_ok L snap r'"
proof -
  from refresh_None [OF assms(2)] show ?thesis
    using assms(1) by (auto simp: reg_ok_def named_sound_def struct_sound_def)
qed

lemma refresh_ok: "reg_ok L old r \<Longrightarrow> hash_faithful L old snap \<Longrightarrow> refresh L snap r = (None, r') \<Longrightarrow> reg_ok L snap r'"
  by (rule refresh_ok_from [OF refresh_decoders_sound])

lemma first_refresh_ok: "refresh L snap registry_init = (None, r') \<Longrightarrow> reg_ok L snap r'"
  by (rule refresh_ok_from) (simp_all add: registry_init_def decoders_sound_def)

section \<open>Histories of a registry\<close>

text \<open>\<open>reg_run L snap r\<close>: a registry after any lookups and refreshes, the last one with \<open>snap\<close>.\<close>

inductive reg_run :: "AbiLib \<Rightarrow> ConfigSnapshot \<Rightarrow> AbiRegistry \<Rightarrow> bool" for L where
  reg_start: "refresh L snap registry_init = (None, r) \<Longrightarrow> reg_run L snap r"
| reg_refresh: "reg_run L old r \<Longrightarrow> hash_faithful L old snap \<Longrightarrow> refresh L snap r = (None, r') \<Longrightarrow> reg_run L snap r'"
| reg_event: "reg_run L snap r \<Longrightarrow> lookup_event_by_topic0 L t r = (res, r') \<Longrightarrow> reg_run L snap r'"
| reg_function: "reg_run L snap r \<Longrightarrow> lookup_function_by_selector L t r = (res, r') \<Longrightarrow> reg_run L snap r'"
| reg_idl_event: "reg_run L snap r \<Longrightarrow> lookup_idl_event_by_discriminator p d r = (ires, r') \<Longrightarrow> reg_run L snap r'"
| reg_idl_call: "reg_run L snap r \<Longrightarrow> lookup_idl_call_by_discriminator p d r = (ires, r') \<Longrightarrow> reg_run L snap r'"

lemma reg_run_ok: "reg_run L snap r \<Longrightarrow> lib_ok L \<Longrightarrow> reg_ok L snap r"
  by (induction rule: reg_run.induct)
    (auto intro: first_refresh_ok refresh_ok dest: lookup_event_ok lookup_function_ok lookup_idl_ok)

section \<open>Properties\<close>

text \<open>
  C14. The registry's caches are invisible. After any sequence of lookups and refreshes, every lookup
  gives what a new registry, refreshed once with the latest snapshot, gives: decoders of a
  republished or deleted ABI are never served, and kept ones decode with the current body. The
  content hash is assumed to tell apart the bodies that one id had in consecutive snapshots, and the
  library's hashes to have their documented lengths.
\<close>

theorem registry_history_free:
  assumes "lib_ok L" and "reg_run L snap r" and "refresh L snap registry_init = (None, fresh)"
  shows "fst (lookup_event_by_topic0 L t r) = fst (lookup_event_by_topic0 L t fresh) \<and>
    fst (lookup_function_by_selector L sel r) = fst (lookup_function_by_selector L sel fresh) \<and>
    fst (lookup_idl_event_by_discriminator p d r) = fst (lookup_idl_event_by_discriminator p d fresh) \<and>
    fst (lookup_idl_call_by_discriminator p d r) = fst (lookup_idl_call_by_discriminator p d fresh)"
proof -
  have ok: "reg_ok L snap r" "reg_ok L snap fresh"
    using reg_run_ok [OF assms(2,1)] first_refresh_ok [OF assms(3)] by auto
  then have same: "ar_topic0_index r = ar_topic0_index fresh" "ar_selector_index r = ar_selector_index fresh"
      "ar_anchor_index r = ar_anchor_index fresh" "ar_anchor_call_index r = ar_anchor_call_index fresh"
    by (simp_all add: reg_ok_def)
  show ?thesis
    using lookup_event_ok [OF assms(1) ok(1) prod.collapse [symmetric]]
      lookup_event_ok [OF assms(1) ok(2) prod.collapse [symmetric]]
      lookup_function_ok [OF assms(1) ok(1) prod.collapse [symmetric]]
      lookup_function_ok [OF assms(1) ok(2) prod.collapse [symmetric]]
      lookup_idl_ok(1) [OF ok(1) prod.collapse [symmetric]] lookup_idl_ok(1) [OF ok(2) prod.collapse [symmetric]]
      lookup_idl_ok(2) [OF ok(1) prod.collapse [symmetric]] lookup_idl_ok(2) [OF ok(2) prod.collapse [symmetric]]
      same by metis
qed

definition ex_abi_snapshot :: ConfigSnapshot where
  "ex_abi_snapshot = \<lparr>snap_version = 1, snap_subscriptions = [], snap_channels = [], snap_chains = [],
     snap_abis = [\<lparr>sa_id = ''a1'', sa_name = ''Pay'', sa_kind = AK_evm_abi, sa_body = PList [ex_event_abi]\<rparr>]\<rparr>"

lemma ex_lib_ok: "lib_ok ex_lib"
  by (auto simp: lib_ok_def ex_lib_def min_def)

theorem registry_history_free_witness:
  "\<exists>r. refresh ex_lib ex_abi_snapshot registry_init = (None, r) \<and>
     fst (lookup_event_by_topic0 ex_lib ''0xAB'' (snd (lookup_event_by_topic0 ex_lib ''0xab'' r))) =
     fst (lookup_event_by_topic0 ex_lib ''0xAB'' r)"
proof -
  define r where "r = snd (refresh ex_lib ex_abi_snapshot registry_init)"
  have "fst (refresh ex_lib ex_abi_snapshot registry_init) = None" by code_simp
  then have r: "refresh ex_lib ex_abi_snapshot registry_init = (None, r)"
    by (simp add: r_def prod_eq_iff)
  have "reg_run ex_lib ex_abi_snapshot (snd (lookup_event_by_topic0 ex_lib ''0xab'' r))"
    by (rule reg_event [OF reg_start [OF r] prod.collapse [symmetric]])
  from registry_history_free [OF ex_lib_ok this r] r show ?thesis by blast
qed

text \<open>
  An IDL in the format that names a defined type by an object, \<open>{"defined": {"name": T}}\<close>, makes
  \<open>refresh\<close> raise \<open>TypeError\<close>: the object is tested for membership in a set, and nothing on the way
  catches it, although event types that cannot be resolved are meant to be skipped. The new ABIs are
  then already installed while the Anchor indexes are still those of the snapshot before.
\<close>

theorem refresh_defined_object_raises:
  assumes "snap_abis snap = [\<lparr>sa_id = i, sa_name = nm, sa_kind = AK_solana_idl,
      sa_body = PDict [(''metadata'', PDict [(''address'', PStr (c # p))]),
        (''events'', PList [PDict [(''name'', PStr en), (''fields'', PList
          [PDict [(''name'', PStr f), (''type'', PDict [(''defined'', PDict [(''name'', PStr t)])])]])]])]\<rparr>]"
  shows "fst (refresh L snap r) = Some TypeError \<and>
    ar_abis (snd (refresh L snap r)) = snapshot_abis snap \<and>
    ar_anchor_index (snd (refresh L snap r)) = ar_anchor_index r"
proof -
  have frame: "ar_anchor_index (fold (evict_stale L new) ks r) = ar_anchor_index r" for new ks r
  proof (induction ks arbitrary: r)
    case (Cons k ks)
    obtain ds hs where "evict_stale L new k r = r\<lparr>ar_decoders := ds, ar_hashes := hs\<rparr>"
      using evict_stale_frame by blast
    with Cons show ?case by simp
  qed simp
  have abis: "dict_of (map (\<lambda>a. (sa_id a, a)) (snap_abis snap)) = map (\<lambda>a. (sa_id a, a)) (snap_abis snap)"
    using assms by (simp add: dict_of_def)
  have "rebuild_topic0_index L (map (\<lambda>a. (sa_id a, a)) (snap_abis snap)) = Inr []"
    "rebuild_selector_index L (map (\<lambda>a. (sa_id a, a)) (snap_abis snap)) = Inr []"
    "rebuild_anchor_index L (map (\<lambda>a. (sa_id a, a)) (snap_abis snap)) = Inl TypeError"
    using assms
    by (simp_all add: rebuild_topic0_index_def rebuild_selector_index_def rebuild_anchor_index_def pv_get_or_def
        idl_program_id_def build_anchor_event_struct_def max_type_depth_def eval_nat_numeral)
  then show ?thesis
    by (simp add: refresh_def abis snapshot_abis_def Let_def frame)
qed

definition ex_idl_snapshot :: ConfigSnapshot where
  "ex_idl_snapshot = \<lparr>snap_version = 1, snap_subscriptions = [], snap_channels = [], snap_chains = [],
     snap_abis = [\<lparr>sa_id = ''i1'', sa_name = ''Prog'', sa_kind = AK_solana_idl,
      sa_body = PDict [(''metadata'', PDict [(''address'', PStr ''Prog111'')]),
        (''events'', PList [PDict [(''name'', PStr ''Swap''), (''fields'', PList
          [PDict [(''name'', PStr ''pool''), (''type'', PDict [(''defined'', PDict [(''name'', PStr ''Pool'')])])]])]])]\<rparr>]\<rparr>"

theorem refresh_defined_object_raises_witness:
  "fst (refresh ex_lib ex_idl_snapshot registry_init) = Some TypeError"
  using refresh_defined_object_raises [of ex_idl_snapshot "''i1''" "''Prog''" "CHR ''P''" "''rog111''" "''Swap''" "''pool''" "''Pool''"]
  by (simp add: ex_idl_snapshot_def)

text \<open>
  One malformed entry hides a well-formed event after it: building the index skips an event whose
  signature cannot be computed, so a later event of the same ABI is indexed, but the search for its
  decoder computes the signatures again without a guard and raises, on every log with that topic.
\<close>

theorem malformed_entry_hides_event:
  assumes "pv_get_or bad ''type'' PNone = Inr (PStr ''event'')" and "event_topic0 L bad = Inl e"
    and "pv_get_or good ''type'' PNone = Inr (PStr ''event'')" and "event_topic0 L good = Inr t"
    and "pv_get_or good ''name'' (PStr []) = Inr n"
    and "snap_abis snap = [\<lparr>sa_id = i, sa_name = nm, sa_kind = AK_evm_abi, sa_body = PList [bad, good]\<rparr>]"
    and "refresh L snap registry_init = (None, r)"
  shows "d_get (ar_topic0_index r) (lower t) = Some (i, n) \<and> fst (lookup_event_by_topic0 L t r) = Inl e"
proof -
  have ok: "reg_ok L snap r" using assms(7) by (rule first_refresh_ok)
  have abis: "snapshot_abis snap = map (\<lambda>a. (sa_id a, a)) (snap_abis snap)"
    using assms(6) by (simp add: snapshot_abis_def dict_of_def)
  have "rebuild_topic0_index L (snapshot_abis snap) = Inr [(lower t, (i, n))]"
    using assms(1-6) by (simp add: abis rebuild_topic0_index_def d_has_def)
  with ok have "ar_topic0_index r = [(lower t, (i, n))]"
    by (simp add: reg_ok_def)
  then have idx: "d_get (ar_topic0_index r) (lower t) = Some (i, n)"
    by simp
  moreover have "ar_topic0_cache r = [] \<and> ar_decoders r = []"
    using refresh_None [OF assms(7)] by (auto simp: registry_init_def)
  ultimately show ?thesis
    using ok assms(1-6)
    by (simp add: reg_ok_def lookup_event_by_topic0_def get_event_decoder_def get_decoder_def abis Let_def)
qed

definition ex_bad_abi :: pv where
  "ex_bad_abi = PDict [(''type'', PStr ''event''), (''name'', PStr ''Broken''), (''inputs'', PList [PDict []])]"

definition ex_mixed_snapshot :: ConfigSnapshot where
  "ex_mixed_snapshot = \<lparr>snap_version = 1, snap_subscriptions = [], snap_channels = [], snap_chains = [],
     snap_abis = [\<lparr>sa_id = ''a1'', sa_name = ''Pay'', sa_kind = AK_evm_abi, sa_body = PList [ex_bad_abi, ex_event_abi]\<rparr>]\<rparr>"

theorem malformed_entry_hides_event_witness:
  "\<exists>t r. event_topic0 ex_lib ex_event_abi = Inr t \<and> refresh ex_lib ex_mixed_snapshot registry_init = (None, r) \<and>
     fst (lookup_event_by_topic0 ex_lib t r) = Inl KeyError"
proof -
  obtain t where t: "event_topic0 ex_lib ex_event_abi = Inr t"
    by (simp add: event_topic0_def canonical_signature_def ex_event_abi_def pv_get_or_def d_index_def)
  define r where "r = snd (refresh ex_lib ex_mixed_snapshot registry_init)"
  have "fst (refresh ex_lib ex_mixed_snapshot registry_init) = None" by code_simp
  then have r: "refresh ex_lib ex_mixed_snapshot registry_init = (None, r)"
    by (simp add: r_def prod_eq_iff)
  have bad: "event_topic0 ex_lib ex_bad_abi = Inl KeyError" by code_simp
  from malformed_entry_hides_event [OF _ bad _ t _ _ r] t r show ?thesis
    by (auto simp: ex_bad_abi_def ex_event_abi_def ex_mixed_snapshot_def pv_get_or_def)
qed

end
