(* ===== verification/Evm_Parsers.thy ===== *)
theory Evm_Parsers
  imports Parser_Base Abi_Registry
begin

text \<open>
  The EVM parsers: \<^verbatim>\<open>core/parser/native.py\<close>, \<^verbatim>\<open>erc20.py\<close>, \<^verbatim>\<open>abi_event.py\<close>, \<^verbatim>\<open>abi_call.py\<close> and
  \<^verbatim>\<open>internal_call.py\<close>. The state of a run is the ABI registry; parsers that do not use it leave it
  as it is. A name looked up in the registry is a JSON value; entries in the indexes have strings.
\<close>

section \<open>Native transfers\<close>

definition native_event :: "string \<Rightarrow> BlockHeader \<Rightarrow> Tx \<Rightarrow> string \<Rightarrow> Event" where
  "native_event chain_id h tx to_addr =
     \<lparr>ev_chain_id = chain_id, ev_block_number = bh_number h, ev_block_hash = bh_hash h,
      ev_block_timestamp = bh_timestamp h, ev_tx_hash = tx_hash tx, ev_tx_index = Some (tx_index tx),
      ev_log_index = None, ev_kind = MK_native_transfer, ev_contract = None, ev_name = None,
      ev_args = [(''from'', PStr (tx_from_addr tx)), (''to'', PStr to_addr), (''value'', PStr (int_str (tx_value tx)))],
      ev_raw = [(''tx_hash'', PStr (tx_hash tx))]\<rparr>"

definition native_step :: "string \<Rightarrow> BlockHeader \<Rightarrow> Tx \<Rightarrow> Event option" where
  "native_step chain_id h tx =
     (case tx_to_addr tx of
        None \<Rightarrow> None
      | Some to_addr \<Rightarrow>
          if tx_value tx \<le> 0 \<or> tx_status tx \<noteq> 1 then None else Some (native_event chain_id h tx to_addr))"

definition evm_native_parse :: "string \<Rightarrow> Block \<Rightarrow> 's \<Rightarrow> 's gen" where
  "evm_native_parse chain_id block s =
     gen_each (\<lambda>tx s. yield_option (Inr (native_step chain_id (blk_header block) tx), s)) (blk_txs block) s"

section \<open>ERC-20 transfers\<close>

definition ERC20_TRANSFER_TOPIC0 :: string where
  "ERC20_TRANSFER_TOPIC0 = ''0xddf252ad1be2c89b69c2b068fc378daa952ba7f163c4a11628f55a4df523b3ef''"

definition addr_from_topic :: "string \<Rightarrow> string" where
  "addr_from_topic topic_hex =
     (let body = lower (removeprefix topic_hex ''0x'')
      in if length body < 40 then ''0x'' @ body else ''0x'' @ take_last 40 body)"

definition erc20_try_decode :: "string \<Rightarrow> BlockHeader \<Rightarrow> (string, int) dict \<Rightarrow> Log \<Rightarrow> Event option" where
  "erc20_try_decode chain_id h tx_index_by_hash lg =
     (case lg_topics lg of
        [] \<Rightarrow> None
      | topic0 # rest \<Rightarrow>
          if lower topic0 \<noteq> ERC20_TRANSFER_TOPIC0 then None
          else (case rest of
             [topic1, topic2] \<Rightarrow>
               (let data_hex = removeprefix (lg_data lg) ''0x''
                in if length data_hex < 64 then None
                   else case int_of_string 16 (take 64 data_hex) of
                       None \<Rightarrow> None
                     | Some v \<Rightarrow>
                         Some \<lparr>ev_chain_id = chain_id, ev_block_number = bh_number h, ev_block_hash = bh_hash h,
                           ev_block_timestamp = bh_timestamp h, ev_tx_hash = lg_tx_hash lg,
                           ev_tx_index = d_get tx_index_by_hash (lg_tx_hash lg),
                           ev_log_index = Some (lg_log_index lg), ev_kind = MK_token_transfer,
                           ev_contract = Some (lower (lg_address lg)), ev_name = Some ''Transfer'',
                           ev_args = [(''from'', PStr (addr_from_topic topic1)), (''to'', PStr (addr_from_topic topic2)),
                             (''value'', PStr (int_str v))],
                           ev_raw = [(''tx_hash'', PStr (lg_tx_hash lg)), (''log_index'', PInt (lg_log_index lg))]\<rparr>)
           | _ \<Rightarrow> None))"

definition tx_indexes :: "Block \<Rightarrow> (string, int) dict" where
  "tx_indexes block = dict_of (map (\<lambda>tx. (tx_hash tx, tx_index tx)) (blk_txs block))"

definition erc20_parse :: "string \<Rightarrow> Block \<Rightarrow> 's \<Rightarrow> 's gen" where
  "erc20_parse chain_id block s =
     gen_each (\<lambda>lg s. yield_option (Inr (erc20_try_decode chain_id (blk_header block) (tx_indexes block) lg), s))
       (blk_logs block) s"

section \<open>ABI events\<close>

fun name_of :: "pv \<Rightarrow> string option" where
  "name_of (PStr s) = Some s"
| "name_of v = None"

definition log_event :: "string \<Rightarrow> BlockHeader \<Rightarrow> Log \<Rightarrow> string option \<Rightarrow> (string, pv) dict \<Rightarrow> (string, pv) dict \<Rightarrow> Event" where
  "log_event chain_id h lg name args raw =
     \<lparr>ev_chain_id = chain_id, ev_block_number = bh_number h, ev_block_hash = bh_hash h,
      ev_block_timestamp = bh_timestamp h, ev_tx_hash = lg_tx_hash lg, ev_tx_index = None,
      ev_log_index = Some (lg_log_index lg), ev_kind = MK_event, ev_contract = Some (lower (lg_address lg)),
      ev_name = name, ev_args = args, ev_raw = raw\<rparr>"

text \<open>\<open>_downgraded\<close>: a log that cannot be decoded is passed on raw.\<close>

definition downgraded :: "string \<Rightarrow> BlockHeader \<Rightarrow> Log \<Rightarrow> Event" where
  "downgraded chain_id h lg =
     log_event chain_id h lg None []
       [(''tx_hash'', PStr (lg_tx_hash lg)), (''log_index'', PInt (lg_log_index lg)),
        (''topics'', PList (map PStr (lg_topics lg))), (''data'', PStr (lg_data lg))]"

definition handle_log :: "AbiLib \<Rightarrow> string \<Rightarrow> BlockHeader \<Rightarrow> Log \<Rightarrow> AbiRegistry \<Rightarrow> Event option res \<times> AbiRegistry" where
  "handle_log L chain_id h lg r =
     (case lg_topics lg of
        [] \<Rightarrow> (Inr None, r)
      | topic0 # _ \<Rightarrow>
          (case lookup_event_by_topic0 L topic0 r of
             (Inl e, r') \<Rightarrow> (Inl e, r')
           | (Inr None, r') \<Rightarrow> (Inr (Some (downgraded chain_id h lg)), r')
           | (Inr (Some (event_name, decoder)), r') \<Rightarrow>
               (case run_event_decoder L decoder (lg_topics lg) (lg_data lg) of
                  Inl DecodeFailed \<Rightarrow> (Inr (Some (downgraded chain_id h lg)), r')
                | Inl e \<Rightarrow> (Inl e, r')
                | Inr args \<Rightarrow>
                    (Inr (Some (log_event chain_id h lg (name_of event_name) args
                       [(''tx_hash'', PStr (lg_tx_hash lg)), (''log_index'', PInt (lg_log_index lg))])), r'))))"

definition abi_event_parse :: "AbiLib \<Rightarrow> string \<Rightarrow> Block \<Rightarrow> AbiRegistry \<Rightarrow> AbiRegistry gen" where
  "abi_event_parse L chain_id block r =
     gen_each (\<lambda>lg r. yield_option (handle_log L chain_id (blk_header block) lg r)) (blk_logs block) r"

section \<open>ABI calls\<close>

definition SELECTOR_HEX_LEN :: nat where
  "SELECTOR_HEX_LEN = 10"

text \<open>\<open>lookup = registry.lookup_function_by_selector(selector)\<close> and \<open>decoder(inp)\<close>; \<open>None\<close> where both callers return it.\<close>

definition decode_input ::
  "AbiLib \<Rightarrow> string \<Rightarrow> AbiRegistry \<Rightarrow> (string option \<times> (string, pv) dict) option res \<times> AbiRegistry" where
  "decode_input L inp r =
     (if length inp < SELECTOR_HEX_LEN then (Inr None, r)
      else
        (case lookup_function_by_selector L (lower (take SELECTOR_HEX_LEN inp)) r of
           (Inl e, r') \<Rightarrow> (Inl e, r')
         | (Inr None, r') \<Rightarrow> (Inr None, r')
         | (Inr (Some (fn_name, decoder)), r') \<Rightarrow>
             (case run_call_decoder L decoder inp of
                Inl DecodeFailed \<Rightarrow> (Inr None, r')
              | Inl e \<Rightarrow> (Inl e, r')
              | Inr args \<Rightarrow> (Inr (Some (name_of fn_name, args)), r'))))"

definition call_event :: "string \<Rightarrow> BlockHeader \<Rightarrow> Tx \<Rightarrow> string \<Rightarrow> string option \<Rightarrow> (string, pv) dict \<Rightarrow> Event" where
  "call_event chain_id h tx to_addr name args =
     \<lparr>ev_chain_id = chain_id, ev_block_number = bh_number h, ev_block_hash = bh_hash h,
      ev_block_timestamp = bh_timestamp h, ev_tx_hash = tx_hash tx, ev_tx_index = Some (tx_index tx),
      ev_log_index = None, ev_kind = MK_call, ev_contract = Some (lower to_addr), ev_name = name, ev_args = args,
      ev_raw = [(''tx_hash'', PStr (tx_hash tx)), (''input'', PStr (tx_input tx))]\<rparr>"

definition handle_tx :: "AbiLib \<Rightarrow> string \<Rightarrow> BlockHeader \<Rightarrow> Tx \<Rightarrow> AbiRegistry \<Rightarrow> Event option res \<times> AbiRegistry" where
  "handle_tx L chain_id h tx r =
     (if tx_status tx \<noteq> 1 then (Inr None, r)
      else (case tx_to_addr tx of
         None \<Rightarrow> (Inr None, r)
       | Some to_addr \<Rightarrow>
           (case decode_input L (tx_input tx) r of
              (Inl e, r') \<Rightarrow> (Inl e, r')
            | (Inr None, r') \<Rightarrow> (Inr None, r')
            | (Inr (Some (name, args)), r') \<Rightarrow> (Inr (Some (call_event chain_id h tx to_addr name args)), r'))))"

definition abi_call_parse :: "AbiLib \<Rightarrow> string \<Rightarrow> Block \<Rightarrow> AbiRegistry \<Rightarrow> AbiRegistry gen" where
  "abi_call_parse L chain_id block r =
     gen_each (\<lambda>tx r. yield_option (handle_tx L chain_id (blk_header block) tx r)) (blk_txs block) r"

section \<open>Internal calls\<close>

definition MAX_DEPTH :: nat where
  "MAX_DEPTH = 64"

definition internal_event ::
  "string \<Rightarrow> BlockHeader \<Rightarrow> string option \<Rightarrow> string option \<Rightarrow> (string, pv) dict \<Rightarrow> (string, pv) dict \<Rightarrow> Event" where
  "internal_event chain_id h contract name args raw =
     \<lparr>ev_chain_id = chain_id, ev_block_number = bh_number h, ev_block_hash = bh_hash h,
      ev_block_timestamp = bh_timestamp h, ev_tx_hash = [], ev_tx_index = None,
      ev_log_index = None, ev_kind = MK_call, ev_contract = contract, ev_name = name, ev_args = args, ev_raw = raw\<rparr>"

definition internal_try_decode ::
  "AbiLib \<Rightarrow> string \<Rightarrow> Block \<Rightarrow> InternalCall \<Rightarrow> AbiRegistry \<Rightarrow> Event option res \<times> AbiRegistry" where
  "internal_try_decode L chain_id block c r =
     (if ic_type c = ''CREATE'' \<or> ic_type c = ''CREATE2'' then
        (Inr (Some (internal_event chain_id (blk_header block) (ic_created_address c) (Some ''<create>'')
           [(''value'', PStr (int_str (ic_value c)))] [(''type'', PStr (ic_type c))])), r)
      else
        (case decode_input L (ic_input c) r of
           (Inl e, r') \<Rightarrow> (Inl e, r')
         | (Inr None, r') \<Rightarrow> (Inr None, r')
         | (Inr (Some (name, args)), r') \<Rightarrow>
             (Inr (Some (internal_event chain_id (blk_header block)
                (Some (lower (case ic_to_addr c of None \<Rightarrow> [] | Some a \<Rightarrow> a))) name args
                [(''type'', PStr (ic_type c)), (''internal'', PBool True)])), r')))"

text \<open>
  \<open>_walk\<close>: depth first; a call that failed is cut off with everything below it, and so is
  everything deeper than \<open>_MAX_DEPTH\<close>. The first argument is \<open>_MAX_DEPTH + 1 - depth\<close>.
\<close>

fun internal_walk ::
  "nat \<Rightarrow> AbiLib \<Rightarrow> string \<Rightarrow> Block \<Rightarrow> InternalCall \<Rightarrow> AbiRegistry \<Rightarrow> AbiRegistry gen" where
  "internal_walk 0 L chain_id block c r = (([], None), r)"
| "internal_walk (Suc left) L chain_id block c r =
     (if ic_error c \<noteq> None then (([], None), r)
      else
        (case yield_option (internal_try_decode L chain_id block c r) of
           ((evs, Some e), r') \<Rightarrow> ((evs, Some e), r')
         | ((evs, None), r') \<Rightarrow>
             (case gen_each (internal_walk left L chain_id block) (ic_calls c) r' of
                ((evs', e), r'') \<Rightarrow> ((evs @ evs', e), r''))))"

definition internal_parse :: "AbiLib \<Rightarrow> string \<Rightarrow> InternalCall list \<Rightarrow> Block \<Rightarrow> AbiRegistry \<Rightarrow> AbiRegistry gen" where
  "internal_parse L chain_id traces block r =
     gen_each (internal_walk (MAX_DEPTH + 1) L chain_id block) traces r"

section \<open>Each parser meets the contract\<close>

lemma yield_Inr [simp]: "yield_option (Inr m, s) = ((case m of None \<Rightarrow> [] | Some ev \<Rightarrow> [ev], None), s)"
  by (cases m) simp_all

lemma concat_options: "concat (map (\<lambda>x. case f x of None \<Rightarrow> [] | Some y \<Rightarrow> [y]) xs) = List.map_filter f xs"
  by (induction xs) (auto simp: List.map_filter_simps split: option.splits)

lemma native_parse_eq:
  "evm_native_parse c b s = ((List.map_filter (native_step c (blk_header b)) (blk_txs b), None), s)"
  unfolding evm_native_parse_def by (subst gen_each_pure) (auto simp: concat_options)

lemma erc20_parse_eq:
  "erc20_parse c b s =
     ((List.map_filter (erc20_try_decode c (blk_header b) (tx_indexes b)) (blk_logs b), None), s)"
  unfolding erc20_parse_def by (subst gen_each_pure) (auto simp: concat_options)

lemma native_step_Some:
  "native_step c h tx = Some ev \<longleftrightarrow>
     (\<exists>to. tx_to_addr tx = Some to \<and> 0 < tx_value tx \<and> tx_status tx = 1 \<and> ev = native_event c h tx to)"
  by (auto simp: native_step_def split: option.splits)

interpretation native: event_parser "evm_native_parse chain" chain
    "\<lambda>b. bh_number (blk_header b)" "\<lambda>b. bh_hash (blk_header b)" "\<lambda>b. bh_timestamp (blk_header b)"
    "{MK_native_transfer}" for chain
  by unfold_locales
    (auto simp: native_parse_eq native_step_Some native_event_def from_block_def)

lemma erc20_try_decode_origin:
  "erc20_try_decode c h txi lg = Some ev \<Longrightarrow>
   from_block c (bh_number h) (bh_hash h) (bh_timestamp h) ev \<and> ev_kind ev = MK_token_transfer"
  by (auto simp: erc20_try_decode_def from_block_def Let_def split: list.splits if_splits option.splits)

interpretation erc20: event_parser "erc20_parse chain" chain
    "\<lambda>b. bh_number (blk_header b)" "\<lambda>b. bh_hash (blk_header b)" "\<lambda>b. bh_timestamp (blk_header b)"
    "{MK_token_transfer}" for chain
  by unfold_locales (auto simp: erc20_parse_eq dest: erc20_try_decode_origin)

lemma log_event_origin:
  "from_block c (bh_number h) (bh_hash h) (bh_timestamp h) (log_event c h lg n args raw)"
  "ev_kind (log_event c h lg n args raw) = MK_event"
  by (simp_all add: log_event_def from_block_def)

lemma handle_log_event:
  "fst (handle_log L c h lg r) = Inr (Some ev) \<Longrightarrow> \<exists>n args raw. ev = log_event c h lg n args raw"
  by (auto simp: handle_log_def downgraded_def split: list.splits prod.splits sum.splits option.splits exn.splits)

interpretation abi_event: event_parser "abi_event_parse L chain" chain
    "\<lambda>b. bh_number (blk_header b)" "\<lambda>b. bh_hash (blk_header b)" "\<lambda>b. bh_timestamp (blk_header b)"
    "{MK_event}" for L chain
proof unfold_locales
  fix ev b s
  assume "ev \<in> set (gen_events (abi_event_parse L chain b s))"
  then obtain lg n args raw where "ev = log_event chain (blk_header b) lg n args raw"
    unfolding abi_event_parse_def
    by (metis (no_types, lifting) gen_each_mem handle_log_event yield_option_events)
  then show "from_block chain (bh_number (blk_header b)) (bh_hash (blk_header b)) (bh_timestamp (blk_header b)) ev"
    "ev_kind ev \<in> {MK_event}"
    by (simp_all add: log_event_origin)
qed

lemma handle_tx_event:
  "fst (handle_tx L c h tx r) = Inr (Some ev) \<Longrightarrow> \<exists>to n args. ev = call_event c h tx to n args"
  by (auto simp: handle_tx_def split: if_splits prod.splits sum.splits option.splits)

interpretation abi_call: event_parser "abi_call_parse L chain" chain
    "\<lambda>b. bh_number (blk_header b)" "\<lambda>b. bh_hash (blk_header b)" "\<lambda>b. bh_timestamp (blk_header b)"
    "{MK_call}" for L chain
proof unfold_locales
  fix ev b s
  assume "ev \<in> set (gen_events (abi_call_parse L chain b s))"
  then obtain tx to n args where "ev = call_event chain (blk_header b) tx to n args"
    unfolding abi_call_parse_def
    by (metis (no_types, lifting) gen_each_mem handle_tx_event yield_option_events)
  then show "from_block chain (bh_number (blk_header b)) (bh_hash (blk_header b)) (bh_timestamp (blk_header b)) ev"
    "ev_kind ev \<in> {MK_call}"
    by (simp_all add: call_event_def from_block_def)
qed

lemma internal_try_decode_event:
  "fst (internal_try_decode L c b ic r) = Inr (Some ev) \<Longrightarrow>
   \<exists>ct n args raw. ev = internal_event c (blk_header b) ct n args raw"
  by (auto simp: internal_try_decode_def split: if_splits prod.splits sum.splits option.splits)

lemma internal_walk_event:
  "ev \<in> set (gen_events (internal_walk left L c b ic r)) \<Longrightarrow>
   \<exists>ct n args raw. ev = internal_event c (blk_header b) ct n args raw"
proof (induction left arbitrary: ic r)
  case (Suc left)
  obtain evs e r' where y: "yield_option (internal_try_decode L c b ic r) = ((evs, e), r')" by (metis prod.collapse)
  obtain evs' e' r'' where g: "gen_each (internal_walk left L c b) (ic_calls ic) r' = ((evs', e'), r'')" by (metis prod.collapse)
  have "ev \<in> set evs \<or> ev \<in> set evs'"
    using Suc.prems y g by (cases e) (auto split: if_splits)
  then show ?case
  proof
    assume "ev \<in> set evs"
    with y have "ev \<in> set (gen_events (yield_option (internal_try_decode L c b ic r)))" by simp
    then show ?thesis by (metis yield_option_events internal_try_decode_event)
  next
    assume "ev \<in> set evs'"
    with g have "ev \<in> set (gen_events (gen_each (internal_walk left L c b) (ic_calls ic) r'))" by simp
    with Suc.IH show ?thesis by (metis gen_each_mem)
  qed
qed simp

interpretation internal: event_parser "\<lambda>(traces, block). internal_parse L chain traces block" chain
    "\<lambda>(traces, b). bh_number (blk_header b)" "\<lambda>(traces, b). bh_hash (blk_header b)"
    "\<lambda>(traces, b). bh_timestamp (blk_header b)" "{MK_call}" for L chain
proof unfold_locales
  fix ev and b :: "InternalCall list \<times> Block" and s
  assume "ev \<in> set (gen_events ((case b of (traces, block) \<Rightarrow> internal_parse L chain traces block) s))"
  then obtain traces blk ct n args raw where "b = (traces, blk)" "ev = internal_event chain (blk_header blk) ct n args raw"
    by (cases b) (auto simp: internal_parse_def dest!: gen_each_mem dest: internal_walk_event)
  then show "from_block chain (case b of (traces, b) \<Rightarrow> bh_number (blk_header b))
      (case b of (traces, b) \<Rightarrow> bh_hash (blk_header b)) (case b of (traces, b) \<Rightarrow> bh_timestamp (blk_header b)) ev"
    "ev_kind ev \<in> {MK_call}"
    by (simp_all add: internal_event_def from_block_def)
qed

section \<open>Hexadecimal words\<close>

text \<open>\<open>k\<close> hexadecimal digits of a number, most significant first: how a node prints \<open>uint256\<close> data.\<close>

fun hex_be :: "nat \<Rightarrow> int \<Rightarrow> string" where
  "hex_be 0 v = []"
| "hex_be (Suc k) v = hex_be k (v div 16) @ [hex_digit (v mod 16)]"

lemma hex_digit_cases:
  assumes "0 \<le> d" and "d < 16"
  shows "digit_value (hex_digit d) = Some d \<and> hex_digit d \<noteq> CHR ''_'' \<and> hex_digit d \<noteq> CHR ''x'' \<and>
    hex_digit d \<noteq> CHR ''X'' \<and> hex_digit d \<noteq> CHR ''-'' \<and> hex_digit d \<noteq> CHR ''+'' \<and> \<not> is_space (hex_digit d)"
proof -
  have ne: "hex_digit d \<noteq> c" if "of_char c \<noteq> (of_char (hex_digit d) :: nat)" for c using that by auto
  show ?thesis
    using assms hex_digit_value [OF assms]
    by (intro conjI ne) (auto simp: digit_value_def hex_digit_code [OF assms] Let_def)
qed

lemma hex_be_length [simp]: "length (hex_be k v) = k"
  by (induction k arbitrary: v) simp_all

lemma hex_be_chars: "ch \<in> set (hex_be k v) \<Longrightarrow> \<exists>d. 0 \<le> d \<and> d < 16 \<and> ch = hex_digit d"
proof (induction k arbitrary: v)
  case (Suc k)
  have "\<exists>d. 0 \<le> d \<and> d < 16 \<and> hex_digit (v mod 16) = hex_digit d"
    by (intro exI [of _ "v mod 16"]) simp
  with Suc show ?case by auto
qed simp

lemma digits_val_hex_be:
  "0 \<le> v \<Longrightarrow> v < 16 ^ k \<Longrightarrow>
   digits_val 16 acc prev (hex_be k v @ cs) = digits_val 16 (acc * 16 ^ k + v) (prev \<or> 0 < k) cs"
proof (induction k arbitrary: v acc prev cs)
  case (Suc k)
  have d: "0 \<le> v mod 16" "v mod 16 < 16" by simp_all
  have "v div 16 < 16 ^ k" using Suc.prems by (simp add: div_less_iff_less_mult mult.commute)
  moreover have "0 \<le> v div 16" using Suc.prems by simp
  ultimately have "digits_val 16 acc prev (hex_be (Suc k) v @ cs) =
      digits_val 16 (acc * 16 ^ k + v div 16) (prev \<or> 0 < k) (hex_digit (v mod 16) # cs)"
    using Suc.IH [of "v div 16" acc prev "hex_digit (v mod 16) # cs"] by simp
  also have "\<dots> = digits_val 16 ((acc * 16 ^ k + v div 16) * 16 + v mod 16) True cs"
    using hex_digit_cases [OF d] d by simp
  also have "(acc * 16 ^ k + v div 16) * 16 + v mod 16 = acc * 16 ^ Suc k + v"
    by (simp add: algebra_simps)
  finally show ?case by simp
next
  case 0
  then have "v = 0" by simp
  then show ?case by simp
qed

lemma int_of_string_hex_be:
  assumes "0 \<le> v" "v < 16 ^ Suc (Suc k)"
  shows "int_of_string 16 (hex_be (Suc (Suc k)) v) = Some v"
proof -
  define s where "s = hex_be (Suc (Suc k)) v"
  have ne: "s \<noteq> []" unfolding s_def by (metis hex_be_length list.size(3) nat.distinct(1))
  have chars: "\<exists>d. 0 \<le> d \<and> d < 16 \<and> ch = hex_digit d" if "ch \<in> set s" for ch
    using that unfolding s_def by (rule hex_be_chars)
  have strip: "strip s = s"
    using ne chars hex_digit_cases by (intro strip_id) (metis hd_in_set last_in_set)+
  obtain a b rest where ab_s: "s = a # b # rest"
    unfolding s_def by (metis hex_be_length length_Suc_conv)
  then have ab: "a \<noteq> CHR ''-''" "a \<noteq> CHR ''+''" "b \<noteq> CHR ''x''" "b \<noteq> CHR ''X''"
    using chars [of a] chars [of b] hex_digit_cases by auto
  have "int_of_string 16 s = digits_val 16 0 False (drop_radix 16 s)"
    unfolding int_of_string_def strip using ab by (simp add: ab_s)
  also have "drop_radix 16 s = s"
    using ab by (simp add: drop_radix_def ab_s)
  also have "digits_val 16 0 False s = Some v"
    using digits_val_hex_be [OF assms, of 0 False "[]"] by (simp add: s_def del: hex_be.simps)
  finally show ?thesis by (simp add: s_def del: hex_be.simps)
qed

section \<open>What the registry state changes in a parser: nothing\<close>

lemma lookup_event_stable:
  assumes "lib_ok L" "reg_ok L snap r" "reg_ok L snap r0"
  shows "fst (lookup_event_by_topic0 L t r) = fst (lookup_event_by_topic0 L t r0) \<and>
    reg_ok L snap (snd (lookup_event_by_topic0 L t r))"
proof -
  have "ar_topic0_index r = ar_topic0_index r0" using assms(2,3) by (simp add: reg_ok_def)
  then show ?thesis
    using lookup_event_ok [OF assms(1,2) prod.collapse [symmetric]] lookup_event_ok [OF assms(1,3) prod.collapse [symmetric]]
    by metis
qed

lemma lookup_function_stable:
  assumes "lib_ok L" "reg_ok L snap r" "reg_ok L snap r0"
  shows "fst (lookup_function_by_selector L t r) = fst (lookup_function_by_selector L t r0) \<and>
    reg_ok L snap (snd (lookup_function_by_selector L t r))"
proof -
  have "ar_selector_index r = ar_selector_index r0" using assms(2,3) by (simp add: reg_ok_def)
  then show ?thesis
    using lookup_function_ok [OF assms(1,2) prod.collapse [symmetric]] lookup_function_ok [OF assms(1,3) prod.collapse [symmetric]]
    by metis
qed

text \<open>What becomes of a log once its lookup is known.\<close>

definition decode_log :: "AbiLib \<Rightarrow> string \<Rightarrow> BlockHeader \<Rightarrow> Log \<Rightarrow> (pv \<times> Decoder) option res \<Rightarrow> Event option res" where
  "decode_log L c h lg found =
     (case found of
        Inl e \<Rightarrow> Inl e
      | Inr None \<Rightarrow> Inr (Some (downgraded c h lg))
      | Inr (Some (n, d)) \<Rightarrow>
          (case run_event_decoder L d (lg_topics lg) (lg_data lg) of
             Inr args \<Rightarrow> Inr (Some (log_event c h lg (name_of n) args
               [(''tx_hash'', PStr (lg_tx_hash lg)), (''log_index'', PInt (lg_log_index lg))]))
           | Inl e \<Rightarrow> if e = DecodeFailed then Inr (Some (downgraded c h lg)) else Inl e))"

lemma handle_log_split:
  "handle_log L c h lg r =
     (case lg_topics lg of
        [] \<Rightarrow> (Inr None, r)
      | t # _ \<Rightarrow> (decode_log L c h lg (fst (lookup_event_by_topic0 L t r)), snd (lookup_event_by_topic0 L t r)))"
  by (auto simp: handle_log_def decode_log_def split: list.splits prod.splits sum.splits option.splits exn.splits)

lemma handle_log_stable:
  assumes "lib_ok L" "reg_ok L snap r" "reg_ok L snap r0"
  shows "fst (handle_log L c h lg r) = fst (handle_log L c h lg r0) \<and> reg_ok L snap (snd (handle_log L c h lg r))"
  using lookup_event_stable [OF assms] assms(2) by (auto simp: handle_log_split split: list.splits)

lemma fst_yield_option: "fst (yield_option r) = fst (yield_option (fst r, ()))"
  by (cases r rule: yield_option.cases) auto

lemma snd_yield_option [simp]: "snd (yield_option r) = snd r"
  by (cases r rule: yield_option.cases) auto

text \<open>One log on its own, in the registry a block starts with.\<close>

definition log_outcome :: "AbiLib \<Rightarrow> string \<Rightarrow> Block \<Rightarrow> AbiRegistry \<Rightarrow> Log \<Rightarrow> Event list \<times> exn option" where
  "log_outcome L c b r lg = fst (yield_option (fst (handle_log L c (blk_header b) lg r), ()))"

lemma abi_event_parse_stateless:
  assumes "lib_ok L" "reg_ok L snap r"
  shows "fst (abi_event_parse L c b r) = gen_stateless (log_outcome L c b r) (blk_logs b) \<and>
    reg_ok L snap (snd (abi_event_parse L c b r))"
  unfolding abi_event_parse_def
proof (rule gen_each_forget [where P = "reg_ok L snap"])
  fix lg s
  assume "reg_ok L snap s"
  from handle_log_stable [OF assms(1) this assms(2)]
  show "fst (yield_option (handle_log L c (blk_header b) lg s)) = log_outcome L c b r lg \<and>
      reg_ok L snap (snd (yield_option (handle_log L c (blk_header b) lg s)))"
    by (metis fst_yield_option log_outcome_def snd_yield_option)
qed (rule assms(2))

lemma log_outcome_cases:
  "log_outcome L c b r lg =
     (case lg_topics lg of
        [] \<Rightarrow> ([], None)
      | t # _ \<Rightarrow>
          (case decode_log L c (blk_header b) lg (fst (lookup_event_by_topic0 L t r)) of
             Inl e \<Rightarrow> ([], Some e)
           | Inr None \<Rightarrow> ([], None)
           | Inr (Some ev) \<Rightarrow> ([ev], None)))"
  by (auto simp: log_outcome_def handle_log_split split: list.splits sum.splits option.splits)

lemma decode_log_event:
  "decode_log L c h lg found = Inr m \<Longrightarrow> \<exists>ev. m = Some ev \<and> ev_log_index ev = Some (lg_log_index lg) \<and>
     ev_tx_hash ev = lg_tx_hash lg \<and> ev_contract ev = Some (lower (lg_address lg))"
  by (auto simp: decode_log_def log_event_def downgraded_def split: sum.splits option.splits if_splits)

section \<open>The calls a trace shows\<close>

text \<open>The calls of a trace in depth-first order, without failed calls and what is below them, to a given depth.\<close>

fun visible_calls :: "nat \<Rightarrow> InternalCall \<Rightarrow> InternalCall list" where
  "visible_calls 0 c = []"
| "visible_calls (Suc left) c = (if ic_error c \<noteq> None then [] else c # concat (map (visible_calls left) (ic_calls c)))"

definition call_outcome :: "AbiLib \<Rightarrow> string \<Rightarrow> Block \<Rightarrow> AbiRegistry \<Rightarrow> InternalCall \<Rightarrow> Event list \<times> exn option" where
  "call_outcome L c b r ic = fst (yield_option (fst (internal_try_decode L c b ic r), ()))"

lemma decode_input_stable:
  assumes "lib_ok L" "reg_ok L snap r" "reg_ok L snap r0"
  shows "fst (decode_input L inp r) = fst (decode_input L inp r0) \<and> reg_ok L snap (snd (decode_input L inp r))"
proof -
  let ?t = "lower (take SELECTOR_HEX_LEN inp)"
  obtain res r1 where l: "lookup_function_by_selector L ?t r = (res, r1)" by (metis prod.collapse)
  obtain res0 r2 where l0: "lookup_function_by_selector L ?t r0 = (res0, r2)" by (metis prod.collapse)
  have "res = res0" "reg_ok L snap r1"
    using lookup_function_stable [OF assms, of ?t] l l0 by auto
  with assms(2) show ?thesis
    by (auto simp: decode_input_def l l0 split: sum.splits option.splits exn.splits)
qed

lemma internal_try_decode_stable:
  assumes "lib_ok L" "reg_ok L snap r" "reg_ok L snap r0"
  shows "fst (internal_try_decode L c b ic r) = fst (internal_try_decode L c b ic r0) \<and>
    reg_ok L snap (snd (internal_try_decode L c b ic r))"
proof -
  obtain res r1 where l: "decode_input L (ic_input ic) r = (res, r1)" by (metis prod.collapse)
  obtain res0 r2 where l0: "decode_input L (ic_input ic) r0 = (res0, r2)" by (metis prod.collapse)
  have "res = res0" "reg_ok L snap r1"
    using decode_input_stable [OF assms, of "ic_input ic"] l l0 by auto
  with assms(2) show ?thesis
    by (auto simp: internal_try_decode_def l l0 split: sum.splits option.splits)
qed

lemma internal_walk_stateless:
  assumes "lib_ok L" "reg_ok L snap r"
  shows "reg_ok L snap s \<Longrightarrow>
    fst (internal_walk left L c b ic s) = gen_stateless (call_outcome L c b r) (visible_calls left ic) \<and>
    reg_ok L snap (snd (internal_walk left L c b ic s))"
proof (induction left arbitrary: ic s)
  case (Suc left)
  obtain evs e s1 where y: "yield_option (internal_try_decode L c b ic s) = ((evs, e), s1)" by (metis prod.collapse)
  have out: "call_outcome L c b r ic = (evs, e)" and s1: "reg_ok L snap s1"
    using internal_try_decode_stable [OF assms(1) Suc.prems assms(2), of c b ic] y
    by (metis call_outcome_def fst_conv fst_yield_option snd_conv snd_yield_option)+
  have sub: "fst (gen_each (internal_walk left L c b) (ic_calls ic) s1) =
      gen_stateless (\<lambda>k. gen_stateless (call_outcome L c b r) (visible_calls left k)) (ic_calls ic) \<and>
      reg_ok L snap (snd (gen_each (internal_walk left L c b) (ic_calls ic) s1))"
    by (rule gen_each_forget [where P = "reg_ok L snap"]) (use Suc.IH s1 in auto)
  show ?case
  proof (cases "ic_error ic")
    case None
    with y out s1 sub show ?thesis
      by (cases e) (auto simp: gen_stateless_nested split: prod.splits)
  qed (use Suc.prems in simp)
qed simp

section \<open>Properties\<close>

text \<open>
  Native transfers are exactly the successful value transfers: the parser emits one event, in
  block order, for every transaction that has a recipient, a positive value and status 1, and none
  for contract creations, zero-value or reverted transactions; the amount is the exact decimal value.
  It never raises.
\<close>

theorem native_transfers_exact:
  "evm_native_parse c b s =
     (([native_event c (blk_header b) tx to. tx \<leftarrow> blk_txs b, 0 < tx_value tx \<and> tx_status tx = 1,
          to \<leftarrow> (case tx_to_addr tx of None \<Rightarrow> [] | Some a \<Rightarrow> [a])], None), s) \<and>
   (\<forall>tx to. py_int (the (d_get (ev_args (native_event c (blk_header b) tx to)) ''value'')) = Inr (tx_value tx))"
proof -
  have "List.map_filter (native_step c h) txs =
      [native_event c h tx to. tx \<leftarrow> txs, 0 < tx_value tx \<and> tx_status tx = 1,
          to \<leftarrow> (case tx_to_addr tx of None \<Rightarrow> [] | Some a \<Rightarrow> [a])]" for h txs
    by (induction txs) (auto simp: List.map_filter_simps native_step_def split: option.splits)
  moreover have "py_int (the (d_get (ev_args (native_event c h tx to)) ''value'')) = Inr (tx_value tx)" for h tx to
    by (simp add: native_event_def int_of_string_int_str)
  ultimately show ?thesis by (simp add: native_parse_eq)
qed

text \<open>
  An ERC-20 transfer is decoded exactly: a log with the Transfer topic, two padded address topics
  and any amount below \<open>2^256\<close> as its first data word gives an event with the two addresses in
  lower case and that amount in decimal, and extra data after the word changes nothing.
\<close>

theorem erc20_decodes:
  assumes "lg_topics lg = [t0, ''0x'' @ pad1 @ from_hex, ''0x'' @ pad2 @ to_hex]"
    and "lower t0 = ERC20_TRANSFER_TOPIC0"
    and "length from_hex = 40" and "length to_hex = 40"
    and "lg_data lg = ''0x'' @ hex_be 64 v @ extra" and "0 \<le> v" and "v < 2 ^ 256"
  shows "\<exists>ev. erc20_try_decode c h txi lg = Some ev \<and>
    ev_args ev = [(''from'', PStr (''0x'' @ lower from_hex)), (''to'', PStr (''0x'' @ lower to_hex)), (''value'', PStr (int_str v))] \<and>
    ev_contract ev = Some (lower (lg_address lg)) \<and> ev_log_index ev = Some (lg_log_index lg)"
proof -
  have addr: "addr_from_topic (''0x'' @ pad @ a) = ''0x'' @ lower a" if "length a = 40" for pad a
    using that by (simp add: addr_from_topic_def removeprefix_def Let_def lower_append take_last_def)
  have "(16 :: int) ^ 64 = 2 ^ 256" by simp
  then have "int_of_string 16 (hex_be 64 v) = Some v"
    using int_of_string_hex_be [of v 62] assms(6,7) by (simp add: eval_nat_numeral del: hex_be.simps)
  moreover have "removeprefix (lg_data lg) ''0x'' = hex_be 64 v @ extra"
    by (simp add: assms(5) removeprefix_def)
  ultimately show ?thesis
    using addr [OF assms(3), of pad1] addr [OF assms(4), of pad2]
    by (simp add: erc20_try_decode_def assms(1,2) Let_def del: hex_be.simps)
qed

definition ex_block :: "Log list \<Rightarrow> Block" where
  "ex_block lgs = \<lparr>blk_header = \<lparr>bh_number = 7, bh_hash = ''h7'', bh_parent_hash = ''h6'', bh_timestamp = 0\<rparr>,
     blk_txs = [], blk_logs = lgs\<rparr>"

definition ex_transfer_log :: Log where
  "ex_transfer_log = \<lparr>lg_tx_hash = ''0x1'', lg_log_index = 3, lg_address = ''0xAB'',
     lg_topics = [ERC20_TRANSFER_TOPIC0, ''0x'' @ replicate 24 CHR ''0'' @ replicate 40 CHR ''A'',
       ''0x'' @ replicate 24 CHR ''0'' @ replicate 40 CHR ''b''],
     lg_data = ''0x'' @ hex_be 64 (2 ^ 200) @ [], lg_block_number = 7\<rparr>"

theorem erc20_decodes_witness:
  "\<exists>ev. erc20_try_decode ''eth'' (blk_header (ex_block [])) [] ex_transfer_log = Some ev \<and>
     d_get (ev_args ev) ''value'' = Some (PStr (int_str (2 ^ 200)))"
proof -
  have low: "lower ERC20_TRANSFER_TOPIC0 = ERC20_TRANSFER_TOPIC0" by code_simp
  from erc20_decodes [OF _ low, of ex_transfer_log "replicate 24 CHR ''0''" "replicate 40 CHR ''A''" "replicate 24 CHR ''0''"
      "replicate 40 CHR ''b''" "2 ^ 200" "[]" "''eth''" "blk_header (ex_block [])" "[]"]
  show ?thesis by (auto simp: ex_transfer_log_def)
qed

text \<open>
  The ABI event parser accounts for every log: when no log raises, the events are, in order, one
  per log that has a topic, each with that log's index, transaction and contract; a log whose ABI is
  unknown or whose data does not decode is passed on raw rather than dropped. The registry's caches
  have no influence.
\<close>

theorem abi_event_one_per_log:
  assumes "lib_ok L" and "reg_run L snap r"
    and "\<forall>lg \<in> set (blk_logs b). snd (log_outcome L c b r lg) = None"
  shows "gen_exn (abi_event_parse L c b r) = None \<and>
    map (\<lambda>ev. (ev_log_index ev, ev_tx_hash ev, ev_contract ev)) (gen_events (abi_event_parse L c b r)) =
      [(Some (lg_log_index lg), lg_tx_hash lg, Some (lower (lg_address lg))). lg \<leftarrow> blk_logs b, lg_topics lg \<noteq> []]"
proof -
  have ok: "reg_ok L snap r" using assms(1,2) by (simp add: reg_run_ok)
  have one: "map (\<lambda>ev. (ev_log_index ev, ev_tx_hash ev, ev_contract ev)) (fst (log_outcome L c b r lg)) =
      (if lg_topics lg \<noteq> [] then [(Some (lg_log_index lg), lg_tx_hash lg, Some (lower (lg_address lg)))] else [])"
    if "snd (log_outcome L c b r lg) = None" for lg
    using that unfolding log_outcome_cases by (auto split: list.splits sum.splits option.splits dest!: decode_log_event)
  have "fst (abi_event_parse L c b r) = (concat (map (fst \<circ> log_outcome L c b r) (blk_logs b)), None)"
    using abi_event_parse_stateless [OF assms(1) ok] gen_stateless_all [OF assms(3)] by simp
  moreover have "map (\<lambda>ev. (ev_log_index ev, ev_tx_hash ev, ev_contract ev)) (concat (map (fst \<circ> log_outcome L c b r) lgs)) =
      [(Some (lg_log_index lg), lg_tx_hash lg, Some (lower (lg_address lg))). lg \<leftarrow> lgs, lg_topics lg \<noteq> []]"
    if "\<forall>lg \<in> set lgs. snd (log_outcome L c b r lg) = None" for lgs
    using that by (induction lgs) (simp_all add: one)
  ultimately show ?thesis using assms(3) by simp
qed

definition ex_log :: "string list \<Rightarrow> Log" where
  "ex_log topics = \<lparr>lg_tx_hash = ''0x1'', lg_log_index = 0, lg_address = ''0xAB'', lg_topics = topics, lg_data = ''0x'',
     lg_block_number = 7\<rparr>"

definition ex_registry :: AbiRegistry where
  "ex_registry = snd (refresh ex_lib ex_abi_snapshot registry_init)"

lemma ex_registry_run: "reg_run ex_lib ex_abi_snapshot ex_registry"
proof -
  have "fst (refresh ex_lib ex_abi_snapshot registry_init) = None" by code_simp
  then show ?thesis
    by (intro reg_start) (simp add: ex_registry_def prod_eq_iff)
qed

theorem abi_event_one_per_log_witness:
  "map ev_log_index (gen_events (abi_event_parse ex_lib ''eth'' (ex_block [ex_log [''0x77''], ex_log []]) ex_registry)) = [Some 0]"
proof -
  have *: "\<forall>lg \<in> set (blk_logs (ex_block [ex_log [''0x77''], ex_log []])).
      snd (log_outcome ex_lib ''eth'' (ex_block [ex_log [''0x77''], ex_log []]) ex_registry lg) = None"
    by code_simp
  have "map fst (map (\<lambda>ev. (ev_log_index ev, ev_tx_hash ev, ev_contract ev))
      (gen_events (abi_event_parse ex_lib ''eth'' (ex_block [ex_log [''0x77''], ex_log []]) ex_registry))) = [Some 0]"
    using abi_event_one_per_log [OF ex_lib_ok ex_registry_run *] by (simp add: ex_block_def ex_log_def)
  then show ?thesis by (simp add: comp_def)
qed

text \<open>
  One undecodable indexed topic silences the rest of its block. When the library rejects an
  indexed topic of a registered event, the error is not the \<open>DecodeFailed\<close> that \<open>_handle_log\<close>
  catches: the parser ends there and every later log of the block yields no event, although a log
  whose data does not decode is meant to be passed on raw.
\<close>

theorem undecodable_topic_silences_block:
  assumes "lib_ok L" and "reg_run L snap r"
    and "blk_logs b = pre @ lg # post" and "\<forall>lg' \<in> set pre. snd (log_outcome L c b r lg') = None"
    and "lg_topics lg = [t0, t1]" and "fst (lookup_event_by_topic0 L t0 r) = Inr (Some (n, EventDecoder entry))"
    and "split_indexed entry = Inr ([inp], nind)" and "canonical_type inp = Inr t" and "\<not> is_reference_type t"
    and "bytes_fromhex (removeprefix t1 ''0x'') = Inr raw" and "al_decode L [t] raw = Inl e" and "e \<noteq> DecodeFailed"
  shows "fst (abi_event_parse L c b r) = (concat (map (fst \<circ> log_outcome L c b r) pre), Some e)"
proof -
  have ok: "reg_ok L snap r" using assms(1,2) by (simp add: reg_run_ok)
  have "decode_event L entry [t0, t1] (lg_data lg) = Inl e"
    using assms(7-11) by (simp add: decode_event_def decode_topic_def)
  then have "log_outcome L c b r lg = ([], Some e)"
    using assms(5,6,12) by (simp add: log_outcome_cases decode_log_def)
  then show ?thesis
    using abi_event_parse_stateless [OF assms(1) ok] gen_stateless_cut [OF assms(4), of lg e post] assms(3) by simp
qed

definition strict_lib :: AbiLib where
  "strict_lib = ex_lib\<lparr>al_decode := (\<lambda>types raw. if length raw = 32 then Inr (map (\<lambda>t. PInt (le_val raw)) types)
     else Inl (ExternalError ''DecodingError''))\<rparr>"

lemma strict_lib_ok: "lib_ok strict_lib"
  using ex_lib_ok by (simp add: lib_ok_def strict_lib_def)

definition strict_registry :: AbiRegistry where
  "strict_registry = snd (refresh strict_lib ex_abi_snapshot registry_init)"

lemma strict_registry_run: "reg_run strict_lib ex_abi_snapshot strict_registry"
proof -
  have "fst (refresh strict_lib ex_abi_snapshot registry_init) = None" by code_simp
  then show ?thesis by (intro reg_start) (simp add: strict_registry_def prod_eq_iff)
qed

definition paid_topic :: string where
  "paid_topic = ''0x'' @ bytes_hex (take 32 (ascii_bytes ''Paid(uint256,uint256)'' @ replicate 32 0))"

theorem undecodable_topic_silences_block_witness:
  "fst (abi_event_parse strict_lib ''eth'' (ex_block [ex_log [paid_topic, ''0x07''], ex_log [''0x77'']]) strict_registry) =
     ([], Some (ExternalError ''DecodingError''))"
proof -
  have look: "fst (lookup_event_by_topic0 strict_lib paid_topic strict_registry) =
      Inr (Some (PStr ''Paid'', EventDecoder ex_event_abi))"
    by code_simp
  have inp: "split_indexed ex_event_abi = Inr
      ([PDict [(''name'', PStr ''who''), (''type'', PStr ''uint256''), (''indexed'', PBool True)]],
       [PDict [(''name'', PStr ''amount''), (''type'', PStr ''uint256'')]])"
    by code_simp
  have ty: "canonical_type (PDict [(''name'', PStr ''who''), (''type'', PStr ''uint256''), (''indexed'', PBool True)]) = Inr ''uint256''"
    "\<not> is_reference_type ''uint256''" "bytes_fromhex (removeprefix ''0x07'' ''0x'') = Inr [7]"
    "al_decode strict_lib [''uint256''] [7] = Inl (ExternalError ''DecodingError'')"
    by code_simp+
  show ?thesis
    using undecodable_topic_silences_block [OF strict_lib_ok strict_registry_run, where pre = "[]" and post = "[ex_log [''0x77'']]"
        and lg = "ex_log [paid_topic, ''0x07'']" and b = "ex_block [ex_log [paid_topic, ''0x07''], ex_log [''0x77'']]" and c = "''eth''",
        OF _ _ _ look inp ty]
    by (simp add: ex_block_def ex_log_def)
qed

text \<open>
  Internal calls: the parser reports on exactly the calls of the traces that are visible, in
  depth-first order: calls that failed are cut off together with everything below them, and so are
  calls nested deeper than 64. Each visible call is judged alone, whatever the registry cached before.
\<close>

theorem internal_calls_visible:
  assumes "lib_ok L" and "reg_run L snap r"
  shows "fst (internal_parse L c traces b r) =
    gen_stateless (call_outcome L c b r) (concat (map (visible_calls (MAX_DEPTH + 1)) traces))"
proof -
  have ok: "reg_ok L snap r" using assms by (simp add: reg_run_ok)
  show ?thesis
    unfolding internal_parse_def gen_stateless_nested [symmetric]
    by (rule gen_each_forget [where P = "reg_ok L snap", THEN conjunct1])
      (simp_all add: internal_walk_stateless [OF assms(1) ok] ok del: internal_walk.simps visible_calls.simps add_2_eq_Suc Suc_eq_plus1 add_Suc_right One_nat_def)
qed

definition ex_call :: "string \<Rightarrow> string option \<Rightarrow> InternalCall list \<Rightarrow> InternalCall" where
  "ex_call ty err kids = InternalCall ty ''0xa'' (Some ''0xb'') 5 0 [] [] err kids (Some ''0xc'')"

theorem internal_calls_visible_witness:
  "map ev_name (fst (fst (internal_parse ex_lib ''eth''
     [ex_call ''CREATE'' None [ex_call ''CALL'' (Some ''reverted'') [ex_call ''CREATE2'' None []], ex_call ''CREATE2'' None []]]
     (ex_block []) ex_registry))) = [Some ''<create>'', Some ''<create>'']"
proof -
  have vis: "concat (map (visible_calls (MAX_DEPTH + 1))
      [ex_call ''CREATE'' None [ex_call ''CALL'' (Some ''reverted'') [ex_call ''CREATE2'' None []], ex_call ''CREATE2'' None []]]) =
    [ex_call ''CREATE'' None [ex_call ''CALL'' (Some ''reverted'') [ex_call ''CREATE2'' None []], ex_call ''CREATE2'' None []],
     ex_call ''CREATE2'' None []]"
    by (simp add: MAX_DEPTH_def eval_nat_numeral ex_call_def)
  show ?thesis
    unfolding internal_calls_visible [OF ex_lib_ok ex_registry_run] vis
    by (simp add: call_outcome_def internal_try_decode_def ex_call_def internal_event_def)
qed

end
