(* ===== verification/Filter_Set.thy ===== *)
theory Filter_Set
  imports Evm_Parsers Matcher "HOL-Library.List_Lexorder" "HOL-Library.Char_ord"
begin

text \<open>
  \<^verbatim>\<open>core/matcher/filter_set.py\<close>: the addresses and topics the node is asked for, derived from the
  snapshot. The node's filtering is only an optimisation if no log is lost that a subscription would
  have matched; that is the main lemma, with the condition it needs.
\<close>

section \<open>Operations\<close>

record EvmLogFilterSet =
  fs_addresses :: "string list option"
  fs_topic0s :: "string list option"
  fs_skip_logs :: bool

text \<open>\<open>[list(self.topic0s)] if self.topic0s else None\<close>\<close>

definition topics_param :: "EvmLogFilterSet \<Rightarrow> string list list option" where
  "topics_param f = (case fs_topic0s f of None \<Rightarrow> None | Some ts \<Rightarrow> if ts = [] then None else Some [ts])"

text \<open>\<open>sorted\<close> of a set of strings.\<close>

definition sorted_strings :: "string list \<Rightarrow> string list" where
  "sorted_strings ss = sort (remdups ss)"

fun collect_topic0s :: "AbiRegistry option \<Rightarrow> SnapshotSubscription list \<Rightarrow> string list \<Rightarrow> string list option" where
  "collect_topic0s reg [] out = Some out"
| "collect_topic0s reg (s # rest) out =
     (if ss_match_kind s = MK_token_transfer then collect_topic0s reg rest (ERC20_TRANSFER_TOPIC0 # out)
      else case (ss_abi_id s, ss_match_name s, reg) of
          (Some abi_id, Some name, Some r) \<Rightarrow>
            (case event_topic0_for r abi_id name of
               None \<Rightarrow> None
             | Some t0 \<Rightarrow> collect_topic0s reg rest (t0 # out))
        | _ \<Rightarrow> None)"

definition log_consuming :: "SnapshotSubscription \<Rightarrow> bool" where
  "log_consuming s \<longleftrightarrow> ss_match_kind s = MK_event \<or> ss_match_kind s = MK_token_transfer"

definition build_evm_log_filter :: "ConfigSnapshot \<Rightarrow> string \<Rightarrow> AbiRegistry option \<Rightarrow> EvmLogFilterSet" where
  "build_evm_log_filter snap chain_id reg =
     (let relevant = filter log_consuming (subscriptions_for_chain snap chain_id)
      in if relevant = [] then \<lparr>fs_addresses = None, fs_topic0s = None, fs_skip_logs = True\<rparr>
         else
           \<lparr>fs_addresses =
              (if list_ex (\<lambda>s. ss_address s = None) relevant then None
               else Some (sorted_strings (List.map_filter (\<lambda>s. map_option lower (ss_address s)) relevant))),
            fs_topic0s = map_option sorted_strings (collect_topic0s reg relevant []),
            fs_skip_logs = False\<rparr>)"

text \<open>
  Which logs \<open>eth_getLogs\<close> returns for a filter: the address is one of the given ones and the first
  topic one of the first list, compared as hexadecimal numbers, so without regard to case.
\<close>

definition log_passes :: "EvmLogFilterSet \<Rightarrow> Log \<Rightarrow> bool" where
  "log_passes f lg \<longleftrightarrow> \<not> fs_skip_logs f \<and>
     (case fs_addresses f of None \<Rightarrow> True | Some as \<Rightarrow> lower (lg_address lg) \<in> lower ` set as) \<and>
     (case topics_param f of
        None \<Rightarrow> True
      | Some (ts # _) \<Rightarrow> (case lg_topics lg of [] \<Rightarrow> False | t # _ \<Rightarrow> lower t \<in> lower ` set ts)
      | Some [] \<Rightarrow> True)"

section \<open>Facts\<close>

lemma sorted_strings_set [simp]: "set (sorted_strings ss) = set ss"
  by (simp add: sorted_strings_def)

lemma collect_topic0s_mem:
  "collect_topic0s reg subs out = Some ts \<Longrightarrow> set out \<subseteq> set ts \<and>
   (\<forall>s \<in> set subs.
      (ss_match_kind s = MK_token_transfer \<longrightarrow> ERC20_TRANSFER_TOPIC0 \<in> set ts) \<and>
      (ss_match_kind s \<noteq> MK_token_transfer \<longrightarrow>
         (\<exists>abi_id name r t0. ss_abi_id s = Some abi_id \<and> ss_match_name s = Some name \<and> reg = Some r \<and>
            event_topic0_for r abi_id name = Some t0 \<and> t0 \<in> set ts)))"
proof (induction subs arbitrary: out)
  case (Cons s rest)
  show ?case
  proof (cases "ss_match_kind s = MK_token_transfer")
    case True
    with Cons.prems have "collect_topic0s reg rest (ERC20_TRANSFER_TOPIC0 # out) = Some ts" by simp
    from Cons.IH [OF this] True show ?thesis by auto
  next
    case False
    with Cons.prems obtain abi_id name r t0 where s: "ss_abi_id s = Some abi_id" "ss_match_name s = Some name"
        "reg = Some r" "event_topic0_for r abi_id name = Some t0" "collect_topic0s reg rest (t0 # out) = Some ts"
      by (auto split: option.splits)
    from Cons.IH [OF s(5)] s False show ?thesis by auto
  qed
qed simp

lemma find_topic0_mem: "find_topic0 idx aid n = Some t0 \<Longrightarrow> (t0, (aid, n)) \<in> set idx"
  by (induction idx aid n rule: find_topic0.induct) (auto split: if_splits)

text \<open>The event of a log a subscription matches has passed the address check of the matcher.\<close>

lemma matched_address:
  assumes "sub_matches s ev = Inr True" and "ss_address s = Some a" and "ev_contract ev = Some (lower w)"
  shows "lower a = lower w"
proof -
  have "addr_norm a = addr_norm (lower w)"
    using assms by (auto simp: sub_matches_def split: if_splits)
  then have "lower (addr_norm a) = lower (addr_norm (lower w))" by simp
  then show ?thesis by (simp add: addr_norm_def split: if_splits)
qed

lemma matched_name: "sub_matches s ev = Inr True \<Longrightarrow> ss_match_name s = Some n \<Longrightarrow> ev_name ev = Some n"
  by (auto simp: sub_matches_def split: if_splits)

section \<open>Properties\<close>

text \<open>One event name, one topic: no two indexed events share a name.\<close>

definition names_unique :: "AbiRegistry \<Rightarrow> bool" where
  "names_unique r \<longleftrightarrow> distinct (map (snd \<circ> snd) (ar_topic0_index r))"

lemma names_unique_key:
  "names_unique r \<Longrightarrow> (k1, (a1, n)) \<in> set (ar_topic0_index r) \<Longrightarrow> (k2, (a2, n)) \<in> set (ar_topic0_index r) \<Longrightarrow> k1 = k2"
  unfolding names_unique_def distinct_map inj_on_def by fastforce

text \<open>How the event of a log came about.\<close>

definition event_of_log :: "AbiLib \<Rightarrow> string \<Rightarrow> BlockHeader \<Rightarrow> (string, int) dict \<Rightarrow> AbiRegistry \<Rightarrow> Log \<Rightarrow> Event \<Rightarrow> bool" where
  "event_of_log L c h txi r lg ev \<longleftrightarrow>
     erc20_try_decode c h txi lg = Some ev \<or> fst (handle_log L c h lg r) = Inr (Some ev)"

lemma erc20_event_log:
  "erc20_try_decode c h txi lg = Some ev \<Longrightarrow>
   ev_kind ev = MK_token_transfer \<and> ev_contract ev = Some (lower (lg_address lg)) \<and>
   (\<exists>t rest. lg_topics lg = t # rest \<and> lower t = ERC20_TRANSFER_TOPIC0)"
  by (auto simp: erc20_try_decode_def Let_def split: list.splits if_splits option.splits)

lemma abi_event_log:
  "fst (handle_log L c h lg r) = Inr (Some ev) \<Longrightarrow>
   ev_kind ev = MK_event \<and> ev_contract ev = Some (lower (lg_address lg)) \<and>
   (\<exists>t rest. lg_topics lg = t # rest \<and>
      (\<forall>n. ev_name ev = Some n \<longrightarrow> (\<exists>d. fst (lookup_event_by_topic0 L t r) = Inr (Some (PStr n, d)))))"
proof -
  assume a: "fst (handle_log L c h lg r) = Inr (Some ev)"
  then obtain t rest where t: "lg_topics lg = t # rest"
    by (auto simp: handle_log_split split: list.splits)
  with a have d: "decode_log L c h lg (fst (lookup_event_by_topic0 L t r)) = Inr (Some ev)"
    by (simp add: handle_log_split)
  have nm: "name_of v = Some n \<Longrightarrow> v = PStr n" for v n by (cases v) auto
  from d t show ?thesis
    by (auto simp: decode_log_def log_event_def downgraded_def split: sum.splits option.splits if_splits dest!: nm)
qed

lemma lookup_event_indexed:
  assumes "lib_ok L" "reg_ok L snap r" "fst (lookup_event_by_topic0 L t r) = Inr (Some (n, d))"
  shows "\<exists>aid. (lower t, (aid, n)) \<in> set (ar_topic0_index r)"
proof -
  have "named_spec (fresh_event L (snapshot_abis snap)) (ar_topic0_index r) t = Inr (Some (n, d))"
    using lookup_event_ok [OF assms(1,2) prod.collapse [symmetric]] assms(3) by metis
  then obtain aid where "d_get (ar_topic0_index r) (lower t) = Some (aid, n)"
    by (auto simp: named_spec_def res_simps split: option.splits)
  then show ?thesis by (auto dest: map_of_SomeD)
qed

text \<open>
  C10. Asking the node only for some logs loses nothing: when no two indexed events share a name,
  every log whose event, decoded by the ERC-20 or the ABI parser, matches an enabled subscription
  of the chain passes the filter built from the snapshot, by address and by topic.
\<close>

theorem log_filter_sound:
  assumes "lib_ok L" and "reg_run L reg_snap r" and "names_unique r"
    and "s \<in> set (subscriptions_for_chain snap c)" and "ss_match_kind s = ev_kind ev"
    and "sub_matches s ev = Inr True" and "event_of_log L c h txi r lg ev"
  shows "log_passes (build_evm_log_filter snap c (Some r)) lg"
proof -
  let ?rel = "filter log_consuming (subscriptions_for_chain snap c)"
  have ok: "reg_ok L reg_snap r" using assms(1,2) by (simp add: reg_run_ok)
  obtain t rest where lg: "lg_topics lg = t # rest" "ev_contract ev = Some (lower (lg_address lg))"
      and kind: "(ev_kind ev = MK_token_transfer \<and> lower t = ERC20_TRANSFER_TOPIC0) \<or>
        (ev_kind ev = MK_event \<and> (\<forall>n. ev_name ev = Some n \<longrightarrow> (\<exists>d. fst (lookup_event_by_topic0 L t r) = Inr (Some (PStr n, d)))))"
    using assms(7) unfolding event_of_log_def by (fastforce dest: erc20_event_log abi_event_log)
  have rel: "s \<in> set ?rel" using assms(4,5) kind by (auto simp: log_consuming_def)
  have addr: "lower (lg_address lg) \<in> lower ` set as"
    if "fs_addresses (build_evm_log_filter snap c (Some r)) = Some as" for as
  proof -
    from that have as: "as = sorted_strings (List.map_filter (\<lambda>s. map_option lower (ss_address s)) ?rel)"
        "\<not> list_ex (\<lambda>s. ss_address s = None) ?rel"
      by (auto simp: build_evm_log_filter_def Let_def split: if_splits)
    then obtain a where a: "ss_address s = Some a" using rel by (auto simp: list_ex_iff)
    then have "lower a \<in> set as" using rel unfolding as(1) by (auto intro!: bexI [of _ s])
    moreover have "lower a = lower (lg_address lg)" using matched_address [OF assms(6) a lg(2)] .
    ultimately show ?thesis by (metis imageI lower_idem)
  qed
  have topic: "lower t \<in> lower ` set ts"
    if "fs_topic0s (build_evm_log_filter snap c (Some r)) = Some ts" for ts
  proof -
    from that rel obtain ts' where c: "collect_topic0s (Some r) ?rel [] = Some ts'" and ts: "set ts = set ts'"
      by (auto simp: build_evm_log_filter_def Let_def split: if_splits)
    have m: "(ss_match_kind s = MK_token_transfer \<longrightarrow> ERC20_TRANSFER_TOPIC0 \<in> set ts') \<and>
        (ss_match_kind s \<noteq> MK_token_transfer \<longrightarrow> (\<exists>abi_id name t0. ss_match_name s = Some name \<and>
           event_topic0_for r abi_id name = Some t0 \<and> t0 \<in> set ts'))"
      using collect_topic0s_mem [OF c] rel by blast
    have "lower t \<in> set ts'"
      using kind
    proof
      assume "ev_kind ev = MK_token_transfer \<and> lower t = ERC20_TRANSFER_TOPIC0"
      then show ?thesis using m assms(5) by simp
    next
      assume k: "ev_kind ev = MK_event \<and> (\<forall>n. ev_name ev = Some n \<longrightarrow> (\<exists>d. fst (lookup_event_by_topic0 L t r) = Inr (Some (PStr n, d))))"
      then obtain abi_id name t0 where n: "ss_match_name s = Some name" "event_topic0_for r abi_id name = Some t0" "t0 \<in> set ts'"
        using m assms(5) by auto
      obtain d where "fst (lookup_event_by_topic0 L t r) = Inr (Some (PStr name, d))"
        using k matched_name [OF assms(6) n(1)] by blast
      then obtain aid where "(lower t, (aid, PStr name)) \<in> set (ar_topic0_index r)"
        using lookup_event_indexed [OF assms(1) ok] by blast
      moreover have "(t0, (abi_id, PStr name)) \<in> set (ar_topic0_index r)"
        using n(2) by (auto simp: event_topic0_for_def dest: find_topic0_mem)
      ultimately show ?thesis using names_unique_key [OF assms(3)] n(3) by blast
    qed
    then show ?thesis unfolding ts by (metis imageI lower_idem)
  qed
  have "\<not> fs_skip_logs (build_evm_log_filter snap c (Some r))"
    using rel by (auto simp: build_evm_log_filter_def Let_def filter_empty_conv)
  then show ?thesis
    using addr topic lg(1) by (auto simp: log_passes_def topics_param_def split: option.splits)
qed

definition ex_event_sub :: SnapshotSubscription where
  "ex_event_sub = ex_sub\<lparr>ss_address := None, ss_abi_id := Some ''a1'', ss_match_kind := MK_event,
     ss_match_name := Some ''Paid'', ss_arg_filters := [], ss_start_block := None\<rparr>"

definition ex_event_snapshot :: ConfigSnapshot where
  "ex_event_snapshot = ex_snapshot\<lparr>snap_subscriptions := [ex_event_sub], snap_abis := snap_abis ex_abi_snapshot\<rparr>"

theorem log_filter_sound_witness:
  "\<exists>ev. fst (handle_log ex_lib ''eth'' (blk_header (ex_block [])) (ex_log [paid_topic, ''0x07'']) ex_registry) = Inr (Some ev) \<and>
     sub_matches ex_event_sub ev = Inr True \<and>
     log_passes (build_evm_log_filter ex_event_snapshot ''eth'' (Some ex_registry)) (ex_log [paid_topic, ''0x07''])"
proof -
  define ev where "ev = log_event ''eth'' (blk_header (ex_block [])) (ex_log [paid_topic, ''0x07'']) (Some ''Paid'')
      [(''who'', PStr ''7''), (''amount'', PStr ''0'')] [(''tx_hash'', PStr ''0x1''), (''log_index'', PInt 0)]"
  have run: "fst (handle_log ex_lib ''eth'' (blk_header (ex_block [])) (ex_log [paid_topic, ''0x07'']) ex_registry) = Inr (Some ev)"
    unfolding ev_def by code_simp
  have uniq: "names_unique ex_registry" by code_simp
  have sub: "ex_event_sub \<in> set (subscriptions_for_chain ex_event_snapshot ''eth'')" by code_simp
  have kind: "ss_match_kind ex_event_sub = ev_kind ev" by (simp add: ev_def log_event_def ex_event_sub_def)
  have m: "sub_matches ex_event_sub ev = Inr True"
    by (simp add: sub_matches_def ev_def log_event_def ex_event_sub_def ex_sub_def)
  have "event_of_log ex_lib ''eth'' (blk_header (ex_block [])) [] ex_registry (ex_log [paid_topic, ''0x07'']) ev"
    using run by (simp add: event_of_log_def)
  from log_filter_sound [OF ex_lib_ok ex_registry_run uniq sub kind m this] run m show ?thesis by blast
qed

text \<open>
  Overloaded events are filtered out: when an ABI has two events of one name, a subscription to
  that name asks the node for the topic of the first only. A log of the second, which the registry
  would decode under that name and the matcher would match, does not pass.
\<close>

theorem overloaded_event_filtered_out:
  assumes "ar_topic0_index r = [(k1, (a, PStr n)), (k2, (a, PStr n))]" and "lower k1 \<noteq> lower k2"
    and "subscriptions_for_chain snap c = [s]" and "ss_match_kind s = MK_event"
    and "ss_abi_id s = Some a" and "ss_match_name s = Some n" and "lg_topics lg = k2 # rest"
  shows "fs_topic0s (build_evm_log_filter snap c (Some r)) = Some [k1] \<and>
    \<not> log_passes (build_evm_log_filter snap c (Some r)) lg"
proof -
  have "fs_topic0s (build_evm_log_filter snap c (Some r)) = Some [k1]"
    using assms(1,3-6) by (simp add: build_evm_log_filter_def log_consuming_def event_topic0_for_def sorted_strings_def Let_def)
  then show ?thesis
    using assms(2,7) by (auto simp: log_passes_def topics_param_def)
qed

theorem overloaded_event_filtered_out_witness:
  "\<not> log_passes (build_evm_log_filter ex_event_snapshot ''eth''
      (Some (ex_registry\<lparr>ar_topic0_index := [(''0x1'', (''a1'', PStr ''Paid'')), (''0x2'', (''a1'', PStr ''Paid''))]\<rparr>)))
    (ex_log [''0x2''])"
proof -
  have subs: "subscriptions_for_chain ex_event_snapshot ''eth'' = [ex_event_sub]" by code_simp
  have low: "lower ''0x1'' \<noteq> lower ''0x2''" by code_simp
  show ?thesis
    using overloaded_event_filtered_out [of "ex_registry\<lparr>ar_topic0_index := [(''0x1'', (''a1'', PStr ''Paid'')), (''0x2'', (''a1'', PStr ''Paid''))]\<rparr>"
        "''0x1''" "''a1''" "''Paid''" "''0x2''" ex_event_snapshot "''eth''" ex_event_sub "ex_log [''0x2'']" "[]"] low subs
    by (simp add: ex_event_sub_def ex_log_def)
qed

end
