(* ===== verification/Solana_Parsers.thy ===== *)
theory Solana_Parsers
  imports Parser_Base Abi_Registry
begin

text \<open>
  The Solana parsers: \<^verbatim>\<open>core/parser/sol_native.py\<close>, \<^verbatim>\<open>spl_transfer.py\<close>, \<^verbatim>\<open>spl_ops.py\<close>,
  \<^verbatim>\<open>anchor_event.py\<close> and \<^verbatim>\<open>anchor_call.py\<close>. They look at the top-level instructions of successful
  transactions, or at the program log. Base58 and base64 decoding are fields of the library record.
\<close>

definition sol_event ::
  "string \<Rightarrow> SolanaBlock \<Rightarrow> SolanaTransaction \<Rightarrow> MatchKind \<Rightarrow> string option \<Rightarrow> string option \<Rightarrow> (string, pv) dict \<Rightarrow>
   (string, pv) dict \<Rightarrow> Event" where
  "sol_event chain_id block tx kind contract name args raw =
     \<lparr>ev_chain_id = chain_id, ev_block_number = sb_slot block, ev_block_hash = sb_block_hash block,
      ev_block_timestamp = sb_time block, ev_tx_hash = st_signature tx, ev_tx_index = None, ev_log_index = None,
      ev_kind = kind, ev_contract = contract, ev_name = name, ev_args = args, ev_raw = raw\<rparr>"

abbreviation signature_raw :: "SolanaTransaction \<Rightarrow> (string, pv) dict" where
  "signature_raw tx \<equiv> [(''signature'', PStr (st_signature tx))]"

text \<open>\<open>for tx in block.transactions: if not tx.success: continue; yield from extract(tx, block)\<close>\<close>

definition each_successful :: "(SolanaTransaction \<Rightarrow> 's \<Rightarrow> 's gen) \<Rightarrow> SolanaBlock \<Rightarrow> 's \<Rightarrow> 's gen" where
  "each_successful extract block s =
     gen_each (\<lambda>tx s. if \<not> st_success tx then (([], None), s) else extract tx s) (sb_transactions block) s"

section \<open>Native transfers\<close>

definition SOLANA_SYSTEM_PROGRAM_ID :: string where
  "SOLANA_SYSTEM_PROGRAM_ID = ''11111111111111111111111111111111''"

definition transfer_disc :: "byte list" where
  "transfer_disc = [2, 0, 0, 0]"

definition decode_sol_transfer :: "AbiLib \<Rightarrow> SolanaInstruction \<Rightarrow> int option res" where
  "decode_sol_transfer L ix =
     (case al_b58decode L (ix_data_b58 ix) of
        Inl e \<Rightarrow> Inr None
      | Inr data \<Rightarrow>
          if length data \<noteq> 12 then Inr None
          else if take 4 data \<noteq> transfer_disc then Inr None
          else rbind (unpack_u64_le (drop 4 data)) (\<lambda>n. Inr (Some n)))"

definition sol_native_ix :: "AbiLib \<Rightarrow> string \<Rightarrow> SolanaBlock \<Rightarrow> SolanaTransaction \<Rightarrow> SolanaInstruction \<Rightarrow> Event option res" where
  "sol_native_ix L chain_id block tx ix =
     (if ix_program_id ix \<noteq> SOLANA_SYSTEM_PROGRAM_ID then Inr None
      else if ix_stack_depth ix \<noteq> 1 then Inr None
      else rbind (decode_sol_transfer L ix) (\<lambda>m.
        case m of
          None \<Rightarrow> Inr None
        | Some lamports \<Rightarrow>
            (case ix_accounts ix of
               a0 # a1 # _ \<Rightarrow>
                 Inr (Some (sol_event chain_id block tx MK_native_transfer None None
                   [(''from'', PStr a0), (''to'', PStr a1), (''value'', PStr (int_str lamports))] (signature_raw tx)))
             | _ \<Rightarrow> Inr None)))"

definition sol_native_parse :: "AbiLib \<Rightarrow> string \<Rightarrow> SolanaBlock \<Rightarrow> 's \<Rightarrow> 's gen" where
  "sol_native_parse L chain_id block s =
     each_successful (\<lambda>tx s. gen_each (\<lambda>ix s. yield_option (sol_native_ix L chain_id block tx ix, s)) (st_instructions tx) s) block s"

section \<open>SPL token transfers\<close>

definition token_programs :: "string list" where
  "token_programs = [''TokenkegQfeZyiNwAJbNbGKPFXCWuBvf9Ss623VQ5DA'', ''TokenzQdBNbLqP5VEhdkAS6EPFLC1PHnBqCXEpPxuEb'']"

text \<open>\<open>_resolve_mint_from_balances\<close>, and its copy \<open>_resolve_mint\<close> in \<^verbatim>\<open>spl_ops.py\<close>.\<close>

fun resolve_mint :: "string \<Rightarrow> string list \<Rightarrow> SolanaTokenBalance list \<Rightarrow> string option res" where
  "resolve_mint account keys [] = Inr None"
| "resolve_mint account keys (tb # tbs) =
     (if tb_account_index tb < int (length keys) then
        rbind (py_nth keys (tb_account_index tb)) (\<lambda>k.
          if k = account then Inr (Some (tb_mint tb)) else resolve_mint account keys tbs)
      else resolve_mint account keys tbs)"

definition mint_of :: "string \<Rightarrow> SolanaTransaction \<Rightarrow> string option res" where
  "mint_of account tx = resolve_mint account (st_account_keys tx) (st_post_token_balances tx)"

text \<open>\<open>data[a:a+8]\<close> as \<open>u64\<close>.\<close>

definition u64_at :: "nat \<Rightarrow> byte list \<Rightarrow> int res" where
  "u64_at a data = unpack_u64_le (take 8 (drop a data))"

definition decode_spl_transfer ::
  "AbiLib \<Rightarrow> SolanaInstruction \<Rightarrow> SolanaTransaction \<Rightarrow> (string \<times> string \<times> int \<times> string \<times> int option) option res" where
  "decode_spl_transfer L ix tx =
     (case al_b58decode L (ix_data_b58 ix) of
        Inl e \<Rightarrow> Inr None
      | Inr [] \<Rightarrow> Inr None
      | Inr (disc # body) \<Rightarrow>
          (let data = disc # body
           in if disc = 3 \<and> length data \<ge> 9 then
                rbind (u64_at 1 data) (\<lambda>amount.
                  case ix_accounts ix of
                    source # dest # _ # _ \<Rightarrow>
                      rbind (mint_of source tx) (\<lambda>m.
                        Inr (map_option (\<lambda>mint. (source, dest, amount, mint, None)) m))
                  | _ \<Rightarrow> Inr None)
              else if disc = 12 \<and> length data \<ge> 9 then
                rbind (u64_at 1 data) (\<lambda>amount.
                  case ix_accounts ix of
                    source # mint # dest # _ # _ \<Rightarrow> Inr (Some (source, dest, amount, mint, None))
                  | _ \<Rightarrow> Inr None)
              else if disc = 26 \<and> length data \<ge> 19 then
                (if data ! 1 \<noteq> 1 then Inr None
                 else
                   rbind (u64_at 2 data) (\<lambda>amount.
                   rbind (u64_at 11 data) (\<lambda>fee.
                     case ix_accounts ix of
                       source # mint # dest # _ # _ \<Rightarrow> Inr (Some (source, dest, amount, mint, Some fee))
                     | _ \<Rightarrow> Inr None)))
              else Inr None))"

definition spl_transfer_ix :: "AbiLib \<Rightarrow> string \<Rightarrow> SolanaBlock \<Rightarrow> SolanaTransaction \<Rightarrow> SolanaInstruction \<Rightarrow> Event option res" where
  "spl_transfer_ix L chain_id block tx ix =
     (if ix_program_id ix \<notin> set token_programs then Inr None
      else if ix_stack_depth ix \<noteq> 1 then Inr None
      else rbind (decode_spl_transfer L ix tx) (\<lambda>m.
        case m of
          None \<Rightarrow> Inr None
        | Some (from_addr, to_addr, amount, mint, fee) \<Rightarrow>
            Inr (Some (sol_event chain_id block tx MK_token_transfer (Some mint) (Some ''Transfer'')
              ([(''from'', PStr from_addr), (''to'', PStr to_addr), (''value'', PStr (int_str amount)), (''mint'', PStr mint)] @
               (case fee of None \<Rightarrow> [] | Some f \<Rightarrow> [(''fee'', PStr (int_str f))])) (signature_raw tx)))))"

definition spl_transfer_parse :: "AbiLib \<Rightarrow> string \<Rightarrow> SolanaBlock \<Rightarrow> 's \<Rightarrow> 's gen" where
  "spl_transfer_parse L chain_id block s =
     each_successful (\<lambda>tx s. gen_each (\<lambda>ix s. yield_option (spl_transfer_ix L chain_id block tx ix, s)) (st_instructions tx) s) block s"

section \<open>SPL token operations\<close>

definition decode_spl_op ::
  "AbiLib \<Rightarrow> SolanaInstruction \<Rightarrow> SolanaTransaction \<Rightarrow> (string \<times> string \<times> (string, pv) dict) option res" where
  "decode_spl_op L ix tx =
     (case al_b58decode L (ix_data_b58 ix) of
        Inl e \<Rightarrow> Inr None
      | Inr [] \<Rightarrow> Inr None
      | Inr (disc # body) \<Rightarrow>
          (let data = disc # body
           in if disc = 4 \<and> length data \<ge> 9 then
                rbind (u64_at 1 data) (\<lambda>amount.
                  case ix_accounts ix of
                    source # delegate # _ # _ \<Rightarrow>
                      rbind (mint_of source tx) (\<lambda>m.
                        Inr (map_option (\<lambda>mint. (''approve'', mint,
                          [(''source'', PStr source), (''delegate'', PStr delegate), (''amount'', PStr (int_str amount))])) m))
                  | _ \<Rightarrow> Inr None)
              else if disc = 5 then
                (case ix_accounts ix of
                   source # _ # _ \<Rightarrow>
                     rbind (mint_of source tx) (\<lambda>m.
                       Inr (map_option (\<lambda>mint. (''revoke'', mint, [(''source'', PStr source)])) m))
                 | _ \<Rightarrow> Inr None)
              else if disc = 7 \<and> length data \<ge> 9 then
                rbind (u64_at 1 data) (\<lambda>amount.
                  case ix_accounts ix of
                    mint # dest # _ # _ \<Rightarrow>
                      Inr (Some (''mint_to'', mint,
                        [(''mint'', PStr mint), (''dest'', PStr dest), (''amount'', PStr (int_str amount))]))
                  | _ \<Rightarrow> Inr None)
              else if disc = 8 \<and> length data \<ge> 9 then
                rbind (u64_at 1 data) (\<lambda>amount.
                  case ix_accounts ix of
                    source # mint # _ # _ \<Rightarrow>
                      Inr (Some (''burn'', mint,
                        [(''source'', PStr source), (''mint'', PStr mint), (''amount'', PStr (int_str amount))]))
                  | _ \<Rightarrow> Inr None)
              else Inr None))"

definition spl_op_ix :: "AbiLib \<Rightarrow> string \<Rightarrow> SolanaBlock \<Rightarrow> SolanaTransaction \<Rightarrow> SolanaInstruction \<Rightarrow> Event option res" where
  "spl_op_ix L chain_id block tx ix =
     (if ix_program_id ix \<notin> set token_programs then Inr None
      else if ix_stack_depth ix \<noteq> 1 then Inr None
      else rbind (decode_spl_op L ix tx) (\<lambda>m.
        Inr (map_option (\<lambda>(name, mint, args). sol_event chain_id block tx MK_call (Some mint) (Some name) args (signature_raw tx)) m)))"

definition spl_ops_parse :: "AbiLib \<Rightarrow> string \<Rightarrow> SolanaBlock \<Rightarrow> 's \<Rightarrow> 's gen" where
  "spl_ops_parse L chain_id block s =
     each_successful (\<lambda>tx s. gen_each (\<lambda>ix s. yield_option (spl_op_ix L chain_id block tx ix, s)) (st_instructions tx) s) block s"

section \<open>Anchor events\<close>

definition is_digit :: "char \<Rightarrow> bool" where
  "is_digit c \<longleftrightarrow> 48 \<le> (of_char c :: nat) \<and> (of_char c :: nat) \<le> 57"

text \<open>
  The regular expression \<open>^Program (\S+) invoke \[\d+\]$\<close>, where \<open>$\<close> also matches before a final
  newline. The group ends at the first white space, so no backtracking can occur.
\<close>

definition match_invoke :: "string \<Rightarrow> string option" where
  "match_invoke line =
     (if startswith line ''Program '' then
        let rest = drop 8 line;
            pid = takeWhile (\<lambda>c. \<not> is_space c) rest;
            tail = dropWhile (\<lambda>c. \<not> is_space c) rest
        in if pid \<noteq> [] \<and> startswith tail '' invoke ['' then
             let num = drop 9 tail;
                 ds = takeWhile is_digit num;
                 close = dropWhile is_digit num
             in if ds \<noteq> [] \<and> (close = '']'' \<or> close = CHR '']'' # [char_of (10 :: nat)]) then Some pid else None
           else None
      else None)"

definition anchor_event_decode ::
  "AbiLib \<Rightarrow> string \<Rightarrow> SolanaBlock \<Rightarrow> SolanaTransaction \<Rightarrow> string \<Rightarrow> string \<Rightarrow> AbiRegistry \<Rightarrow> Event option res \<times> AbiRegistry" where
  "anchor_event_decode L chain_id block tx b64_data program_id r =
     (case al_b64decode L b64_data of
        Inl e \<Rightarrow> (Inr None, r)
      | Inr raw \<Rightarrow>
          if length raw < 8 then (Inr None, r)
          else
            let disc_hex = bytes_hex (take 8 raw)
            in (case lookup_idl_event_by_discriminator program_id disc_hex r of
                  (None, r') \<Rightarrow> (Inr None, r')
                | (Some (event_name, struct), r') \<Rightarrow>
                    (case decode_anchor_borsh L struct (drop 8 raw) of
                       Inr args \<Rightarrow>
                         (Inr (Some (sol_event chain_id block tx MK_event (Some program_id) (Some event_name) args (signature_raw tx))), r')
                     | Inl DecodeFailed \<Rightarrow>
                         (Inr (Some (sol_event chain_id block tx MK_event (Some program_id) None []
                           [(''program_data'', PStr b64_data), (''program_id'', PStr program_id), (''discriminator'', PStr disc_hex)])), r')
                     | Inl e \<Rightarrow> (Inl e, r'))))"

definition PROGRAM_DATA_PREFIX :: string where
  "PROGRAM_DATA_PREFIX = ''Program data: ''"

text \<open>The loop over the log lines; the stack has the innermost program first.\<close>

fun anchor_lines ::
  "AbiLib \<Rightarrow> string \<Rightarrow> SolanaBlock \<Rightarrow> SolanaTransaction \<Rightarrow> string list \<Rightarrow> string list \<Rightarrow> AbiRegistry \<Rightarrow> AbiRegistry gen" where
  "anchor_lines L chain_id block tx stack [] r = (([], None), r)"
| "anchor_lines L chain_id block tx stack (line # rest) r =
     (case match_invoke line of
        Some pid \<Rightarrow> anchor_lines L chain_id block tx (pid # stack) rest r
      | None \<Rightarrow>
          if startswith line ''Program '' \<and> endswith line '' success'' then
            anchor_lines L chain_id block tx (drop 1 stack) rest r
          else if startswith line PROGRAM_DATA_PREFIX \<and> stack \<noteq> [] then
            gen_then
              (yield_option (anchor_event_decode L chain_id block tx (drop (length PROGRAM_DATA_PREFIX) line) (hd stack) r))
              (\<lambda>r'. anchor_lines L chain_id block tx stack rest r')
          else anchor_lines L chain_id block tx stack rest r)"

definition anchor_event_parse :: "AbiLib \<Rightarrow> string \<Rightarrow> SolanaBlock \<Rightarrow> AbiRegistry \<Rightarrow> AbiRegistry gen" where
  "anchor_event_parse L chain_id block r =
     each_successful (\<lambda>tx r. anchor_lines L chain_id block tx [] (st_log_messages tx) r) block r"

section \<open>Anchor calls\<close>

definition anchor_call_decode ::
  "AbiLib \<Rightarrow> string \<Rightarrow> SolanaBlock \<Rightarrow> SolanaTransaction \<Rightarrow> SolanaInstruction \<Rightarrow> AbiRegistry \<Rightarrow> Event option res \<times> AbiRegistry" where
  "anchor_call_decode L chain_id block tx ix r =
     (if ix_stack_depth ix \<noteq> 1 then (Inr None, r)
      else (case al_b58decode L (ix_data_b58 ix) of
         Inl e \<Rightarrow> (Inr None, r)
       | Inr data \<Rightarrow>
           if length data < 8 then (Inr None, r)
           else
             (case lookup_idl_call_by_discriminator (ix_program_id ix) (bytes_hex (take 8 data)) r of
                (None, r') \<Rightarrow> (Inr None, r')
              | (Some (fn_name, struct), r') \<Rightarrow>
                  (case decode_anchor_borsh L struct (drop 8 data) of
                     Inr args \<Rightarrow>
                       (Inr (Some (sol_event chain_id block tx MK_call (Some (ix_program_id ix)) (Some fn_name) args (signature_raw tx))), r')
                   | Inl DecodeFailed \<Rightarrow> (Inr None, r')
                   | Inl e \<Rightarrow> (Inl e, r')))))"

definition anchor_call_parse :: "AbiLib \<Rightarrow> string \<Rightarrow> SolanaBlock \<Rightarrow> AbiRegistry \<Rightarrow> AbiRegistry gen" where
  "anchor_call_parse L chain_id block r =
     each_successful (\<lambda>tx r. gen_each (\<lambda>ix r. yield_option (anchor_call_decode L chain_id block tx ix r)) (st_instructions tx) r) block r"

section \<open>Each parser meets the contract\<close>

lemma each_successful_mem:
  "ev \<in> set (gen_events (each_successful extract b s)) \<Longrightarrow>
   \<exists>tx \<in> set (sb_transactions b). st_success tx \<and> (\<exists>s'. ev \<in> set (gen_events (extract tx s')))"
  unfolding each_successful_def by (auto dest!: gen_each_mem split: if_splits; blast)

lemma sol_event_origin:
  "from_block c (sb_slot b) (sb_block_hash b) (sb_time b) (sol_event c b tx k ct n args raw)"
  "ev_kind (sol_event c b tx k ct n args raw) = k"
  by (simp_all add: sol_event_def from_block_def)

lemma sol_native_ix_event:
  "sol_native_ix L c b tx ix = Inr (Some ev) \<Longrightarrow> \<exists>args. ev = sol_event c b tx MK_native_transfer None None args (signature_raw tx)"
  by (auto simp: sol_native_ix_def rbind_def split: if_splits sum.splits option.splits list.splits)

lemma spl_transfer_ix_event:
  "spl_transfer_ix L c b tx ix = Inr (Some ev) \<Longrightarrow>
   \<exists>m args. ev = sol_event c b tx MK_token_transfer (Some m) (Some ''Transfer'') args (signature_raw tx)"
  by (auto simp: spl_transfer_ix_def rbind_def split: if_splits sum.splits option.splits)

lemma spl_op_ix_event:
  "spl_op_ix L c b tx ix = Inr (Some ev) \<Longrightarrow> \<exists>m n args. ev = sol_event c b tx MK_call (Some m) (Some n) args (signature_raw tx)"
  by (auto simp: spl_op_ix_def rbind_def split: if_splits sum.splits)

lemma anchor_call_decode_event:
  "fst (anchor_call_decode L c b tx ix r) = Inr (Some ev) \<Longrightarrow>
   \<exists>n args. ev = sol_event c b tx MK_call (Some (ix_program_id ix)) (Some n) args (signature_raw tx)"
  by (auto simp: anchor_call_decode_def split: if_splits sum.splits prod.splits option.splits exn.splits)

lemma anchor_event_decode_event:
  "fst (anchor_event_decode L c b tx d p r) = Inr (Some ev) \<Longrightarrow>
   \<exists>n args raw. ev = sol_event c b tx MK_event (Some p) n args raw"
  by (auto simp: anchor_event_decode_def Let_def split: if_splits sum.splits prod.splits option.splits exn.splits)

lemma anchor_lines_event:
  "ev \<in> set (gen_events (anchor_lines L c b tx stack lines r)) \<Longrightarrow>
   \<exists>p n args raw. ev = sol_event c b tx MK_event (Some p) n args raw"
proof (induction lines arbitrary: stack r)
  case (Cons line rest)
  show ?case
  proof (cases "match_invoke line")
    case None
    show ?thesis
    proof (cases "startswith line PROGRAM_DATA_PREFIX \<and> stack \<noteq> [] \<and> \<not> (startswith line ''Program '' \<and> endswith line '' success'')")
      case True
      with None Cons.prems have "ev \<in> set (gen_events (gen_then
          (yield_option (anchor_event_decode L c b tx (drop (length PROGRAM_DATA_PREFIX) line) (hd stack) r))
          (anchor_lines L c b tx stack rest)))"
        by simp
      from gen_then_mem [OF this] show ?thesis
      proof
        assume "ev \<in> set (gen_events (yield_option
            (anchor_event_decode L c b tx (drop (length PROGRAM_DATA_PREFIX) line) (hd stack) r)))"
        then show ?thesis by (metis anchor_event_decode_event yield_option_events)
      next
        assume "\<exists>s. ev \<in> set (gen_events (anchor_lines L c b tx stack rest s))"
        then show ?thesis using Cons.IH by blast
      qed
    qed (use None Cons in \<open>auto split: if_splits\<close>)
  qed (use Cons in simp)
qed simp

interpretation sol_native: event_parser "sol_native_parse L chain" chain sb_slot sb_block_hash sb_time "{MK_native_transfer}" for L chain
  by unfold_locales
    (auto simp: sol_native_parse_def yield_option_events sol_event_origin dest!: each_successful_mem gen_each_mem sol_native_ix_event)

interpretation spl_transfer: event_parser "spl_transfer_parse L chain" chain sb_slot sb_block_hash sb_time "{MK_token_transfer}" for L chain
  by unfold_locales
    (auto simp: spl_transfer_parse_def yield_option_events sol_event_origin dest!: each_successful_mem gen_each_mem spl_transfer_ix_event)

interpretation spl_ops: event_parser "spl_ops_parse L chain" chain sb_slot sb_block_hash sb_time "{MK_call}" for L chain
  by unfold_locales
    (auto simp: spl_ops_parse_def yield_option_events sol_event_origin dest!: each_successful_mem gen_each_mem spl_op_ix_event)

interpretation anchor_call: event_parser "anchor_call_parse L chain" chain sb_slot sb_block_hash sb_time "{MK_call}" for L chain
  by unfold_locales
    (auto simp: anchor_call_parse_def yield_option_events sol_event_origin dest!: each_successful_mem gen_each_mem anchor_call_decode_event)

interpretation anchor_event: event_parser "anchor_event_parse L chain" chain sb_slot sb_block_hash sb_time "{MK_event}" for L chain
  by unfold_locales
    (auto simp: anchor_event_parse_def sol_event_origin dest!: each_successful_mem anchor_lines_event)

section \<open>Program logs\<close>

text \<open>
  The log of a transaction as the runtime writes it: invocations nest, data lines belong to the
  innermost one, and a program may write lines of its own.
\<close>

datatype log_node = LData string | LNote string | LCall string nat "log_node list"

definition data_line :: "string \<Rightarrow> string" where
  "data_line d = PROGRAM_DATA_PREFIX @ d"

definition invoke_line :: "string \<Rightarrow> nat \<Rightarrow> string" where
  "invoke_line p n = ''Program '' @ p @ '' invoke ['' @ nat_str n @ '']''"

definition success_line :: "string \<Rightarrow> string" where
  "success_line p = ''Program '' @ p @ '' success''"

fun log_lines :: "log_node \<Rightarrow> string list" where
  "log_lines (LData d) = [data_line d]"
| "log_lines (LNote s) = [s]"
| "log_lines (LCall p n kids) = invoke_line p n # concat (map log_lines kids) @ [success_line p]"

text \<open>The data lines with the program each one belongs to.\<close>

fun log_data :: "string \<Rightarrow> log_node \<Rightarrow> (string \<times> string) list" where
  "log_data p (LData d) = [(p, d)]"
| "log_data p (LNote s) = []"
| "log_data p (LCall q n kids) = concat (map (log_data q) kids)"

definition no_space :: "string \<Rightarrow> bool" where
  "no_space s \<longleftrightarrow> list_all (\<lambda>c. \<not> is_space c) s"

text \<open>A line of a program that no rule of the parser takes for something else.\<close>

definition plain_note :: "string \<Rightarrow> bool" where
  "plain_note s \<longleftrightarrow> match_invoke s = None \<and> \<not> (startswith s ''Program '' \<and> endswith s '' success'') \<and>
     \<not> startswith s PROGRAM_DATA_PREFIX"

text \<open>Data lines carry padded base64; program ids have no white space.\<close>

fun log_ok :: "log_node \<Rightarrow> bool" where
  "log_ok (LData d) = (no_space d \<and> length d mod 4 = 0)"
| "log_ok (LNote s) = plain_note s"
| "log_ok (LCall p n kids) = (p \<noteq> [] \<and> no_space p \<and> list_all log_ok kids)"

lemma space_is_space: "is_space CHR '' ''"
  by code_simp

lemma no_space_word:
  "no_space p \<Longrightarrow> takeWhile (\<lambda>c. \<not> is_space c) (p @ CHR '' '' # s) = p \<and>
     dropWhile (\<lambda>c. \<not> is_space c) (p @ CHR '' '' # s) = CHR '' '' # s"
  by (induction p) (auto simp: no_space_def space_is_space)

lemma digit_char_is_digit: "d < 10 \<Longrightarrow> is_digit (digit_char d)"
  by (simp add: is_digit_def digit_char_def)

lemma nat_str_scan:
  "takeWhile is_digit (nat_str n @ '']'') = nat_str n \<and> dropWhile is_digit (nat_str n @ '']'') = '']''"
proof -
  have all: "\<forall>c \<in> set (nat_str n). is_digit c"
    using nat_str_digits digit_char_is_digit by blast
  have "\<not> is_digit CHR '']''" by code_simp
  with all show ?thesis by (simp add: takeWhile_append dropWhile_append)
qed

lemma match_invoke_line: "p \<noteq> [] \<Longrightarrow> no_space p \<Longrightarrow> match_invoke (invoke_line p n) = Some p"
proof -
  assume p: "p \<noteq> []" "no_space p"
  have rest: "drop 8 (invoke_line p n) = p @ CHR '' '' # ''invoke ['' @ nat_str n @ '']''"
    by (simp add: invoke_line_def)
  show ?thesis
    using p no_space_word [OF p(2), of "''invoke ['' @ nat_str n @ '']''"] nat_str_scan [of n]
    unfolding match_invoke_def rest Let_def by (simp add: invoke_line_def)
qed

lemma match_success_line: "no_space p \<Longrightarrow> match_invoke (success_line p) = None"
proof -
  assume p: "no_space p"
  have rest: "drop 8 (success_line p) = p @ CHR '' '' # ''success''"
    by (simp add: success_line_def)
  show ?thesis
    using no_space_word [OF p, of "''success''"] unfolding match_invoke_def rest Let_def by simp
qed

lemma no_space_not_mem: "no_space d \<Longrightarrow> CHR '' '' \<notin> set d"
  using space_is_space by (auto simp: no_space_def list_all_iff)

lemma match_data_line: "no_space d \<Longrightarrow> match_invoke (data_line d) = None"
proof -
  assume d: "no_space d"
  have rest: "drop 8 (data_line d) = ''data:'' @ CHR '' '' # d"
    by (simp add: data_line_def PROGRAM_DATA_PREFIX_def)
  have "no_space ''data:''" by code_simp
  from no_space_word [OF this, of d] have word: "dropWhile (\<lambda>c. \<not> is_space c) (drop 8 (data_line d)) = CHR '' '' # d"
    unfolding rest by blast
  have "\<not> startswith (CHR '' '' # d) '' invoke [''"
    using no_space_not_mem [OF d] by (auto simp: prefix_def)
  then show ?thesis
    unfolding match_invoke_def Let_def word by simp
qed

lemma data_line_no_success: "no_space d \<Longrightarrow> length d mod 4 = 0 \<Longrightarrow> \<not> endswith (data_line d) '' success''"
proof
  assume d: "no_space d" and len: "length d mod 4 = 0" and s: "endswith (data_line d) '' success''"
  then obtain pre where pre: "PROGRAM_DATA_PREFIX @ d = pre @ '' success''"
    by (auto simp: data_line_def suffix_def)
  show False
  proof (cases "length d < 8")
    case True
    with len have "length d = 0 \<or> length d = 4"
      by presburger
    moreover have "rev (PROGRAM_DATA_PREFIX @ d) = rev (pre @ '' success'')" using pre by simp
    ultimately show False
      by (elim disjE) (auto simp: PROGRAM_DATA_PREFIX_def length_Suc_conv numeral_eq_Suc)
  next
    case False
    have "CHR '' '' \<in> set d"
    proof -
      have "take_last 8 (PROGRAM_DATA_PREFIX @ d) = take_last 8 d"
        using False by (simp add: take_last_def)
      moreover have "take_last 8 (pre @ '' success'') = '' success''"
        by (simp add: take_last_def)
      ultimately have "take_last 8 d = '' success''" using pre by simp
      then have "CHR '' '' \<in> set (take_last 8 d)" by simp
      then show ?thesis by (auto simp: take_last_def dest: in_set_dropD)
    qed
    with no_space_not_mem [OF d] show False by simp
  qed
qed

lemma anchor_data_line:
  "no_space d \<Longrightarrow> length d mod 4 = 0 \<Longrightarrow>
   anchor_lines L c b tx (p # st) (data_line d # rest) r =
     gen_then (yield_option (anchor_event_decode L c b tx d p r)) (anchor_lines L c b tx (p # st) rest)"
  using data_line_no_success [of d] match_data_line [of d]
  by (simp add: data_line_def)

lemma anchor_note_line:
  "plain_note s \<Longrightarrow> anchor_lines L c b tx st (s # rest) r = anchor_lines L c b tx st rest r"
  by (auto simp: plain_note_def)

lemma anchor_success_line:
  "no_space p \<Longrightarrow> anchor_lines L c b tx st (success_line p # rest) = anchor_lines L c b tx (drop 1 st) rest"
  using match_success_line [of p] by (intro ext) (simp add: success_line_def suffix_def)

text \<open>On a well-formed log the parser decodes every data line once, in order, for the program that wrote it.\<close>

lemma anchor_node:
  assumes "log_ok node"
  shows "anchor_lines L c b tx (p # st) (log_lines node @ rest) r =
    gen_then (gen_each (\<lambda>(p, d) r. yield_option (anchor_event_decode L c b tx d p r)) (log_data p node) r)
      (anchor_lines L c b tx (p # st) rest)"
  using assms
proof (induction node arbitrary: p st rest r)
  case (LData d)
  then show ?case by (simp add: anchor_data_line gen_each_Cons gen_each_Nil del: anchor_lines.simps gen_each.simps)
next
  case (LNote s)
  then show ?case by (simp add: anchor_note_line del: anchor_lines.simps(2))
next
  case (LCall q n kids)
  let ?f = "\<lambda>(p, d) r. yield_option (anchor_event_decode L c b tx d p r)"
  have kids: "anchor_lines L c b tx (q # p # st) (concat (map log_lines ks) @ rest') r =
      gen_then (gen_each ?f (concat (map (log_data q) ks)) r) (anchor_lines L c b tx (q # p # st) rest')"
    if "set ks \<subseteq> set kids" for ks rest' r
    using that
  proof (induction ks arbitrary: r)
    case (Cons k ks)
    have ok: "log_ok k" using Cons.prems LCall.prems by (auto simp: list_all_iff)
    have tail: "anchor_lines L c b tx (q # p # st) (concat (map log_lines ks) @ rest') =
        (\<lambda>r. gen_then (gen_each ?f (concat (map (log_data q) ks)) r) (anchor_lines L c b tx (q # p # st) rest'))"
      using Cons.IH Cons.prems by (intro ext) simp
    have "anchor_lines L c b tx (q # p # st) (concat (map log_lines (k # ks)) @ rest') r =
        gen_then (gen_each ?f (log_data q k) r) (anchor_lines L c b tx (q # p # st) (concat (map log_lines ks) @ rest'))"
      using LCall.IH [of k, OF _ ok] Cons.prems by simp
    then show ?case unfolding tail by (simp add: gen_each_append gen_then_assoc)
  qed simp
  have "anchor_lines L c b tx (p # st) (log_lines (LCall q n kids) @ rest) r =
      anchor_lines L c b tx (q # p # st) (concat (map log_lines kids) @ success_line q # rest) r"
    using match_invoke_line [of q n] LCall.prems by simp
  also have "\<dots> = gen_then (gen_each ?f (concat (map (log_data q) kids)) r) (anchor_lines L c b tx (p # st) rest)"
    using LCall.prems by (simp add: kids anchor_success_line del: anchor_lines.simps)
  finally show ?case by simp
qed

lemma anchor_nodes:
  "list_all log_ok nodes \<Longrightarrow>
   anchor_lines L c b tx (p # st) (concat (map log_lines nodes) @ rest) r =
     gen_then (gen_each (\<lambda>(p, d) r. yield_option (anchor_event_decode L c b tx d p r)) (concat (map (log_data p) nodes)) r)
       (anchor_lines L c b tx (p # st) rest)"
proof (induction nodes arbitrary: r)
  case (Cons node nodes)
  let ?f = "\<lambda>(p, d) r. yield_option (anchor_event_decode L c b tx d p r)"
  have tail: "anchor_lines L c b tx (p # st) (concat (map log_lines nodes) @ rest) =
      (\<lambda>r. gen_then (gen_each ?f (concat (map (log_data p) nodes)) r) (anchor_lines L c b tx (p # st) rest))"
    using Cons by (intro ext) simp
  show ?case
    using anchor_node [of node L c b tx p st "concat (map log_lines nodes) @ rest" r] Cons.prems
    by (simp add: tail gen_each_append gen_then_assoc)
qed simp

lemma anchor_top:
  assumes "list_all log_ok nodes" and "list_all (\<lambda>n. \<exists>p k kids. n = LCall p k kids) nodes"
  shows "anchor_lines L c b tx [] (concat (map log_lines nodes)) r =
    gen_each (\<lambda>(p, d) r. yield_option (anchor_event_decode L c b tx d p r)) (concat (map (log_data []) nodes)) r"
  using assms
proof (induction nodes arbitrary: r)
  case (Cons node nodes)
  let ?f = "\<lambda>(p, d) r. yield_option (anchor_event_decode L c b tx d p r)"
  obtain q n kids where node: "node = LCall q n kids" using Cons.prems by auto
  have ok: "list_all log_ok kids" "q \<noteq> []" "no_space q" using Cons.prems node by auto
  have tail: "anchor_lines L c b tx [] (concat (map log_lines nodes)) = gen_each ?f (concat (map (log_data []) nodes))"
    using Cons by (intro ext) simp
  have "anchor_lines L c b tx [] (concat (map log_lines (node # nodes))) r =
      anchor_lines L c b tx [q] (concat (map log_lines kids) @ success_line q # concat (map log_lines nodes)) r"
    using match_invoke_line [OF ok(2,3), of n] by (simp add: node)
  also have "\<dots> = gen_then (gen_each ?f (concat (map (log_data q) kids)) r)
      (anchor_lines L c b tx [] (concat (map log_lines nodes)))"
    by (simp add: anchor_nodes [OF ok(1)] anchor_success_line [OF ok(3)] del: anchor_lines.simps)
  finally show ?case unfolding tail by (simp add: node gen_each_append)
qed simp

section \<open>Properties\<close>

text \<open>
  C37. Anchor events are attributed to the program that emitted them: on a log of properly nested
  invocations, in which no program writes a line that looks like one of the runtime's, every data
  line is decoded exactly once, in order, under the id of the innermost invocation around it.
\<close>

theorem anchor_attribution:
  assumes "list_all log_ok nodes" and "list_all (\<lambda>n. \<exists>p k kids. n = LCall p k kids) nodes"
    and "st_log_messages tx = concat (map log_lines nodes)"
  shows "anchor_lines L c b tx [] (st_log_messages tx) r =
    gen_each (\<lambda>(p, d) r. yield_option (anchor_event_decode L c b tx d p r)) (concat (map (log_data []) nodes)) r"
  unfolding assms(3) by (rule anchor_top [OF assms(1,2)])

definition ex_tx :: "string list \<Rightarrow> SolanaInstruction list \<Rightarrow> SolanaTransaction" where
  "ex_tx lines ixs = \<lparr>st_signature = ''sig'', st_slot = 9, st_success = True, st_fee = 0, st_account_keys = [],
     st_pre_balances = [], st_post_balances = [], st_pre_token_balances = [], st_post_token_balances = [],
     st_log_messages = lines, st_instructions = ixs\<rparr>"

definition ex_sol_block :: "SolanaTransaction list \<Rightarrow> SolanaBlock" where
  "ex_sol_block txs = \<lparr>sb_slot = 9, sb_block_hash = ''b9'', sb_parent_slot = 8, sb_block_time = None, sb_transactions = txs\<rparr>"

definition ex_nodes :: "log_node list" where
  "ex_nodes = [LCall ''P'' 1 [LCall ''Q'' 2 [LData ''abcd''], LNote ''Program log: hi'', LData ''efgh'']]"

theorem anchor_attribution_witness:
  "anchor_lines ex_lib ''sol'' (ex_sol_block []) (ex_tx (concat (map log_lines ex_nodes)) []) []
     (st_log_messages (ex_tx (concat (map log_lines ex_nodes)) [])) registry_init =
   gen_each (\<lambda>(p, d) r. yield_option (anchor_event_decode ex_lib ''sol'' (ex_sol_block [])
       (ex_tx (concat (map log_lines ex_nodes)) []) d p r)) [(''Q'', ''abcd''), (''P'', ''efgh'')] registry_init"
proof -
  have ok: "list_all log_ok ex_nodes" by code_simp
  have "concat (map (log_data []) ex_nodes) = [(''Q'', ''abcd''), (''P'', ''efgh'')]" by code_simp
  then show ?thesis
    using anchor_attribution [OF ok, of "ex_tx (concat (map log_lines ex_nodes)) []"]
    by (simp add: ex_nodes_def ex_tx_def)
qed

text \<open>
  A program that logs a sentence ending in \<open>success\<close> loses its events: the line
  \<open>Program log: ... success\<close> is taken for the end of the invocation, and the data line after it,
  with no program left on the stack, is ignored.
\<close>

theorem success_note_loses_events:
  assumes "p \<noteq> []" and "no_space p" and "no_space d" and "length d mod 4 = 0"
    and "no_space w" and "w \<noteq> []" and "w \<noteq> ''invoke''"
  shows "anchor_lines L c b tx [] [invoke_line p n, ''Program log: '' @ w @ '' success'', data_line d, success_line p] r =
    (([], None), r)"
proof -
  let ?note = "''Program log: '' @ w @ '' success''"
  have rest: "drop 8 ?note = ''log:'' @ CHR '' '' # w @ '' success''" by simp
  have "no_space ''log:''" by code_simp
  from no_space_word [OF this, of "w @ '' success''"]
  have word: "dropWhile (\<lambda>ch. \<not> is_space ch) (drop 8 ?note) = CHR '' '' # w @ '' success''"
    unfolding rest by blast
  have "\<not> startswith (CHR '' '' # w @ '' success'') '' invoke [''"
  proof
    assume "startswith (CHR '' '' # w @ '' success'') '' invoke [''"
    then obtain z where z: "w @ CHR '' '' # ''success'' = ''invoke'' @ CHR '' '' # CHR ''['' # z"
      by (auto simp: prefix_def)
    have "no_space ''invoke''" by code_simp
    with no_space_word [OF assms(5), of "''success''"] no_space_word [of "''invoke''" "CHR ''['' # z"] z
    have "w = ''invoke''" by metis
    with assms(7) show False by simp
  qed
  then have no_inv: "match_invoke ?note = None"
    unfolding match_invoke_def Let_def word by simp
  have "endswith ?note '' success''" by (simp add: suffix_def)
  moreover have "startswith ?note ''Program ''" by simp
  ultimately have "anchor_lines L c b tx [p] (?note # ls) r = anchor_lines L c b tx [] ls r" for ls
    using no_inv by simp
  moreover have "anchor_lines L c b tx [] [data_line d, success_line p] r = (([], None), r)"
    using match_data_line [OF assms(3)] data_line_no_success [OF assms(3,4)] anchor_success_line [OF assms(2), of L c b tx "[]" "[]"]
    by simp
  ultimately show ?thesis
    using match_invoke_line [OF assms(1,2), of n] by simp
qed

theorem success_note_loses_events_witness:
  "anchor_lines ex_lib ''sol'' (ex_sol_block []) (ex_tx [] []) []
     [invoke_line ''P'' 1, ''Program log: swap success'', data_line ''abcd'', success_line ''P''] registry_init =
   (([], None), registry_init)"
proof -
  have "no_space ''P''" "no_space ''abcd''" "no_space ''swap''" by code_simp+
  then show ?thesis
    using success_note_loses_events [of "''P''" "''abcd''" "''swap''" ex_lib "''sol''" "ex_sol_block []" "ex_tx [] []" 1 registry_init]
    by simp
qed

text \<open>
  Token and lamport amounts are decoded exactly, for every unsigned 64-bit amount: a system
  transfer, an SPL \<open>TransferChecked\<close> and a Token-2022 transfer with fee yield events whose amounts
  (and fee) are the encoded numbers in decimal, with the accounts in their documented places.
\<close>

theorem solana_amounts_exact:
  assumes "0 \<le> n" and "n < 2 ^ 64" and "0 \<le> fee" and "fee < 2 ^ 64" and "ix_stack_depth ix = 1"
  shows "(ix_program_id ix = SOLANA_SYSTEM_PROGRAM_ID \<and> ix_accounts ix = a0 # a1 # accs \<and>
      al_b58decode L (ix_data_b58 ix) = Inr ([2, 0, 0, 0] @ le_bytes 8 n) \<longrightarrow>
      sol_native_ix L c b tx ix = Inr (Some (sol_event c b tx MK_native_transfer None None
        [(''from'', PStr a0), (''to'', PStr a1), (''value'', PStr (int_str n))] (signature_raw tx)))) \<and>
    (ix_program_id ix \<in> set token_programs \<and> ix_accounts ix = a0 # a1 # a2 # a3 # accs \<and>
      al_b58decode L (ix_data_b58 ix) = Inr ([12] @ le_bytes 8 n @ rest) \<longrightarrow>
      spl_transfer_ix L c b tx ix = Inr (Some (sol_event c b tx MK_token_transfer (Some a1) (Some ''Transfer'')
        [(''from'', PStr a0), (''to'', PStr a2), (''value'', PStr (int_str n)), (''mint'', PStr a1)] (signature_raw tx)))) \<and>
    (ix_program_id ix \<in> set token_programs \<and> ix_accounts ix = a0 # a1 # a2 # a3 # accs \<and>
      al_b58decode L (ix_data_b58 ix) = Inr ([26, 1] @ le_bytes 8 n @ [dec] @ le_bytes 8 fee @ rest) \<longrightarrow>
      spl_transfer_ix L c b tx ix = Inr (Some (sol_event c b tx MK_token_transfer (Some a1) (Some ''Transfer'')
        [(''from'', PStr a0), (''to'', PStr a2), (''value'', PStr (int_str n)), (''mint'', PStr a1), (''fee'', PStr (int_str fee))]
        (signature_raw tx))))"
proof -
  have u: "unpack_u64_le (le_bytes 8 k) = Inr k" if "0 \<le> k" "k < 2 ^ 64" for k
    using that by (rule unpack_u64_le_inverse)
  have at: "u64_at (length pre) (pre @ le_bytes 8 k @ post) = Inr k" if "0 \<le> k" "k < 2 ^ 64" for pre k post
    using u [OF that] by (simp add: u64_at_def)
  have lens: "length [12 :: byte] = 1" "length [26 :: byte, 1] = 2" "length (26 # 1 # le_bytes 8 n @ [dec]) = 11"
    by (simp_all add: le_bytes_length)
  note apps = append_Cons append_Nil append_assoc
  have at1: "u64_at 1 (12 # le_bytes 8 n @ rest) = Inr n"
    using at [OF assms(1,2), of "[12]" rest] unfolding lens apps .
  have at2: "u64_at 2 (26 # 1 # le_bytes 8 n @ dec # le_bytes 8 fee @ rest) = Inr n"
    using at [OF assms(1,2), of "[26, 1]" "dec # le_bytes 8 fee @ rest"] unfolding lens apps .
  have at11: "u64_at 11 (26 # 1 # le_bytes 8 n @ dec # le_bytes 8 fee @ rest) = Inr fee"
    using at [OF assms(3,4), of "26 # 1 # le_bytes 8 n @ [dec]" rest] unfolding lens apps .
  show ?thesis
    using assms(5) u [OF assms(1,2)] at1 at2 at11
    by (simp add: sol_native_ix_def decode_sol_transfer_def transfer_disc_def spl_transfer_ix_def decode_spl_transfer_def Let_def)
qed

definition ex_ix :: SolanaInstruction where
  "ex_ix = \<lparr>ix_program_id = SOLANA_SYSTEM_PROGRAM_ID, ix_accounts = [''A'', ''B''],
     ix_data_b58 = bytes_hex ([2, 0, 0, 0] @ le_bytes 8 5), ix_stack_depth = 1\<rparr>"

theorem solana_amounts_exact_witness:
  "sol_native_ix ex_lib ''sol'' (ex_sol_block []) (ex_tx [] []) ex_ix =
     Inr (Some (sol_event ''sol'' (ex_sol_block []) (ex_tx [] []) MK_native_transfer None None
        [(''from'', PStr ''A''), (''to'', PStr ''B''), (''value'', PStr (int_str 5))] (signature_raw (ex_tx [] []))))"
proof -
  have "al_b58decode ex_lib (ix_data_b58 ex_ix) = Inr ([2, 0, 0, 0] @ le_bytes 8 5)" by code_simp
  with solana_amounts_exact [of 5 0 ex_ix "''A''" "''B''" "[]" ex_lib "''sol''" "ex_sol_block []" "ex_tx [] []"] show ?thesis
    by (simp add: ex_ix_def)
qed

end
