(* ===== verification/Runner_Base.thy ===== *)
theory Runner_Base
  imports Confirmation_Buffer Notifier Filter_Set Solana_Parsers
begin

text \<open>
  What the EVM and the Solana side of \<^verbatim>\<open>apps/worker/chain_runner.py\<close> share: the runner's state, its
  start and the change to a new snapshot, and the processing of one block.

  A step of the runner has effects on the outside: it hands events to the notifier, saves checkpoints
  and reports progress. A step is a function of the ABI registry (whose caches the parsers fill) that
  gives its result or exception, the effects in the order in which they take place, and the registry.
  What the chain node, the database and the callbacks answer is the parameter \<open>RunnerEnv\<close>.
\<close>

section \<open>Effects\<close>

type_synonym hits = "(SnapshotSubscription \<times> SnapshotChannel list) list"

datatype Effect =
    TipPublished int
  | Dispatched Event hits bool
  | SaveCheckpoint int string
  | BlockProcessed "string list" int

type_synonym 'a act = "AbiRegistry option \<Rightarrow> 'a res \<times> Effect list \<times> AbiRegistry option"

definition act_return :: "'a \<Rightarrow> 'a act" where
  "act_return x = (\<lambda>reg. (Inr x, [], reg))"

definition act_of :: "'a res \<Rightarrow> 'a act" where
  "act_of r = (\<lambda>reg. (r, [], reg))"

definition act_emit :: "Effect list \<Rightarrow> unit act" where
  "act_emit es = (\<lambda>reg. (Inr (), es, reg))"

definition act_bind :: "'a act \<Rightarrow> ('a \<Rightarrow> 'b act) \<Rightarrow> 'b act" where
  "act_bind m f = (\<lambda>reg.
     case m reg of
       (Inl e, es, reg') \<Rightarrow> (Inl e, es, reg')
     | (Inr x, es, reg') \<Rightarrow> (case f x reg' of (r, es', reg'') \<Rightarrow> (r, es @ es', reg'')))"

abbreviation act_seq :: "unit act \<Rightarrow> 'b act \<Rightarrow> 'b act" where
  "act_seq m k \<equiv> act_bind m (\<lambda>u. k)"

text \<open>\<open>for x in xs: f(x)\<close>\<close>

fun act_each :: "('a \<Rightarrow> unit act) \<Rightarrow> 'a list \<Rightarrow> unit act" where
  "act_each f [] = act_return ()"
| "act_each f (x # xs) = act_seq (f x) (act_each f xs)"

lemma act_bind_return [simp]: "act_bind (act_return x) f = f x"
  by (simp add: act_bind_def act_return_def)

lemma act_return_bind [simp]: "act_bind m act_return = m"
  by (rule ext) (auto simp: act_bind_def act_return_def split: prod.split sum.split)

lemma act_bind_assoc: "act_bind (act_bind m f) g = act_bind m (\<lambda>x. act_bind (f x) g)"
  by (rule ext) (auto simp: act_bind_def split: prod.splits sum.splits)

lemma act_bind_of [simp]: "act_bind (act_of (Inr x)) f = f x" "act_bind (act_of (Inl e)) f = act_of (Inl e)"
  by (auto simp: act_bind_def act_of_def)

lemma act_each_append: "act_each f (xs @ ys) = act_seq (act_each f xs) (act_each f ys)"
  by (induction xs) (simp_all add: act_bind_assoc)

section \<open>What the runner calls\<close>

text \<open>
  \<open>re_logs\<close> is \<open>fetch_logs\<close> with the parameters of a filter set; \<open>re_trace\<close> is \<open>None\<close> when the adapter has
  no \<open>trace_block\<close>; \<open>re_save\<close> is the outcome of saving the checkpoint of a block; \<open>re_stop n\<close> says
  whether the stop event is set when block (slot) \<open>n\<close> is about to be processed; \<open>re_matcher n\<close> and
  \<open>re_filter n\<close> are what the runner finds in its fields when it starts on the window at block \<open>n\<close>.
\<close>

record RunnerEnv =
  re_lib :: AbiLib
  re_tip :: "int res"
  re_block :: "int \<Rightarrow> Block res"
  re_logs :: "int \<Rightarrow> int \<Rightarrow> EvmLogFilterSet \<Rightarrow> Log list res"
  re_trace :: "(int \<Rightarrow> InternalCall list res) option"
  re_slot :: "int \<Rightarrow> SolanaBlock option res"
  re_slots :: "int \<Rightarrow> int \<Rightarrow> int list res"
  re_save :: "int \<Rightarrow> unit res"
  re_stop :: "int \<Rightarrow> bool"
  re_matcher :: "int \<Rightarrow> Matcher"
  re_filter :: "int \<Rightarrow> EvmLogFilterSet"

section \<open>Pipelines\<close>

text \<open>\<open>_build_pipeline\<close>: the parsers of a chain, with the ABI ones when there is a registry.\<close>

definition evm_parsers :: "AbiLib \<Rightarrow> string \<Rightarrow> (Block \<Rightarrow> AbiRegistry \<Rightarrow> AbiRegistry gen) list" where
  "evm_parsers L chain_id =
     [evm_native_parse chain_id, erc20_parse chain_id, abi_event_parse L chain_id, abi_call_parse L chain_id]"

definition evm_events :: "AbiLib \<Rightarrow> string \<Rightarrow> Block \<Rightarrow> AbiRegistry option \<Rightarrow> Event list \<times> AbiRegistry option" where
  "evm_events L chain_id block reg =
     (case reg of
        None \<Rightarrow> (fst (evm_pipeline_run [evm_native_parse chain_id, erc20_parse chain_id] block ()), None)
      | Some r \<Rightarrow> (case evm_pipeline_run (evm_parsers L chain_id) block r of (evs, r') \<Rightarrow> (evs, Some r')))"

definition solana_parsers :: "AbiLib \<Rightarrow> string \<Rightarrow> (SolanaBlock \<Rightarrow> AbiRegistry \<Rightarrow> AbiRegistry gen) list" where
  "solana_parsers L chain_id =
     [sol_native_parse L chain_id, spl_transfer_parse L chain_id, spl_ops_parse L chain_id,
      anchor_event_parse L chain_id, anchor_call_parse L chain_id]"

definition solana_events :: "AbiLib \<Rightarrow> string \<Rightarrow> SolanaBlock \<Rightarrow> AbiRegistry option \<Rightarrow> Event list \<times> AbiRegistry option" where
  "solana_events L chain_id block reg =
     (case reg of
        None \<Rightarrow> (fst (solana_pipeline_run [sol_native_parse L chain_id, spl_transfer_parse L chain_id,
                    spl_ops_parse L chain_id] block ()), None)
      | Some r \<Rightarrow> (case solana_pipeline_run (solana_parsers L chain_id) block r of (evs, r') \<Rightarrow> (evs, Some r')))"

section \<open>The runner's state\<close>

record ChainRunner =
  cr_chain :: SnapshotChain
  cr_buffer :: "ConfirmationBuffer option"
  cr_matcher :: Matcher
  cr_notifier :: Notifier
  cr_evm_filter :: "EvmLogFilterSet option"
  cr_snap :: ConfigSnapshot
  cr_buffer_tip_hash :: "string option"
  cr_resume_from :: "(int \<times> string) option"

text \<open>
  \<open>start\<close> after the adapter is connected: \<open>cp\<close> is the stored checkpoint. A confirmation count below
  zero and a channel that cannot be started raise.
\<close>

definition runner_start ::
  "ChannelEnv \<Rightarrow> (Channel \<Rightarrow> unit res) \<Rightarrow> int \<Rightarrow> SnapshotChain \<Rightarrow> (int \<times> string) option \<Rightarrow> AbiRegistry option \<Rightarrow>
   ConfigSnapshot \<Rightarrow> ChainRunner res" where
  "runner_start E conn permits chain cp reg snap =
     rbind (if sn_kind chain \<noteq> CK_solana then rbind (cb_init (sn_confirmations chain)) (\<lambda>b. Inr (Some b)) else Inr None) (\<lambda>buf.
       case notifier_start E conn (snap_channels snap) (notifier_init permits True True) of
         (Some e, n) \<Rightarrow> Inl e
       | (None, n) \<Rightarrow>
           Inr \<lparr>cr_chain = chain, cr_buffer = buf, cr_matcher = matcher_init snap, cr_notifier = n,
                cr_evm_filter = (if sn_kind chain \<noteq> CK_solana
                  then Some (build_evm_log_filter snap (sn_id chain) reg) else None),
                cr_snap = snap, cr_buffer_tip_hash = None, cr_resume_from = cp\<rparr>)"

text \<open>
  \<open>apply_snapshot\<close>: the matcher is replaced first, then the running notifier is stopped and a new one
  started. The stopped notifier is part of the result, since a block in progress still holds it. When
  a channel cannot be started, the exception leaves the new matcher with a partly started notifier
  and the old filter.
\<close>

definition apply_snapshot ::
  "ChannelEnv \<Rightarrow> (Channel \<Rightarrow> unit res) \<Rightarrow> (Channel \<Rightarrow> unit res) \<Rightarrow> int \<Rightarrow> AbiRegistry option \<Rightarrow> ConfigSnapshot \<Rightarrow>
   ChainRunner \<Rightarrow> (exn option \<times> ChainRunner) \<times> Notifier" where
  "apply_snapshot E conn clo permits reg snap r =
     (let r1 = r\<lparr>cr_matcher := matcher_init snap\<rparr>;
          stopped = snd (notifier_stop clo (cr_notifier r))
      in (case notifier_start E conn (snap_channels snap) (notifier_init permits True True) of
            (Some e, n) \<Rightarrow> (Some e, r1\<lparr>cr_notifier := n\<rparr>)
          | (None, n) \<Rightarrow>
              (None, r1\<lparr>cr_notifier := n, cr_snap := snap,
                 cr_evm_filter := (if sn_kind (cr_chain r) \<noteq> CK_solana
                   then Some (build_evm_log_filter snap (sn_id (cr_chain r)) reg) else cr_evm_filter r)\<rparr>),
          stopped))"

section \<open>One block\<close>

text \<open>\<open>hits = [...]; if hits: dispatch(event, hits)\<close>\<close>

definition dispatch_hits :: "Matcher \<Rightarrow> bool \<Rightarrow> Event \<Rightarrow> Effect list" where
  "dispatch_hits m replay ev =
     (let hits = match_hits m ev in if hits = [] then [] else [Dispatched ev hits replay])"

text \<open>\<open>matched_sub_ids\<close>, a set; the order is that of the first match.\<close>

definition matched_sub_ids :: "Matcher \<Rightarrow> Event list \<Rightarrow> string list" where
  "matched_sub_ids m evs = remdups (concat (map (\<lambda>ev. map (ss_id \<circ> fst) (match_hits m ev)) evs))"

text \<open>
  The internal calls of a traced chain. Their events are dispatched like the others, but do not count
  for \<open>matched_sub_ids\<close>.
\<close>

definition internal_step :: "RunnerEnv \<Rightarrow> SnapshotChain \<Rightarrow> Matcher \<Rightarrow> int \<Rightarrow> Block \<Rightarrow> unit act" where
  "internal_step env chain m number block = (\<lambda>reg.
     case (sn_trace_internal_calls chain, reg, re_trace env) of
       (True, Some r, Some trace_fn) \<Rightarrow>
         (case trace_fn number of
            Inl e \<Rightarrow> (Inl e, [], reg)
          | Inr traces \<Rightarrow>
              if traces = [] then (Inr (), [], reg)
              else (case internal_parse (re_lib env) (sn_id chain) traces block r of
                      ((evs, ex), r') \<Rightarrow>
                        ((case ex of None \<Rightarrow> Inr () | Some e \<Rightarrow> Inl e),
                         concat (map (dispatch_hits m False) evs), Some r')))
     | _ \<Rightarrow> (Inr (), [], reg))"

text \<open>
  The end of a block: the dispatches have been awaited, the checkpoint is saved, progress is reported.
\<close>

definition finish_block :: "RunnerEnv \<Rightarrow> string list \<Rightarrow> int \<Rightarrow> string \<Rightarrow> unit act" where
  "finish_block env ids number h =
     act_bind (act_of (re_save env number)) (\<lambda>u.
       act_emit (SaveCheckpoint number h # (if ids = [] then [] else [BlockProcessed ids number])))"

text \<open>\<open>_process_block_with_prefetched_logs\<close>\<close>

definition process_block_with_logs ::
  "RunnerEnv \<Rightarrow> SnapshotChain \<Rightarrow> Matcher \<Rightarrow> int \<Rightarrow> Block \<Rightarrow> Log list \<Rightarrow> unit act" where
  "process_block_with_logs env chain m number blk prefetched_logs = (\<lambda>reg.
     let block = blk\<lparr>blk_logs := prefetched_logs\<rparr>;
         (events, reg1) = evm_events (re_lib env) (sn_id chain) block reg
     in act_seq (act_emit (concat (map (dispatch_hits m False) events)))
          (act_seq (internal_step env chain m number block)
            (finish_block env (matched_sub_ids m events) (bh_number (blk_header block)) (bh_hash (blk_header block)))) reg1)"

text \<open>\<open>_process_solana_slot\<close>: a slot without a block leaves no trace.\<close>

definition process_solana_slot :: "RunnerEnv \<Rightarrow> SnapshotChain \<Rightarrow> Matcher \<Rightarrow> int \<Rightarrow> unit act" where
  "process_solana_slot env chain m slot =
     act_bind (act_of (re_slot env slot)) (\<lambda>blk.
       case blk of
         None \<Rightarrow> act_return ()
       | Some block \<Rightarrow> (\<lambda>reg.
           let (events, reg1) = solana_events (re_lib env) (sn_id chain) block reg
           in act_seq (act_emit (concat (map (dispatch_hits m False) events)))
                (finish_block env (matched_sub_ids m events) (sb_slot block) (sb_block_hash block)) reg1))"

section \<open>What processing a block does\<close>

lemma evm_events_origin:
  assumes "ev \<in> set (fst (evm_events L chain b reg))"
  shows "from_block chain (bh_number (blk_header b)) (bh_hash (blk_header b)) (bh_timestamp (blk_header b)) ev"
proof (cases reg)
  case None
  with assms have "ev \<in> set (fst (pipeline_run [evm_native_parse chain, erc20_parse chain] b ()))"
    by (simp add: evm_events_def evm_pipeline_run_def)
  from pipeline_run_mem [OF this] show ?thesis
    by (auto dest: native.parse_origin erc20.parse_origin)
next
  case (Some r)
  with assms have "ev \<in> set (fst (pipeline_run (evm_parsers L chain) b r))"
    by (simp add: evm_events_def evm_pipeline_run_def split: prod.splits)
  from pipeline_run_mem [OF this] show ?thesis
    by (auto simp: evm_parsers_def
        dest: native.parse_origin erc20.parse_origin abi_event.parse_origin abi_call.parse_origin)
qed

lemma solana_events_origin:
  assumes "ev \<in> set (fst (solana_events L chain b reg))"
  shows "from_block chain (sb_slot b) (sb_block_hash b) (sb_time b) ev"
proof (cases reg)
  case None
  with assms have "ev \<in> set (fst (pipeline_run [sol_native_parse L chain, spl_transfer_parse L chain,
      spl_ops_parse L chain] b ()))"
    by (simp add: solana_events_def solana_pipeline_run_def)
  from pipeline_run_mem [OF this] show ?thesis
    by (auto dest: sol_native.parse_origin spl_transfer.parse_origin spl_ops.parse_origin)
next
  case (Some r)
  with assms have "ev \<in> set (fst (pipeline_run (solana_parsers L chain) b r))"
    by (simp add: solana_events_def solana_pipeline_run_def split: prod.splits)
  from pipeline_run_mem [OF this] show ?thesis
    by (auto simp: solana_parsers_def dest: sol_native.parse_origin spl_transfer.parse_origin spl_ops.parse_origin
        anchor_event.parse_origin anchor_call.parse_origin)
qed

lemma internal_events_origin:
  assumes "ev \<in> set (gen_events (internal_parse L chain traces b r))"
  shows "from_block chain (bh_number (blk_header b)) (bh_hash (blk_header b)) (bh_timestamp (blk_header b)) ev"
  using internal.parse_origin [of ev L chain "(traces, b)" r] assms by simp

text \<open>The blocks whose checkpoints are saved by a list of effects.\<close>

definition checkpoints :: "Effect list \<Rightarrow> int list" where
  "checkpoints = List.map_filter (\<lambda>e. case e of SaveCheckpoint n h \<Rightarrow> Some n | _ \<Rightarrow> None)"

lemma checkpoints_simps [simp]:
  "checkpoints [] = []"
  "checkpoints (SaveCheckpoint n h # es) = n # checkpoints es"
  "checkpoints (TipPublished n # es) = checkpoints es"
  "checkpoints (Dispatched ev hits replay # es) = checkpoints es"
  "checkpoints (BlockProcessed ids n # es) = checkpoints es"
  "checkpoints (es @ es') = checkpoints es @ checkpoints es'"
  by (simp_all add: checkpoints_def List.map_filter_simps)

text \<open>The hand-over of an event of a given block to the notifier, with what the matcher found.\<close>

definition deliver_effect :: "Matcher \<Rightarrow> string \<Rightarrow> int \<Rightarrow> string \<Rightarrow> Effect \<Rightarrow> bool" where
  "deliver_effect m chain n h e \<longleftrightarrow>
     (\<exists>ev. e = Dispatched ev (match_hits m ev) False \<and> match_hits m ev \<noteq> [] \<and>
        ev_chain_id ev = chain \<and> ev_block_number ev = n \<and> ev_block_hash ev = h)"

lemma checkpoints_deliver: "list_all (deliver_effect m chain n h) es \<Longrightarrow> checkpoints es = []"
  by (induction es) (auto simp: deliver_effect_def)

lemma dispatch_hits_deliver:
  assumes "\<And>ev. ev \<in> set evs \<Longrightarrow> from_block chain n h ts ev"
  shows "list_all (deliver_effect m chain n h) (concat (map (dispatch_hits m False) evs))"
  using assms by (auto simp: list_all_iff dispatch_hits_def Let_def deliver_effect_def from_block_def split: if_splits)

text \<open>
  A block's effects: first the hand-overs of its events, then the checkpoint, then at most a progress
  report. A block that raised has saved no checkpoint.
\<close>

definition block_segment :: "Matcher \<Rightarrow> string \<Rightarrow> int \<Rightarrow> string \<Rightarrow> unit res \<Rightarrow> Effect list \<Rightarrow> bool" where
  "block_segment m chain n h r es \<longleftrightarrow>
     (case r of
        Inr u \<Rightarrow> \<exists>ds tl. es = ds @ SaveCheckpoint n h # tl \<and> list_all (deliver_effect m chain n h) ds \<and>
          (tl = [] \<or> (\<exists>ids. tl = [BlockProcessed ids n]))
      | Inl e \<Rightarrow> list_all (deliver_effect m chain n h) es)"

lemma block_segment_checkpoints:
  "block_segment m chain n h r es \<Longrightarrow> checkpoints es = (case r of Inr u \<Rightarrow> [n] | Inl e \<Rightarrow> [])"
  by (auto simp: block_segment_def checkpoints_deliver split: sum.splits)

lemma finish_block_eq:
  "finish_block env ids n h reg =
     (case re_save env n of
        Inl e \<Rightarrow> (Inl e, [], reg)
      | Inr u \<Rightarrow> (Inr (), SaveCheckpoint n h # (if ids = [] then [] else [BlockProcessed ids n]), reg))"
  by (auto simp: finish_block_def act_bind_def act_of_def act_emit_def split: sum.splits)

lemma segment_finish:
  assumes "list_all (deliver_effect m chain n h) ds"
    and "act_seq (act_emit ds) (act_seq step (finish_block env ids n h)) reg = (r, es, reg')"
    and "\<And>reg0 r0 es0 reg1. step reg0 = (r0, es0, reg1) \<Longrightarrow> list_all (deliver_effect m chain n h) es0"
  shows "block_segment m chain n h r es"
proof -
  obtain r0 es0 reg1 where st: "step reg = (r0, es0, reg1)" by (metis prod.collapse)
  have all: "list_all (deliver_effect m chain n h) (ds @ es0)" using assms(1,3) st by (metis list_all_append)
  show ?thesis
  proof (cases r0)
    case (Inl e)
    then show ?thesis using assms(2) st all by (auto simp: act_bind_def act_emit_def block_segment_def)
  next
    case (Inr u)
    show ?thesis
    proof (cases "re_save env n")
      case (Inl e)
      then have "r = Inl e" "es = ds @ es0"
        using assms(2) st Inr by (simp_all add: act_bind_def act_emit_def finish_block_eq)
      then show ?thesis using all by (simp add: block_segment_def)
    next
      case (Inr w)
      then have "r = Inr ()" "es = (ds @ es0) @ SaveCheckpoint n h # (if ids = [] then [] else [BlockProcessed ids n])"
        using assms(2) st \<open>r0 = Inr u\<close> by (simp_all add: act_bind_def act_emit_def finish_block_eq)
      then show ?thesis
        using all unfolding block_segment_def
        by (simp only: sum.case) (rule exI [of _ "ds @ es0"],
            rule exI [of _ "if ids = [] then [] else [BlockProcessed ids n]"], auto)
    qed
  qed
qed

lemma internal_step_deliver:
  "internal_step env chain m number b reg = (r, es, reg') \<Longrightarrow>
   list_all (deliver_effect m (sn_id chain) (bh_number (blk_header b)) (bh_hash (blk_header b))) es"
proof -
  assume st: "internal_step env chain m number b reg = (r, es, reg')"
  have "list_all (deliver_effect m (sn_id chain) (bh_number (blk_header b)) (bh_hash (blk_header b)))
      (concat (map (dispatch_hits m False) evs))"
    if "internal_parse L (sn_id chain) traces b r0 = ((evs, ex), r')" for evs L traces r0 ex r'
    using internal_events_origin [of _ L "sn_id chain" traces b r0] that by (intro dispatch_hits_deliver) simp
  with st show ?thesis
    by (auto simp: internal_step_def split: prod.splits bool.splits option.splits sum.splits if_splits)
qed

lemma process_block_segment:
  assumes "process_block_with_logs env chain m number b logs reg = (r, es, reg')"
  shows "block_segment m (sn_id chain) (bh_number (blk_header b)) (bh_hash (blk_header b)) r es"
proof -
  let ?b = "b\<lparr>blk_logs := logs\<rparr>"
  obtain evs reg1 where ev: "evm_events (re_lib env) (sn_id chain) ?b reg = (evs, reg1)" by (metis prod.collapse)
  have "list_all (deliver_effect m (sn_id chain) (bh_number (blk_header b)) (bh_hash (blk_header b)))
      (concat (map (dispatch_hits m False) evs))"
    using evm_events_origin [of _ "re_lib env" "sn_id chain" ?b reg] ev by (intro dispatch_hits_deliver) simp
  then show ?thesis
    using assms internal_step_deliver [of env chain m number ?b]
    by (intro segment_finish) (auto simp: process_block_with_logs_def ev)
qed

lemma process_slot_segment:
  assumes "process_solana_slot env chain m slot reg = (r, es, reg')"
  shows "(re_slot env slot = Inr None \<and> r = Inr () \<and> es = []) \<or> (\<exists>e. re_slot env slot = Inl e \<and> r = Inl e \<and> es = []) \<or>
    (\<exists>b. re_slot env slot = Inr (Some b) \<and> block_segment m (sn_id chain) (sb_slot b) (sb_block_hash b) r es)"
proof (cases "re_slot env slot")
  case (Inr blk)
  show ?thesis
  proof (cases blk)
    case (Some b)
    obtain evs reg1 where ev: "solana_events (re_lib env) (sn_id chain) b reg = (evs, reg1)" by (metis prod.collapse)
    have ds: "list_all (deliver_effect m (sn_id chain) (sb_slot b) (sb_block_hash b)) (concat (map (dispatch_hits m False) evs))"
      using solana_events_origin [of _ "re_lib env" "sn_id chain" b reg] ev by (intro dispatch_hits_deliver) simp
    have "act_seq (act_emit (concat (map (dispatch_hits m False) evs)))
        (act_seq (act_return ()) (finish_block env (matched_sub_ids m evs) (sb_slot b) (sb_block_hash b))) reg1 = (r, es, reg')"
      using assms Inr Some ev by (simp add: process_solana_slot_def)
    from segment_finish [OF ds this] show ?thesis using Inr Some by (auto simp: act_return_def)
  qed (use assms Inr in \<open>simp add: process_solana_slot_def act_return_def\<close>)
qed (use assms in \<open>auto simp: process_solana_slot_def act_of_def act_bind_def\<close>)

end
