(* ===== verification/Evm_Runner.thy ===== *)
theory Evm_Runner
  imports Runner_Base
begin

text \<open>
  The EVM side of \<^verbatim>\<open>apps/worker/chain_runner.py\<close>: catching up from the checkpoint in windows, and the
  live loop that feeds heads to the confirmation buffer and processes what it confirms.

  The lemmas show that catching up in windows, with any window size and any splitting of log queries
  the node forces, is the same as processing block after block; that what it does is always an initial
  segment of the blocks it set out to do; and that the ancestors it prefetches are enough for the
  buffer to resolve every reorganisation.
\<close>

section \<open>Logs of a range\<close>

text \<open>\<open>_bucket_by_block\<close>\<close>

definition bucket_add :: "Log \<Rightarrow> (int, Log list) dict \<Rightarrow> (int, Log list) dict" where
  "bucket_add lg out =
     (let out' = d_setdefault (lg_block_number lg) [] out
      in d_set (lg_block_number lg) (d_get_default out' (lg_block_number lg) [] @ [lg]) out')"

definition bucket_by_block :: "Log list \<Rightarrow> (int, Log list) dict" where
  "bucket_by_block logs = fold bucket_add logs []"

text \<open>
  \<open>str(exc)\<close>. The pool's exception says how many endpoints failed; the number is left out here, as it
  is in none of the hints. Exceptions raised without a message have an empty text.
\<close>

fun exn_text :: "exn \<Rightarrow> string" where
  "exn_text (ExternalError s) = s"
| "exn_text (RuntimeError s) = s"
| "exn_text (FilterError s) = s"
| "exn_text (RetryAbort s) = s"
| "exn_text (AbiNotFound s) = s"
| "exn_text AllEndpointsFailed = ''all endpoints failed''"
| "exn_text e = []"

definition DEGRADE_ERR_HINTS :: "string list" where
  "DEGRADE_ERR_HINTS =
     [''too large'', ''result too big'', ''query timeout'', ''limit exceeded'', ''returned more than'',
      ''response size exceeded'', ''block range'']"

definition degradable :: "exn \<Rightarrow> bool" where
  "degradable e \<longleftrightarrow> list_ex (\<lambda>h. contains h (lower (exn_text e))) DEGRADE_ERR_HINTS"

text \<open>
  \<open>_fetch_logs_with_degrade\<close>, with the ranges that were asked for. The recursion halves the range.
\<close>

function fetch_logs_with_degrade ::
  "(int \<Rightarrow> int \<Rightarrow> Log list res) \<Rightarrow> int \<Rightarrow> int \<Rightarrow> (int, Log list) dict res \<times> (int \<times> int) list" where
  "fetch_logs_with_degrade fetch start stop =
     (case fetch start stop of
        Inr logs \<Rightarrow> (Inr (bucket_by_block logs), [(start, stop)])
      | Inl e \<Rightarrow>
          if degradable e \<and> stop > start then
            let mid = (start + stop) div 2
            in case fetch_logs_with_degrade fetch start mid of
                 (Inl e', qs) \<Rightarrow> (Inl e', (start, stop) # qs)
               | (Inr left, qs) \<Rightarrow>
                   (case fetch_logs_with_degrade fetch (mid + 1) stop of
                      (Inl e', qs') \<Rightarrow> (Inl e', (start, stop) # qs @ qs')
                    | (Inr right, qs') \<Rightarrow> (Inr (d_merge left right), (start, stop) # qs @ qs'))
          else (Inl e, [(start, stop)]))"
  by pat_completeness auto
termination by (relation "measure (\<lambda>(fetch, start, stop). nat (stop - start))") auto

declare fetch_logs_with_degrade.simps [simp del]

section \<open>Catching up\<close>

text \<open>The blocks subscriptions of this chain want to start from, and the checkpoint; the least counts.\<close>

definition catchup_candidates :: "ChainRunner \<Rightarrow> int list" where
  "catchup_candidates r =
     (case cr_resume_from r of None \<Rightarrow> [] | Some (n, h) \<Rightarrow> [n]) @
     List.map_filter (\<lambda>s. if ss_chain_id s = sn_id (cr_chain r) \<and> ss_enabled s then ss_start_block s else None)
       (snap_subscriptions (cr_snap r))"

definition MAX_CATCHUP_BLOCKS :: int where
  "MAX_CATCHUP_BLOCKS = 10000"

text \<open>
  How a loop over blocks ends: at its end, because of the stop event, or with an exception.
\<close>

datatype LoopEnd = Finished | Stopped | Failed exn

text \<open>\<open>for n in range(start_n, end_n + 1)\<close> within one window.\<close>

fun catchup_blocks ::
  "RunnerEnv \<Rightarrow> SnapshotChain \<Rightarrow> Matcher \<Rightarrow> (int, Log list) dict \<Rightarrow> int list \<Rightarrow> AbiRegistry option \<Rightarrow>
   LoopEnd \<times> Effect list \<times> AbiRegistry option" where
  "catchup_blocks env chain m logs [] reg = (Finished, [], reg)"
| "catchup_blocks env chain m logs (n # ns) reg =
     (if re_stop env n then (Stopped, [], reg)
      else case act_bind (act_of (re_block env n))
               (\<lambda>b. process_block_with_logs env chain m n b (d_get_default logs n [])) reg of
          (Inl e, es, reg') \<Rightarrow> (Failed e, es, reg')
        | (Inr u, es, reg') \<Rightarrow>
            (case catchup_blocks env chain m logs ns reg' of (r, es', reg'') \<Rightarrow> (r, es @ es', reg'')))"

text \<open>One window: the configuration is read at its start.\<close>

definition catchup_window ::
  "RunnerEnv \<Rightarrow> SnapshotChain \<Rightarrow> int \<Rightarrow> int \<Rightarrow> AbiRegistry option \<Rightarrow> LoopEnd \<times> Effect list \<times> AbiRegistry option" where
  "catchup_window env chain start_n end_n reg =
     (let m = re_matcher env start_n; f = re_filter env start_n
      in case (if fs_skip_logs f then Inr []
               else fst (fetch_logs_with_degrade (\<lambda>a b. re_logs env a b f) start_n end_n)) of
           Inl e \<Rightarrow> (Failed e, [], reg)
         | Inr logs \<Rightarrow> catchup_blocks env chain m logs [start_n..end_n] reg)"

text \<open>
  \<open>while start_n <= safe_tip\<close>. A failed window ends the loop, the stop event the whole catch-up. With a
  window of no blocks the loop of the code does not end: \<open>fuel\<close> bounds the windows, and \<open>None\<close> is
  running out of it.
\<close>

fun catchup_loop ::
  "nat \<Rightarrow> RunnerEnv \<Rightarrow> SnapshotChain \<Rightarrow> int \<Rightarrow> int \<Rightarrow> AbiRegistry option \<Rightarrow>
   (LoopEnd \<times> Effect list \<times> AbiRegistry option) option" where
  "catchup_loop 0 env chain safe_tip start_n reg = (if start_n \<le> safe_tip then None else Some (Finished, [], reg))"
| "catchup_loop (Suc fuel) env chain safe_tip start_n reg =
     (if start_n \<le> safe_tip then
        let end_n = min (start_n + sn_log_query_range_blocks chain - 1) safe_tip
        in case catchup_window env chain start_n end_n reg of
             (Finished, es, reg') \<Rightarrow>
               (case catchup_loop fuel env chain safe_tip (end_n + 1) reg' of
                  None \<Rightarrow> None
                | Some (r, es', reg'') \<Rightarrow> Some (r, es @ es', reg''))
           | other \<Rightarrow> Some other
      else Some (Finished, [], reg))"

text \<open>The blocks a catch-up sets out to process, \<open>None\<close> when there is nothing to do.\<close>

definition catchup_range :: "int \<Rightarrow> int list \<Rightarrow> (int \<times> int) option" where
  "catchup_range safe_tip candidates =
     (if candidates = [] then None
      else let last_block = Min (set candidates); gap = safe_tip - last_block
           in if gap \<le> 0 then None
              else if gap > MAX_CATCHUP_BLOCKS then Some (safe_tip - MAX_CATCHUP_BLOCKS + 1, safe_tip)
              else Some (last_block + 1, safe_tip))"

text \<open>
  \<open>_catchup_evm\<close>. An exception of a window is logged and ends the catch-up; it does not leave this
  function. The result says how the loop ended.
\<close>

definition catchup_evm ::
  "nat \<Rightarrow> RunnerEnv \<Rightarrow> ChainRunner \<Rightarrow> AbiRegistry option \<Rightarrow> (LoopEnd \<times> Effect list \<times> AbiRegistry option) option" where
  "catchup_evm fuel env r reg =
     (case (catchup_candidates r, re_tip env) of
        ([], _) \<Rightarrow> Some (Finished, [], reg)
      | (_, Inl e) \<Rightarrow> Some (Failed e, [], reg)
      | (cands, Inr tip) \<Rightarrow>
          (case catchup_range (tip - sn_confirmations (cr_chain r)) cands of
             None \<Rightarrow> Some (Finished, [], reg)
           | Some (start_n, safe_tip) \<Rightarrow> catchup_loop fuel env (cr_chain r) safe_tip start_n reg))"

section \<open>Live heads\<close>

text \<open>\<open>_prefetch_ancestors_for\<close>: the blocks below the head, until one cannot be fetched.\<close>

fun prefetch_loop ::
  "RunnerEnv \<Rightarrow> int \<Rightarrow> int list \<Rightarrow> (string, BlockHeader) dict \<Rightarrow> (string, BlockHeader) dict" where
  "prefetch_loop env number [] cache = cache"
| "prefetch_loop env number (i # is) cache =
     (let n = number - i
      in if n < 0 then cache
         else case re_block env n of
             Inl e \<Rightarrow> cache
           | Inr blk \<Rightarrow> prefetch_loop env number is (d_set (bh_hash (blk_header blk)) (blk_header blk) cache))"

definition prefetch_ancestors :: "RunnerEnv \<Rightarrow> SnapshotChain \<Rightarrow> BlockHeader \<Rightarrow> (string, BlockHeader) dict" where
  "prefetch_ancestors env chain header =
     prefetch_loop env (bh_number header) [1..max 1 (sn_confirmations chain + 1)] []"

text \<open>\<open>resolve_parent\<close>: a lookup in the prefetched headers.\<close>

definition resolve_cached :: "(string, BlockHeader) dict \<Rightarrow> resolver" where
  "resolve_cached cache = (\<lambda>n h. d_index cache h)"

text \<open>\<open>_process_confirmed_block\<close>: the block and its logs are fetched by number.\<close>

definition process_confirmed_block :: "RunnerEnv \<Rightarrow> SnapshotChain \<Rightarrow> Matcher \<Rightarrow> EvmLogFilterSet \<Rightarrow> int \<Rightarrow> unit act" where
  "process_confirmed_block env chain m f number =
     act_bind (act_of (re_block env number)) (\<lambda>block.
     act_bind (act_of (if fs_skip_logs f then Inr [] else re_logs env number number f)) (\<lambda>logs.
       process_block_with_logs env chain m number block logs))"

text \<open>
  \<open>_handle_evm_head\<close>, as the new state of buffer and tip hash with the result of processing the
  confirmed blocks. An exception of the buffer leaves both as they were.
\<close>

definition handle_evm_head ::
  "RunnerEnv \<Rightarrow> ChainRunner \<Rightarrow> BlockHeader \<Rightarrow> AbiRegistry option \<Rightarrow>
   (unit res \<times> Effect list \<times> AbiRegistry option) \<times> ChainRunner" where
  "handle_evm_head env r header reg =
     (case (cr_buffer r, cr_evm_filter r) of
        (Some buf, Some f) \<Rightarrow>
          (let cache = (case cr_buffer_tip_hash r of
                          None \<Rightarrow> []
                        | Some tip \<Rightarrow> if tip \<noteq> bh_parent_hash header
                            then prefetch_ancestors env (cr_chain r) header else [])
           in case handle_new_head buf header (resolve_cached cache) of
                Inl e \<Rightarrow> ((Inl e, [TipPublished (bh_number header)], reg), r)
              | Inr (result, buf') \<Rightarrow>
                  (act_seq (act_emit [TipPublished (bh_number header)])
                     (act_each (\<lambda>h. process_confirmed_block env (cr_chain r) (cr_matcher r) f (bh_number h))
                       (result_confirmed result)) reg,
                   r\<lparr>cr_buffer := Some buf', cr_buffer_tip_hash := Some (bh_hash header)\<rparr>))
      | _ \<Rightarrow> ((Inl AssertionError, [TipPublished (bh_number header)], reg), r))"

text \<open>
  The live loop of \<open>_run_evm\<close>: each head comes with the environment and with whether the stop event
  is set when it arrives. An exception ends the loop and with it the runner's task.
\<close>

fun live_loop ::
  "(BlockHeader \<times> RunnerEnv \<times> bool) list \<Rightarrow> ChainRunner \<Rightarrow> AbiRegistry option \<Rightarrow>
   LoopEnd \<times> Effect list \<times> ChainRunner" where
  "live_loop [] r reg = (Finished, [], r)"
| "live_loop ((header, env, stop) # rest) r reg =
     (if stop then (Stopped, [], r)
      else case handle_evm_head env r header reg of
          ((Inl e, es, reg'), r') \<Rightarrow> (Failed e, es, r')
        | ((Inr u, es, reg'), r') \<Rightarrow>
            (case live_loop rest r' reg' of (res, es', r'') \<Rightarrow> (res, es @ es', r'')))"

text \<open>\<open>_run_evm\<close>: catch up, then follow the heads; a failed catch-up goes live all the same.\<close>

definition run_evm ::
  "nat \<Rightarrow> RunnerEnv \<Rightarrow> (BlockHeader \<times> RunnerEnv \<times> bool) list \<Rightarrow> ChainRunner \<Rightarrow> AbiRegistry option \<Rightarrow>
   (LoopEnd \<times> Effect list \<times> ChainRunner) option" where
  "run_evm fuel env heads r reg =
     (case cr_buffer r of
        None \<Rightarrow> Some (Failed AssertionError, [], r)
      | Some b \<Rightarrow>
          (case catchup_evm fuel env r reg of
             None \<Rightarrow> None
           | Some (_, es, reg') \<Rightarrow>
               (case live_loop heads r reg' of (res, es', r') \<Rightarrow> Some (res, es @ es', r'))))"

section \<open>Facts about log queries\<close>

lemma bucket_add_get:
  "d_get_default (bucket_add l d) n [] = d_get_default d n [] @ (if lg_block_number l = n then [l] else [])"
  by (auto simp: bucket_add_def Let_def d_get_default_def d_get_set d_get_setdefault d_has_def split: option.splits)

lemma bucket_add_keys:
  "distinct (d_keys d) \<Longrightarrow> distinct (d_keys (bucket_add l d))"
  "set (d_keys (bucket_add l d)) = insert (lg_block_number l) (set (d_keys d))"
  unfolding bucket_add_def Let_def
  by (simp add: distinct_d_set distinct_d_setdefault, subst d_keys_set) (auto simp: d_setdefault_def)

lemma bucket_fold:
  "d_get_default (fold bucket_add logs d) n [] = d_get_default d n [] @ filter (\<lambda>l. lg_block_number l = n) logs"
  "distinct (d_keys d) \<Longrightarrow> distinct (d_keys (fold bucket_add logs d))"
  "set (d_keys (fold bucket_add logs d)) = set (d_keys d) \<union> lg_block_number ` set logs"
  by (induction logs arbitrary: d)
    (simp_all add: bucket_add_get bucket_add_keys del: set_map list.set_map)

lemma bucket_by_block_facts:
  "d_get_default (bucket_by_block logs) n [] = filter (\<lambda>l. lg_block_number l = n) logs"
  "distinct (d_keys (bucket_by_block logs))"
  "set (d_keys (bucket_by_block logs)) = lg_block_number ` set logs"
  unfolding bucket_by_block_def by (simp_all add: bucket_fold del: set_map list.set_map) (simp add: d_get_default_def)

text \<open>
  What \<open>eth_getLogs\<close> documents: a query over a range that succeeds gives the logs of its blocks, in
  order; \<open>canon n\<close> are those of block \<open>n\<close>, which carry its number.
\<close>

definition honest_logs :: "(int \<Rightarrow> int \<Rightarrow> Log list res) \<Rightarrow> (int \<Rightarrow> Log list) \<Rightarrow> bool" where
  "honest_logs fetch canon \<longleftrightarrow>
     (\<forall>a b ls. a \<le> b \<and> fetch a b = Inr ls \<longrightarrow> ls = concat (map canon [a..b])) \<and>
     (\<forall>n. \<forall>l \<in> set (canon n). lg_block_number l = n)"

lemma honest_bucket:
  assumes "honest_logs fetch canon"
  shows "filter (\<lambda>l. lg_block_number l = n) (concat (map canon [a..b])) = (if a \<le> n \<and> n \<le> b then canon n else [])"
proof -
  have f: "filter (\<lambda>l. lg_block_number l = n) (canon k) = (if k = n then canon n else [])" for k
    using assms by (auto simp: honest_logs_def filter_empty_conv intro!: filter_True)
  have "filter (\<lambda>l. lg_block_number l = n) (concat (map canon ks)) =
      concat (map (\<lambda>k. if k = n then canon n else []) ks)" for ks
    by (induction ks) (simp_all add: f)
  moreover have "distinct ks \<Longrightarrow> concat (map (\<lambda>k. if k = n then canon n else []) ks) = (if n \<in> set ks then canon n else [])" for ks
    by (induction ks) auto
  ultimately show ?thesis by simp
qed

lemma d_get_default_merge:
  "distinct (d_keys b) \<Longrightarrow> d_get_default (d_merge a b) k v = (if d_has b k then d_get_default b k v else d_get_default a k v)"
  by (cases "d_get b k") (simp_all add: d_get_default_def d_get_merge map_of_rev_distinct d_has_def)

lemma d_keys_merge: "set (d_keys (d_merge a b)) = set (d_keys a) \<union> set (d_keys b)"
  unfolding d_merge_def
proof (induction b arbitrary: a)
  case (Cons kv b)
  then show ?case by (cases kv) (simp add: d_keys_set del: set_map list.set_map)
qed simp

lemma distinct_d_merge: "distinct (d_keys a) \<Longrightarrow> distinct (d_keys (d_merge a b))"
  unfolding d_merge_def by (rule distinct_fold_d_set)

text \<open>Splitting changes the queries, never the answer.\<close>

lemma degrade_sound:
  "honest_logs fetch canon \<Longrightarrow> a \<le> b \<Longrightarrow> fetch_logs_with_degrade fetch a b = (Inr d, qs) \<Longrightarrow>
    (\<forall>n. d_get_default d n [] = (if a \<le> n \<and> n \<le> b then canon n else [])) \<and>
    distinct (d_keys d) \<and> set (d_keys d) \<subseteq> {a..b}"
proof (induction fetch a b arbitrary: d qs rule: fetch_logs_with_degrade.induct)
  case (1 fetch a b)
  note honest = "1.prems"(1)
  show ?case
  proof (cases "fetch a b")
    case (Inr logs)
    then have d: "d = bucket_by_block logs" using "1.prems"(3) by (simp add: fetch_logs_with_degrade.simps [of fetch])
    have logs: "logs = concat (map canon [a..b])"
      using Inr "1.prems"(2) honest by (auto simp: honest_logs_def)
    have "lg_block_number ` set logs \<subseteq> {a..b}"
      using honest by (auto simp: logs honest_logs_def)
    then show ?thesis
      unfolding d bucket_by_block_facts by (simp add: bucket_by_block_facts logs honest_bucket [OF honest])
  next
    case (Inl e)
    let ?mid = "(a + b) div 2"
    from "1.prems"(3) Inl have dg: "degradable e" "b > a"
      by (auto simp: fetch_logs_with_degrade.simps [of fetch a b] split: if_splits)
    from "1.prems"(3) obtain left right ql qr where
        l: "fetch_logs_with_degrade fetch a ?mid = (Inr left, ql)"
      and r: "fetch_logs_with_degrade fetch (?mid + 1) b = (Inr right, qr)" and d: "d = d_merge left right"
      by (auto simp: fetch_logs_with_degrade.simps [of fetch a b] Inl dg Let_def split: prod.splits sum.splits)
    have mid: "a \<le> ?mid" "?mid + 1 \<le> b" using dg(2) by auto
    note L = "1.IH"(1) [OF Inl conjI [OF dg] refl honest mid(1) l]
    note R = "1.IH"(2) [OF Inl conjI [OF dg] refl l [symmetric] refl honest mid(2) r]
    have has: "d_has right n \<Longrightarrow> ?mid + 1 \<le> n \<and> n \<le> b" "d_has left n \<Longrightarrow> a \<le> n \<and> n \<le> ?mid" for n
      using L R by (auto simp: dict_simps)
    have none: "\<not> d_has right n \<Longrightarrow> d_get_default right n [] = []" for n
      by (auto simp: d_has_def d_get_default_def)
    have "d_get_default d n [] = (if a \<le> n \<and> n \<le> b then canon n else [])" for n
    proof (cases "d_has right n")
      case True
      then show ?thesis using R has(1) [OF True] mid by (simp add: d d_get_default_merge)
    next
      case False
      then have "?mid + 1 \<le> n \<and> n \<le> b \<Longrightarrow> canon n = []" using none [OF False] R by simp
      then show ?thesis using L R False mid by (auto simp: d d_get_default_merge)
    qed
    moreover have "set (d_keys d) \<subseteq> {a..b}"
      unfolding d d_keys_merge using L R mid by fastforce
    ultimately show ?thesis using L by (simp add: d distinct_d_merge)
  qed
qed

text \<open>When single blocks can be fetched and every refusal of a range hints at its size, splitting succeeds.\<close>

lemma degrade_succeeds:
  "(\<forall>n. \<exists>ls. fetch n n = Inr ls) \<Longrightarrow> (\<forall>a b e. a < b \<and> fetch a b = Inl e \<longrightarrow> degradable e) \<Longrightarrow> a \<le> b \<Longrightarrow>
   \<exists>d qs. fetch_logs_with_degrade fetch a b = (Inr d, qs)"
proof (induction fetch a b rule: fetch_logs_with_degrade.induct)
  case (1 fetch a b)
  show ?case
  proof (cases "fetch a b")
    case (Inl e)
    then have ab: "a < b" using "1.prems"(1,3) by (metis Inl_Inr_False order_le_less)
    then have dg: "degradable e" using "1.prems"(2) Inl by blast
    let ?mid = "(a + b) div 2"
    have mid: "a \<le> ?mid" "?mid + 1 \<le> b" using ab by auto
    obtain left ql where l: "fetch_logs_with_degrade fetch a ?mid = (Inr left, ql)"
      using "1.IH"(1) [OF Inl conjI [OF dg ab] refl "1.prems"(1,2) mid(1)] by blast
    obtain right qr where r: "fetch_logs_with_degrade fetch (?mid + 1) b = (Inr right, qr)"
      using "1.IH"(2) [OF Inl conjI [OF dg ab] refl l [symmetric] refl "1.prems"(1,2) mid(2)] by blast
    show ?thesis by (simp add: fetch_logs_with_degrade.simps [of fetch a b] Inl dg ab Let_def l r)
  qed (simp add: fetch_logs_with_degrade.simps [of fetch a b])
qed

text \<open>The number of queries is bounded by the number of blocks.\<close>

lemma degrade_queries:
  "a \<le> b \<Longrightarrow> int (length (snd (fetch_logs_with_degrade fetch a b))) \<le> 2 * (b - a) + 1"
proof (induction fetch a b rule: fetch_logs_with_degrade.induct)
  case (1 fetch a b)
  show ?case
  proof (cases "\<exists>e. fetch a b = Inl e \<and> degradable e \<and> a < b")
    case True
    then obtain e where e: "fetch a b = Inl e" and dg: "degradable e" "b > a" by blast
    let ?mid = "(a + b) div 2"
    obtain l ql where l: "fetch_logs_with_degrade fetch a ?mid = (l, ql)" by (metis prod.collapse)
    obtain r qr where r: "fetch_logs_with_degrade fetch (?mid + 1) b = (r, qr)" by (metis prod.collapse)
    have ql: "int (length ql) \<le> 2 * (?mid - a) + 1" using "1.IH"(1) [OF e conjI [OF dg] refl] dg(2) l by simp
    have qr: "int (length qr) \<le> 2 * (b - (?mid + 1)) + 1" if "l = Inr left" for left
      using "1.IH"(2) [OF e conjI [OF dg] refl l [symmetric] that] dg(2) r by simp
    show ?thesis
    proof (cases l)
      case (Inl e')
      have "?mid < b" using dg(2) by auto
      then show ?thesis using ql Inl by (simp add: fetch_logs_with_degrade.simps [of fetch a b] e dg Let_def l)
    next
      case (Inr left)
      then show ?thesis using ql qr [OF Inr] dg(2)
        by (cases r) (simp_all add: fetch_logs_with_degrade.simps [of fetch a b] e dg Let_def l r)
    qed
  next
    case False
    then show ?thesis using "1.prems"
      by (auto simp: fetch_logs_with_degrade.simps [of fetch a b] split: sum.splits)
  qed
qed

section \<open>Facts about catching up\<close>

text \<open>The node answers a request for block \<open>n\<close> with a block of that number.\<close>

definition honest_blocks :: "RunnerEnv \<Rightarrow> bool" where
  "honest_blocks env \<longleftrightarrow> (\<forall>n b. re_block env n = Inr b \<longrightarrow> bh_number (blk_header b) = n)"

abbreviation process_at :: "RunnerEnv \<Rightarrow> SnapshotChain \<Rightarrow> Matcher \<Rightarrow> int \<Rightarrow> Log list \<Rightarrow> unit act" where
  "process_at env chain m n logs \<equiv>
     act_bind (act_of (re_block env n)) (\<lambda>b. process_block_with_logs env chain m n b logs)"

lemma process_at_checkpoints:
  assumes "honest_blocks env" and "process_at env chain m n logs reg = (r, es, reg')"
  shows "checkpoints es = (case r of Inr u \<Rightarrow> [n] | Inl e \<Rightarrow> [])"
proof (cases "re_block env n")
  case (Inr b)
  then have "process_block_with_logs env chain m n b logs reg = (r, es, reg')" using assms(2) by simp
  moreover have "bh_number (blk_header b) = n" using assms(1) Inr by (simp add: honest_blocks_def)
  ultimately show ?thesis using block_segment_checkpoints [OF process_block_segment] by blast
qed (use assms(2) in \<open>auto simp: act_of_def act_bind_def\<close>)

lemma catchup_blocks_prefix:
  assumes "honest_blocks env" and "a \<le> b + 1" and "catchup_blocks env chain m logs [a..b] reg = (r, es, reg')"
  shows "\<exists>k. a - 1 \<le> k \<and> k \<le> b \<and> checkpoints es = [a..k] \<and> (r = Finished \<longrightarrow> k = b)"
  using assms(2,3)
proof (induction "nat (b - a + 1)" arbitrary: a reg r es reg')
  case 0
  then have "[a..b] = []" "b = a - 1" by simp_all
  with 0 show ?case by (intro exI [of _ "a - 1"]) auto
next
  case (Suc j)
  then have ab: "[a..b] = a # [a + 1..b]" by (simp add: upto_rec1)
  obtain r1 es1 reg1 where p: "process_at env chain m a (d_get_default logs a []) reg = (r1, es1, reg1)"
    by (metis prod.collapse)
  note c1 = process_at_checkpoints [OF assms(1) p]
  show ?case
  proof (cases "re_stop env a")
    case True
    then show ?thesis using Suc.prems(2) Suc.hyps(2) by (intro exI [of _ "a - 1"]) (auto simp: ab)
  next
    case False
    show ?thesis
    proof (cases r1)
      case (Inl e)
      then show ?thesis using Suc.prems(2) Suc.hyps(2) False p c1 by (intro exI [of _ "a - 1"]) (auto simp: ab)
    next
      case (Inr u)
      obtain r2 es2 reg2 where rest: "catchup_blocks env chain m logs [a + 1..b] reg1 = (r2, es2, reg2)"
        by (metis prod.collapse)
      have "j = nat (b - (a + 1) + 1)" "a + 1 \<le> b + 1" using Suc.hyps(2) by simp_all
      from Suc.hyps(1) [OF this rest] obtain k where k: "a \<le> k" "k \<le> b" "checkpoints es2 = [a + 1..k]"
        "r2 = Finished \<longrightarrow> k = b" by auto
      have "r = r2" "es = es1 @ es2" using Suc.prems(2) False p Inr rest by (auto simp: ab)
      then show ?thesis using k c1 Inr by (intro exI [of _ k]) (simp add: upto_rec1 [of a k])
    qed
  qed
qed

lemma catchup_window_prefix:
  assumes "honest_blocks env" and "a \<le> b + 1" and "catchup_window env chain a b reg = (r, es, reg')"
  shows "\<exists>k. a - 1 \<le> k \<and> k \<le> b \<and> checkpoints es = [a..k] \<and> (r = Finished \<longrightarrow> k = b)"
proof -
  let ?f = "re_filter env a"
  let ?logs = "if fs_skip_logs ?f then Inr [] else fst (fetch_logs_with_degrade (\<lambda>x y. re_logs env x y ?f) a b)"
  show ?thesis
  proof (cases ?logs)
    case (Inl e)
    then show ?thesis using assms by (intro exI [of _ "a - 1"]) (auto simp: catchup_window_def Let_def)
  next
    case (Inr logs)
    then show ?thesis
      using assms(3) by (intro catchup_blocks_prefix [OF assms(1,2), where logs = logs]) (simp add: catchup_window_def Let_def)
  qed
qed

lemma catchup_loop_prefix:
  "honest_blocks env \<Longrightarrow> 1 \<le> sn_log_query_range_blocks chain \<Longrightarrow> a \<le> safe_tip + 1 \<Longrightarrow>
   catchup_loop fuel env chain safe_tip a reg = Some (r, es, reg') \<Longrightarrow>
   \<exists>k. a - 1 \<le> k \<and> k \<le> safe_tip \<and> checkpoints es = [a..k] \<and> (r = Finished \<longrightarrow> k = safe_tip)"
proof (induction fuel arbitrary: a reg r es)
  case 0
  then show ?case by (intro exI [of _ "a - 1"]) (auto split: if_splits)
next
  case (Suc fuel)
  show ?case
  proof (cases "a \<le> safe_tip")
    case False
    then show ?thesis using Suc.prems(3,4) by (intro exI [of _ "a - 1"]) auto
  next
    case True
    define b where "b = min (a + sn_log_query_range_blocks chain - 1) safe_tip"
    have ab: "a \<le> b" "b \<le> safe_tip" using True Suc.prems(2) by (simp_all add: b_def)
    obtain r1 es1 reg1 where w: "catchup_window env chain a b reg = (r1, es1, reg1)" by (metis prod.collapse)
    from catchup_window_prefix [OF Suc.prems(1) _ w] ab obtain k where
        k: "a - 1 \<le> k" "k \<le> b" "checkpoints es1 = [a..k]" "r1 = Finished \<longrightarrow> k = b" by auto
    show ?thesis
    proof (cases "r1 = Finished")
      case True
      then obtain r2 es2 where rest: "catchup_loop fuel env chain safe_tip (b + 1) reg1 = Some (r2, es2, reg')"
          and eq: "r = r2" "es = es1 @ es2"
        using Suc.prems(4) \<open>a \<le> safe_tip\<close> w by (auto simp: Let_def b_def [symmetric] split: option.splits)
      obtain k' where k': "b \<le> k'" "k' \<le> safe_tip" "checkpoints es2 = [b + 1..k']" "r2 = Finished \<longrightarrow> k' = safe_tip"
        using Suc.IH [OF Suc.prems(1,2) _ rest] ab by auto
      have "[a..b] @ [b + 1..k'] = [a..k']" using upto_split2 [of a b k'] ab k'(1) by simp
      then show ?thesis using k k' eq True ab by (intro exI [of _ k']) auto
    next
      case False
      then have "Some (r1, es1, reg1) = Some (r, es, reg')"
        using Suc.prems(4) \<open>a \<le> safe_tip\<close> w by (cases r1) (auto simp: Let_def b_def [symmetric])
      then show ?thesis using k ab False by (intro exI [of _ k]) auto
    qed
  qed
qed

text \<open>Enough fuel: one window per block is more than is ever needed.\<close>

lemma catchup_loop_terminates:
  "1 \<le> sn_log_query_range_blocks chain \<Longrightarrow> nat (safe_tip - a + 1) \<le> fuel \<Longrightarrow>
   \<exists>out. catchup_loop fuel env chain safe_tip a reg = Some out"
proof (induction fuel arbitrary: a reg)
  case (Suc fuel)
  define b where "b = min (a + sn_log_query_range_blocks chain - 1) safe_tip"
  obtain r1 es1 reg1 where w: "catchup_window env chain a b reg = (r1, es1, reg1)" by (metis prod.collapse)
  show ?case
  proof (cases "a \<le> safe_tip \<and> r1 = Finished")
    case True
    then have "nat (safe_tip - (b + 1) + 1) \<le> fuel" using Suc.prems by (auto simp: b_def)
    then obtain r2 es2 reg2 where "catchup_loop fuel env chain safe_tip (b + 1) reg1 = Some (r2, es2, reg2)"
      using Suc.IH [OF Suc.prems(1)] by (metis prod.collapse)
    then show ?thesis using True w by (auto simp: Let_def b_def [symmetric])
  next
    case False
    then show ?thesis using w by (cases r1) (auto simp: Let_def b_def [symmetric])
  qed
qed simp

text \<open>The reference: one block after the other, each with the logs of that block.\<close>

fun block_by_block ::
  "RunnerEnv \<Rightarrow> SnapshotChain \<Rightarrow> Matcher \<Rightarrow> (int \<Rightarrow> Log list) \<Rightarrow> int list \<Rightarrow> AbiRegistry option \<Rightarrow>
   LoopEnd \<times> Effect list \<times> AbiRegistry option" where
  "block_by_block env chain m logs_of [] reg = (Finished, [], reg)"
| "block_by_block env chain m logs_of (n # ns) reg =
     (if re_stop env n then (Stopped, [], reg)
      else case process_at env chain m n (logs_of n) reg of
          (Inl e, es, reg') \<Rightarrow> (Failed e, es, reg')
        | (Inr u, es, reg') \<Rightarrow>
            (case block_by_block env chain m logs_of ns reg' of (r, es', reg'') \<Rightarrow> (r, es @ es', reg'')))"

lemma catchup_blocks_reference:
  "(\<forall>n \<in> set ns. d_get_default logs n [] = logs_of n) \<Longrightarrow>
   catchup_blocks env chain m logs ns reg = block_by_block env chain m logs_of ns reg"
  by (induction ns arbitrary: reg) (auto split: prod.splits sum.splits)

lemma block_by_block_append:
  "block_by_block env chain m logs_of (xs @ ys) reg =
     (case block_by_block env chain m logs_of xs reg of
        (Finished, es, reg') \<Rightarrow>
          (case block_by_block env chain m logs_of ys reg' of (r, es', reg'') \<Rightarrow> (r, es @ es', reg''))
      | other \<Rightarrow> other)"
proof (induction xs arbitrary: reg)
  case (Cons x xs)
  show ?case
    by (simp only: append_Cons block_by_block.simps Cons.IH)
      (auto split: prod.splits sum.splits LoopEnd.splits)
qed (auto split: prod.splits)

lemma catchup_window_reference:
  assumes "a \<le> b" and "re_matcher env a = m" and "re_filter env a = f"
    and "fs_skip_logs f \<longrightarrow> logs_of = (\<lambda>n. [])"
    and "\<not> fs_skip_logs f \<longrightarrow> honest_logs (\<lambda>x y. re_logs env x y f) logs_of \<and>
      (\<exists>d qs. fetch_logs_with_degrade (\<lambda>x y. re_logs env x y f) a b = (Inr d, qs))"
  shows "catchup_window env chain a b reg = block_by_block env chain m logs_of [a..b] reg"
proof (cases "fs_skip_logs f")
  case True
  then show ?thesis
    using assms(2-4) by (simp add: catchup_window_def Let_def d_get_default_def catchup_blocks_reference)
next
  case False
  then obtain d qs where h: "honest_logs (\<lambda>x y. re_logs env x y f) logs_of"
      and d: "fetch_logs_with_degrade (\<lambda>x y. re_logs env x y f) a b = (Inr d, qs)" using assms(5) by blast
  have "\<forall>n \<in> set [a..b]. d_get_default d n [] = logs_of n"
    using degrade_sound [OF h assms(1) d] by simp
  then show ?thesis
    using False assms(2,3) d by (simp add: catchup_window_def Let_def catchup_blocks_reference)
qed

lemma catchup_loop_reference:
  assumes "1 \<le> sn_log_query_range_blocks chain" and "\<forall>n. re_matcher env n = m \<and> re_filter env n = f"
    and "fs_skip_logs f \<longrightarrow> logs_of = (\<lambda>n. [])"
    and "\<not> fs_skip_logs f \<longrightarrow> honest_logs (\<lambda>x y. re_logs env x y f) logs_of \<and>
      (\<forall>x y. x \<le> y \<longrightarrow> (\<exists>d qs. fetch_logs_with_degrade (\<lambda>x y. re_logs env x y f) x y = (Inr d, qs)))"
  shows "nat (safe_tip - a + 1) \<le> fuel \<Longrightarrow>
    catchup_loop fuel env chain safe_tip a reg = Some (block_by_block env chain m logs_of [a..safe_tip] reg)"
proof (induction fuel arbitrary: a reg)
  case (Suc fuel)
  show ?case
  proof (cases "a \<le> safe_tip")
    case True
    define b where "b = min (a + sn_log_query_range_blocks chain - 1) safe_tip"
    have ab: "a \<le> b" "b \<le> safe_tip" using True assms(1) by (simp_all add: b_def)
    have w: "catchup_window env chain a b reg = block_by_block env chain m logs_of [a..b] reg"
      using assms(2,3,4) ab(1) by (intro catchup_window_reference) auto
    have rest: "catchup_loop fuel env chain safe_tip (b + 1) reg' =
        Some (block_by_block env chain m logs_of [b + 1..safe_tip] reg')" for reg'
      using Suc.prems ab by (intro Suc.IH) simp
    have "[a..safe_tip] = [a..b] @ [b + 1..safe_tip]" using upto_split2 [of a b safe_tip] ab by simp
    then show ?thesis using True
      by (simp add: block_by_block_append w rest b_def [symmetric] Let_def split: prod.split LoopEnd.split)
  qed simp
qed simp

lemma catchup_range_Some:
  assumes "catchup_range sn cands = Some (a, b)"
  shows "b = sn" "a \<le> b" "b - a + 1 \<le> MAX_CATCHUP_BLOCKS" "cands \<noteq> []"
proof -
  define lb where "lb = Min (set cands)"
  show "b = sn" "a \<le> b" "b - a + 1 \<le> MAX_CATCHUP_BLOCKS" "cands \<noteq> []"
    using assms unfolding catchup_range_def lb_def [symmetric] Let_def MAX_CATCHUP_BLOCKS_def
    by (auto split: if_splits)
qed

section \<open>Facts about live heads\<close>

lemma prefetch_loop_mem:
  "d_get (prefetch_loop env number is cache) h = Some x \<Longrightarrow>
   d_get cache h = Some x \<or> (bh_hash x = h \<and> (\<exists>i \<in> set is. \<exists>b. re_block env (number - i) = Inr b \<and> blk_header b = x))"
proof (induction env number "is" cache rule: prefetch_loop.induct)
  case (2 env number i "is" cache)
  show ?case
  proof (cases "number - i < 0")
    case False
    show ?thesis
    proof (cases "re_block env (number - i)")
      case (Inr blk)
      then have "d_get (prefetch_loop env number is (d_set (bh_hash (blk_header blk)) (blk_header blk) cache)) h = Some x"
        using "2.prems" False by (simp add: Let_def)
      from "2.IH" [OF refl False Inr this] Inr show ?thesis by (auto simp: d_get_set split: if_splits)
    qed (use "2.prems" False in \<open>simp add: Let_def\<close>)
  qed (use "2.prems" in \<open>simp add: Let_def\<close>)
qed simp

lemma prefetch_mem:
  "d_get (prefetch_ancestors env chain header) h = Some x \<Longrightarrow>
   bh_hash x = h \<and> (\<exists>i b. 1 \<le> i \<and> i \<le> max 1 (sn_confirmations chain + 1) \<and>
     re_block env (bh_number header - i) = Inr b \<and> blk_header b = x)"
  by (auto simp: prefetch_ancestors_def dest!: prefetch_loop_mem)

interpretation prefetched: parent_resolver "resolve_cached (prefetch_ancestors env chain header)" for env chain header
  by unfold_locales (auto simp: resolve_cached_def res_simps dest: prefetch_mem)

text \<open>
  The node can serve the \<open>c + 1\<close> ancestors of a head: \<open>anc i\<close> is the one \<open>i\<close> blocks below it.
\<close>

definition ancestors_served :: "(string \<Rightarrow> int) \<Rightarrow> RunnerEnv \<Rightarrow> int \<Rightarrow> BlockHeader \<Rightarrow> (int \<Rightarrow> BlockHeader) \<Rightarrow> bool" where
  "ancestors_served ht env c header anc \<longleftrightarrow>
     anc 0 = header \<and> header_ok ht header \<and> c + 1 \<le> bh_number header \<and>
     (\<forall>i. 1 \<le> i \<and> i \<le> c + 1 \<longrightarrow>
        (\<exists>b. re_block env (bh_number header - i) = Inr b \<and> blk_header b = anc i) \<and>
        bh_hash (anc i) = bh_parent_hash (anc (i - 1)) \<and> header_ok ht (anc i))"

lemma ancestor_height:
  assumes "ancestors_served ht env c header anc" and "0 \<le> i" and "i \<le> c + 1"
  shows "ht (bh_hash (anc i)) = bh_number header - i"
  using assms(2,3)
proof (induction "nat i" arbitrary: i)
  case 0
  then show ?case using assms(1) by (simp add: ancestors_served_def header_ok_def)
next
  case (Suc j)
  then have i: "1 \<le> i" "i \<le> c + 1" by simp_all
  have "ht (bh_hash (anc (i - 1))) = bh_number header - (i - 1)" using Suc by (intro Suc.hyps(1)) auto
  moreover have "header_ok ht (anc (i - 1))"
    using assms(1) i by (cases "i = 1") (auto simp: ancestors_served_def)
  moreover have "bh_hash (anc i) = bh_parent_hash (anc (i - 1))" using assms(1) i by (auto simp: ancestors_served_def)
  ultimately show ?case by (simp add: header_ok_def)
qed

lemma prefetch_loop_complete:
  assumes anc: "ancestors_served ht env c header anc"
  shows "0 \<le> k \<Longrightarrow> k \<le> c + 1 \<Longrightarrow>
    (\<forall>j. 1 \<le> j \<and> j \<le> k \<longrightarrow> d_get cache (bh_hash (anc j)) = Some (anc j)) \<Longrightarrow>
    (\<forall>j. 1 \<le> j \<and> j \<le> c + 1 \<longrightarrow>
       d_get (prefetch_loop env (bh_number header) [k + 1..c + 1] cache) (bh_hash (anc j)) = Some (anc j))"
proof (induction "nat (c + 1 - k)" arbitrary: k cache)
  case (Suc n)
  then have k: "k + 1 \<le> c + 1" by simp
  have "1 \<le> k + 1" using Suc.prems(1) by simp
  then obtain b where b: "re_block env (bh_number header - (k + 1)) = Inr b" "blk_header b = anc (k + 1)"
    using anc k unfolding ancestors_served_def by blast
  have neq: "bh_hash (anc j) \<noteq> bh_hash (anc (k + 1))" if "1 \<le> j" "j \<le> k" for j
  proof -
    have "ht (bh_hash (anc j)) = bh_number header - j" "ht (bh_hash (anc (k + 1))) = bh_number header - (k + 1)"
      using that k Suc.prems(1) by (intro ancestor_height [OF anc]; simp)+
    then show ?thesis using that by auto
  qed
  let ?cache = "d_set (bh_hash (anc (k + 1))) (anc (k + 1)) cache"
  have get: "\<forall>j. 1 \<le> j \<and> j \<le> k + 1 \<longrightarrow> d_get ?cache (bh_hash (anc j)) = Some (anc j)"
  proof (intro allI impI)
    fix j assume "1 \<le> j \<and> j \<le> k + 1"
    then show "d_get ?cache (bh_hash (anc j)) = Some (anc j)"
      using Suc.prems(3) neq [of j] by (cases "j = k + 1") (auto simp: d_get_set)
  qed
  have "\<not> bh_number header - (k + 1) < 0" using anc k by (simp add: ancestors_served_def)
  then have "prefetch_loop env (bh_number header) [k + 1..c + 1] cache =
      prefetch_loop env (bh_number header) [k + 1 + 1..c + 1] ?cache"
    using k b by (simp add: upto_rec1 [of "k + 1"] Let_def)
  then show ?case
    using Suc.hyps(1) [of "k + 1" ?cache] Suc.hyps(2) Suc.prems(1) k get by auto
qed auto

lemma prefetch_complete:
  assumes "ancestors_served ht env c header anc" and "sn_confirmations chain = c" and "0 \<le> c"
    and "1 \<le> j" and "j \<le> c + 1"
  shows "d_get (prefetch_ancestors env chain header) (bh_hash (anc j)) = Some (anc j)"
  using prefetch_loop_complete [OF assms(1), of 0 "[]"] assms(2-5) by (simp add: prefetch_ancestors_def max_absorb2)

lemma prefetch_resolver_ok:
  assumes "ancestors_served ht env c header anc" and "sn_confirmations chain = c" and "0 \<le> c"
  shows "resolver_ok ht (resolve_cached (prefetch_ancestors env chain header))"
proof -
  have "bh_hash x = h \<and> header_ok ht x" if g: "d_get (prefetch_ancestors env chain header) h = Some x" for h x
  proof -
    from prefetch_mem [OF g] obtain i b where i: "bh_hash x = h" "1 \<le> i" "i \<le> c + 1"
        "re_block env (bh_number header - i) = Inr b" "blk_header b = x" using assms(2,3) by auto
    have "(\<exists>b. re_block env (bh_number header - i) = Inr b \<and> blk_header b = anc i) \<and> header_ok ht (anc i)"
      using assms(1) i(2,3) by (simp add: ancestors_served_def)
    then show ?thesis using i by auto
  qed
  then show ?thesis by (auto simp: resolver_ok_def resolve_cached_def res_simps)
qed

lemma walk_back_resolves:
  assumes "ancestors_served ht env c header anc" and "sn_confirmations chain = c" and "0 \<le> c"
  shows "0 \<le> j \<Longrightarrow> j + int k \<le> c + 1 \<Longrightarrow>
    \<exists>out. walk_back k by_hash (resolve_cached (prefetch_ancestors env chain header)) br (anc j) = Inr out"
proof (induction k arbitrary: j br)
  case (Suc k)
  have p: "bh_parent_hash (anc j) = bh_hash (anc (j + 1))"
    using assms(1) Suc.prems by (auto simp: ancestors_served_def dest!: spec [of _ "j + 1"])
  have "d_get (prefetch_ancestors env chain header) (bh_hash (anc (j + 1))) = Some (anc (j + 1))"
    using Suc.prems by (intro prefetch_complete [OF assms]) auto
  then show ?case
    using Suc.IH [of "j + 1" "br @ [anc (j + 1)]"] Suc.prems p
    by (auto simp: resolve_cached_def d_index_def split: option.splits)
qed simp

text \<open>
  The invariant of the live loop: the buffer holds a chain of at most \<open>c\<close> headers, whose tip's hash the
  runner remembers.
\<close>

definition live_inv :: "(string \<Rightarrow> int) \<Rightarrow> int \<Rightarrow> ChainRunner \<Rightarrow> bool" where
  "live_inv ht c r \<longleftrightarrow> sn_confirmations (cr_chain r) = c \<and> cr_evm_filter r \<noteq> None \<and>
     (\<exists>b. cr_buffer r = Some b \<and> run_inv ht c ([], b) \<and>
        (cb_buf b \<noteq> [] \<longrightarrow> cr_buffer_tip_hash r = Some (bh_hash (last (cb_buf b)))))"

lemma run_inv_forget: "run_inv ht c (em, b) \<Longrightarrow> run_inv ht c ([], b)"
  by (simp add: run_inv_def linked_append)

lemma handle_new_head_run_inv:
  assumes "handle_new_head b header r = Inr (res, b')" and "run_inv ht c ([], b)" and "1 \<le> c"
    and "header_ok ht header" and "resolver_ok ht r"
  shows "run_inv ht c ([], b') \<and> cb_buf b' \<noteq> [] \<and> last (cb_buf b') = header"
proof -
  note inv = assms(2) [unfolded run_inv_def, simplified]
  have pos: "0 < cb_confirmations b" using inv assms(3) by simp
  from assms(1) show ?thesis
  proof (cases rule: handle_new_head_cases)
    case (clean cs)
    have "head_step ht ([], b) ([] @ result_confirmed res, b')"
      using assms clean(1) by (intro head_step.accepted) auto
    from run_inv_forget [OF head_step_run_inv [OF this assms(2,3)]]
    show ?thesis using drain_confirmed_keeps_tip [OF clean(3)] pos by simp
  next
    case (deep ev)
    have "run_inv ht c ([] @ re_confirmed ev, b')"
      using assms(3,4) inv by (intro drain_run_inv [OF deep(7)]) auto
    then show ?thesis using drain_confirmed_keeps_tip [OF deep(7)] pos run_inv_forget by fastforce
  next
    case (reorg ev br anc)
    have "head_step ht ([], b) ([] @ result_confirmed res, b')"
      using assms reorg(1,2) by (intro head_step.accepted) auto
    note i = run_inv_forget [OF head_step_run_inv [OF this assms(2,3)]]
    have "br \<noteq> []" "hd br = header"
      using parent_resolver.walk_back_branch [OF resolver_ok_resolver [OF assms(5)] reorg(4)] by simp_all
    then show ?thesis using drain_confirmed_keeps_tip [OF reorg(8)] pos i by (simp add: last_rev)
  qed
qed

lemma live_head:
  assumes inv: "live_inv ht c r" and c: "1 \<le> c" and anc: "ancestors_served ht env c header anc"
  obtains b b' res f cache where "cr_buffer r = Some b" "cr_evm_filter r = Some f"
    "handle_new_head b header (resolve_cached cache) = Inr (res, b')"
    "snd (handle_evm_head env r header reg) = r\<lparr>cr_buffer := Some b', cr_buffer_tip_hash := Some (bh_hash header)\<rparr>"
    "fst (handle_evm_head env r header reg) = act_seq (act_emit [TipPublished (bh_number header)])
       (act_each (\<lambda>h. process_confirmed_block env (cr_chain r) (cr_matcher r) f (bh_number h)) (result_confirmed res)) reg"
    "live_inv ht c (snd (handle_evm_head env r header reg))"
proof -
  from inv obtain b f where b: "cr_buffer r = Some b" "run_inv ht c ([], b)" "cr_evm_filter r = Some f"
      "cb_buf b \<noteq> [] \<longrightarrow> cr_buffer_tip_hash r = Some (bh_hash (last (cb_buf b)))"
      and chain: "sn_confirmations (cr_chain r) = c" by (auto simp: live_inv_def)
  define cache where "cache = (case cr_buffer_tip_hash r of None \<Rightarrow> []
      | Some tip \<Rightarrow> if tip \<noteq> bh_parent_hash header then prefetch_ancestors env (cr_chain r) header else [])"
  have c0: "0 \<le> c" using c by simp
  have rok: "resolver_ok ht (resolve_cached cache)"
    using prefetch_resolver_ok [OF anc chain c0]
    by (auto simp: cache_def resolver_ok_def resolve_cached_def d_index_def split: option.splits)
  have "\<exists>out. handle_new_head b header (resolve_cached cache) = Inr out"
  proof (cases "cb_buf b = [] \<or> bh_hash (last (cb_buf b)) = bh_parent_hash header")
    case True
    then show ?thesis by (simp add: handle_new_head_link)
  next
    case False
    then have m: "cb_buf b \<noteq> []" "bh_hash (last (cb_buf b)) \<noteq> bh_parent_hash header" by auto
    have cp: "cache = prefetch_ancestors env (cr_chain r) header" using b(4) m by (simp add: cache_def)
    have "int (length (cb_buf b)) \<le> c" using b(2) by (simp add: run_inv_def)
    then have "\<exists>out. walk_back (length (cb_buf b) + 1) (header_index b) (resolve_cached cache) [header] (anc 0) = Inr out"
      unfolding cp by (intro walk_back_resolves [OF anc chain c0]) auto
    moreover have "anc 0 = header" using anc by (simp add: ancestors_served_def)
    ultimately show ?thesis
      unfolding handle_new_head_mismatch [OF m]
      by (auto simp: Let_def simp del: walk_back.simps split: option.split)
  qed
  then obtain res b' where h: "handle_new_head b header (resolve_cached cache) = Inr (res, b')" by auto
  have eq: "handle_evm_head env r header reg =
      (act_seq (act_emit [TipPublished (bh_number header)])
         (act_each (\<lambda>h. process_confirmed_block env (cr_chain r) (cr_matcher r) f (bh_number h)) (result_confirmed res)) reg,
       r\<lparr>cr_buffer := Some b', cr_buffer_tip_hash := Some (bh_hash header)\<rparr>)"
    unfolding handle_evm_head_def b(1,3) prod.case option.case cache_def [symmetric] Let_def h by simp
  have hok: "header_ok ht header" using anc by (simp add: ancestors_served_def)
  have "live_inv ht c (snd (handle_evm_head env r header reg))"
    using handle_new_head_run_inv [OF h b(2) c hok rok] chain b(3) by (simp add: eq live_inv_def)
  then show thesis using that [OF b(1,3) h] eq by simp
qed

lemma process_confirmed_checkpoints:
  assumes "honest_blocks env" and "process_confirmed_block env chain m f n reg = (r, es, reg')"
  shows "set (checkpoints es) \<subseteq> {n}"
proof (cases "re_block env n")
  case (Inr b)
  show ?thesis
  proof (cases "if fs_skip_logs f then Inr [] else re_logs env n n f")
    case (Inr logs)
    then have "process_at env chain m n logs reg = (r, es, reg')"
      using assms(2) \<open>re_block env n = Inr b\<close> by (simp add: process_confirmed_block_def)
    from process_at_checkpoints [OF assms(1) this] show ?thesis by (cases r) auto
  qed (use assms(2) Inr in \<open>auto simp: process_confirmed_block_def act_of_def act_bind_def\<close>)
qed (use assms(2) in \<open>auto simp: process_confirmed_block_def act_of_def act_bind_def\<close>)

lemma act_each_checkpoints:
  assumes "\<And>x reg r es reg'. f x reg = (r, es, reg') \<Longrightarrow> set (checkpoints es) \<subseteq> {g x}"
  shows "act_each f xs reg = (r, es, reg') \<Longrightarrow> set (checkpoints es) \<subseteq> g ` set xs"
proof (induction xs arbitrary: reg r es)
  case (Cons x xs)
  obtain r1 es1 reg1 where x: "f x reg = (r1, es1, reg1)" by (metis prod.collapse)
  obtain r2 es2 reg2 where xs: "act_each f xs reg1 = (r2, es2, reg2)" by (metis prod.collapse)
  have "reg' = reg' \<and> (es = es1 \<or> (es = es1 @ es2 \<and> reg2 = reg'))"
    using Cons.prems x xs by (auto simp: act_bind_def split: sum.splits)
  then show ?case using assms [OF x] Cons.IH [of reg1 r2 es2] xs by auto
qed (simp add: act_return_def)

text \<open>Heads that link to one another are the only blocks the live loop processes.\<close>

lemma live_loop_linked:
  assumes "\<forall>(h, env, stop) \<in> set heads. honest_blocks env" and "linked (map fst heads)"
    and "cr_buffer r = Some b" and "set (cb_buf b) \<subseteq> H" and "fst ` set heads \<subseteq> H"
    and "heads \<noteq> [] \<longrightarrow> cb_buf b = [] \<or> bh_hash (last (cb_buf b)) = bh_parent_hash (fst (hd heads))"
    and "live_loop heads r reg = (res, es, r')"
  shows "set (checkpoints es) \<subseteq> bh_number ` H"
  using assms
proof (induction heads arbitrary: r b reg res es r')
  case (Cons hd1 rest)
  obtain header env stop where hd1: "hd1 = (header, env, stop)" by (cases hd1)
  obtain r1 es1 reg1 r'' where h: "handle_evm_head env r header reg = ((r1, es1, reg1), r'')" by (metis prod.collapse)
  show ?case
  proof (cases "stop")
    case True
    then show ?thesis using Cons.prems(7) by (simp add: hd1)
  next
    case False
    show ?thesis
    proof (cases "cr_evm_filter r")
      case None
      then have "es = [TipPublished (bh_number header)]"
        using Cons.prems(3,7) False by (simp add: hd1 handle_evm_head_def)
      then show ?thesis by simp
    next
      case (Some f)
      let ?full = "b\<lparr>cb_buf := cb_buf b @ [header]\<rparr>"
      obtain cs b' where d: "drain_confirmed ?full = (cs, b')" by (metis prod.collapse)
      have link: "cb_buf b = [] \<or> bh_hash (last (cb_buf b)) = bh_parent_hash header"
        using Cons.prems(6) by (simp add: hd1)
      have run: "act_seq (act_emit [TipPublished (bh_number header)])
            (act_each (\<lambda>h. process_confirmed_block env (cr_chain r) (cr_matcher r) f (bh_number h)) cs) reg = (r1, es1, reg1)"
          and r'': "r'' = r\<lparr>cr_buffer := Some b', cr_buffer_tip_hash := Some (bh_hash header)\<rparr>"
        using h Cons.prems(3) Some by (simp_all add: handle_evm_head_def handle_new_head_link [OF link] d Let_def)
      obtain es0 where es0: "es1 = TipPublished (bh_number header) # es0"
          "act_each (\<lambda>h. process_confirmed_block env (cr_chain r) (cr_matcher r) f (bh_number h)) cs reg = (r1, es0, reg1)"
        using run by (auto simp: act_bind_def act_emit_def split: prod.splits)
      have split: "cs @ cb_buf b' = cb_buf b @ [header]" using drain_confirmed_split [OF d] by simp
      have hn: "honest_blocks env" using Cons.prems(1) by (simp add: hd1)
      have sub: "set cs \<subseteq> H" "set (cb_buf b') \<subseteq> H"
        using arg_cong [OF split, of set] Cons.prems(4,5) by (auto simp: hd1)
      have "set (checkpoints es0) \<subseteq> bh_number ` set cs"
        using act_each_checkpoints [OF _ es0(2), of bh_number] process_confirmed_checkpoints [OF hn] by metis
      then have c1: "set (checkpoints es1) \<subseteq> bh_number ` H" using es0(1) sub(1) by auto
      have last': "cb_buf b' = [] \<or> last (cb_buf b') = header"
        using arg_cong [OF split, of last] by (cases "cb_buf b' = []") simp_all
      have "set (checkpoints es2) \<subseteq> bh_number ` H" if "live_loop rest r'' reg1 = (res2, es2, r2)" for res2 es2 r2
      proof (rule Cons.IH [of r'' b' reg1 res2 es2 r2])
        show "rest \<noteq> [] \<longrightarrow> cb_buf b' = [] \<or> bh_hash (last (cb_buf b')) = bh_parent_hash (fst (hd rest))"
          using last' Cons.prems(2) by (cases rest) (auto simp: hd1)
        show "linked (map fst rest)" using Cons.prems(2) by (cases rest) (auto simp: hd1)
      qed (use Cons.prems(1,5) sub r'' that in \<open>auto simp: hd1\<close>)
      then show ?thesis
        using Cons.prems(7) False h c1 by (auto simp: hd1 split: sum.splits prod.splits)
    qed
  qed
qed simp

section \<open>Properties\<close>

text \<open>
  C27. Splitting log queries is invisible: when the node refuses ranges, the runner halves them until
  they are accepted, asks at most \<open>2 (end - start) + 1\<close> times, and gets for every block of the range
  exactly the logs of that block and nothing else; it gets an answer whenever single blocks can be
  fetched and each refusal is one that hints at the size.
\<close>

theorem degrade_equals_direct:
  assumes "honest_logs fetch canon" and "start \<le> stop"
    and "\<forall>n. \<exists>ls. fetch n n = Inr ls" and "\<forall>a b e. a < b \<and> fetch a b = Inl e \<longrightarrow> degradable e"
  shows "\<exists>d queries. fetch_logs_with_degrade fetch start stop = (Inr d, queries) \<and>
    int (length queries) \<le> 2 * (stop - start) + 1 \<and>
    (\<forall>n. d_get_default d n [] = (if start \<le> n \<and> n \<le> stop then canon n else []))"
proof -
  obtain d qs where d: "fetch_logs_with_degrade fetch start stop = (Inr d, qs)"
    using degrade_succeeds [OF assms(3,4,2)] by blast
  then show ?thesis
    using degrade_sound [OF assms(1,2) d] degrade_queries [OF assms(2), of fetch] by auto
qed

definition ex_block_log :: "int \<Rightarrow> Log" where
  "ex_block_log n = \<lparr>lg_tx_hash = ''t'', lg_log_index = 0, lg_address = ''0xab'', lg_topics = [], lg_data = ''0x'', lg_block_number = n\<rparr>"

definition ex_fetch :: "int \<Rightarrow> int \<Rightarrow> Log list res" where
  "ex_fetch a b = (if a = b then Inr [ex_block_log a] else Inl (ExternalError ''Query returned more than 10000 results''))"

lemma ex_fetch_honest: "honest_logs ex_fetch (\<lambda>n. [ex_block_log n])"
  by (auto simp: honest_logs_def ex_fetch_def ex_block_log_def split: if_splits)

lemma ex_fetch_degradable: "\<forall>a b e. a < b \<and> ex_fetch a b = Inl e \<longrightarrow> degradable e"
proof -
  have "degradable (ExternalError ''Query returned more than 10000 results'')" by code_simp
  then show ?thesis by (auto simp: ex_fetch_def split: if_splits)
qed

theorem degrade_equals_direct_witness:
  "\<exists>d queries. fetch_logs_with_degrade ex_fetch 10 13 = (Inr d, queries) \<and> length queries \<le> 7 \<and>
     d_get_default d 12 [] = [ex_block_log 12]"
proof -
  have "\<forall>n. \<exists>ls. ex_fetch n n = Inr ls" by (simp add: ex_fetch_def)
  from degrade_equals_direct [OF ex_fetch_honest _ this ex_fetch_degradable, of 10 13] show ?thesis by auto
qed

text \<open>
  C3. Catching up in windows is catching up block by block: whatever the size of a window and
  whatever splitting the node forces, the effects (events handed over, checkpoints, progress), the
  outcome and the registry are those of processing the blocks from the start to the last safe one in
  order, each once, with its own logs. The number of windows is bounded, so that the loop ends.
\<close>

theorem catchup_windows_invisible:
  assumes "1 \<le> sn_log_query_range_blocks (cr_chain r)"
    and "\<forall>n. re_matcher env n = m \<and> re_filter env n = f" and "\<not> fs_skip_logs f"
    and "honest_logs (\<lambda>a b. re_logs env a b f) logs_of" and "\<forall>n. \<exists>ls. re_logs env n n f = Inr ls"
    and "\<forall>a b e. a < b \<and> re_logs env a b f = Inl e \<longrightarrow> degradable e"
    and "catchup_candidates r \<noteq> []" and "re_tip env = Inr tip"
    and "catchup_range (tip - sn_confirmations (cr_chain r)) (catchup_candidates r) = Some (start_n, safe_tip)"
    and "nat MAX_CATCHUP_BLOCKS \<le> fuel"
  shows "catchup_evm fuel env r reg = Some (block_by_block env (cr_chain r) m logs_of [start_n..safe_tip] reg)"
proof -
  have "safe_tip - start_n + 1 \<le> MAX_CATCHUP_BLOCKS" by (rule catchup_range_Some(3) [OF assms(9)])
  then have fuel: "nat (safe_tip - start_n + 1) \<le> fuel" using assms(10) by linarith
  have "\<exists>d qs. fetch_logs_with_degrade (\<lambda>a b. re_logs env a b f) x y = (Inr d, qs)" if "x \<le> y" for x y
    using degrade_succeeds [OF assms(5,6) that] .
  then have "catchup_loop fuel env (cr_chain r) safe_tip start_n reg =
      Some (block_by_block env (cr_chain r) m logs_of [start_n..safe_tip] reg)"
    using catchup_loop_reference [OF assms(1,2) _ _ fuel, of logs_of reg] assms(3,4) by simp
  then show ?thesis using assms(7-9) by (cases "catchup_candidates r") (simp_all add: catchup_evm_def)
qed

definition ex_chain :: "SnapshotChain" where
  "ex_chain = \<lparr>sn_id = ''eth'', sn_kind = CK_evm, sn_rpc_http = ''http://n'', sn_rpc_ws = None, sn_confirmations = 2,
     sn_poll_interval_ms = 1000, sn_commitment = None, sn_trace_internal_calls = False,
     sn_log_query_range_blocks = 3, sn_slot_query_range_blocks = 1000, sn_rpc_http_fallbacks = [], sn_rpc_timeout_ms = 1000\<rparr>"

definition ex_runner :: ChainRunner where
  "ex_runner = \<lparr>cr_chain = ex_chain, cr_buffer = Some \<lparr>cb_confirmations = 2, cb_buf = []\<rparr>,
     cr_matcher = matcher_init ex_snapshot, cr_notifier = ex_notifier,
     cr_evm_filter = Some \<lparr>fs_addresses = None, fs_topic0s = None, fs_skip_logs = False\<rparr>,
     cr_snap = ex_snapshot, cr_buffer_tip_hash = None, cr_resume_from = Some (4, ''h4'')\<rparr>"

text \<open>A node whose block \<open>n\<close> has the hash \<open>replicate n CHR ''a''\<close>, so that blocks link.\<close>

definition ex_hash :: "int \<Rightarrow> string" where
  "ex_hash n = replicate (nat n) CHR ''a''"

definition ex_head :: "int \<Rightarrow> BlockHeader" where
  "ex_head n = \<lparr>bh_number = n, bh_hash = ex_hash n, bh_parent_hash = ex_hash (n - 1), bh_timestamp = 0\<rparr>"

definition ex_run_env :: "int \<Rightarrow> RunnerEnv" where
  "ex_run_env tip = \<lparr>re_lib = ex_lib, re_tip = Inr tip,
     re_block = (\<lambda>n. Inr \<lparr>blk_header = ex_head n, blk_txs = [], blk_logs = []\<rparr>),
     re_logs = (\<lambda>a b f. ex_fetch a b), re_trace = None, re_slot = (\<lambda>n. Inr None), re_slots = (\<lambda>a b. Inr []),
     re_save = (\<lambda>n. Inr ()), re_stop = (\<lambda>n. False), re_matcher = (\<lambda>n. matcher_init ex_snapshot),
     re_filter = (\<lambda>n. \<lparr>fs_addresses = None, fs_topic0s = None, fs_skip_logs = False\<rparr>)\<rparr>"

lemma ex_candidates: "catchup_candidates ex_runner = [4, 10]" "cr_chain ex_runner = ex_chain"
  by code_simp (simp add: ex_runner_def)

theorem catchup_windows_invisible_witness:
  "catchup_evm 10000 (ex_run_env 20) ex_runner None =
     Some (block_by_block (ex_run_env 20) ex_chain (matcher_init ex_snapshot) (\<lambda>n. [ex_block_log n]) [5..18] None)"
proof -
  have ex: "re_tip (ex_run_env 20) = Inr 20" "re_logs (ex_run_env 20) a b f = ex_fetch a b"
      "re_matcher (ex_run_env 20) n = matcher_init ex_snapshot"
      "re_filter (ex_run_env 20) n = \<lparr>fs_addresses = None, fs_topic0s = None, fs_skip_logs = False\<rparr>"
      "sn_confirmations ex_chain = 2" "sn_log_query_range_blocks ex_chain = 3" for a b f n
    by (simp_all add: ex_run_env_def ex_chain_def)
  have "catchup_range 18 [4, 10] = Some (5, 18)"
    by (simp add: catchup_range_def MAX_CATCHUP_BLOCKS_def)
  moreover have "\<forall>n. \<exists>ls. ex_fetch n n = Inr ls" by (simp add: ex_fetch_def)
  ultimately show ?thesis
    using catchup_windows_invisible [of ex_runner "ex_run_env 20" "matcher_init ex_snapshot"
        "\<lparr>fs_addresses = None, fs_topic0s = None, fs_skip_logs = False\<rparr>" "\<lambda>n. [ex_block_log n]" 20 5 18 10000 None]
      ex_fetch_honest ex_fetch_degradable
    by (simp add: ex ex_candidates MAX_CATCHUP_BLOCKS_def)
qed

text \<open>
  C8. Whatever fails during catch-up, no block is skipped and none is repeated: the checkpoints saved
  are the blocks from the first one missing up to some block, in order; all of them exactly when the
  catch-up finished. At most \<open>MAX_CATCHUP_BLOCKS\<close> blocks are processed.
\<close>

theorem catchup_saves_prefix:
  assumes "honest_blocks env" and "1 \<le> sn_log_query_range_blocks (cr_chain r)" and "re_tip env = Inr tip"
    and "catchup_range (tip - sn_confirmations (cr_chain r)) (catchup_candidates r) = Some (start_n, safe_tip)"
    and "catchup_evm fuel env r reg = Some (res, es, reg')"
  shows "\<exists>k. start_n - 1 \<le> k \<and> k \<le> safe_tip \<and> checkpoints es = [start_n..k] \<and> (res = Finished \<longrightarrow> k = safe_tip) \<and>
    int (length (checkpoints es)) \<le> MAX_CATCHUP_BLOCKS"
proof -
  note rng = catchup_range_Some(2-4) [OF assms(4)]
  then have "catchup_loop fuel env (cr_chain r) safe_tip start_n reg = Some (res, es, reg')"
    using assms(3-5) by (cases "catchup_candidates r") (simp_all add: catchup_evm_def)
  from catchup_loop_prefix [OF assms(1,2) _ this] rng obtain k where
    "start_n - 1 \<le> k" "k \<le> safe_tip" "checkpoints es = [start_n..k]" "res = Finished \<longrightarrow> k = safe_tip" by auto
  then show ?thesis using rng(2) by (intro exI [of _ k]) auto
qed

lemma ex_env_facts:
  "honest_blocks (ex_run_env tip)" "sn_log_query_range_blocks ex_chain = 3" "sn_confirmations ex_chain = 2"
  "re_tip (ex_run_env tip) = Inr tip" "catchup_range 6 [4, 10] = Some (5, 6)"
  by (auto simp: honest_blocks_def ex_run_env_def ex_head_def ex_chain_def catchup_range_def MAX_CATCHUP_BLOCKS_def)

theorem catchup_saves_prefix_witness:
  "\<exists>res es reg' k. catchup_evm 2 (ex_run_env 8) ex_runner None = Some (res, es, reg') \<and> checkpoints es = [5..k] \<and> k \<le> 6"
proof -
  have "\<exists>out. catchup_loop 2 (ex_run_env 8) ex_chain 6 5 None = Some out"
    by (rule catchup_loop_terminates) (simp_all add: ex_env_facts)
  then obtain res es reg' where "catchup_evm 2 (ex_run_env 8) ex_runner None = Some (res, es, reg')"
    by (auto simp: catchup_evm_def ex_candidates ex_env_facts)
  from catchup_saves_prefix [OF ex_env_facts(1) _ ex_env_facts(4) _ this, of 5 6] this show ?thesis
    by (auto simp: ex_candidates ex_env_facts)
qed

text \<open>
  C7. The live loop never rejects a head: as long as the node can serve the \<open>confirmations + 1\<close>
  ancestors of each head and the confirmed blocks can be processed, every head is accepted, through
  missed heads and reorganisations of any depth, and the buffer stays a chain of at most
  \<open>confirmations\<close> headers whose tip the runner knows.
\<close>

theorem live_never_rejects:
  assumes "live_inv ht c r" and "1 \<le> c"
    and "\<forall>(header, env, stop) \<in> set heads. (\<exists>anc. ancestors_served ht env c header anc) \<and>
      (\<forall>m f n reg. isl (fst (process_confirmed_block env (cr_chain r) m f n reg)) = False)"
  shows "fst (live_loop heads r reg) \<in> {Finished, Stopped} \<and> live_inv ht c (snd (snd (live_loop heads r reg)))"
  using assms(1,3)
proof (induction heads arbitrary: r reg)
  case (Cons hd1 rest)
  obtain header env stop where hd1: "hd1 = (header, env, stop)" by (cases hd1)
  show ?case
  proof (cases stop)
    case True
    then show ?thesis using Cons.prems(1) by (simp add: hd1)
  next
    case False
    obtain anc where anc: "ancestors_served ht env c header anc" using Cons.prems(2) by (auto simp: hd1)
    have ok: "isl (fst (process_confirmed_block env (cr_chain r) m f n reg)) = False" for m f n reg
      using Cons.prems(2) by (auto simp: hd1)
    have each: "isl (fst (act_each (\<lambda>h. process_confirmed_block env (cr_chain r) (cr_matcher r) f (bh_number h)) hs reg)) = False"
      for f hs and reg :: "AbiRegistry option"
    proof (induction hs arbitrary: reg)
      case (Cons h hs)
      then show ?case
        using ok [of "cr_matcher r" f "bh_number h" reg] by (auto simp: act_bind_def split: prod.splits sum.splits) (metis fst_conv)
    qed (simp add: act_return_def)
    show ?thesis
    proof (rule live_head [OF Cons.prems(1) assms(2) anc, of reg])
      fix b b' res f cache
      assume st: "snd (handle_evm_head env r header reg) = r\<lparr>cr_buffer := Some b', cr_buffer_tip_hash := Some (bh_hash header)\<rparr>"
        and act: "fst (handle_evm_head env r header reg) = act_seq (act_emit [TipPublished (bh_number header)])
          (act_each (\<lambda>h. process_confirmed_block env (cr_chain r) (cr_matcher r) f (bh_number h)) (result_confirmed res)) reg"
        and inv: "live_inv ht c (snd (handle_evm_head env r header reg))"
      obtain x es reg1 r1 where h: "handle_evm_head env r header reg = ((x, es, reg1), r1)" by (metis prod.collapse)
      have "isl x = False"
        using act each [of f "result_confirmed res" reg] h by (auto simp: act_bind_def act_emit_def split: prod.splits)
      then obtain u where x: "x = Inr u" by (cases x) auto
      have "cr_chain r1 = cr_chain r" using st h by simp
      then have "fst (live_loop rest r1 reg1) \<in> {Finished, Stopped} \<and> live_inv ht c (snd (snd (live_loop rest r1 reg1)))"
        using Cons.prems(2) inv h by (intro Cons.IH) auto
      then show ?thesis using False h x by (auto simp: hd1 split: prod.splits)
    qed
  qed
qed simp

text \<open>The example node serves every ancestor, and its blocks are processed without failure.\<close>

lemma ex_ancestors:
  assumes "4 \<le> n"
  shows "ancestors_served (\<lambda>h. int (length h)) (ex_run_env tip) 2 (ex_head n) (\<lambda>i. ex_head (n - i))"
  using assms
  by (auto simp: ancestors_served_def header_ok_def ex_head_def ex_hash_def ex_run_env_def algebra_simps)

lemma ex_process: "isl (fst (process_confirmed_block (ex_run_env tip) ex_chain m f n reg)) = False"
  by (auto simp: process_confirmed_block_def ex_run_env_def ex_fetch_def process_block_with_logs_def internal_step_def
      ex_chain_def act_bind_def act_of_def act_emit_def finish_block_eq Let_def split: prod.splits)

lemma ex_live_inv: "live_inv (\<lambda>h. int (length h)) 2 ex_runner"
  by (simp add: live_inv_def ex_runner_def ex_chain_def run_inv_def)

theorem live_never_rejects_witness:
  "fst (live_loop [(ex_head 7, ex_run_env 7, False), (ex_head 10, ex_run_env 10, False)] ex_runner None) \<in> {Finished, Stopped}"
  using live_never_rejects [OF ex_live_inv, of "[(ex_head 7, ex_run_env 7, False), (ex_head 10, ex_run_env 10, False)]" None]
    ex_ancestors [of 7 7] ex_ancestors [of 10 10] ex_process
  by (auto simp: ex_candidates)

text \<open>
  A single failed fetch ends the chain: when a head does not follow the buffer's tip and the block
  below it cannot be fetched, the lookup of its parent raises and the runner's loop is over, with no
  later head handled, although the failure may have been momentary.
\<close>

theorem failed_prefetch_ends_runner:
  assumes "cr_buffer r = Some b" and "cr_evm_filter r = Some f" and "cb_buf b \<noteq> []"
    and "cr_buffer_tip_hash r = Some (bh_hash (last (cb_buf b)))"
    and "bh_parent_hash header \<notin> bh_hash ` set (cb_buf b)"
    and "re_block env (bh_number header - 1) = Inl e"
  shows "live_loop ((header, env, False) # rest) r reg = (Failed KeyError, [TipPublished (bh_number header)], r)"
proof -
  have m: "bh_hash (last (cb_buf b)) \<noteq> bh_parent_hash header" using assms(3,5) by (metis imageI last_in_set)
  have cache: "prefetch_ancestors env (cr_chain r) header = []"
    using assms(6) by (simp add: prefetch_ancestors_def upto_rec1 Let_def)
  have none: "d_get (header_index b) (bh_parent_hash header) = None"
    using assms(5) by_hash_None [of "cb_buf b"] by (simp add: header_index_def)
  have "handle_new_head b header (resolve_cached []) = Inl KeyError"
    unfolding handle_new_head_mismatch [OF assms(3) m] by (simp add: none resolve_cached_def d_index_def)
  then show ?thesis using assms(1,2,4) m cache by (simp add: handle_evm_head_def)
qed

definition ex_live :: ChainRunner where
  "ex_live = ex_runner\<lparr>cr_buffer := Some \<lparr>cb_confirmations = 2, cb_buf = [ex_head 5, ex_head 6]\<rparr>,
     cr_buffer_tip_hash := Some (ex_hash 6)\<rparr>"

theorem failed_prefetch_ends_runner_witness:
  "live_loop [(ex_head 8, (ex_run_env 8)\<lparr>re_block := \<lambda>n. Inl TimeoutError\<rparr>, False), (ex_head 9, ex_run_env 9, False)] ex_live None =
     (Failed KeyError, [TipPublished 8], ex_live)"
  using failed_prefetch_ends_runner [of ex_live "\<lparr>cb_confirmations = 2, cb_buf = [ex_head 5, ex_head 6]\<rparr>"
      "\<lparr>fs_addresses = None, fs_topic0s = None, fs_skip_logs = False\<rparr>" "ex_head 8"
      "(ex_run_env 8)\<lparr>re_block := \<lambda>n. Inl TimeoutError\<rparr>" TimeoutError "[(ex_head 9, ex_run_env 9, False)]" None]
  by (simp add: ex_live_def ex_runner_def ex_head_def ex_hash_def)

text \<open>
  C25. What a restart leaves out: the catch-up stops \<open>confirmations\<close> below the tip, and the live loop,
  whose buffer is empty then, processes only heads it is given. Every checkpoint of a run is a block
  up to \<open>tip - confirmations\<close> or one of the heads, so that the blocks in between, which were the tip's
  unconfirmed ancestors at the start, are never processed.
\<close>

theorem restart_skips_unconfirmed:
  assumes "run_evm fuel env heads r reg = Some (res, es, r')" and "honest_blocks env"
    and "1 \<le> sn_log_query_range_blocks (cr_chain r)" and "re_tip env = Inr tip"
    and "cr_buffer r = Some b" and "cb_buf b = []"
    and "linked (map fst heads)" and "\<forall>(h, env, stop) \<in> set heads. honest_blocks env"
  shows "\<forall>n \<in> set (checkpoints es). n \<le> tip - sn_confirmations (cr_chain r) \<or> n \<in> (bh_number \<circ> fst) ` set heads"
proof -
  obtain out es1 reg1 where c: "catchup_evm fuel env r reg = Some (out, es1, reg1)"
    using assms(1,5) by (auto simp: run_evm_def split: option.splits)
  obtain res2 es2 r2 where l: "live_loop heads r reg1 = (res2, es2, r2)" by (metis prod.collapse)
  have es: "es = es1 @ es2" using assms(1,5) c l by (simp add: run_evm_def)
  have "n \<le> tip - sn_confirmations (cr_chain r)" if "n \<in> set (checkpoints es1)" for n
  proof (cases "catchup_range (tip - sn_confirmations (cr_chain r)) (catchup_candidates r)")
    case None
    then have "es1 = []" using c assms(4) by (cases "catchup_candidates r") (auto simp: catchup_evm_def)
    then show ?thesis using that by simp
  next
    case (Some rng)
    obtain a tp where rng: "rng = (a, tp)" by (cases rng)
    note ca = catchup_range_Some(2,1,4) [OF Some [unfolded rng]]
    then have "catchup_loop fuel env (cr_chain r) tp a reg = Some (out, es1, reg1)"
      using c assms(4) Some rng by (cases "catchup_candidates r") (simp_all add: catchup_evm_def)
    from catchup_loop_prefix [OF assms(2,3) _ this] ca(1) obtain k where "k \<le> tp" "checkpoints es1 = [a..k]" by auto
    then show ?thesis using that ca(2) by simp
  qed
  moreover have "set (checkpoints es2) \<subseteq> bh_number ` (fst ` set heads)"
    using assms(5-8) l by (intro live_loop_linked) auto
  ultimately show ?thesis by (auto simp: es image_comp)
qed

theorem restart_skips_unconfirmed_witness:
  "\<exists>res es r'. run_evm 2 (ex_run_env 8) [(ex_head 8, ex_run_env 8, False), (ex_head 9, ex_run_env 9, False)] ex_runner None
     = Some (res, es, r') \<and> 7 \<notin> set (checkpoints es)"
proof -
  let ?heads = "[(ex_head 8, ex_run_env 8, False), (ex_head 9, ex_run_env 9, False)]"
  have buf: "cr_buffer ex_runner = Some \<lparr>cb_confirmations = 2, cb_buf = []\<rparr>" by (simp add: ex_runner_def)
  have "\<exists>out. catchup_loop 2 (ex_run_env 8) ex_chain 6 5 None = Some out"
    by (rule catchup_loop_terminates) (simp_all add: ex_env_facts)
  then have "\<exists>out. run_evm 2 (ex_run_env 8) ?heads ex_runner None = Some out"
    by (auto simp: run_evm_def buf catchup_evm_def ex_candidates ex_env_facts simp del: live_loop.simps split: prod.split)
  then obtain res es r' where run: "run_evm 2 (ex_run_env 8) ?heads ex_runner None = Some (res, es, r')" by auto
  have "\<forall>n \<in> set (checkpoints es). n \<le> 8 - sn_confirmations (cr_chain ex_runner) \<or> n \<in> (bh_number \<circ> fst) ` set ?heads"
    using restart_skips_unconfirmed [OF run ex_env_facts(1) _ ex_env_facts(4) buf]
    by (auto simp: ex_candidates ex_env_facts) (auto simp: ex_head_def)
  then show ?thesis using run by (auto simp: ex_candidates ex_env_facts ex_head_def)
qed

end
