(* ===== verification/Solana_Runner.thy ===== *)
theory Solana_Runner
  imports Evm_Runner
begin

text \<open>
  The Solana side of \<^verbatim>\<open>apps/worker/chain_runner.py\<close>. Slots need not hold a block; a catch-up asks the node
  which of a window do and processes those, going on past a slot that fails. The lemmas show which
  slots a catch-up saves, whether or not the node could list them.
\<close>

section \<open>Operations\<close>

definition SOL_RANGE_TOO_LARGE_HINTS :: "string list" where
  "SOL_RANGE_TOO_LARGE_HINTS = [''exceeds maximum'', ''too large'', ''limit exceeded'']"

definition range_too_large :: "exn \<Rightarrow> bool" where
  "range_too_large e \<longleftrightarrow> list_ex (\<lambda>h. contains h (lower (exn_text e))) SOL_RANGE_TOO_LARGE_HINTS"

text \<open>\<open>_get_blocks_classified\<close>: an error about the range is raised, any other means to try every slot.\<close>

definition get_blocks_classified :: "RunnerEnv \<Rightarrow> int \<Rightarrow> int \<Rightarrow> int list res" where
  "get_blocks_classified env start stop =
     (case re_slots env start stop of
        Inr result \<Rightarrow> Inr result
      | Inl e \<Rightarrow> if range_too_large e then Inl e else Inr [start..stop])"

text \<open>\<open>for s in valid\<close>: a slot whose processing raises is logged and left behind.\<close>

fun catchup_slots ::
  "RunnerEnv \<Rightarrow> SnapshotChain \<Rightarrow> int list \<Rightarrow> AbiRegistry option \<Rightarrow> LoopEnd \<times> Effect list \<times> AbiRegistry option" where
  "catchup_slots env chain [] reg = (Finished, [], reg)"
| "catchup_slots env chain (s # ss) reg =
     (if re_stop env s then (Stopped, [], reg)
      else case process_solana_slot env chain (re_matcher env s) s reg of
          (_, es, reg') \<Rightarrow>
            (case catchup_slots env chain ss reg' of (r, es', reg'') \<Rightarrow> (r, es @ es', reg'')))"

text \<open>\<open>while start_s <= tip\<close>, with fuel for the windows as in the EVM loop.\<close>

fun catchup_slot_loop ::
  "nat \<Rightarrow> RunnerEnv \<Rightarrow> SnapshotChain \<Rightarrow> int \<Rightarrow> int \<Rightarrow> AbiRegistry option \<Rightarrow>
   (LoopEnd \<times> Effect list \<times> AbiRegistry option) option" where
  "catchup_slot_loop 0 env chain tip start_s reg = (if start_s \<le> tip then None else Some (Finished, [], reg))"
| "catchup_slot_loop (Suc fuel) env chain tip start_s reg =
     (if start_s \<le> tip then
        let end_s = min (start_s + sn_slot_query_range_blocks chain - 1) tip
        in case get_blocks_classified env start_s end_s of
             Inl e \<Rightarrow> Some (Failed e, [], reg)
           | Inr valid \<Rightarrow>
               (case catchup_slots env chain valid reg of
                  (Finished, es, reg') \<Rightarrow>
                    (case catchup_slot_loop fuel env chain tip (end_s + 1) reg' of
                       None \<Rightarrow> None
                     | Some (r, es', reg'') \<Rightarrow> Some (r, es @ es', reg''))
                | other \<Rightarrow> Some other)
      else Some (Finished, [], reg))"

text \<open>
  \<open>_catchup_solana\<close>. Here the exception of a range that is too large does leave the function, and
  ends the runner.
\<close>

definition catchup_solana ::
  "nat \<Rightarrow> RunnerEnv \<Rightarrow> ChainRunner \<Rightarrow> AbiRegistry option \<Rightarrow> (LoopEnd \<times> Effect list \<times> AbiRegistry option) option" where
  "catchup_solana fuel env r reg =
     (case (catchup_candidates r, re_tip env) of
        ([], _) \<Rightarrow> Some (Finished, [], reg)
      | (_, Inl e) \<Rightarrow> Some (Finished, [], reg)
      | (cands, Inr tip) \<Rightarrow>
          (case catchup_range tip cands of
             None \<Rightarrow> Some (Finished, [], reg)
           | Some (start_s, t) \<Rightarrow> catchup_slot_loop fuel env (cr_chain r) t start_s reg))"

text \<open>The live loop: the tip is published, then the slot is processed.\<close>

fun live_slots ::
  "(int \<times> RunnerEnv \<times> bool) list \<Rightarrow> ChainRunner \<Rightarrow> AbiRegistry option \<Rightarrow> LoopEnd \<times> Effect list \<times> AbiRegistry option" where
  "live_slots [] r reg = (Finished, [], reg)"
| "live_slots ((slot, env, stop) # rest) r reg =
     (if stop then (Stopped, [], reg)
      else case act_seq (act_emit [TipPublished slot])
               (process_solana_slot env (cr_chain r) (cr_matcher r) slot) reg of
          (Inl e, es, reg') \<Rightarrow> (Failed e, es, reg')
        | (Inr u, es, reg') \<Rightarrow> (case live_slots rest r reg' of (res, es', reg'') \<Rightarrow> (res, es @ es', reg'')))"

definition run_solana ::
  "nat \<Rightarrow> RunnerEnv \<Rightarrow> (int \<times> RunnerEnv \<times> bool) list \<Rightarrow> ChainRunner \<Rightarrow> AbiRegistry option \<Rightarrow>
   (LoopEnd \<times> Effect list \<times> AbiRegistry option) option" where
  "run_solana fuel env slots r reg =
     (case catchup_solana fuel env r reg of
        None \<Rightarrow> None
      | Some (Failed e, es, reg') \<Rightarrow> Some (Failed e, es, reg')
      | Some (_, es, reg') \<Rightarrow>
          (case live_slots slots r reg' of (res, es', reg'') \<Rightarrow> Some (res, es @ es', reg'')))"

section \<open>Facts\<close>

text \<open>The slots that hold a block which can be fetched and whose checkpoint can be saved.\<close>

definition slot_saved :: "RunnerEnv \<Rightarrow> int \<Rightarrow> bool" where
  "slot_saved env s \<longleftrightarrow> (\<exists>b. re_slot env s = Inr (Some b) \<and> re_save env (sb_slot b) = Inr ())"

definition honest_slot_blocks :: "RunnerEnv \<Rightarrow> bool" where
  "honest_slot_blocks env \<longleftrightarrow> (\<forall>s b. re_slot env s = Inr (Some b) \<longrightarrow> sb_slot b = s)"

lemma process_slot_checkpoints:
  assumes "honest_slot_blocks env" and "process_solana_slot env chain m s reg = (r, es, reg')"
  shows "checkpoints es = (if slot_saved env s then [s] else [])"
proof (cases "\<exists>b. re_slot env s = Inr (Some b)")
  case True
  then obtain b where b: "re_slot env s = Inr (Some b)" by blast
  then have bs: "sb_slot b = s" using assms(1) by (simp add: honest_slot_blocks_def)
  have seg: "block_segment m (sn_id chain) s (sb_block_hash b) r es"
    using process_slot_segment [OF assms(2)] b bs by simp
  obtain evs reg1 where ev: "solana_events (re_lib env) (sn_id chain) b reg = (evs, reg1)" by (metis prod.collapse)
  have "r = (case re_save env s of Inl e \<Rightarrow> Inl e | Inr u \<Rightarrow> Inr ())"
    using assms(2) b bs ev
    by (auto simp: process_solana_slot_def act_bind_def act_of_def act_emit_def finish_block_eq split: sum.splits)
  then show ?thesis
    using block_segment_checkpoints [OF seg] b bs by (auto simp: slot_saved_def split: sum.splits)
next
  case False
  then show ?thesis
    using process_slot_segment [OF assms(2)] by (auto simp: slot_saved_def)
qed

lemma catchup_slots_checkpoints:
  assumes "honest_slot_blocks env" and "catchup_slots env chain ss reg = (r, es, reg')"
  shows "r = (if list_ex (re_stop env) ss then Stopped else Finished) \<and>
    checkpoints es = filter (slot_saved env) (takeWhile (\<lambda>s. \<not> re_stop env s) ss)"
  using assms(2)
proof (induction ss arbitrary: reg r es)
  case (Cons s ss)
  show ?case
  proof (cases "re_stop env s")
    case False
    obtain r1 es1 reg1 where p: "process_solana_slot env chain (re_matcher env s) s reg = (r1, es1, reg1)"
      by (metis prod.collapse)
    obtain r2 es2 reg2 where rest: "catchup_slots env chain ss reg1 = (r2, es2, reg2)" by (metis prod.collapse)
    have "r = r2" "es = es1 @ es2" "reg2 = reg'" using Cons.prems p rest False by auto
    then show ?thesis
      using Cons.IH [of reg1 r2 es2] rest process_slot_checkpoints [OF assms(1) p] False by auto
  qed (use Cons.prems in simp)
qed simp

section \<open>Which slots a catch-up tries\<close>

text \<open>The windows of \<open>w\<close> slots from \<open>a\<close> on, the last one cut at the tip.\<close>

function slot_windows :: "int \<Rightarrow> int \<Rightarrow> int \<Rightarrow> (int \<times> int) list" where
  "slot_windows w a tip =
     (if a \<le> tip \<and> 1 \<le> w then (a, min (a + w - 1) tip) # slot_windows w (a + w) tip else [])"
  by pat_completeness auto
termination by (relation "measure (\<lambda>(w, a, tip). nat (tip - a + 1))") auto

declare slot_windows.simps [simp del]

text \<open>
  The slots tried in the order of the windows, and how the catch-up ends: those the node lists, or all of a
  window it cannot list, up to a stop, or up to a window it refuses for its size. What the node lists
  is not assumed to be complete, or to have blocks.
\<close>

fun slots_tried :: "RunnerEnv \<Rightarrow> (int \<times> int) list \<Rightarrow> int list \<times> LoopEnd" where
  "slots_tried env [] = ([], Finished)"
| "slots_tried env ((a, b) # ws) =
     (case (case re_slots env a b of Inr xs \<Rightarrow> Inr xs | Inl e \<Rightarrow> if range_too_large e then Inl e else Inr [a..b]) of
        Inl e \<Rightarrow> ([], Failed e)
      | Inr xs \<Rightarrow>
          if list_ex (re_stop env) xs then (takeWhile (\<lambda>s. \<not> re_stop env s) xs, Stopped)
          else apfst ((@) xs) (slots_tried env ws))"

text \<open>The windows are the whole range, each slot once.\<close>

lemma slot_windows_cover: "1 \<le> w \<Longrightarrow> concat (map (\<lambda>(a, b). [a..b]) (slot_windows w a tip)) = [a..tip]"
proof (induction w a tip rule: slot_windows.induct)
  case (1 w a tip)
  show ?case
  proof (cases "a \<le> tip")
    case True
    have IH: "concat (map (\<lambda>(a, b). [a..b]) (slot_windows w (a + w) tip)) = [a + w..tip]"
      using "1.IH" "1.prems" True by simp
    show ?thesis
    proof (cases "a + w - 1 \<le> tip")
      case le: True
      then have "[a..tip] = [a..a + w - 1] @ [a + w..tip]"
        using upto_split2 [of a "a + w - 1" tip] "1.prems" by simp
      then show ?thesis using True "1.prems" IH le by (subst slot_windows.simps) (simp add: min_def)
    next
      case False
      then show ?thesis using True "1.prems" IH by (subst slot_windows.simps) (simp add: min_def)
    qed
  qed (subst slot_windows.simps, simp)
qed

lemma slots_tried_classified:
  "slots_tried env ((a, b) # ws) =
     (case get_blocks_classified env a b of
        Inl e \<Rightarrow> ([], Failed e)
      | Inr xs \<Rightarrow>
          if list_ex (re_stop env) xs then (takeWhile (\<lambda>s. \<not> re_stop env s) xs, Stopped)
          else apfst ((@) xs) (slots_tried env ws))"
  by (simp add: get_blocks_classified_def)

lemma catchup_slot_loop_saves:
  assumes "honest_slot_blocks env" and w: "1 \<le> sn_slot_query_range_blocks chain"
  shows "nat (tip - a + 1) \<le> fuel \<Longrightarrow>
    \<exists>es reg'. catchup_slot_loop fuel env chain tip a reg =
        Some (snd (slots_tried env (slot_windows (sn_slot_query_range_blocks chain) a tip)), es, reg') \<and>
      checkpoints es = filter (slot_saved env) (fst (slots_tried env (slot_windows (sn_slot_query_range_blocks chain) a tip)))"
proof (induction fuel arbitrary: a reg)
  case 0
  then show ?case by (simp add: slot_windows.simps)
next
  case (Suc fuel)
  let ?w = "sn_slot_query_range_blocks chain"
  show ?case
  proof (cases "a \<le> tip")
    case True
    define b where "b = min (a + ?w - 1) tip"
    have win: "slot_windows ?w a tip = (a, b) # slot_windows ?w (a + ?w) tip"
      using True w by (subst slot_windows.simps) (simp add: b_def)
    have next_win: "slot_windows ?w (b + 1) tip = slot_windows ?w (a + ?w) tip"
    proof (cases "a + ?w - 1 \<le> tip")
      case le: True
      then show ?thesis by (simp add: b_def min_def)
    next
      case False
      then show ?thesis by (simp add: b_def min_def slot_windows.simps)
    qed
    show ?thesis
    proof (cases "get_blocks_classified env a b")
      case (Inl e)
      then show ?thesis using True unfolding win slots_tried_classified by (simp add: b_def [symmetric] Let_def)
    next
      case (Inr xs)
      obtain r1 es1 reg1 where s: "catchup_slots env chain xs reg = (r1, es1, reg1)" by (metis prod.collapse)
      note c = catchup_slots_checkpoints [OF assms(1) s]
      show ?thesis
      proof (cases "list_ex (re_stop env) xs")
        case stop: True
        then show ?thesis
          using True Inr s c unfolding win slots_tried_classified by (simp add: b_def [symmetric] Let_def)
      next
        case False
        then have all: "takeWhile (\<lambda>s. \<not> re_stop env s) xs = xs" by (auto simp: list_ex_iff takeWhile_eq_all_conv)
        have "nat (tip - (b + 1) + 1) \<le> fuel" using Suc.prems True w by (simp add: b_def)
        from Suc.IH [OF this, of reg1] obtain es2 reg2 where
          rest: "catchup_slot_loop fuel env chain tip (b + 1) reg1 =
              Some (snd (slots_tried env (slot_windows ?w (a + ?w) tip)), es2, reg2)"
            "checkpoints es2 = filter (slot_saved env) (fst (slots_tried env (slot_windows ?w (a + ?w) tip)))"
          unfolding next_win by blast
        then show ?thesis
          using True Inr s c all False unfolding win slots_tried_classified
          by (simp add: b_def [symmetric] Let_def)
      qed
    qed
  qed (simp add: slot_windows.simps)
qed

section \<open>Properties\<close>

text \<open>
  C30. A Solana catch-up is exact, whatever the node answers. It goes through the windows that make up
  the range from the checkpoint to the tip and tries, in order, the slots the node lists for a window,
  or every slot of a window that it cannot list; it saves exactly those of them that hold a block which can be
  fetched and saved, and passes over the others. It ends within the configured bound: at the tip, or
  where it is stopped, or with the exception of a window that the node refuses for its size. That a fetched block
  is that of the slot asked for is what the adapter gives (\<open>adapter_honest_slot_blocks\<close>). A slot that the node
  does not list is never tried (see \<open>solana_error_skips_windows\<close>).
\<close>

theorem solana_catchup_exact:
  assumes "honest_slot_blocks env" and "1 \<le> sn_slot_query_range_blocks (cr_chain r)"
    and "re_tip env = Inr tip" and "catchup_range tip (catchup_candidates r) = Some (start_s, t)"
    and "nat MAX_CATCHUP_BLOCKS \<le> fuel" and "ws = slot_windows (sn_slot_query_range_blocks (cr_chain r)) start_s t"
  shows "concat (map (\<lambda>(a, b). [a..b]) ws) = [start_s..t] \<and>
    (\<exists>es reg'. catchup_solana fuel env r reg = Some (snd (slots_tried env ws), es, reg') \<and>
      checkpoints es = filter (slot_saved env) (fst (slots_tried env ws)))"
proof -
  note rng = catchup_range_Some [OF assms(4)]
  have "nat (t - start_s + 1) \<le> fuel" using rng(3) assms(5) by linarith
  from catchup_slot_loop_saves [OF assms(1,2) this, of reg] show ?thesis
    using rng(4) assms(3,4) slot_windows_cover [OF assms(2)]
    by (cases "catchup_candidates r") (simp_all add: catchup_solana_def assms(6))
qed

text \<open>
  A node with blocks in the even slots, asked in windows of two: it lists 5, which has no block, and 6; it cannot
  list 7 and 8; and it refuses the last window.
\<close>

definition ex_slot_env :: RunnerEnv where
  "ex_slot_env = (ex_run_env 9)\<lparr>
     re_slots := \<lambda>a b. if a = 5 then Inr [5, 6] else if a = 7 then Inl TimeoutError else Inl (ExternalError ''too large''),
     re_slot := \<lambda>n. Inr (if even n then Some \<lparr>sb_slot = n, sb_block_hash = ex_hash n, sb_parent_slot = n - 2,
       sb_block_time = None, sb_transactions = []\<rparr> else None)\<rparr>"

definition ex_slot_runner :: ChainRunner where
  "ex_slot_runner = ex_runner\<lparr>cr_chain := ex_chain\<lparr>sn_slot_query_range_blocks := 2\<rparr>\<rparr>"

theorem solana_catchup_exact_witness:
  "\<exists>es reg'. catchup_solana 10000 ex_slot_env ex_slot_runner None = Some (Failed (ExternalError ''too large''), es, reg') \<and>
     checkpoints es = [6, 8]"
proof -
  have env: "honest_slot_blocks ex_slot_env" "re_tip ex_slot_env = Inr 9" "slot_saved ex_slot_env = even"
    by (auto simp: fun_eq_iff honest_slot_blocks_def slot_saved_def ex_slot_env_def ex_run_env_def split: if_splits)
  have r: "1 \<le> sn_slot_query_range_blocks (cr_chain ex_slot_runner)" by (simp add: ex_slot_runner_def)
  have "catchup_candidates ex_slot_runner = catchup_candidates ex_runner"
    by (simp add: catchup_candidates_def ex_slot_runner_def ex_runner_def)
  then have rng: "catchup_range 9 (catchup_candidates ex_slot_runner) = Some (5, 9)"
    by (simp add: ex_candidates catchup_range_def MAX_CATCHUP_BLOCKS_def)
  have ws: "[(5, 6), (7, 8), (9, 9)] = slot_windows (sn_slot_query_range_blocks (cr_chain ex_slot_runner)) 5 9"
    by (simp add: ex_slot_runner_def slot_windows.simps)
  have "slots_tried ex_slot_env [(5, 6), (7, 8), (9, 9)] = ([5, 6, 7, 8], Failed (ExternalError ''too large''))"
    by code_simp
  then show ?thesis
    using solana_catchup_exact [OF env(1) r env(2) rng _ ws, of 10000 None] by (simp add: env(3) MAX_CATCHUP_BLOCKS_def)
qed

end
