(* ===== verification/Replay.thy ===== *)
theory Replay
  imports Solana_Runner
begin

text \<open>
  Replays, \<open>ChainRunner.replay\<close> in \<^verbatim>\<open>apps/worker/chain_runner.py\<close>: a range of past blocks is run through
  the pipeline for one subscription, with a matcher and a notifier of its own. The lemmas show that
  a replay stays within its range and its subscription and touches neither checkpoints nor progress.
\<close>

section \<open>Operations\<close>

definition replay_snapshot :: "SnapshotSubscription \<Rightarrow> SnapshotChannel list \<Rightarrow> ConfigSnapshot" where
  "replay_snapshot sub channels =
     \<lparr>snap_version = -1, snap_subscriptions = [sub], snap_channels = channels, snap_chains = [], snap_abis = []\<rparr>"

text \<open>The loop of \<open>_replay_evm\<close>: each event's dispatch is awaited before the next.\<close>

fun replay_blocks ::
  "RunnerEnv \<Rightarrow> SnapshotChain \<Rightarrow> Matcher \<Rightarrow> EvmLogFilterSet \<Rightarrow> int list \<Rightarrow> unit act" where
  "replay_blocks env chain m f [] = act_return ()"
| "replay_blocks env chain m f (n # ns) =
     (if re_stop env n then act_return ()
      else act_bind (act_of (re_block env n)) (\<lambda>block.
           act_bind (act_of (if fs_skip_logs f then Inr [] else re_logs env n n f)) (\<lambda>logs reg.
             let (events, reg1) = evm_events (re_lib env) (sn_id chain) (block\<lparr>blk_logs := logs\<rparr>) reg
             in act_seq (act_emit (concat (map (dispatch_hits m True) events))) (replay_blocks env chain m f ns) reg1)))"

definition replay_evm ::
  "RunnerEnv \<Rightarrow> SnapshotChain \<Rightarrow> SnapshotSubscription \<Rightarrow> SnapshotChannel list \<Rightarrow> int \<Rightarrow> int \<Rightarrow> unit act" where
  "replay_evm env chain sub channels from_b to_b = (\<lambda>reg.
     let f = build_evm_log_filter (replay_snapshot sub []) (sn_id chain) reg
     in act_bind (act_of (re_tip env)) (\<lambda>tip.
          let to_block = min to_b (tip - sn_confirmations chain)
          in if to_block < from_b then act_return ()
             else replay_blocks env chain (matcher_init (replay_snapshot sub channels)) f [from_b..to_block]) reg)"

text \<open>The loop of \<open>_replay_solana\<close>.\<close>

fun replay_slots :: "RunnerEnv \<Rightarrow> SnapshotChain \<Rightarrow> Matcher \<Rightarrow> int list \<Rightarrow> unit act" where
  "replay_slots env chain m [] = act_return ()"
| "replay_slots env chain m (s # ss) =
     (if re_stop env s then act_return ()
      else act_bind (act_of (re_slot env s)) (\<lambda>blk.
        case blk of
          None \<Rightarrow> replay_slots env chain m ss
        | Some block \<Rightarrow> (\<lambda>reg.
            let (events, reg1) = solana_events (re_lib env) (sn_id chain) block reg
            in act_seq (act_emit (concat (map (dispatch_hits m True) events))) (replay_slots env chain m ss) reg1)))"

definition replay_solana ::
  "RunnerEnv \<Rightarrow> SnapshotChain \<Rightarrow> SnapshotSubscription \<Rightarrow> SnapshotChannel list \<Rightarrow> int \<Rightarrow> int \<Rightarrow> unit act" where
  "replay_solana env chain sub channels from_s to_s =
     act_bind (act_of (re_tip env)) (\<lambda>tip.
       let to_slot = min to_s tip
       in if to_slot < from_s then act_return ()
          else replay_slots env chain (matcher_init (replay_snapshot sub channels)) [from_s..to_slot])"

text \<open>
  \<open>replay\<close>: the channels are started first, which may raise; an exception of the replay itself is
  logged and swallowed.
\<close>

definition replay ::
  "ChannelEnv \<Rightarrow> (Channel \<Rightarrow> unit res) \<Rightarrow> int \<Rightarrow> RunnerEnv \<Rightarrow> SnapshotChain \<Rightarrow> SnapshotSubscription \<Rightarrow>
   SnapshotChannel list \<Rightarrow> int \<Rightarrow> int \<Rightarrow> unit act" where
  "replay E conn permits env chain sub channels from_b to_b = (\<lambda>reg.
     case fst (notifier_start E conn channels (notifier_init permits True True)) of
       Some e \<Rightarrow> (Inl e, [], reg)
     | None \<Rightarrow>
         (case (if sn_kind chain = CK_solana then replay_solana env chain sub channels from_b to_b
                else replay_evm env chain sub channels from_b to_b) reg of
            (r, es, reg') \<Rightarrow> (Inr (), es, reg')))"

section \<open>Facts\<close>

text \<open>A delivery of a replay: marked as such, from a block of the range, to the one subscription.\<close>

definition replay_effect :: "SnapshotSubscription \<Rightarrow> int set \<Rightarrow> Effect \<Rightarrow> bool" where
  "replay_effect sub rng e \<longleftrightarrow>
     (\<exists>ev hits. e = Dispatched ev hits True \<and> ev_block_number ev \<in> rng \<and> hits \<noteq> [] \<and>
        (\<forall>(s, cs) \<in> set hits. s = sub \<and> cs \<noteq> [] \<and> sub_matches sub ev = Inr True))"

lemma replay_hits:
  assumes "(s, cs) \<in> set (match_hits (matcher_init (replay_snapshot sub channels)) ev)"
  shows "s = sub \<and> cs \<noteq> [] \<and> sub_matches sub ev = Inr True"
  using assms by (auto simp: match_hits_def match_event_mem replay_snapshot_def)

lemma dispatch_hits_replay:
  assumes "\<And>ev. ev \<in> set evs \<Longrightarrow> ev_block_number ev \<in> rng"
  shows "list_all (replay_effect sub rng) (concat (map (dispatch_hits (matcher_init (replay_snapshot sub channels)) True) evs))"
  using assms
  by (auto simp: list_all_iff dispatch_hits_def Let_def replay_effect_def dest!: replay_hits split: if_splits)

text \<open>A sequence of steps, each of which keeps to such effects.\<close>

lemma act_seq_effects:
  assumes "act_seq m k reg = (r, es, reg')"
    and "\<And>r es reg'. m reg = (r, es, reg') \<Longrightarrow> list_all P es"
    and "\<And>reg r es reg'. k reg = (r, es, reg') \<Longrightarrow> list_all P es"
  shows "list_all P es"
proof -
  obtain r1 es1 reg1 where m: "m reg = (r1, es1, reg1)" by (metis prod.collapse)
  obtain r2 es2 reg2 where k: "k reg1 = (r2, es2, reg2)" by (metis prod.collapse)
  show ?thesis using assms(1) assms(2) [OF m] assms(3) [OF k] m k by (auto simp: act_bind_def split: sum.splits)
qed

lemma act_of_bind_cases:
  assumes "act_bind (act_of x) k reg = (r, es, reg')"
  obtains e where "x = Inl e" "es = []" | y where "x = Inr y" "k y reg = (r, es, reg')"
  using assms that by (cases x) (auto simp: act_of_def act_bind_def)

lemma replay_blocks_effects:
  assumes "honest_blocks env"
  shows "set ns \<subseteq> rng \<Longrightarrow> replay_blocks env chain (matcher_init (replay_snapshot sub channels)) f ns reg = (r, es, reg') \<Longrightarrow>
    list_all (replay_effect sub rng) es"
proof (induction ns arbitrary: reg r es reg')
  case (Cons n ns)
  let ?m = "matcher_init (replay_snapshot sub channels)"
  show ?case
  proof (cases "re_stop env n")
    case True
    then show ?thesis using Cons.prems(2) by (auto simp: act_return_def)
  next
    case False
    let ?logs = "if fs_skip_logs f then Inr [] else re_logs env n n f"
    show ?thesis
    proof (cases "\<exists>b logs. re_block env n = Inr b \<and> ?logs = Inr logs")
      case True
      then obtain b logs where b: "re_block env n = Inr b" "?logs = Inr logs" by blast
      obtain evs reg1 where ev: "evm_events (re_lib env) (sn_id chain) (b\<lparr>blk_logs := logs\<rparr>) reg = (evs, reg1)"
        by (metis prod.collapse)
      have "ev_block_number e \<in> rng" if "e \<in> set evs" for e
        using evm_events_origin [of e "re_lib env" "sn_id chain" "b\<lparr>blk_logs := logs\<rparr>" reg] ev that assms b Cons.prems(1)
        by (simp add: from_block_def honest_blocks_def)
      then have d: "list_all (replay_effect sub rng) (concat (map (dispatch_hits ?m True) evs))"
        by (rule dispatch_hits_replay)
      have "act_seq (act_emit (concat (map (dispatch_hits ?m True) evs))) (replay_blocks env chain ?m f ns) reg1 = (r, es, reg')"
        using Cons.prems(2) False b ev by simp
      then show ?thesis
        by (rule act_seq_effects) (use d Cons.IH Cons.prems(1) in \<open>auto simp: act_emit_def\<close>)
    next
      case False
      with \<open>\<not> re_stop env n\<close> Cons.prems(2) have "es = []"
        by (cases "re_block env n"; cases ?logs) (auto simp: act_of_def act_bind_def)
      then show ?thesis by simp
    qed
  qed
qed (auto simp: act_return_def)

lemma replay_slots_effects:
  assumes "honest_slot_blocks env"
  shows "set ss \<subseteq> rng \<Longrightarrow> replay_slots env chain (matcher_init (replay_snapshot sub channels)) ss reg = (r, es, reg') \<Longrightarrow>
    list_all (replay_effect sub rng) es"
proof (induction ss arbitrary: reg r es reg')
  case (Cons s ss)
  let ?m = "matcher_init (replay_snapshot sub channels)"
  show ?case
  proof (cases "re_stop env s")
    case True
    then show ?thesis using Cons.prems(2) by (auto simp: act_return_def)
  next
    case False
    show ?thesis
    proof (cases "\<exists>b. re_slot env s = Inr (Some b)")
      case True
      then obtain b where b: "re_slot env s = Inr (Some b)" by blast
      obtain evs reg1 where ev: "solana_events (re_lib env) (sn_id chain) b reg = (evs, reg1)" by (metis prod.collapse)
      have "ev_block_number e \<in> rng" if "e \<in> set evs" for e
        using solana_events_origin [of e "re_lib env" "sn_id chain" b reg] ev that assms b Cons.prems(1)
        by (simp add: from_block_def honest_slot_blocks_def)
      then have d: "list_all (replay_effect sub rng) (concat (map (dispatch_hits ?m True) evs))"
        by (rule dispatch_hits_replay)
      have "act_seq (act_emit (concat (map (dispatch_hits ?m True) evs))) (replay_slots env chain ?m ss) reg1 = (r, es, reg')"
        using Cons.prems(2) False b ev by simp
      then show ?thesis
        by (rule act_seq_effects) (use d Cons.IH Cons.prems(1) in \<open>auto simp: act_emit_def\<close>)
    next
      case False
      with \<open>\<not> re_stop env s\<close> Cons.prems show ?thesis
        using Cons.IH [of reg r es reg'] by (auto elim!: act_of_bind_cases split: option.splits)
    qed
  qed
qed (auto simp: act_return_def)

section \<open>Properties\<close>

text \<open>
  C28. A replay is isolated: whatever happens during it, its only effects are deliveries marked as
  replays, to the subscription it was asked for, of events that match it and come from blocks of the
  requested range at or below the tip (for EVM chains at the depth of the confirmations); no
  checkpoint is saved and no exception of the replay escapes.
\<close>

theorem replay_isolated:
  assumes "honest_blocks env" and "honest_slot_blocks env" and "re_tip env = Inr tip"
    and "fst (notifier_start E conn channels (notifier_init permits True True)) = None"
    and "replay E conn permits env chain sub channels from_b to_b reg = (r, es, reg')"
  shows "r = Inr () \<and> checkpoints es = [] \<and>
    list_all (replay_effect sub
      {from_b..min to_b (if sn_kind chain = CK_solana then tip else tip - sn_confirmations chain)}) es"
proof -
  let ?rng = "{from_b..min to_b (if sn_kind chain = CK_solana then tip else tip - sn_confirmations chain)}"
  have "r = Inr () \<and> list_all (replay_effect sub ?rng) es"
  proof (cases "sn_kind chain = CK_solana")
    case True
    obtain r0 where r0: "replay_solana env chain sub channels from_b to_b reg = (r0, es, reg')"
      using assms(4,5) True by (auto simp: replay_def split: prod.splits)
    then have "list_all (replay_effect sub ?rng) es"
      using True assms(3) replay_slots_effects [OF assms(2), of "[from_b..min to_b tip]" ?rng chain sub channels reg r0 es reg']
      by (auto simp: replay_solana_def act_return_def Let_def split: if_splits)
    then show ?thesis using assms(4,5) by (auto simp: replay_def split: prod.splits)
  next
    case False
    obtain r0 where r0: "replay_evm env chain sub channels from_b to_b reg = (r0, es, reg')"
      using assms(4,5) False by (auto simp: replay_def split: prod.splits)
    then have "list_all (replay_effect sub ?rng) es"
      using False assms(3) replay_blocks_effects [OF assms(1),
          of "[from_b..min to_b (tip - sn_confirmations chain)]" ?rng chain sub channels _ reg r0 es reg']
      by (auto simp: replay_evm_def act_return_def Let_def split: if_splits)
    then show ?thesis using assms(4,5) by (auto simp: replay_def split: prod.splits)
  qed
  moreover have "checkpoints es = []" if "list_all (replay_effect sub ?rng) es"
    using that by (induction es) (auto simp: replay_effect_def)
  ultimately show ?thesis by blast
qed

theorem replay_isolated_witness:
  "\<exists>es reg'. replay ex_env (\<lambda>c. Inr ()) 50 (ex_run_env 20) ex_chain ex_sub [ex_channel] 3 30 None = (Inr (), es, reg') \<and>
     checkpoints es = [] \<and> list_all (replay_effect ex_sub {3..18}) es"
proof -
  obtain r es reg' where run: "replay ex_env (\<lambda>c. Inr ()) 50 (ex_run_env 20) ex_chain ex_sub [ex_channel] 3 30 None = (r, es, reg')"
    by (metis prod.collapse)
  have st: "fst (notifier_start ex_env (\<lambda>c. Inr ()) [ex_channel] (notifier_init 50 True True)) = None"
    using ex_notifier_started by (simp add: ex_snapshot_def)
  have "honest_slot_blocks (ex_run_env 20)" by (simp add: honest_slot_blocks_def ex_run_env_def)
  from replay_isolated [OF ex_env_facts(1) this ex_env_facts(4) st run] show ?thesis
    using run by (simp add: ex_chain_def)
qed

end
