(* ===== verification/Rpc_Pool.thy ===== *)
theory Rpc_Pool
  imports Py_Values
begin

text \<open>
  \<^verbatim>\<open>core/chains/rpc_pool.py\<close>: the ordered pool of RPC endpoints of a chain, with failover and a
  circuit breaker. An endpoint is addressed by its position, which is its \<open>index\<close>. An RPC is a
  function of the handle and the starting time that gives an outcome and the time it took; the
  pool's timeout cuts it off. The health gauge \<open>RPC_ENDPOINT_UP\<close> and the failover counter are part
  of the state.

  The lemmas say which endpoint answers a call, that the breaker's three views (failure counter,
  deadline, gauge) agree under any interleaving of concurrent calls, and when an endpoint is
  skipped.
\<close>

section \<open>State and operations\<close>

record 'h EndpointState =
  ep_handle :: 'h
  ep_index :: int
  ep_consecutive_failures :: int
  ep_unhealthy_until :: real

record 'h EndpointPool =
  pool_chain_id :: string
  pool_timeout_s :: real
  pool_failure_threshold :: int
  pool_cooldown_s :: real
  pool_eps :: "'h EndpointState list"
  pool_up :: "(int, int) dict"
  pool_failovers :: int

definition pool_init ::
  "string \<Rightarrow> 'h list \<Rightarrow> real \<Rightarrow> int \<Rightarrow> real \<Rightarrow> 'h EndpointPool res" where
  "pool_init chain_id handles timeout_s failure_threshold cooldown_s =
     (if handles = [] then Inl ValueError
      else let eps = map (\<lambda>(i, h). \<lparr>ep_handle = h, ep_index = i, ep_consecutive_failures = 0,
                                     ep_unhealthy_until = 0\<rparr>) (map (apfst int) (enumerate 0 handles))
           in Inr \<lparr>pool_chain_id = chain_id, pool_timeout_s = timeout_s,
                   pool_failure_threshold = failure_threshold, pool_cooldown_s = cooldown_s,
                   pool_eps = eps,
                   pool_up = fold (\<lambda>ep g. d_set (ep_index ep) 1 g) eps [],
                   pool_failovers = 0\<rparr>)"

definition pool_handles :: "'h EndpointPool \<Rightarrow> 'h list" where
  "pool_handles p = map ep_handle (pool_eps p)"

text \<open>\<open>healthy or list(self._eps)\<close>, as positions.\<close>

definition candidates :: "'h EndpointPool \<Rightarrow> real \<Rightarrow> nat list" where
  "candidates p now =
     (let healthy = filter (\<lambda>i. ep_unhealthy_until (pool_eps p ! i) \<le> now) [0..<length (pool_eps p)]
      in if healthy \<noteq> [] then healthy else [0..<length (pool_eps p)])"

definition mark_success :: "nat \<Rightarrow> 'h EndpointPool \<Rightarrow> 'h EndpointPool" where
  "mark_success i p =
     (let ep = pool_eps p ! i
      in if ep_consecutive_failures ep \<noteq> 0 \<or> ep_unhealthy_until ep \<noteq> 0 then
           p\<lparr>pool_eps := (pool_eps p)[i := ep\<lparr>ep_consecutive_failures := 0, ep_unhealthy_until := 0\<rparr>],
             pool_up := d_set (ep_index ep) 1 (pool_up p)\<rparr>
         else p)"

text \<open>\<open>now\<close> is \<open>time.monotonic()\<close> at the failure.\<close>

definition mark_failure :: "nat \<Rightarrow> real \<Rightarrow> 'h EndpointPool \<Rightarrow> 'h EndpointPool" where
  "mark_failure i now p =
     (let ep = pool_eps p ! i;
          ep' = ep\<lparr>ep_consecutive_failures := ep_consecutive_failures ep + 1\<rparr>
      in if ep_consecutive_failures ep' \<ge> pool_failure_threshold p then
           p\<lparr>pool_eps := (pool_eps p)[i := ep'\<lparr>ep_unhealthy_until := now + pool_cooldown_s p\<rparr>],
             pool_up := d_set (ep_index ep) 0 (pool_up p)\<rparr>
         else p\<lparr>pool_eps := (pool_eps p)[i := ep']\<rparr>)"

text \<open>An RPC on a handle, started at a time: its outcome and its duration.\<close>

type_synonym ('h, 'a) rpc = "'h \<Rightarrow> real \<Rightarrow> 'a res \<times> real"

text \<open>\<open>asyncio.wait_for(fn(ep.handle), timeout=...)\<close>: the outcome and the time when it is known.\<close>

definition wait_for :: "real \<Rightarrow> (real \<Rightarrow> 'a res \<times> real) \<Rightarrow> real \<Rightarrow> 'a res \<times> real" where
  "wait_for timeout_s run start =
     (case run start of (r, d) \<Rightarrow>
        if d > timeout_s then (Inl TimeoutError, start + timeout_s) else (r, start + d))"

fun call_loop ::
  "('h, 'a) rpc \<Rightarrow> nat list \<Rightarrow> 'h EndpointPool \<Rightarrow> real \<Rightarrow> 'a res \<times> 'h EndpointPool \<times> real" where
  "call_loop fn [] p now = (Inl AllEndpointsFailed, p, now)"
| "call_loop fn (i # rest) p now =
     (case wait_for (pool_timeout_s p) (fn (ep_handle (pool_eps p ! i))) now of
        (Inr x, t) \<Rightarrow> (Inr x, mark_success i p, t)
      | (Inl e, t) \<Rightarrow>
          let p' = mark_failure i t p;
              p'' = (if rest \<noteq> [] then p'\<lparr>pool_failovers := pool_failovers p' + 1\<rparr> else p')
          in call_loop fn rest p'' t)"

definition pool_call ::
  "('h, 'a) rpc \<Rightarrow> 'h EndpointPool \<Rightarrow> real \<Rightarrow> 'a res \<times> 'h EndpointPool \<times> real" where
  "pool_call fn p now = call_loop fn (candidates p now) p now"

section \<open>What the marks change\<close>

lemma mark_success_frame [simp]:
  "pool_timeout_s (mark_success i p) = pool_timeout_s p"
  "pool_failure_threshold (mark_success i p) = pool_failure_threshold p"
  "pool_cooldown_s (mark_success i p) = pool_cooldown_s p"
  "pool_failovers (mark_success i p) = pool_failovers p"
  "length (pool_eps (mark_success i p)) = length (pool_eps p)"
  by (simp_all add: mark_success_def Let_def)

lemma mark_failure_frame [simp]:
  "pool_timeout_s (mark_failure i now p) = pool_timeout_s p"
  "pool_failure_threshold (mark_failure i now p) = pool_failure_threshold p"
  "pool_cooldown_s (mark_failure i now p) = pool_cooldown_s p"
  "pool_failovers (mark_failure i now p) = pool_failovers p"
  "length (pool_eps (mark_failure i now p)) = length (pool_eps p)"
  by (simp_all add: mark_failure_def Let_def)

lemma mark_other:
  "j \<noteq> i \<Longrightarrow> pool_eps (mark_success i p) ! j = pool_eps p ! j"
  "j \<noteq> i \<Longrightarrow> pool_eps (mark_failure i now p) ! j = pool_eps p ! j"
  by (simp_all add: mark_success_def mark_failure_def Let_def)

lemma mark_handle:
  "i < length (pool_eps p) \<Longrightarrow> ep_handle (pool_eps (mark_failure i now p) ! j) = ep_handle (pool_eps p ! j)"
  by (cases "j = i") (simp_all add: mark_other mark_failure_def Let_def)

lemma candidates_valid: "i \<in> set (candidates p now) \<Longrightarrow> i < length (pool_eps p)"
  by (auto simp: candidates_def Let_def split: if_splits)

section \<open>The breaker's three views agree\<close>

text \<open>
  Calls of a chain run concurrently and touch the pool between their awaits: any sequence of marks,
  on any endpoint, at any times, may occur.
\<close>

inductive pool_step :: "'h EndpointPool \<Rightarrow> 'h EndpointPool \<Rightarrow> bool" where
  success: "i < length (pool_eps p) \<Longrightarrow> pool_step p (mark_success i p)"
| failure: "i < length (pool_eps p) \<Longrightarrow> 0 < now \<Longrightarrow> pool_step p (mark_failure i now p)"
| failover: "pool_step p (p\<lparr>pool_failovers := pool_failovers p + 1\<rparr>)"

definition breaker_ok :: "'h EndpointPool \<Rightarrow> bool" where
  "breaker_ok p =
     (1 \<le> pool_failure_threshold p \<and> 0 \<le> pool_cooldown_s p \<and>
      (\<forall>i < length (pool_eps p).
         let ep = pool_eps p ! i
         in ep_index ep = int i \<and> 0 \<le> ep_consecutive_failures ep \<and> 0 \<le> ep_unhealthy_until ep \<and>
            (ep_unhealthy_until ep \<noteq> 0 \<longleftrightarrow> pool_failure_threshold p \<le> ep_consecutive_failures ep) \<and>
            d_get (pool_up p) (int i) = Some (if ep_unhealthy_until ep = 0 then 1 else 0)))"

lemma gauge_init:
  "d_get (fold (\<lambda>ep g. d_set (ep_index ep) (1 :: int) g) eps g) k =
     (if k \<in> ep_index ` set eps then Some 1 else d_get g k)"
  by (induction eps arbitrary: g) (auto simp: dict_simps)

definition initial_endpoints :: "'h list \<Rightarrow> 'h EndpointState list" where
  "initial_endpoints hs =
     map (\<lambda>(i, h). \<lparr>ep_handle = h, ep_index = i, ep_consecutive_failures = 0, ep_unhealthy_until = 0\<rparr>)
       (map (apfst int) (enumerate 0 hs))"

lemma initial_endpoints_nth:
  "length (initial_endpoints hs) = length hs"
  "i < length hs \<Longrightarrow> initial_endpoints hs ! i =
     \<lparr>ep_handle = hs ! i, ep_index = int i, ep_consecutive_failures = 0, ep_unhealthy_until = 0\<rparr>"
  by (simp_all add: initial_endpoints_def nth_enumerate_eq)

lemma pool_init_breaker_ok:
  assumes "pool_init chain hs timeout threshold cooldown = Inr p" and "1 \<le> threshold" and "0 \<le> cooldown"
  shows "breaker_ok p"
proof -
  have p: "pool_eps p = initial_endpoints hs" "pool_failure_threshold p = threshold"
      "pool_cooldown_s p = cooldown"
      "pool_up p = fold (\<lambda>ep g. d_set (ep_index ep) 1 g) (initial_endpoints hs) []"
    using assms(1) by (auto simp: pool_init_def initial_endpoints_def Let_def split: if_splits)
  have "d_get (pool_up p) (int i) = Some 1" if "i < length hs" for i
    using that initial_endpoints_nth [where hs = hs] unfolding p gauge_init
    by (metis (mono_tags) EndpointState.select_convs(2) image_eqI nth_mem)
  with p assms(2,3) show ?thesis
    by (simp add: breaker_ok_def initial_endpoints_nth)
qed

lemma pool_step_breaker_ok: "pool_step p q \<Longrightarrow> breaker_ok p \<Longrightarrow> breaker_ok q"
proof (induction rule: pool_step.induct)
  case (success i p)
  then show ?case
    by (auto simp: breaker_ok_def mark_success_def Let_def dict_simps nth_list_update)
next
  case (failure i p now)
  then show ?case
    by (auto simp: breaker_ok_def mark_failure_def Let_def dict_simps nth_list_update)
next
  case (failover p)
  then show ?case by (simp add: breaker_ok_def)
qed

lemma pool_steps_breaker_ok: "pool_step\<^sup>*\<^sup>* p q \<Longrightarrow> breaker_ok p \<Longrightarrow> breaker_ok q"
  by (induction rule: rtranclp_induct) (auto intro: pool_step_breaker_ok)

section \<open>Which endpoint answers\<close>

text \<open>An RPC whose outcome and duration depend on the endpoint only, seen through the timeout.\<close>

definition seen_outcome :: "real \<Rightarrow> ('h \<Rightarrow> 'a res \<times> real) \<Rightarrow> 'h \<Rightarrow> 'a res" where
  "seen_outcome timeout_s out h = (if snd (out h) > timeout_s then Inl TimeoutError else fst (out h))"

definition answers :: "'h EndpointPool \<Rightarrow> ('h \<Rightarrow> 'a res \<times> real) \<Rightarrow> nat \<Rightarrow> bool" where
  "answers p out i = (\<not> isl (seen_outcome (pool_timeout_s p) out (ep_handle (pool_eps p ! i))))"

lemma wait_for_seen: "fst (wait_for t (\<lambda>_. out h) now) = seen_outcome t out h"
  by (simp add: wait_for_def seen_outcome_def case_prod_beta)

lemma answers_after_failure [simp]:
  "i < length (pool_eps p) \<Longrightarrow> answers (mark_failure i t p) out = answers p out"
  by (simp add: answers_def [abs_def] mark_handle)

lemma answers_failovers [simp]: "answers (p\<lparr>pool_failovers := n\<rparr>) out = answers p out"
  by (simp add: answers_def [abs_def])

lemma call_loop_result:
  assumes "\<forall>i \<in> set is. i < length (pool_eps p)"
  shows "fst (call_loop (\<lambda>h _. out h) is p now) =
    (case find (answers p out) is of
       None \<Rightarrow> Inl AllEndpointsFailed
     | Some i \<Rightarrow> seen_outcome (pool_timeout_s p) out (ep_handle (pool_eps p ! i)))"
  using assms
proof (induction "is" arbitrary: p now)
  case (Cons i rest)
  let ?h = "ep_handle (pool_eps p ! i)"
  obtain r t where w: "wait_for (pool_timeout_s p) (\<lambda>_. out ?h) now = (r, t)"
    by fastforce
  then have r: "r = seen_outcome (pool_timeout_s p) out ?h"
    using wait_for_seen [of "pool_timeout_s p" out ?h now] by simp
  show ?case
  proof (cases r)
    case (Inl e)
    have i: "i < length (pool_eps p)" using Cons.prems by simp
    define q where "q = (if rest \<noteq> [] then (mark_failure i t p)\<lparr>pool_failovers := pool_failovers p + 1\<rparr>
                         else mark_failure i t p)"
    have q: "length (pool_eps q) = length (pool_eps p)" "pool_timeout_s q = pool_timeout_s p"
        "answers q out = answers p out" "\<And>j. ep_handle (pool_eps q ! j) = ep_handle (pool_eps p ! j)"
      using i by (simp_all add: q_def mark_handle)
    have "\<not> answers p out i" using Inl r by (simp add: answers_def)
    moreover have "fst (call_loop (\<lambda>h _. out h) (i # rest) p now) = fst (call_loop (\<lambda>h _. out h) rest q t)"
      using Inl w by (simp add: q_def)
    ultimately show ?thesis
      using Cons.IH [of q t] Cons.prems by (simp add: q del: call_loop.simps split: option.split)
  next
    case (Inr x)
    then have "answers p out i" using r by (simp add: answers_def)
    with Inr w r show ?thesis by simp
  qed
qed simp

lemma call_loop_untouched:
  "j \<notin> set is \<Longrightarrow> pool_eps (fst (snd (call_loop fn is p now))) ! j = pool_eps p ! j"
  by (induction "is" arbitrary: p now)
    (auto simp: mark_other Let_def split: prod.split sum.split)

lemma call_loop_steps:
  assumes "\<forall>i \<in> set is. i < length (pool_eps p)" and "0 < now" and "\<And>h t. 0 \<le> snd (fn h t)"
    and "0 \<le> pool_timeout_s p"
  shows "pool_step\<^sup>*\<^sup>* p (fst (snd (call_loop fn is p now)))"
  using assms
proof (induction "is" arbitrary: p now)
  case (Cons i rest)
  obtain r t where w: "wait_for (pool_timeout_s p) (fn (ep_handle (pool_eps p ! i))) now = (r, t)"
    by fastforce
  then have "now \<le> t"
    using Cons.prems(3,4) by (auto simp: wait_for_def split: prod.splits if_splits)
      (metis snd_conv)
  with Cons.prems(2) have t: "0 < t" by linarith
  have i: "i < length (pool_eps p)" using Cons.prems(1) by simp
  show ?case
  proof (cases r)
    case (Inl e)
    let ?q = "mark_failure i t p"
    let ?p = "if rest \<noteq> [] then ?q\<lparr>pool_failovers := pool_failovers ?q + 1\<rparr> else ?q"
    have "pool_step\<^sup>*\<^sup>* p ?q" using pool_step.failure [OF i t] by blast
    then have "pool_step\<^sup>*\<^sup>* p ?p"
      using pool_step.failover [of ?q] by (auto intro: rtranclp.rtrancl_into_rtrancl)
    moreover have "pool_step\<^sup>*\<^sup>* ?p (fst (snd (call_loop fn rest ?p t)))"
      using Cons.prems t by (intro Cons.IH) simp_all
    ultimately have "pool_step\<^sup>*\<^sup>* p (fst (snd (call_loop fn rest ?p t)))"
      by (rule rtranclp_trans)
    then show ?thesis using Inl w by (simp add: Let_def)
  next
    case (Inr x)
    then show ?thesis using w pool_step.success [OF i] by auto
  qed
qed simp

section \<open>Properties\<close>

text \<open>A pool of two endpoints whose breaker trips at the first failure, for the witnesses.\<close>

definition ex_pool :: "string EndpointPool" where
  "ex_pool = \<lparr>pool_chain_id = ''eth'', pool_timeout_s = 10, pool_failure_threshold = 1,
     pool_cooldown_s = 30,
     pool_eps =
       [\<lparr>ep_handle = ''a'', ep_index = 0, ep_consecutive_failures = 0, ep_unhealthy_until = 0\<rparr>,
        \<lparr>ep_handle = ''b'', ep_index = 1, ep_consecutive_failures = 0, ep_unhealthy_until = 0\<rparr>],
     pool_up = [(0, 1), (1, 1)], pool_failovers = 0\<rparr>"

lemma ex_pool_init: "pool_init ''eth'' [''a'', ''b''] 10 1 30 = Inr ex_pool"
  by (simp add: pool_init_def ex_pool_def Let_def)

text \<open>
  C36. A call is answered by the first endpoint, in priority order among the candidates, that
  succeeds within the timeout; it raises \<open>AllEndpointsFailed\<close> exactly when none does.
\<close>

theorem call_first_success:
  "fst (pool_call (\<lambda>h _. out h) p now) =
    (case find (answers p out) (candidates p now) of
       None \<Rightarrow> Inl AllEndpointsFailed
     | Some i \<Rightarrow> seen_outcome (pool_timeout_s p) out (ep_handle (pool_eps p ! i)))"
  unfolding pool_call_def by (rule call_loop_result) (auto dest: candidates_valid)

text \<open>
  Under any interleaving of the marks of concurrent calls, an endpoint's deadline is set, and
  its gauge reads 0, exactly when its consecutive failures have reached the threshold; one success
  closes the breaker.
\<close>

theorem breaker_views_agree:
  assumes "pool_init chain hs timeout threshold cooldown = Inr p0" and "1 \<le> threshold"
    and "0 \<le> cooldown" and "pool_step\<^sup>*\<^sup>* p0 p" and "i < length (pool_eps p)"
  shows "(ep_unhealthy_until (pool_eps p ! i) \<noteq> 0 \<longleftrightarrow>
            pool_failure_threshold p \<le> ep_consecutive_failures (pool_eps p ! i)) \<and>
         (d_get (pool_up p) (int i) = Some 0 \<longleftrightarrow>
            pool_failure_threshold p \<le> ep_consecutive_failures (pool_eps p ! i)) \<and>
         ep_consecutive_failures (pool_eps (mark_success i p) ! i) = 0 \<and>
         d_get (pool_up (mark_success i p)) (int i) = Some 1"
proof -
  have ok: "breaker_ok p"
    using pool_steps_breaker_ok [OF assms(4)] pool_init_breaker_ok [OF assms(1-3)] by blast
  moreover have "breaker_ok (mark_success i p)"
    using pool_step_breaker_ok [OF pool_step.success [OF assms(5)] ok] .
  moreover have "ep_consecutive_failures (pool_eps (mark_success i p) ! i) = 0"
    using assms(5) by (simp add: mark_success_def Let_def)
  ultimately show ?thesis
    using assms(5) by (auto simp: breaker_ok_def Let_def split: if_splits)
qed

theorem breaker_views_agree_witness:
  "ep_unhealthy_until (pool_eps (mark_failure 0 5 ex_pool) ! 0) = 35 \<and>
   d_get (pool_up (mark_failure 0 5 ex_pool)) 0 = Some 0 \<and>
   ep_consecutive_failures (pool_eps (mark_success 0 (mark_failure 0 5 ex_pool)) ! 0) = 0"
proof -
  have i: "0 < length (pool_eps ex_pool)" by (simp add: ex_pool_def)
  have s: "pool_step\<^sup>*\<^sup>* ex_pool (mark_failure 0 5 ex_pool)"
    using pool_step.failure [OF i, of 5] by auto
  show ?thesis
    using breaker_views_agree [OF ex_pool_init _ _ s, of 0] i
    by (simp add: mark_failure_def ex_pool_def)
qed

text \<open>
  An endpoint in cooldown is skipped, and left as it is, by every call that starts before its
  deadline while some endpoint is healthy; when none is, every endpoint is tried in order, so a
  call always has a candidate.
\<close>

theorem cooldown_skips_endpoint:
  assumes "pool_eps p \<noteq> []"
  shows "candidates p now \<noteq> [] \<and>
    (\<forall>i. now < ep_unhealthy_until (pool_eps p ! i) \<and>
         (\<exists>j < length (pool_eps p). ep_unhealthy_until (pool_eps p ! j) \<le> now) \<longrightarrow>
       i \<notin> set (candidates p now) \<and>
       pool_eps (fst (snd (pool_call fn p now))) ! i = pool_eps p ! i) \<and>
    ((\<forall>j < length (pool_eps p). now < ep_unhealthy_until (pool_eps p ! j)) \<longrightarrow>
       candidates p now = [0..<length (pool_eps p)])"
proof -
  have skip: "i \<notin> set (candidates p now)"
    if "now < ep_unhealthy_until (pool_eps p ! i)"
      "\<exists>j < length (pool_eps p). ep_unhealthy_until (pool_eps p ! j) \<le> now" for i
    using that by (auto simp: candidates_def Let_def filter_empty_conv)
  have "candidates p now = [0..<length (pool_eps p)]"
    if "\<forall>j < length (pool_eps p). now < ep_unhealthy_until (pool_eps p ! j)"
    using that by (auto simp: candidates_def Let_def filter_empty_conv not_le)
  moreover have "candidates p now \<noteq> []"
    using assms by (auto simp: candidates_def Let_def)
  moreover have "pool_eps (fst (snd (pool_call fn p now))) ! i = pool_eps p ! i"
    if "i \<notin> set (candidates p now)" for i
    using call_loop_untouched [OF that] by (simp add: pool_call_def)
  ultimately show ?thesis
    using skip by blast
qed

theorem cooldown_skips_endpoint_witness:
  "candidates (mark_failure 0 5 ex_pool) 10 = [1] \<and> 0 \<notin> set (candidates (mark_failure 0 5 ex_pool) 10)"
proof -
  have "\<exists>j < length (pool_eps (mark_failure 0 5 ex_pool)).
      ep_unhealthy_until (pool_eps (mark_failure 0 5 ex_pool) ! j) \<le> 10"
    by (rule exI [of _ 1]) (simp add: mark_failure_def ex_pool_def)
  moreover have "pool_eps (mark_failure 0 5 ex_pool) \<noteq> []"
      "10 < ep_unhealthy_until (pool_eps (mark_failure 0 5 ex_pool) ! 0)"
    by (simp_all add: mark_failure_def ex_pool_def)
  ultimately have "0 \<notin> set (candidates (mark_failure 0 5 ex_pool) 10)"
    using cooldown_skips_endpoint [of "mark_failure 0 5 ex_pool" 10] by blast
  then show ?thesis
    by (simp add: candidates_def mark_failure_def ex_pool_def)
qed

end
