(* ===== verification/Evm_Adapter.thy ===== *)
theory Evm_Adapter
  imports Evm_Runner Rpc_Pool
begin

text \<open>
  \<^verbatim>\<open>core/chains/evm.py\<close>: the adapter through which a runner talks to EVM nodes. Every query but the head
  poll and the traces goes through the endpoint pool. What web3 returns for a query is a dynamic value
  and web3 itself a parameter; a handle of the pool is represented by the URL it was made for.

  The lemmas show that blocks, logs, heads and traces come out of the adapter as the node described
  them, which heads a poll yields, and that the errors of the adapter are none of those the runner
  would answer by asking for less.
\<close>

section \<open>Values of web3\<close>

text \<open>
  \<open>w3_get_block n full\<close> is \<open>eth.get_block(n, full_transactions=full)\<close>; \<open>w3_request\<close> is
  \<open>provider.make_request\<close>; \<open>w3_text\<close> is the text of a value that is neither a string nor an integer;
  \<open>w3_is_dict\<close> says whether a mapping that web3 returns is an instance of \<open>dict\<close>.
\<close>

record Web3 =
  w3_block_number :: "(string, pv) rpc"
  w3_get_block :: "int \<Rightarrow> bool \<Rightarrow> (string, pv) rpc"
  w3_get_logs :: "pv \<Rightarrow> (string, pv) rpc"
  w3_request :: "string \<Rightarrow> pv \<Rightarrow> (string, pv) rpc"
  w3_text :: "pv \<Rightarrow> string"
  w3_is_dict :: bool

definition py_str :: "Web3 \<Rightarrow> pv \<Rightarrow> string" where
  "py_str w v = (case v of PStr s \<Rightarrow> s | PInt n \<Rightarrow> int_str n | _ \<Rightarrow> w3_text w v)"

definition hexify :: "Web3 \<Rightarrow> pv \<Rightarrow> string" where
  "hexify w v =
     (case v of
        PStr s \<Rightarrow> s
      | PBytes bs \<Rightarrow> (let s = bytes_hex bs in if startswith s ''0x'' then s else ''0x'' @ s)
      | _ \<Rightarrow> py_str w v)"

text \<open>\<open>int(str(v), 0)\<close> of a value that is neither a number nor a string is a \<open>ValueError\<close>.\<close>

definition intify :: "pv \<Rightarrow> int res" where
  "intify v =
     (case v of
        PInt n \<Rightarrow> Inr n
      | PBool b \<Rightarrow> Inr (if b then 1 else 0)
      | PStr s \<Rightarrow>
          (case (if startswith s ''0x'' then int_of_string 16 s else int_of_string 10 s) of
             None \<Rightarrow> Inl ValueError
           | Some n \<Rightarrow> Inr n)
      | _ \<Rightarrow> Inl ValueError)"

text \<open>\<open>v or d\<close>\<close>

definition py_or :: "pv \<Rightarrow> pv \<Rightarrow> pv" where
  "py_or v d = (if py_truthy v then v else d)"

section \<open>Reading the answers\<close>

definition parse_header :: "Web3 \<Rightarrow> pv \<Rightarrow> BlockHeader res" where
  "parse_header w raw =
     rbind (rbind (pv_index raw ''number'') py_int) (\<lambda>number.
     rbind (pv_index raw ''hash'') (\<lambda>h.
     rbind (pv_index raw ''parentHash'') (\<lambda>p.
     rbind (rbind (pv_index raw ''timestamp'') py_int) (\<lambda>ts.
       Inr \<lparr>bh_number = number, bh_hash = hexify w h, bh_parent_hash = hexify w p, bh_timestamp = ts\<rparr>))))"

definition parse_tx :: "Web3 \<Rightarrow> pv \<Rightarrow> Tx res" where
  "parse_tx w t =
     rbind (pv_index t ''hash'') (\<lambda>h.
     rbind (rbind (pv_get_or t ''transactionIndex'' (PInt 0)) (\<lambda>v. py_int (py_or v (PInt 0)))) (\<lambda>ix.
     rbind (pv_index t ''from'') (\<lambda>frm.
     rbind (rbind (pv_get_or t ''to'' PNone) (\<lambda>v.
              if py_truthy v then rbind (pv_index t ''to'') (\<lambda>x. Inr (Some (py_str w x))) else Inr None)) (\<lambda>to_addr.
     rbind (rbind (pv_get_or t ''value'' (PInt 0)) (\<lambda>v. py_int (py_or v (PInt 0)))) (\<lambda>val.
     rbind (pv_get_or t ''input'' (PStr ''0x'')) (\<lambda>inp.
       Inr \<lparr>tx_hash = hexify w h, tx_index = ix, tx_from_addr = py_str w frm, tx_to_addr = to_addr,
            tx_value = val, tx_input = hexify w inp, tx_status = 1\<rparr>))))))"

definition parse_block :: "Web3 \<Rightarrow> pv \<Rightarrow> Block res" where
  "parse_block w raw =
     rbind (parse_header w raw) (\<lambda>header.
     rbind (rbind (pv_get_or raw ''transactions'' (PList [])) py_iter) (\<lambda>raw_txs.
     rbind (rmap (parse_tx w) raw_txs) (\<lambda>txs.
       Inr \<lparr>blk_header = header, blk_txs = txs, blk_logs = []\<rparr>)))"

definition parse_log :: "Web3 \<Rightarrow> pv \<Rightarrow> Log res" where
  "parse_log w lg =
     rbind (pv_index lg ''transactionHash'') (\<lambda>h.
     rbind (rbind (pv_index lg ''logIndex'') py_int) (\<lambda>ix.
     rbind (pv_index lg ''address'') (\<lambda>addr.
     rbind (rbind (pv_index lg ''topics'') py_iter) (\<lambda>topics.
     rbind (pv_index lg ''data'') (\<lambda>data.
     rbind (rbind (pv_index lg ''blockNumber'') py_int) (\<lambda>bn.
       Inr \<lparr>lg_tx_hash = hexify w h, lg_log_index = ix, lg_address = py_str w addr,
            lg_topics = map (hexify w) topics, lg_data = hexify w data, lg_block_number = bn\<rparr>))))))"

text \<open>
  \<open>_parse_call\<close>: \<open>k\<close> is \<open>65 - depth\<close>, so \<open>depth > 64\<close> is \<open>k = 0\<close>.
\<close>

definition hex_int :: "pv \<Rightarrow> int res" where
  "hex_int v =
     (case v of
        PStr s \<Rightarrow> (case int_of_string 16 s of None \<Rightarrow> Inl ValueError | Some n \<Rightarrow> Inr n)
      | _ \<Rightarrow> Inl TypeError)"

definition opt_lower :: "pv \<Rightarrow> string option res" where
  "opt_lower v = (if py_truthy v then rbind (pv_str v) (\<lambda>s. Inr (Some (lower s))) else Inr None)"

definition opt_text :: "pv \<Rightarrow> string option res" where
  "opt_text v = (if v = PNone then Inr None else rbind (pv_str v) (\<lambda>s. Inr (Some s)))"

primrec parse_call :: "nat \<Rightarrow> pv \<Rightarrow> InternalCall option res" where
  "parse_call 0 = (\<lambda>raw. Inr None)"
| "parse_call (Suc k) = (\<lambda>raw.
     rbind (rbind (pv_get_or raw ''calls'' (PList [])) py_iter) (\<lambda>cs.
     rbind (rmap (parse_call k) cs) (\<lambda>children.
     rbind (rbind (pv_get_or raw ''type'' (PStr ''CALL'')) pv_str) (\<lambda>ty.
     rbind (pv_get_or raw ''to'' PNone) (\<lambda>to_addr.
     let call_type = upper ty;
         creates = call_type \<in> {''CREATE'', ''CREATE2''};
         created = (if creates then to_addr else PNone);
         target = (if creates then PNone else to_addr)
     in
     rbind (rbind (pv_get_or raw ''from'' PNone) (\<lambda>v. pv_str (py_or v (PStr [])))) (\<lambda>frm.
     rbind (opt_lower target) (\<lambda>tgt.
     rbind (rbind (pv_get_or raw ''value'' (PStr ''0x0'')) hex_int) (\<lambda>val.
     rbind (rbind (pv_get_or raw ''gas'' (PStr ''0x0'')) hex_int) (\<lambda>gas.
     rbind (rbind (pv_get_or raw ''input'' (PStr ''0x'')) pv_str) (\<lambda>inp.
     rbind (rbind (pv_get_or raw ''output'' (PStr ''0x'')) pv_str) (\<lambda>outp.
     rbind (rbind (pv_get_or raw ''error'' PNone) opt_text) (\<lambda>err.
     rbind (opt_lower created) (\<lambda>crt.
       Inr (Some (InternalCall call_type (lower frm) tgt val gas inp outp err
              (List.map_filter id children) crt)))))))))))))))"

section \<open>The adapter\<close>

record EvmAdapter =
  ea_chain_id :: string
  ea_confirmations :: int
  ea_http_urls :: "string list"
  ea_rpc_ws :: "string option"
  ea_poll_interval_s :: real
  ea_rpc_timeout_s :: real
  ea_failure_threshold :: int
  ea_cooldown_s :: real
  ea_w3 :: "string option"
  ea_pool :: "string EndpointPool option"

definition evm_adapter_init ::
  "string \<Rightarrow> string \<Rightarrow> string option \<Rightarrow> int \<Rightarrow> int \<Rightarrow> string list \<Rightarrow> int \<Rightarrow> int \<Rightarrow> real \<Rightarrow> EvmAdapter" where
  "evm_adapter_init chain_id rpc_http rpc_ws confirmations poll_interval_ms fallbacks rpc_timeout_ms
     failure_threshold cooldown_s =
     \<lparr>ea_chain_id = chain_id, ea_confirmations = confirmations, ea_http_urls = rpc_http # fallbacks,
      ea_rpc_ws = rpc_ws, ea_poll_interval_s = of_int poll_interval_ms / 1000,
      ea_rpc_timeout_s = of_int rpc_timeout_ms / 1000, ea_failure_threshold = failure_threshold,
      ea_cooldown_s = cooldown_s, ea_w3 = None, ea_pool = None\<rparr>"

text \<open>\<open>self._pool.call(...)\<close> and a direct call on \<open>self._w3\<close>; both assert that the adapter is connected.\<close>

definition pooled :: "EvmAdapter \<Rightarrow> (string, pv) rpc \<Rightarrow> real \<Rightarrow> pv res \<times> EvmAdapter \<times> real" where
  "pooled a fn now =
     (case ea_pool a of
        None \<Rightarrow> (Inl AssertionError, a, now)
      | Some p \<Rightarrow> (case pool_call fn p now of (r, p', t) \<Rightarrow> (r, a\<lparr>ea_pool := Some p'\<rparr>, t)))"

definition direct :: "EvmAdapter \<Rightarrow> (string, pv) rpc \<Rightarrow> real \<Rightarrow> pv res" where
  "direct a fn now = (case ea_w3 a of None \<Rightarrow> Inl AssertionError | Some h \<Rightarrow> fst (fn h now))"

definition evm_connect :: "Web3 \<Rightarrow> EvmAdapter \<Rightarrow> real \<Rightarrow> unit res \<times> EvmAdapter \<times> real" where
  "evm_connect w a now =
     (case pool_init (ea_chain_id a) (ea_http_urls a) (ea_rpc_timeout_s a) (ea_failure_threshold a) (ea_cooldown_s a) of
        Inl e \<Rightarrow> (Inl e, a, now)
      | Inr p \<Rightarrow>
          (case pooled (a\<lparr>ea_pool := Some p, ea_w3 := Some (hd (ea_http_urls a))\<rparr>) (w3_block_number w) now of
             (r, a', t) \<Rightarrow> (rbind r (\<lambda>v. Inr ()), a', t)))"

definition evm_disconnect :: "EvmAdapter \<Rightarrow> EvmAdapter" where
  "evm_disconnect a = (case ea_pool a of None \<Rightarrow> a | Some p \<Rightarrow> a\<lparr>ea_pool := None, ea_w3 := None\<rparr>)"

definition get_latest_block_number :: "Web3 \<Rightarrow> EvmAdapter \<Rightarrow> real \<Rightarrow> int res \<times> EvmAdapter \<times> real" where
  "get_latest_block_number w a now =
     (case pooled a (w3_block_number w) now of (r, a', t) \<Rightarrow> (rbind r py_int, a', t))"

definition evm_fetch_block :: "Web3 \<Rightarrow> EvmAdapter \<Rightarrow> int \<Rightarrow> real \<Rightarrow> Block res \<times> EvmAdapter \<times> real" where
  "evm_fetch_block w a number now =
     (case pooled a (w3_get_block w number True) now of (r, a', t) \<Rightarrow> (rbind r (parse_block w), a', t))"

text \<open>The parameters of \<open>eth_getLogs\<close>; an empty list of addresses or topics is left out like none.\<close>

definition log_params :: "int \<Rightarrow> int \<Rightarrow> string list option \<Rightarrow> string list list option \<Rightarrow> pv" where
  "log_params from_b to_b addresses topics =
     PDict ([(''fromBlock'', PInt from_b), (''toBlock'', PInt to_b)] @
       (case addresses of Some (a # as) \<Rightarrow> [(''address'', PList (map PStr (a # as)))] | _ \<Rightarrow> []) @
       (case topics of Some (t # ts) \<Rightarrow> [(''topics'', PList (map (\<lambda>alts. PList (map PStr alts)) (t # ts)))] | _ \<Rightarrow> []))"

definition evm_fetch_logs ::
  "Web3 \<Rightarrow> EvmAdapter \<Rightarrow> int \<Rightarrow> int \<Rightarrow> string list option \<Rightarrow> string list list option \<Rightarrow> real \<Rightarrow>
   Log list res \<times> EvmAdapter \<times> real" where
  "evm_fetch_logs w a from_b to_b addresses topics now =
     (case pooled a (w3_get_logs w (log_params from_b to_b addresses topics)) now of
        (r, a', t) \<Rightarrow> (rbind r (\<lambda>raw. rbind (py_iter raw) (rmap (parse_log w))), a', t))"

section \<open>Heads\<close>

datatype HeadSource = WsHeads string | PollHeads

definition evm_subscribe_heads :: "EvmAdapter \<Rightarrow> HeadSource" where
  "evm_subscribe_heads a = (case ea_rpc_ws a of Some (c # cs) \<Rightarrow> WsHeads (c # cs) | _ \<Rightarrow> PollHeads)"

text \<open>\<open>for bn in range(start, n + 1)\<close>: the first block that cannot be had ends the round.\<close>

fun poll_blocks :: "Web3 \<Rightarrow> (int \<Rightarrow> pv res) \<Rightarrow> int list \<Rightarrow> BlockHeader list" where
  "poll_blocks w get [] = []"
| "poll_blocks w get (bn # bns) =
     (case rbind (get bn) (parse_header w) of Inl e \<Rightarrow> [] | Inr h \<Rightarrow> h # poll_blocks w get bns)"

text \<open>One round of \<open>_poll_heads\<close>: \<open>tip\<close> and \<open>get\<close> are what the first node answers during the round.\<close>

definition poll_round :: "Web3 \<Rightarrow> pv res \<Rightarrow> (int \<Rightarrow> pv res) \<Rightarrow> int \<Rightarrow> (BlockHeader list \<times> int) res" where
  "poll_round w tip get seen =
     rbind (rbind tip py_int) (\<lambda>n.
       if n > seen then
         let start = (if seen \<ge> 0 then seen + 1 else n)
         in Inr (poll_blocks w get [start..n], n)
       else Inr ([], seen))"

text \<open>The heads of a sequence of rounds; an error of \<open>eth_blockNumber\<close> ends the generator.\<close>

fun poll_rounds :: "Web3 \<Rightarrow> (pv res \<times> (int \<Rightarrow> pv res)) list \<Rightarrow> int \<Rightarrow> BlockHeader list \<times> exn option" where
  "poll_rounds w [] seen = ([], None)"
| "poll_rounds w ((tip, get) # rest) seen =
     (case poll_round w tip get seen of
        Inl e \<Rightarrow> ([], Some e)
      | Inr (hs, seen') \<Rightarrow> (case poll_rounds w rest seen' of (hs', ex) \<Rightarrow> (hs @ hs', ex)))"

definition evm_poll_heads :: "Web3 \<Rightarrow> (pv res \<times> (int \<Rightarrow> pv res)) list \<Rightarrow> BlockHeader list \<times> exn option" where
  "evm_poll_heads w rounds = poll_rounds w rounds (-1)"

text \<open>\<open>_on_head\<close> of the subscription: heads arrive as hexadecimal strings.\<close>

definition ws_head :: "Web3 \<Rightarrow> pv \<Rightarrow> BlockHeader res" where
  "ws_head w head =
     rbind (rbind (pv_index head ''number'') intify) (\<lambda>number.
     rbind (pv_index head ''hash'') (\<lambda>h.
     rbind (pv_index head ''parentHash'') (\<lambda>p.
     rbind (rbind (pv_index head ''timestamp'') intify) (\<lambda>ts.
       Inr \<lparr>bh_number = number, bh_hash = hexify w h, bh_parent_hash = hexify w p, bh_timestamp = ts\<rparr>))))"

section \<open>Traces\<close>

definition trace_params :: "string \<Rightarrow> pv" where
  "trace_params h =
     PList [PStr h, PDict [(''tracer'', PStr ''callTracer''), (''tracerConfig'', PDict [(''withLog'', PBool False)])]]"

text \<open>An adapter that is not connected raises \<open>AttributeError\<close> inside the \<open>try\<close>.\<close>

definition trace_transaction :: "Web3 \<Rightarrow> EvmAdapter \<Rightarrow> string \<Rightarrow> real \<Rightarrow> InternalCall option res" where
  "trace_transaction w a h now =
     (case direct a (w3_request w ''debug_traceTransaction'' (trace_params h)) now of
        Inl e \<Rightarrow> Inr None
      | Inr result \<Rightarrow>
          rbind (pv_get_or result ''result'' PNone) (\<lambda>raw.
            if raw = PNone then Inr None else parse_call 65 raw))"

text \<open>The text under which a transaction of the block is asked for.\<close>

definition trace_hash :: "Web3 \<Rightarrow> pv \<Rightarrow> string res" where
  "trace_hash w tx =
     rbind (case tx of
              PDict d \<Rightarrow> if w3_is_dict w then pv_get_or tx ''hash'' tx else Inr tx
            | _ \<Rightarrow> Inr tx) (\<lambda>v.
       Inr (case v of PBytes bs \<Rightarrow> bytes_hex bs | _ \<Rightarrow> py_str w v))"

definition trace_block :: "Web3 \<Rightarrow> EvmAdapter \<Rightarrow> int \<Rightarrow> real \<Rightarrow> InternalCall list res" where
  "trace_block w a number now =
     rbind (direct a (w3_get_block w number True) now) (\<lambda>block.
     rbind (rbind (pv_get_or block ''transactions'' (PList [])) py_iter) (\<lambda>txs.
     rbind (rmap (\<lambda>tx. rbind (trace_hash w tx) (\<lambda>h. trace_transaction w a h now)) txs) (\<lambda>calls.
       Inr (List.map_filter id calls))))"

section \<open>Texts of numbers and hashes\<close>

text \<open>A hash as web3 gives it: bytes, or the text itself.\<close>

definition hex_rep :: "pv \<Rightarrow> string \<Rightarrow> bool" where
  "hex_rep v s \<longleftrightarrow> v = PStr s \<or> (\<exists>bs. v = PBytes bs \<and> s = ''0x'' @ bytes_hex bs)"

lemma bytes_hex_no_prefix: "\<not> startswith (bytes_hex bs) ''0x''"
proof (cases bs)
  case (Cons b bs')
  have "uint b mod 16 \<in> set [0..15]" by simp
  moreover have "list_all (\<lambda>d. hex_digit d \<noteq> CHR ''x'') [0..15]" by code_simp
  ultimately have "hex_digit (uint b mod 16) \<noteq> CHR ''x''" by (metis (mono_tags, lifting) list_all_iff)
  then show ?thesis using Cons by (simp add: bytes_hex_def)
qed (simp add: bytes_hex_def)

lemma hexify_rep [simp]: "hex_rep v s \<Longrightarrow> hexify w v = s"
  using bytes_hex_no_prefix by (auto simp: hex_rep_def hexify_def Let_def)

text \<open>The number of a head as the subscription sends it.\<close>

fun nat_hex :: "nat \<Rightarrow> string" where
  "nat_hex n = (if n < 16 then [hex_digit (int n)] else nat_hex (n div 16) @ [hex_digit (int (n mod 16))])"

declare nat_hex.simps [simp del]

definition hex_str :: "int \<Rightarrow> string" where
  "hex_str n = ''0x'' @ nat_hex (nat n)"

lemma hex_digit_digit:
  assumes "d < 16"
  shows "digit_value (hex_digit (int d)) = Some (int d)" and "hex_digit (int d) \<noteq> CHR ''_''"
proof -
  have v: "hex_value (hex_digit (int d)) = Some (int d)" using hex_digit_value [of "int d"] assms by simp
  then show "digit_value (hex_digit (int d)) = Some (int d)"
    by (auto simp: hex_value_def split: option.splits if_splits)
  then show "hex_digit (int d) \<noteq> CHR ''_''" by (auto simp: digit_value_def Let_def)
qed

lemma digits_val_nat_hex:
  "digits_val 16 acc prev (nat_hex n @ cs) = digits_val 16 (acc * 16 ^ length (nat_hex n) + int n) True cs"
proof (induction n arbitrary: cs prev acc rule: nat_hex.induct)
  case (1 n)
  show ?case
  proof (cases "n < 16")
    case True
    then show ?thesis by (simp add: nat_hex.simps [of n] hex_digit_digit)
  next
    case False
    have m: "n mod 16 < 16" by simp
    have "digits_val 16 acc prev (nat_hex n @ cs) =
        digits_val 16 acc prev (nat_hex (n div 16) @ hex_digit (int (n mod 16)) # cs)"
      using False by (simp add: nat_hex.simps [of n])
    also have "\<dots> = digits_val 16 (acc * 16 ^ length (nat_hex (n div 16)) + int (n div 16)) True
        (hex_digit (int (n mod 16)) # cs)"
      using "1.IH" False by blast
    also have "\<dots> = digits_val 16
        ((acc * 16 ^ length (nat_hex (n div 16)) + int (n div 16)) * 16 + int (n mod 16)) True cs"
      using hex_digit_digit [OF m] by (simp del: of_nat_mod)
    also have "(acc * 16 ^ length (nat_hex (n div 16)) + int (n div 16)) * 16 + int (n mod 16) =
        acc * 16 ^ length (nat_hex n) + int n"
      using False by (simp add: nat_hex.simps [of n] algebra_simps zdiv_int zmod_int)
    finally show ?thesis .
  qed
qed

lemma nat_hex_chars: "c \<in> set (nat_hex n) \<Longrightarrow> \<exists>d < 16. c = hex_digit (int d)"
proof (induction n rule: nat_hex.induct)
  case (1 n)
  then show ?case
    by (cases "n < 16") (auto simp: nat_hex.simps [of n] intro: exI [of _ "n mod 16"])
qed

lemma int_of_hex_str:
  assumes "0 \<le> n"
  shows "int_of_string 16 (hex_str n) = Some n"
proof -
  have ne: "nat_hex (nat n) \<noteq> []" by (simp add: nat_hex.simps [of "nat n"])
  obtain c cs where c: "nat_hex (nat n) = c # cs" using ne by (cases "nat_hex (nat n)") auto
  have sp: "\<not> is_space x \<and> x \<noteq> CHR ''_''" if "x \<in> set (nat_hex (nat n))" for x
    using nat_hex_chars [OF that] hex_digit_value hex_digit_digit by fastforce
  have "strip (hex_str n) = hex_str n"
    using sp [of "last (nat_hex (nat n))"] ne by (intro strip_id) (auto simp: hex_str_def is_space_def)
  then have "int_of_string 16 (hex_str n) = digits_val 16 0 False (nat_hex (nat n))"
    using sp [of c] c by (auto simp: int_of_string_def hex_str_def drop_radix_def Let_def)
  then show ?thesis using digits_val_nat_hex [of 0 False "nat n" "[]"] assms by simp
qed

lemma hex_int_str [simp]: "0 \<le> n \<Longrightarrow> hex_int (PStr (hex_str n)) = Inr n"
  by (simp add: hex_int_def int_of_hex_str)

lemma intify_hex_str [simp]: "0 \<le> n \<Longrightarrow> intify (PStr (hex_str n)) = Inr n"
  using int_of_hex_str [of n] by (simp add: intify_def) (simp add: hex_str_def)

section \<open>What an honest node answers\<close>

definition header_answer :: "(pv \<Rightarrow> int \<Rightarrow> bool) \<Rightarrow> pv \<Rightarrow> BlockHeader \<Rightarrow> bool" where
  "header_answer num raw h \<longleftrightarrow>
     (\<exists>n v p t. pv_index raw ''number'' = Inr n \<and> num n (bh_number h) \<and>
        pv_index raw ''hash'' = Inr v \<and> hex_rep v (bh_hash h) \<and>
        pv_index raw ''parentHash'' = Inr p \<and> hex_rep p (bh_parent_hash h) \<and>
        pv_index raw ''timestamp'' = Inr t \<and> num t (bh_timestamp h))"

abbreviation http_number :: "pv \<Rightarrow> int \<Rightarrow> bool" where
  "http_number v n \<equiv> v = PInt n"

abbreviation ws_number :: "pv \<Rightarrow> int \<Rightarrow> bool" where
  "ws_number v n \<equiv> 0 \<le> n \<and> v = PStr (hex_str n)"

definition tx_answer :: "pv \<Rightarrow> Tx \<Rightarrow> bool" where
  "tx_answer raw t \<longleftrightarrow>
     (\<exists>d h i. raw = PDict d \<and> d_get d ''hash'' = Some h \<and> hex_rep h (tx_hash t) \<and>
        d_get d ''transactionIndex'' = Some (PInt (tx_index t)) \<and>
        d_get d ''from'' = Some (PStr (tx_from_addr t)) \<and>
        (case tx_to_addr t of
           None \<Rightarrow> d_get d ''to'' \<in> {None, Some PNone}
         | Some a \<Rightarrow> a \<noteq> [] \<and> d_get d ''to'' = Some (PStr a)) \<and>
        d_get d ''value'' = Some (PInt (tx_value t)) \<and>
        d_get d ''input'' = Some i \<and> hex_rep i (tx_input t))"

definition block_answer :: "pv \<Rightarrow> Block \<Rightarrow> bool" where
  "block_answer raw b \<longleftrightarrow>
     header_answer http_number raw (blk_header b) \<and>
     (\<exists>d ts. raw = PDict d \<and> d_get d ''transactions'' = Some (PList ts) \<and> list_all2 tx_answer ts (blk_txs b))"

definition log_answer :: "pv \<Rightarrow> Log \<Rightarrow> bool" where
  "log_answer raw l \<longleftrightarrow>
     (\<exists>d h ts x. raw = PDict d \<and> d_get d ''transactionHash'' = Some h \<and> hex_rep h (lg_tx_hash l) \<and>
        d_get d ''logIndex'' = Some (PInt (lg_log_index l)) \<and>
        d_get d ''address'' = Some (PStr (lg_address l)) \<and>
        d_get d ''topics'' = Some (PList ts) \<and> list_all2 hex_rep ts (lg_topics l) \<and>
        d_get d ''data'' = Some x \<and> hex_rep x (lg_data l) \<and>
        d_get d ''blockNumber'' = Some (PInt (lg_block_number l)))"

lemma parse_header_answer: "header_answer http_number raw h \<Longrightarrow> parse_header w raw = Inr h"
  by (auto simp: header_answer_def parse_header_def)

lemma ws_head_answer: "header_answer ws_number head h \<Longrightarrow> ws_head w head = Inr h"
  by (auto simp: header_answer_def ws_head_def)

lemma parse_tx_answer: "tx_answer raw t \<Longrightarrow> parse_tx w raw = Inr (t\<lparr>tx_status := 1\<rparr>)"
  by (cases "tx_value t = 0"; cases "tx_index t = 0")
    (auto simp: tx_answer_def parse_tx_def d_index_def pv_get_or_def py_or_def py_str_def split: option.splits)

lemma rmap_list_all2:
  assumes "\<And>x y. R x y \<Longrightarrow> f x = Inr (g y)"
  shows "list_all2 R xs ys \<Longrightarrow> rmap f xs = Inr (map g ys)"
  by (induction rule: list_all2_induct) (simp_all add: assms)

lemma parse_block_answer:
  assumes "block_answer raw b"
  shows "parse_block w raw = Inr (b\<lparr>blk_txs := map (\<lambda>t. t\<lparr>tx_status := 1\<rparr>) (blk_txs b), blk_logs := []\<rparr>)"
  using assms parse_header_answer
    rmap_list_all2 [where R = tx_answer and f = "parse_tx w" and g = "\<lambda>t. t\<lparr>tx_status := 1\<rparr>", OF parse_tx_answer]
  by (auto simp: block_answer_def parse_block_def pv_get_or_def)

lemma list_all2_hexify: "list_all2 hex_rep vs ss \<Longrightarrow> map (hexify w) vs = ss"
  by (induction rule: list_all2_induct) simp_all

lemma parse_log_answer: "log_answer raw l \<Longrightarrow> parse_log w raw = Inr l"
  by (auto simp: log_answer_def parse_log_def d_index_def py_str_def list_all2_hexify)

section \<open>Errors of the adapter\<close>

lemma pv_index_exn: "pv_index v k = Inl e \<Longrightarrow> e \<in> {KeyError, TypeError}"
  by (cases v) (auto simp: d_index_def split: option.splits)

lemma py_int_exn: "py_int v = Inl e \<Longrightarrow> e \<in> {ValueError, TypeError}"
  by (cases v) (auto split: option.splits)

lemma py_iter_exn: "py_iter v = Inl e \<Longrightarrow> e = TypeError"
  by (cases v) auto

lemma rmap_Inl: "rmap f xs = Inl e \<Longrightarrow> \<exists>x \<in> set xs. f x = Inl e"
  by (induction xs) (auto simp: res_simps)

lemma parse_log_exn: "parse_log w raw = Inl e \<Longrightarrow> e \<in> {KeyError, TypeError, ValueError}"
  unfolding parse_log_def by (auto simp: rbind_Inl_iff dest!: pv_index_exn py_int_exn py_iter_exn)

text \<open>A call through the pool fails with the pool's own exception, whatever the nodes said.\<close>

lemma call_loop_exn: "fst (call_loop fn is p now) = Inl e \<Longrightarrow> e = AllEndpointsFailed"
proof (induction "is" arbitrary: p now)
  case (Cons i "is")
  then show ?case by (auto simp: Let_def split: prod.splits sum.splits)
qed simp

lemma pooled_exn:
  assumes "pooled a fn now = (Inl e, a', t)"
  shows "e \<in> {AssertionError, AllEndpointsFailed}"
proof (cases "ea_pool a")
  case (Some p)
  then have "fst (call_loop fn (candidates p now) p now) = Inl e"
    using assms by (simp add: pooled_def pool_call_def split: prod.splits)
  then show ?thesis by (simp add: call_loop_exn)
qed (use assms in \<open>simp add: pooled_def\<close>)

lemma fetch_logs_exn:
  assumes "fst (evm_fetch_logs w a x y as ts now) = Inl e"
  shows "e \<in> {AssertionError, AllEndpointsFailed, KeyError, TypeError, ValueError}"
proof -
  obtain r a' t where p: "pooled a (w3_get_logs w (log_params x y as ts)) now = (r, a', t)" by (metis prod.collapse)
  show ?thesis
  proof (cases r)
    case (Inl e')
    then show ?thesis using assms p pooled_exn [OF p [unfolded Inl]] by (auto simp: evm_fetch_logs_def)
  next
    case (Inr raw)
    then have "rbind (py_iter raw) (rmap (parse_log w)) = Inl e" using assms p by (simp add: evm_fetch_logs_def)
    then show ?thesis by (auto simp: rbind_Inl_iff dest!: py_iter_exn rmap_Inl parse_log_exn)
  qed
qed

lemma adapter_exn_not_degradable:
  "e \<in> {AssertionError, AllEndpointsFailed, KeyError, TypeError, ValueError} \<Longrightarrow> \<not> degradable e"
  by (auto simp: degradable_def DEGRADE_ERR_HINTS_def) (code_simp)+

section \<open>Heads of a poll\<close>

definition honest_get :: "Web3 \<Rightarrow> (int \<Rightarrow> pv res) \<Rightarrow> bool" where
  "honest_get w get \<longleftrightarrow> (\<forall>n h. rbind (get n) (parse_header w) = Inr h \<longrightarrow> bh_number h = n)"

definition answering :: "Web3 \<Rightarrow> (int \<Rightarrow> pv res) \<Rightarrow> bool" where
  "answering w get \<longleftrightarrow> (\<forall>n. \<exists>h. rbind (get n) (parse_header w) = Inr h)"

lemma poll_blocks_numbers:
  "honest_get w get \<Longrightarrow> \<exists>k. map bh_number (poll_blocks w get ns) = take k ns"
proof (induction ns)
  case (Cons n ns)
  then obtain k where "map bh_number (poll_blocks w get ns) = take k ns" by blast
  then show ?case
    using Cons.prems by (cases "rbind (get n) (parse_header w)") (auto simp: honest_get_def intro: exI [of _ 0] exI [of _ "Suc k"])
qed simp

lemma poll_blocks_complete:
  assumes "honest_get w get" and "answering w get"
  shows "map bh_number (poll_blocks w get ns) = ns"
proof (induction ns)
  case (Cons n ns)
  obtain h where "rbind (get n) (parse_header w) = Inr h" using assms(2) by (auto simp: answering_def)
  then show ?case using Cons assms(1) by (auto simp: honest_get_def)
qed simp

lemma sorted_take_upto: "sorted_wrt (<) (take k [i..j :: int])"
  by (intro sorted_wrt_take) simp

lemma poll_round_numbers:
  assumes "honest_get w get" and "poll_round w tip get seen = Inr (hs, seen')"
  shows "sorted_wrt (<) (map bh_number hs)" and "\<forall>h \<in> set hs. seen < bh_number h \<and> bh_number h \<le> seen'" and "seen \<le> seen'"
proof -
  obtain n where n: "rbind tip py_int = Inr n" using assms(2) by (cases "rbind tip py_int") (auto simp: poll_round_def)
  let ?a = "if seen \<ge> 0 then seen + 1 else n"
  obtain k where k: "map bh_number (poll_blocks w get [?a..n]) = take k [?a..n]"
    using poll_blocks_numbers [OF assms(1)] by blast
  have cases: "(n > seen \<and> hs = poll_blocks w get [?a..n] \<and> seen' = n) \<or> (n \<le> seen \<and> hs = [] \<and> seen' = seen)"
    using assms(2) n by (auto simp: poll_round_def Let_def split: if_splits)
  show "sorted_wrt (<) (map bh_number hs)" using cases k sorted_take_upto [of k ?a n] by auto
  show "seen \<le> seen'" using cases by auto
  show "\<forall>h \<in> set hs. seen < bh_number h \<and> bh_number h \<le> seen'"
  proof
    fix h assume h: "h \<in> set hs"
    then have "n > seen" "hs = poll_blocks w get [?a..n]" "seen' = n" using cases by auto
    moreover from this h have "bh_number h \<in> set (take k [?a..n])" by (metis k image_eqI list.set_map)
    ultimately show "seen < bh_number h \<and> bh_number h \<le> seen'" by (auto dest!: in_set_takeD split: if_splits)
  qed
qed

lemma poll_rounds_increasing:
  assumes "list_all (\<lambda>r. honest_get w (snd r)) rounds"
  shows "sorted_wrt (<) (map bh_number (fst (poll_rounds w rounds seen))) \<and>
    (\<forall>h \<in> set (fst (poll_rounds w rounds seen)). seen < bh_number h)"
  using assms
proof (induction rounds arbitrary: seen)
  case (Cons r rounds)
  obtain tip get where r: "r = (tip, get)" by (cases r)
  show ?case
  proof (cases "poll_round w tip get seen")
    case (Inr res)
    obtain hs seen' where res: "res = (hs, seen')" by (cases res)
    note first = poll_round_numbers [OF _ Inr [unfolded res]]
    have "honest_get w get" using Cons.prems r by simp
    note first = first [OF this]
    have rest: "sorted_wrt (<) (map bh_number (fst (poll_rounds w rounds seen')))"
        "\<forall>h \<in> set (fst (poll_rounds w rounds seen')). seen' < bh_number h"
      using Cons.IH [of seen'] Cons.prems by auto
    show ?thesis
      using first rest r Inr res by (fastforce simp: sorted_wrt_append split: prod.splits)
  qed (simp add: r)
qed simp

text \<open>The tip of a round, and the rounds in which everything is answered.\<close>

definition round_tip :: "pv res \<times> (int \<Rightarrow> pv res) \<Rightarrow> int" where
  "round_tip r = (case rbind (fst r) py_int of Inr n \<Rightarrow> n | Inl e \<Rightarrow> -1)"

definition good_round :: "Web3 \<Rightarrow> pv res \<times> (int \<Rightarrow> pv res) \<Rightarrow> bool" where
  "good_round w r \<longleftrightarrow> (\<exists>n \<ge> 0. rbind (fst r) py_int = Inr n) \<and> answering w (snd r)"

lemma fold_max_ge: "seen \<le> fold max ns (seen :: int)"
  by (induction ns arbitrary: seen) (auto intro: order_trans [OF max.cobounded2])

lemma poll_rounds_complete:
  assumes "list_all (\<lambda>r. honest_get w (snd r) \<and> good_round w r) rounds" and "0 \<le> seen"
  shows "map bh_number (fst (poll_rounds w rounds seen)) = [seen + 1..fold max (map round_tip rounds) seen] \<and>
    snd (poll_rounds w rounds seen) = None"
  using assms
proof (induction rounds arbitrary: seen)
  case (Cons r rounds)
  obtain tip get where r: "r = (tip, get)" by (cases r)
  obtain n where n: "rbind tip py_int = Inr n" using Cons.prems r by (auto simp: good_round_def)
  then have tip: "round_tip r = n" by (simp add: round_tip_def r)
  have IH: "map bh_number (fst (poll_rounds w rounds (max seen n))) = [max seen n + 1..fold max (map round_tip rounds) (max seen n)]"
      "snd (poll_rounds w rounds (max seen n)) = None"
    using Cons.IH [of "max seen n"] Cons.prems by simp_all
  have le: "max seen n \<le> fold max (map round_tip rounds) (max seen n)"
    by (rule fold_max_ge)
  show ?case
  proof (cases "seen < n")
    case True
    have "map bh_number (poll_blocks w get [seen + 1..n]) = [seen + 1..n]"
      using Cons.prems r poll_blocks_complete by (auto simp: good_round_def)
    moreover have "[seen + 1..n] @ [n + 1..fold max (map round_tip rounds) n] = [seen + 1..fold max (map round_tip rounds) n]"
      using le True by (intro upto_split2 [symmetric]) (simp_all add: max_def)
    ultimately show ?thesis
      using IH n True Cons.prems(2) by (auto simp: r poll_round_def tip [unfolded r] max.absorb1 max.absorb2 split: prod.splits)
  next
    case False
    then show ?thesis using IH n by (auto simp: r poll_round_def tip [unfolded r] max.absorb1 max.absorb2 split: prod.splits)
  qed
qed simp

section \<open>Traces as the node describes them\<close>

fun call_json :: "InternalCall \<Rightarrow> pv" where
  "call_json (InternalCall ty frm tgt val gas inp outp err cs crt) =
     PDict ([(''type'', PStr ty), (''from'', PStr frm),
        (''to'', case (if ty \<in> {''CREATE'', ''CREATE2''} then crt else tgt) of None \<Rightarrow> PNone | Some a \<Rightarrow> PStr a),
        (''value'', PStr (hex_str val)), (''gas'', PStr (hex_str gas)), (''input'', PStr inp), (''output'', PStr outp),
        (''calls'', PList (map call_json cs))] @ (case err of None \<Rightarrow> [] | Some e \<Rightarrow> [(''error'', PStr e)]))"

text \<open>The traced calls a node can describe: upper case types, lower case addresses, quantities that are not negative.\<close>

fun call_ok :: "InternalCall \<Rightarrow> bool" where
  "call_ok (InternalCall ty frm tgt val gas inp outp err cs crt) =
     (upper ty = ty \<and> lower frm = frm \<and> 0 \<le> val \<and> 0 \<le> gas \<and>
      (if ty \<in> {''CREATE'', ''CREATE2''} then tgt = None else crt = None) \<and>
      (\<forall>a \<in> set_option tgt \<union> set_option crt. a \<noteq> [] \<and> lower a = a) \<and> list_all call_ok cs)"

text \<open>A call tree without what is below \<open>k\<close> levels.\<close>

fun prune :: "nat \<Rightarrow> InternalCall \<Rightarrow> InternalCall option" where
  "prune 0 c = None"
| "prune (Suc k) (InternalCall ty frm tgt val gas inp outp err cs crt) =
     Some (InternalCall ty frm tgt val gas inp outp err (List.map_filter (prune k) cs) crt)"

fun call_height :: "InternalCall \<Rightarrow> nat" where
  "call_height (InternalCall ty frm tgt val gas inp outp err cs crt) = Suc (Max (insert 0 (set (map call_height cs))))"

lemma prune_id: "call_height c \<le> k \<Longrightarrow> prune k c = Some c"
proof (induction k arbitrary: c)
  case 0
  then show ?case by (cases c) simp
next
  case (Suc k)
  obtain ty frm tgt val gas inp outp err cs crt where c: "c = InternalCall ty frm tgt val gas inp outp err cs crt" by (cases c)
  have "prune k d = Some d" if "d \<in> set cs" for d
    using Suc.prems that by (intro Suc.IH) (auto simp: c)
  then have "List.map_filter (prune k) cs = cs" by (induction cs) (simp_all add: List.map_filter_simps)
  then show ?case by (simp add: c)
qed

lemma map_filter_id_map: "List.map_filter id (map f xs) = List.map_filter f xs"
  by (induction xs) (auto simp: List.map_filter_simps split: option.splits)

lemma rmap_map: "(\<And>x. x \<in> set xs \<Longrightarrow> f (g x) = Inr (h x)) \<Longrightarrow> rmap f (map g xs) = Inr (map h xs)"
  by (induction xs) simp_all

lemma parse_call_json: "call_ok c \<Longrightarrow> parse_call k (call_json c) = Inr (prune k c)"
proof (induction k arbitrary: c)
  case (Suc k)
  obtain ty frm tgt val gas inp outp err cs crt where c: "c = InternalCall ty frm tgt val gas inp outp err cs crt" by (cases c)
  have "rmap (parse_call k) (map call_json cs) = Inr (map (prune k) cs)"
    using Suc by (intro rmap_map) (simp add: c list_all_iff)
  moreover have "upper ty = ty" "lower frm = frm" "0 \<le> val" "0 \<le> gas" using Suc.prems by (simp_all add: c)
  moreover have "opt_lower (case crt of None \<Rightarrow> PNone | Some a \<Rightarrow> PStr a) = Inr crt"
      "opt_lower (case tgt of None \<Rightarrow> PNone | Some a \<Rightarrow> PStr a) = Inr tgt" "opt_lower PNone = Inr None"
    using Suc.prems by (auto simp: c opt_lower_def split: option.splits)
  moreover have "ty \<in> {''CREATE'', ''CREATE2''} \<Longrightarrow> tgt = None" "ty \<notin> {''CREATE'', ''CREATE2''} \<Longrightarrow> crt = None"
    using Suc.prems by (auto simp: c split: if_splits)
  moreover have "frm = [] \<or> py_truthy (PStr frm)" by simp
  ultimately show ?case
    by (cases err; cases "ty \<in> {''CREATE'', ''CREATE2''}")
      (simp_all add: c pv_get_or_def py_or_def opt_text_def Let_def map_filter_id_map del: insert_iff)
qed simp

text \<open>
  The hash of a transaction under which \<open>trace_block\<close> asks for its trace. When web3 returns its
  transactions as attribute dictionaries, which are no instances of \<open>dict\<close>, it is the text of the whole
  transaction; when it returns them as plain ones, it is a hash without the prefix \<open>0x\<close>.
\<close>

lemma trace_asks_no_hash:
  "\<not> w3_is_dict w \<Longrightarrow> trace_hash w (PDict d) = Inr (w3_text w (PDict d))"
  "w3_is_dict w \<Longrightarrow> d_get d ''hash'' = Some (PBytes bs) \<Longrightarrow>
     trace_hash w (PDict d) = Inr (bytes_hex bs) \<and> \<not> startswith (bytes_hex bs) ''0x''"
  using bytes_hex_no_prefix by (auto simp: trace_hash_def py_str_def pv_get_or_def)

section \<open>Properties\<close>

text \<open>
  C32. Answers are read faithfully: when the pool obtains a node's description of a block, or of the
  logs of a range, the adapter returns that block (all of whose transactions it calls successful, and
  without logs) or those logs, in order. A head that arrives over the subscription, with hexadecimal
  numbers, is read as the same header as its description over HTTP.
\<close>

theorem evm_answers_read:
  "(pooled a (w3_get_block w n True) now = (Inr raw, a', t) \<and> block_answer raw b \<longrightarrow>
      evm_fetch_block w a n now =
        (Inr (b\<lparr>blk_txs := map (\<lambda>x. x\<lparr>tx_status := 1\<rparr>) (blk_txs b), blk_logs := []\<rparr>), a', t)) \<and>
   (pooled a (w3_get_logs w (log_params n m as ts)) now = (Inr (PList ls), a', t) \<and> list_all2 log_answer ls logs \<longrightarrow>
      evm_fetch_logs w a n m as ts now = (Inr logs, a', t)) \<and>
   (header_answer http_number raw h \<and> header_answer ws_number head h \<longrightarrow>
      parse_header w raw = Inr h \<and> ws_head w head = Inr h)"
proof (intro conjI impI)
  assume "pooled a (w3_get_block w n True) now = (Inr raw, a', t) \<and> block_answer raw b"
  then show "evm_fetch_block w a n now =
      (Inr (b\<lparr>blk_txs := map (\<lambda>x. x\<lparr>tx_status := 1\<rparr>) (blk_txs b), blk_logs := []\<rparr>), a', t)"
    by (simp add: evm_fetch_block_def parse_block_answer)
next
  assume "pooled a (w3_get_logs w (log_params n m as ts)) now = (Inr (PList ls), a', t) \<and> list_all2 log_answer ls logs"
  then show "evm_fetch_logs w a n m as ts now = (Inr logs, a', t)"
    using rmap_list_all2 [where R = log_answer and f = "parse_log w" and g = id, OF _ , of ls logs] parse_log_answer
    by (simp add: evm_fetch_logs_def)
qed (auto simp: parse_header_answer ws_head_answer)

definition ex_header :: BlockHeader where
  "ex_header = \<lparr>bh_number = 31, bh_hash = ''0xab'', bh_parent_hash = ''0xaa'', bh_timestamp = 500\<rparr>"

definition ex_raw :: pv where
  "ex_raw = PDict [(''number'', PInt 31), (''hash'', PBytes [0xab]), (''parentHash'', PStr ''0xaa''),
     (''timestamp'', PInt 500),
     (''transactions'', PList [PDict [(''hash'', PStr ''0x01''), (''transactionIndex'', PInt 0), (''from'', PStr ''0xf''),
        (''to'', PNone), (''value'', PInt 7), (''input'', PStr ''0x'')]])]"

definition ex_block :: Block where
  "ex_block = \<lparr>blk_header = ex_header,
     blk_txs = [\<lparr>tx_hash = ''0x01'', tx_index = 0, tx_from_addr = ''0xf'', tx_to_addr = None, tx_value = 7,
       tx_input = ''0x'', tx_status = 1\<rparr>], blk_logs = []\<rparr>"

definition ex_web3 :: Web3 where
  "ex_web3 = \<lparr>w3_block_number = (\<lambda>h t. (Inr (PInt 31), 0)), w3_get_block = (\<lambda>n full h t. (Inr ex_raw, 0)),
     w3_get_logs = (\<lambda>p h t. (Inl (ExternalError ''block range too large''), 0)),
     w3_request = (\<lambda>m p h t. (Inr (PDict []), 0)), w3_text = (\<lambda>v. []), w3_is_dict = True\<rparr>"

definition ex_adapter :: EvmAdapter where
  "ex_adapter = (evm_adapter_init ''eth'' ''u'' None 2 1000 [] 10000 3 30)
     \<lparr>ea_w3 := Some ''u'',
      ea_pool := Some \<lparr>pool_chain_id = ''eth'', pool_timeout_s = 10, pool_failure_threshold = 3, pool_cooldown_s = 30,
        pool_eps = [\<lparr>ep_handle = ''u'', ep_index = 0, ep_consecutive_failures = 0, ep_unhealthy_until = 0\<rparr>],
        pool_up = [(0, 1)], pool_failovers = 0\<rparr>\<rparr>"

lemma ex_block_answer: "block_answer ex_raw ex_block"
proof -
  have "bytes_hex [0xab] = ''ab''" by code_simp
  then show ?thesis
    by (simp add: block_answer_def header_answer_def ex_raw_def ex_block_def ex_header_def hex_rep_def d_index_def tx_answer_def)
qed

lemma ex_pooled: "pooled ex_adapter (w3_get_block ex_web3 31 True) 1 = (Inr ex_raw, ex_adapter, 1)"
  by (simp add: pooled_def ex_adapter_def pool_call_def candidates_def ex_web3_def wait_for_def mark_success_def)

theorem evm_answers_read_witness: "fst (evm_fetch_block ex_web3 ex_adapter 31 1) = Inr ex_block"
  using evm_answers_read [of ex_adapter ex_web3 31 1 ex_raw ex_adapter 1 ex_block] ex_pooled ex_block_answer
  by (simp add: ex_block_def)

text \<open>
  The polled heads: as long as the node describes the block it was asked for, the numbers of the
  heads strictly increase, whatever fails; and when nothing fails, they are, without a gap, all numbers
  from the first tip seen to the highest.
\<close>

theorem poll_heads_numbers:
  assumes "list_all (\<lambda>r. honest_get w (snd r)) rounds"
  shows "sorted_wrt (<) (map bh_number (fst (evm_poll_heads w rounds))) \<and>
    (list_all (good_round w) rounds \<and> rounds \<noteq> [] \<longrightarrow>
       map bh_number (fst (evm_poll_heads w rounds)) = [round_tip (hd rounds)..Max (round_tip ` set rounds)] \<and>
       snd (evm_poll_heads w rounds) = None)"
proof (intro conjI impI)
  show "sorted_wrt (<) (map bh_number (fst (evm_poll_heads w rounds)))"
    using poll_rounds_increasing [of w rounds "-1"] assms by (simp add: evm_poll_heads_def)
next
  assume good: "list_all (good_round w) rounds \<and> rounds \<noteq> []"
  then obtain tip get rest where rounds: "rounds = (tip, get) # rest" by (cases rounds) auto
  obtain n where n: "rbind tip py_int = Inr n" "0 \<le> n" "answering w get" using good by (auto simp: rounds good_round_def)
  have "list_all (\<lambda>r. honest_get w (snd r) \<and> good_round w r) rest"
    using assms good by (simp add: rounds list_all_iff)
  note rest = poll_rounds_complete [OF this n(2)]
  have "map bh_number (poll_blocks w get [n..n]) = [n]"
    using poll_blocks_complete [OF _ n(3), of "[n..n]"] assms by (simp add: rounds)
  moreover have "Max (round_tip ` set rounds) = fold max (map round_tip rest) n"
  proof -
    have "round_tip ` set rounds = set (n # map round_tip rest)" using n(1) by (simp add: rounds round_tip_def)
    then show ?thesis by (simp only: Max.set_eq_fold)
  qed
  moreover have "[n] @ [n + 1..fold max (map round_tip rest) n] = [n..fold max (map round_tip rest) n]"
    using fold_max_ge [of n "map round_tip rest"] by (simp add: upto_rec1)
  ultimately show "map bh_number (fst (evm_poll_heads w rounds)) = [round_tip (hd rounds)..Max (round_tip ` set rounds)]"
      "snd (evm_poll_heads w rounds) = None"
    using rest n by (auto simp: evm_poll_heads_def rounds poll_round_def round_tip_def split: prod.splits)
qed

definition ex_rounds :: "(pv res \<times> (int \<Rightarrow> pv res)) list" where
  "ex_rounds =
     (let get = (\<lambda>n. Inr (PDict [(''number'', PInt n), (''hash'', PStr ''h''), (''parentHash'', PStr ''p''), (''timestamp'', PInt 0)]))
      in [(Inr (PInt 31), get), (Inr (PInt 30), get), (Inr (PInt 33), get)])"

theorem poll_heads_numbers_witness: "map bh_number (fst (evm_poll_heads ex_web3 ex_rounds)) = [31, 32, 33]"
proof -
  have "list_all (\<lambda>r. honest_get ex_web3 (snd r)) ex_rounds" "list_all (good_round ex_web3) ex_rounds"
    by (simp_all add: ex_rounds_def Let_def honest_get_def good_round_def answering_def parse_header_def d_index_def)
  moreover have "round_tip ` set ex_rounds = {31, 30, 33}" "round_tip (hd ex_rounds) = 31"
    by (simp_all add: ex_rounds_def Let_def round_tip_def)
  moreover have "ex_rounds \<noteq> []" by (simp add: ex_rounds_def Let_def)
  ultimately have "map bh_number (fst (evm_poll_heads ex_web3 ex_rounds)) = [31..33]"
    using poll_heads_numbers [of ex_web3 ex_rounds] by simp
  then show ?thesis by (simp add: upto_rec1)
qed

text \<open>
  C34. The errors of the adapter's log queries never make the runner ask for less: whatever the nodes
  answer, at whatever state of the pool, a failed query is not one that \<open>_fetch_logs_with_degrade\<close>
  splits, so exactly one range is asked for.
\<close>

theorem adapter_errors_final:
  "snd (fetch_logs_with_degrade (\<lambda>x y. fst (evm_fetch_logs w (ad x y) x y as ts (now x y))) start stop) = [(start, stop)]"
proof (cases "fst (evm_fetch_logs w (ad start stop) start stop as ts (now start stop))")
  case (Inl e)
  then have "\<not> degradable e" using fetch_logs_exn adapter_exn_not_degradable by blast
  then show ?thesis using Inl by (simp add: fetch_logs_with_degrade.simps [of _ start stop])
next
  case (Inr logs)
  then show ?thesis by (simp add: fetch_logs_with_degrade.simps [of _ start stop])
qed

text \<open>
  A trace is read as the call tree it describes, cut off below 65 levels; a tree of at most 65
  levels is read whole. A failed or empty answer is no trace.
\<close>

theorem traces_read:
  assumes "call_ok c"
  shows "(direct a (w3_request w ''debug_traceTransaction'' (trace_params h)) now = Inr (PDict [(''result'', call_json c)]) \<longrightarrow>
       trace_transaction w a h now = Inr (prune 65 c)) \<and>
     (direct a (w3_request w ''debug_traceTransaction'' (trace_params h)) now \<in> {Inl e, Inr (PDict [(''error'', err)])} \<longrightarrow>
       trace_transaction w a h now = Inr None) \<and>
     (call_height c \<le> 65 \<longrightarrow> prune 65 c = Some c)"
proof -
  have "call_json c \<noteq> PNone" by (cases c) simp
  then show ?thesis
    using parse_call_json [OF assms, of 65] prune_id [of c 65] by (auto simp: trace_transaction_def pv_get_or_def)
qed

definition ex_call :: InternalCall where
  "ex_call = InternalCall ''CALL'' ''0xa'' (Some ''0xb'') 5 100 ''0x'' ''0x'' None
     [InternalCall ''CREATE'' ''0xb'' None 0 50 ''0x60'' ''0x'' (Some ''reverted'') [] (Some ''0xc'')] None"

definition ex_traced :: Web3 where
  "ex_traced = ex_web3\<lparr>w3_request := (\<lambda>m p h t. (Inr (PDict [(''result'', call_json ex_call)]), 0))\<rparr>"

theorem traces_read_witness: "trace_transaction ex_traced ex_adapter ''0x01'' 1 = Inr (Some ex_call)"
proof -
  have "call_ok ex_call" by code_simp
  moreover have "call_height ex_call \<le> 65" by (simp add: ex_call_def)
  moreover have "direct ex_adapter (w3_request ex_traced ''debug_traceTransaction'' (trace_params ''0x01'')) 1 =
      Inr (PDict [(''result'', call_json ex_call)])"
    by (simp add: direct_def ex_adapter_def ex_traced_def)
  ultimately show ?thesis using traces_read [of ex_call ex_adapter ex_traced "''0x01''" 1] by simp
qed

end
