(* ===== verification/Solana_Adapter.thy ===== *)
theory Solana_Adapter
  imports Solana_Runner Rpc_Pool
begin

text \<open>
  \<^verbatim>\<open>core/chains/solana.py\<close>: the adapter for Solana nodes. A query is a JSON body posted through the
  endpoint pool; the answer is a dynamic value. The HTTP client and the solders package are parameters.

  The lemmas show that a block comes out as the node described it, as far as its accounts are all in the
  transaction, which slots the two sources of heads yield, and what becomes of an answer that is an
  error.
\<close>

section \<open>What the adapter calls\<close>

text \<open>
  \<open>sl_post\<close> posts a body to a URL and gives the decoded JSON of a successful HTTP answer; \<open>sl_slot\<close> is
  the \<open>getSlot\<close> request of solders and its parser; \<open>sl_level\<close> the text of a commitment level; \<open>sl_text\<close>
  is \<open>repr\<close>.
\<close>

record SolanaLib =
  sl_post :: "pv \<Rightarrow> (string, pv) rpc"
  sl_get_slot :: "string \<Rightarrow> (string, pv) rpc"
  sl_slot :: "pv \<Rightarrow> int res"
  sl_level :: "string \<Rightarrow> string"
  sl_text :: "pv \<Rightarrow> string"

definition COMMITMENT_MAP :: "string list" where
  "COMMITMENT_MAP = [''confirmed'', ''finalized'']"

record SolanaAdapter =
  so_chain_id :: string
  so_http_urls :: "string list"
  so_rpc_ws :: "string option"
  so_commitment :: string
  so_poll_interval_s :: real
  so_rpc_timeout_s :: real
  so_failure_threshold :: int
  so_cooldown_s :: real
  so_pool :: "string EndpointPool option"

definition solana_adapter_init ::
  "string \<Rightarrow> string \<Rightarrow> string \<Rightarrow> int \<Rightarrow> string option \<Rightarrow> string list \<Rightarrow> int \<Rightarrow> int \<Rightarrow> real \<Rightarrow> SolanaAdapter res" where
  "solana_adapter_init chain_id rpc_http commitment poll_interval_ms rpc_ws fallbacks rpc_timeout_ms
     failure_threshold cooldown_s =
     (if commitment \<in> set COMMITMENT_MAP then
        Inr \<lparr>so_chain_id = chain_id, so_http_urls = rpc_http # fallbacks, so_rpc_ws = rpc_ws,
             so_commitment = commitment, so_poll_interval_s = of_int poll_interval_ms / 1000,
             so_rpc_timeout_s = of_int rpc_timeout_ms / 1000, so_failure_threshold = failure_threshold,
             so_cooldown_s = cooldown_s, so_pool = None\<rparr>
      else Inl KeyError)"

definition solana_connect :: "SolanaAdapter \<Rightarrow> SolanaAdapter res" where
  "solana_connect a =
     rbind (pool_init (so_chain_id a) (so_http_urls a) (so_rpc_timeout_s a) (so_failure_threshold a) (so_cooldown_s a))
       (\<lambda>p. Inr (a\<lparr>so_pool := Some p\<rparr>))"

definition solana_disconnect :: "SolanaAdapter \<Rightarrow> SolanaAdapter" where
  "solana_disconnect a = a\<lparr>so_pool := None\<rparr>"

definition sol_pooled :: "SolanaAdapter \<Rightarrow> (string, pv) rpc \<Rightarrow> real \<Rightarrow> pv res \<times> SolanaAdapter \<times> real" where
  "sol_pooled a fn now =
     (case so_pool a of
        None \<Rightarrow> (Inl AssertionError, a, now)
      | Some p \<Rightarrow> (case pool_call fn p now of (r, p', t) \<Rightarrow> (r, a\<lparr>so_pool := Some p'\<rparr>, t)))"

definition get_latest_slot :: "SolanaLib \<Rightarrow> SolanaAdapter \<Rightarrow> real \<Rightarrow> int res \<times> SolanaAdapter \<times> real" where
  "get_latest_slot L a now =
     (case sol_pooled a (sl_get_slot L (so_commitment a)) now of (r, a', t) \<Rightarrow> (rbind r (sl_slot L), a', t))"

section \<open>Reading a block\<close>

text \<open>A number of the answer that the code uses without conversion.\<close>

fun pv_int :: "pv \<Rightarrow> int res" where
  "pv_int (PInt n) = Inr n"
| "pv_int (PBool b) = Inr (if b then 1 else 0)"
| "pv_int v = Inl TypeError"

definition opt_int :: "pv \<Rightarrow> int option res" where
  "opt_int v = (if v = PNone then Inr None else rbind (pv_int v) (\<lambda>n. Inr (Some n)))"

definition opt_str :: "pv \<Rightarrow> string option res" where
  "opt_str v = (if v = PNone then Inr None else rbind (pv_str v) (\<lambda>s. Inr (Some s)))"

text \<open>\<open>v or d\<close>\<close>

definition or_else :: "pv \<Rightarrow> pv \<Rightarrow> pv" where
  "or_else v d = (if py_truthy v then v else d)"

fun is_dict :: "pv \<Rightarrow> bool" where
  "is_dict (PDict d) = True"
| "is_dict v = False"

text \<open>\<open>for x in v.get(k, [])\<close>\<close>

definition each_of :: "pv \<Rightarrow> string \<Rightarrow> pv list res" where
  "each_of v k = rbind (pv_get_or v k (PList [])) py_iter"

text \<open>\<open>for x in v.get(k) or []\<close>\<close>

definition each_or_none :: "pv \<Rightarrow> string \<Rightarrow> pv list res" where
  "each_or_none v k = rbind (pv_get_or v k (PList [])) (\<lambda>x. py_iter (or_else x (PList [])))"

definition account_key :: "pv \<Rightarrow> string res" where
  "account_key k = (case k of PStr s \<Rightarrow> Inr s | _ \<Rightarrow> rbind (pv_get_or k ''pubkey'' (PStr [])) pv_str)"

definition resolve_program :: "string list \<Rightarrow> int \<Rightarrow> string res" where
  "resolve_program keys i = (if i < int (length keys) then py_nth keys i else Inr [])"

definition resolve_accounts :: "string list \<Rightarrow> int list \<Rightarrow> string list res" where
  "resolve_accounts keys is = rmap (py_nth keys) (filter (\<lambda>i. i < int (length keys)) is)"

definition parse_instruction :: "string list \<Rightarrow> int \<Rightarrow> pv \<Rightarrow> SolanaInstruction res" where
  "parse_instruction keys depth ix =
     rbind (rbind (pv_get_or ix ''programIdIndex'' (PInt 0)) pv_int) (\<lambda>prog_idx.
     rbind (resolve_program keys prog_idx) (\<lambda>prog_id.
     rbind (rbind (each_of ix ''accounts'') (rmap pv_int)) (\<lambda>acct_indices.
     rbind (resolve_accounts keys acct_indices) (\<lambda>accounts.
     rbind (rbind (pv_get_or ix ''data'' (PStr [])) pv_str) (\<lambda>data.
       Inr \<lparr>ix_program_id = prog_id, ix_accounts = accounts, ix_data_b58 = data, ix_stack_depth = depth\<rparr>)))))"

definition parse_inner :: "string list \<Rightarrow> pv \<Rightarrow> SolanaInstruction list res" where
  "parse_inner keys inner =
     rbind (each_of inner ''instructions'') (rmap (\<lambda>ix.
       rbind (parse_instruction keys 0 ix) (\<lambda>parsed.
       rbind (rbind (pv_get_or inner ''index'' (PInt 0)) pv_int) (\<lambda>i.
         Inr (parsed\<lparr>ix_stack_depth := i + 2\<rparr>)))))"

definition parse_token_balance :: "pv \<Rightarrow> SolanaTokenBalance res" where
  "parse_token_balance tb =
     rbind (pv_get_or tb ''uiTokenAmount'' (PDict [])) (\<lambda>amt_info.
     rbind (rbind (pv_get_or tb ''accountIndex'' (PInt 0)) pv_int) (\<lambda>i.
     rbind (rbind (pv_get_or tb ''mint'' (PStr [])) pv_str) (\<lambda>mint.
     rbind (rbind (pv_get_or tb ''owner'' PNone) opt_str) (\<lambda>owner.
     rbind (rbind (pv_get_or amt_info ''amount'' (PStr ''0'')) py_int) (\<lambda>amount.
     rbind (rbind (pv_get_or amt_info ''decimals'' (PInt 0)) pv_int) (\<lambda>decimals.
       Inr \<lparr>tb_account_index = i, tb_mint = mint, tb_owner = owner, tb_amount = amount, tb_decimals = decimals\<rparr>))))))"

definition parse_token_balances :: "pv \<Rightarrow> SolanaTokenBalance list res" where
  "parse_token_balances raw = rbind (py_iter (or_else raw (PList []))) (rmap parse_token_balance)"

text \<open>\<open>signatures[0] if signatures else ""\<close>\<close>

definition first_signature :: "pv \<Rightarrow> string res" where
  "first_signature v =
     (if py_truthy v then
        (case v of PList (x # xs) \<Rightarrow> pv_str x | PStr (c # cs) \<Rightarrow> Inr [c] | PDict d \<Rightarrow> Inl KeyError | _ \<Rightarrow> Inl TypeError)
      else Inr [])"

text \<open>One transaction, \<open>None\<close> when it is skipped because it is not an object.\<close>

definition parse_sol_tx :: "int \<Rightarrow> pv \<Rightarrow> SolanaTransaction option res" where
  "parse_sol_tx slot tx_obj =
     rbind (pv_get_or tx_obj ''meta'' (PDict [])) (\<lambda>m.
     let meta = or_else m (PDict []) in
     rbind (pv_get_or tx_obj ''transaction'' (PDict [])) (\<lambda>tx_data.
     if \<not> is_dict tx_data then Inr None else
     rbind (pv_get_or tx_data ''message'' (PDict [])) (\<lambda>msg.
     if \<not> is_dict msg then Inr None else
     rbind (rbind (pv_get_or tx_data ''signatures'' (PList [])) first_signature) (\<lambda>sig.
     rbind (rbind (each_of msg ''accountKeys'') (rmap account_key)) (\<lambda>keys.
     rbind (rbind (each_of msg ''instructions'') (rmap (parse_instruction keys 1))) (\<lambda>outer.
     rbind (rbind (each_or_none meta ''innerInstructions'') (rmap (parse_inner keys))) (\<lambda>inner.
     rbind (pv_get_or meta ''err'' PNone) (\<lambda>err.
     rbind (rbind (pv_get_or meta ''fee'' (PInt 0)) pv_int) (\<lambda>fee.
     rbind (rbind (each_of meta ''preBalances'') (rmap pv_int)) (\<lambda>pre.
     rbind (rbind (each_of meta ''postBalances'') (rmap pv_int)) (\<lambda>post.
     rbind (rbind (pv_get_or meta ''preTokenBalances'' PNone) parse_token_balances) (\<lambda>pre_tok.
     rbind (rbind (pv_get_or meta ''postTokenBalances'' PNone) parse_token_balances) (\<lambda>post_tok.
     rbind (rbind (each_or_none meta ''logMessages'') (rmap pv_str)) (\<lambda>logs.
       Inr (Some \<lparr>st_signature = sig, st_slot = slot,
         st_success = (err = PNone), st_fee = fee, st_account_keys = keys, st_pre_balances = pre,
         st_post_balances = post, st_pre_token_balances = pre_tok, st_post_token_balances = post_tok,
         st_log_messages = logs, st_instructions = outer @ concat inner\<rparr>)))))))))))))))"

definition parse_sol_block :: "int \<Rightarrow> pv \<Rightarrow> SolanaBlock res" where
  "parse_sol_block slot result =
     rbind (rbind (each_of result ''transactions'') (rmap (parse_sol_tx slot))) (\<lambda>txs.
     rbind (rbind (pv_get_or result ''blockhash'' (PStr [])) pv_str) (\<lambda>h.
     rbind (rbind (pv_get_or result ''parentSlot'' (PInt (slot - 1))) pv_int) (\<lambda>parent.
     rbind (rbind (pv_get_or result ''blockTime'' PNone) opt_int) (\<lambda>ts.
       Inr \<lparr>sb_slot = slot, sb_block_hash = h, sb_parent_slot = parent, sb_block_time = ts,
            sb_transactions = List.map_filter id txs\<rparr>))))"

section \<open>Queries\<close>

definition rpc_body :: "string \<Rightarrow> pv list \<Rightarrow> pv" where
  "rpc_body meth params =
     PDict [(''jsonrpc'', PStr ''2.0''), (''id'', PInt 1), (''method'', PStr meth), (''params'', PList params)]"

text \<open>What \<open>fetch_block\<close> makes of the body it got.\<close>

definition read_block_body :: "SolanaLib \<Rightarrow> int \<Rightarrow> pv \<Rightarrow> SolanaBlock option res" where
  "read_block_body L slot body =
     (case body of
        PDict d \<Rightarrow>
          (case d_get d ''error'' of
             Some e \<Rightarrow> Inl (RuntimeError (''RPC error: '' @ sl_text L e))
           | None \<Rightarrow>
               (let result = d_get_default d ''result'' PNone
                in if result = PNone then Inr None
                   else rbind (parse_sol_block slot result) (\<lambda>b. Inr (Some b))))
      | _ \<Rightarrow> Inl (RuntimeError ''RPC answer is not a dict''))"

definition block_request :: "SolanaLib \<Rightarrow> SolanaAdapter \<Rightarrow> int \<Rightarrow> pv" where
  "block_request L a slot =
     rpc_body ''getBlock'' [PInt slot,
       PDict [(''commitment'', PStr (lower (sl_level L (so_commitment a)))), (''encoding'', PStr ''json''),
         (''transactionDetails'', PStr ''full''), (''rewards'', PBool False), (''maxSupportedTransactionVersion'', PInt 0)]]"

definition solana_fetch_block ::
  "SolanaLib \<Rightarrow> SolanaAdapter \<Rightarrow> int \<Rightarrow> real \<Rightarrow> SolanaBlock option res \<times> SolanaAdapter \<times> real" where
  "solana_fetch_block L a slot now =
     (case sol_pooled a (sl_post L (block_request L a slot)) now of
        (r, a', t) \<Rightarrow> (rbind r (read_block_body L slot), a', t))"

text \<open>\<open>list(body.get("result") or [])\<close>: an error in the body is not looked at.\<close>

definition read_slots_body :: "pv \<Rightarrow> int list res" where
  "read_slots_body body =
     (if is_dict body
      then rbind (pv_get_or body ''result'' PNone) (\<lambda>v. rbind (py_iter (or_else v (PList []))) (rmap pv_int))
      else Inl (RuntimeError ''RPC answer is not a dict''))"

definition slots_request :: "int \<Rightarrow> int \<Rightarrow> pv" where
  "slots_request start_slot end_slot =
     rpc_body ''getBlocks'' [PInt start_slot, PInt end_slot, PDict [(''commitment'', PStr ''finalized'')]]"

definition get_blocks ::
  "SolanaLib \<Rightarrow> SolanaAdapter \<Rightarrow> int \<Rightarrow> int \<Rightarrow> real \<Rightarrow> int list res \<times> SolanaAdapter \<times> real" where
  "get_blocks L a start_slot end_slot now =
     (case sol_pooled a (sl_post L (slots_request start_slot end_slot)) now of
        (r, a', t) \<Rightarrow> (rbind r read_slots_body, a', t))"

section \<open>Heads\<close>

datatype SlotSource = WsSlots string | PollSlots

definition solana_subscribe_heads :: "SolanaAdapter \<Rightarrow> SlotSource" where
  "solana_subscribe_heads a = (case so_rpc_ws a of Some u \<Rightarrow> WsSlots u | None \<Rightarrow> PollSlots)"

text \<open>\<open>if slot > last_slot: yield every slot since; last_slot = slot\<close>, in both sources.\<close>

definition slots_since :: "int \<Rightarrow> int \<Rightarrow> int list \<times> int" where
  "slots_since seen current = (if current > seen then ([seen + 1..current], current) else ([], seen))"

text \<open>The rounds of \<open>_poll\<close>: what \<open>get_latest_slot\<close> answers in each; an error is logged and slept over.\<close>

fun poll_slots :: "int res list \<Rightarrow> int \<Rightarrow> int list" where
  "poll_slots [] seen = []"
| "poll_slots (Inl e # rest) seen = poll_slots rest seen"
| "poll_slots (Inr current # rest) seen =
     (case slots_since seen current of (ss, seen') \<Rightarrow> ss @ poll_slots rest seen')"

definition solana_poll_heads :: "int res list \<Rightarrow> int list" where
  "solana_poll_heads rounds = poll_slots rounds 0"

text \<open>
  The slot of a message: \<open>None\<close> when it carries none. A message that is not an object raises.
\<close>

definition ws_slot :: "pv \<Rightarrow> int option res" where
  "ws_slot data =
     rbind (pv_get_or data ''params'' (PDict [])) (\<lambda>params.
     rbind (pv_get_or params ''result'' (PDict [])) (\<lambda>result.
     rbind (pv_get_or result ''slot'' PNone) (\<lambda>slot.
       Inr (case slot of PInt n \<Rightarrow> Some n | PBool b \<Rightarrow> Some (if b then 1 else 0) | _ \<Rightarrow> None))))"

text \<open>
  A session on the WebSocket: whether it could be opened, its decoded messages (or the error of
  receiving or decoding one), and whether it ended with an exception. The result is the slots, the last
  one, and whether an exception ended the session.
\<close>

fun ws_messages :: "pv res list \<Rightarrow> int \<Rightarrow> int list \<times> int \<times> bool" where
  "ws_messages [] seen = ([], seen, False)"
| "ws_messages (msg # rest) seen =
     (case rbind msg ws_slot of
        Inl e \<Rightarrow> ([], seen, True)
      | Inr None \<Rightarrow> ws_messages rest seen
      | Inr (Some slot) \<Rightarrow>
          (case slots_since seen slot of (ss, seen') \<Rightarrow>
             (case ws_messages rest seen' of (ss', l, failed) \<Rightarrow> (ss @ ss', l, failed))))"

text \<open>The reconnecting loop: the slots, and the pauses after sessions that failed.\<close>

fun ws_sessions :: "(bool \<times> pv res list) list \<Rightarrow> real \<Rightarrow> int \<Rightarrow> int list \<times> real list" where
  "ws_sessions [] backoff seen = ([], [])"
| "ws_sessions ((opened, msgs) # rest) backoff seen =
     (if opened then
        (case ws_messages msgs seen of
           (ss, seen', failed) \<Rightarrow>
             (case ws_sessions rest (if failed then min (1 * 4) 60 else 1) seen' of
                (ss', ps) \<Rightarrow> (ss @ ss', (if failed then [1] else []) @ ps)))
      else (case ws_sessions rest (min (backoff * 4) 60) seen of (ss', ps) \<Rightarrow> (ss', backoff # ps)))"

definition solana_ws_heads :: "(bool \<times> pv res list) list \<Rightarrow> int list \<times> real list" where
  "solana_ws_heads sessions = ws_sessions sessions 1 0"

section \<open>Slots of the heads\<close>

lemma poll_slots_range:
  "poll_slots rounds seen = [seen + 1..Max (insert seen {n. Inr n \<in> set rounds})]"
proof (induction rounds arbitrary: seen)
  case (Cons r rounds)
  have fin: "finite {n. Inr n \<in> set (rounds :: int res list)}"
  proof -
    have "{n. Inr n \<in> set rounds} = Inr -` set rounds" by auto
    then show ?thesis by (simp add: finite_vimageI)
  qed
  show ?case
  proof (cases r)
    case (Inl e)
    then show ?thesis using Cons.IH by simp
  next
    case (Inr current)
    let ?N = "{n. Inr n \<in> set rounds}"
    have set: "{n. Inr n \<in> set (r # rounds)} = insert current ?N" using Inr by auto
    show ?thesis
    proof (cases "seen < current")
      case True
      have "Max (insert seen (insert current ?N)) = Max (insert current ?N)"
        using True fin by (cases "?N = {}") (auto simp: Max.insert max_def)
      moreover have "[seen + 1..current] @ [current + 1..Max (insert current ?N)] = [seen + 1..Max (insert current ?N)]"
        using True fin by (intro upto_split2 [symmetric]) (auto intro: Max_ge)
      ultimately show ?thesis using True Cons.IH [of current] Inr set by (simp add: slots_since_def)
    next
      case False
      then have "Max (insert seen (insert current ?N)) = Max (insert seen ?N)"
        using fin by (cases "?N = {}") (auto simp: Max.insert max_def)
      then show ?thesis using False Cons.IH [of seen] Inr set by (simp add: slots_since_def)
    qed
  qed
qed simp

text \<open>The slots of the messages up to the one that fails.\<close>

fun message_slots :: "pv res list \<Rightarrow> int list" where
  "message_slots [] = []"
| "message_slots (msg # rest) =
     (case rbind msg ws_slot of
        Inl e \<Rightarrow> []
      | Inr None \<Rightarrow> message_slots rest
      | Inr (Some n) \<Rightarrow> n # message_slots rest)"

definition session_slots :: "(bool \<times> pv res list) list \<Rightarrow> int list" where
  "session_slots sessions = concat (map (\<lambda>(opened, msgs). if opened then message_slots msgs else []) sessions)"

text \<open>Both sources are the same function of the slots they hear of.\<close>

lemma poll_slots_append:
  "poll_slots (map Inr (ns @ ms)) seen = poll_slots (map Inr ns) seen @ poll_slots (map Inr ms) (fold max ns seen)"
  by (induction ns arbitrary: seen) (auto simp: slots_since_def max_def)

lemma ws_messages_slots:
  "fst (ws_messages msgs seen) = poll_slots (map Inr (message_slots msgs)) seen \<and>
   fst (snd (ws_messages msgs seen)) = fold max (message_slots msgs) seen"
  by (induction msgs arbitrary: seen)
    (auto simp: slots_since_def max_def case_prod_beta split: sum.splits option.splits)

lemma ws_sessions_slots: "fst (ws_sessions sessions backoff seen) = poll_slots (map Inr (session_slots sessions)) seen"
proof (induction sessions arbitrary: backoff seen)
  case (Cons s sessions)
  obtain opened msgs where s: "s = (opened, msgs)" by (cases s)
  obtain ss seen' failed where m: "ws_messages msgs seen = (ss, seen', failed)" by (metis prod.collapse)
  have "ss = poll_slots (map Inr (message_slots msgs)) seen" "seen' = fold max (message_slots msgs) seen"
    using ws_messages_slots [of msgs seen] m by simp_all
  then show ?case
    using Cons.IH poll_slots_append [of "message_slots msgs" "session_slots sessions" seen] m
    by (auto simp: s session_slots_def case_prod_beta)
qed (simp add: session_slots_def)

lemma ws_sessions_pauses:
  "1 \<le> backoff \<Longrightarrow> backoff \<le> 60 \<Longrightarrow> \<forall>p \<in> set (snd (ws_sessions sessions backoff seen)). 1 \<le> p \<and> p \<le> 60"
proof (induction sessions arbitrary: backoff seen)
  case (Cons s sessions)
  obtain opened msgs where s: "s = (opened, msgs)" by (cases s)
  show ?case
  proof (cases opened)
    case True
    obtain ss seen' failed where m: "ws_messages msgs seen = (ss, seen', failed)" by (metis prod.collapse)
    have "\<forall>p \<in> set (snd (ws_sessions sessions (if failed then 4 else 1) seen')). 1 \<le> p \<and> p \<le> 60"
      by (rule Cons.IH) auto
    then show ?thesis using True m by (auto simp: s case_prod_beta)
  next
    case False
    have "\<forall>p \<in> set (snd (ws_sessions sessions (min (backoff * 4) 60) seen)). 1 \<le> p \<and> p \<le> 60"
      using Cons.prems by (intro Cons.IH) auto
    then show ?thesis using False Cons.prems by (auto simp: s case_prod_beta)
  qed
qed simp

section \<open>Blocks\<close>

lemma parse_sol_block_slot: "parse_sol_block slot result = Inr b \<Longrightarrow> sb_slot b = slot"
  by (auto simp: parse_sol_block_def rbind_Inr_iff)

text \<open>The adapter labels a block with the slot it was asked for.\<close>

lemma read_block_slot: "read_block_body L slot body = Inr (Some b) \<Longrightarrow> sb_slot b = slot"
  by (cases body) (auto simp: read_block_body_def Let_def rbind_Inr_iff parse_sol_block_slot split: option.splits if_splits)

lemma fetch_block_slot: "fst (solana_fetch_block L a slot now) = Inr (Some b) \<Longrightarrow> sb_slot b = slot"
  by (auto simp: solana_fetch_block_def rbind_Inr_iff read_block_slot split: prod.splits)

lemma adapter_honest_slot_blocks:
  "honest_slot_blocks (env\<lparr>re_slot := \<lambda>s. fst (solana_fetch_block L (ad s) s (now s))\<rparr>)"
  by (auto simp: honest_slot_blocks_def dest: fetch_block_slot)

text \<open>
  Accounts are found by their position among the keys of the message. An index beyond them, which a
  versioned transaction uses for the accounts of its lookup tables, is left out, and the accounts after
  it move up.
\<close>

lemma resolve_accounts_eq:
  "\<forall>i \<in> set is. 0 \<le> i \<Longrightarrow>
   resolve_accounts keys is = Inr (map (\<lambda>i. keys ! nat i) (filter (\<lambda>i. i < int (length keys)) is))"
  unfolding resolve_accounts_def by (rule rmap_total) (auto simp: py_nth_def)

lemma lookup_accounts_dropped:
  "resolve_accounts [''source'', ''owner''] [0, 5, 1] = Inr [''source'', ''owner'']"
  by (simp add: resolve_accounts_eq)

section \<open>What an honest node answers\<close>

definition key_at :: "string list \<Rightarrow> int \<Rightarrow> string \<Rightarrow> bool" where
  "key_at keys i k \<longleftrightarrow> 0 \<le> i \<and> i < int (length keys) \<and> keys ! nat i = k"

definition ix_answer :: "string list \<Rightarrow> pv \<Rightarrow> SolanaInstruction \<Rightarrow> bool" where
  "ix_answer keys raw ix \<longleftrightarrow>
     (\<exists>d p as. raw = PDict d \<and> d_get d ''programIdIndex'' = Some (PInt p) \<and> key_at keys p (ix_program_id ix) \<and>
        d_get d ''accounts'' = Some (PList (map PInt as)) \<and> list_all2 (key_at keys) as (ix_accounts ix) \<and>
        d_get d ''data'' = Some (PStr (ix_data_b58 ix)))"

definition inner_answer :: "string list \<Rightarrow> pv \<Rightarrow> SolanaInstruction list \<Rightarrow> bool" where
  "inner_answer keys raw ixs \<longleftrightarrow>
     (\<exists>d i rs. raw = PDict d \<and> d_get d ''index'' = Some (PInt i) \<and> d_get d ''instructions'' = Some (PList rs) \<and>
        list_all2 (\<lambda>r ix. ix_answer keys r ix \<and> ix_stack_depth ix = i + 2) rs ixs)"

definition balance_answer :: "pv \<Rightarrow> SolanaTokenBalance \<Rightarrow> bool" where
  "balance_answer raw tb \<longleftrightarrow>
     (\<exists>d a. raw = PDict d \<and> d_get d ''uiTokenAmount'' = Some (PDict a) \<and>
        d_get d ''accountIndex'' = Some (PInt (tb_account_index tb)) \<and> d_get d ''mint'' = Some (PStr (tb_mint tb)) \<and>
        d_get d ''owner'' = map_option PStr (tb_owner tb) \<and>
        d_get a ''amount'' = Some (PStr (int_str (tb_amount tb))) \<and> d_get a ''decimals'' = Some (PInt (tb_decimals tb)))"

text \<open>The meta object, the message and the transaction; all accounts are in the message.\<close>

definition meta_answer :: "(string, pv) dict \<Rightarrow> SolanaTransaction \<Rightarrow> bool" where
  "meta_answer m st \<longleftrightarrow>
     (case d_get m ''err'' of None \<Rightarrow> st_success st | Some e \<Rightarrow> st_success st = (e = PNone)) \<and>
     d_get m ''fee'' = Some (PInt (st_fee st)) \<and>
     d_get m ''preBalances'' = Some (PList (map PInt (st_pre_balances st))) \<and>
     d_get m ''postBalances'' = Some (PList (map PInt (st_post_balances st))) \<and>
     (\<exists>bs. d_get m ''preTokenBalances'' = Some (PList bs) \<and> list_all2 balance_answer bs (st_pre_token_balances st)) \<and>
     (\<exists>bs. d_get m ''postTokenBalances'' = Some (PList bs) \<and> list_all2 balance_answer bs (st_post_token_balances st)) \<and>
     d_get m ''logMessages'' = Some (PList (map PStr (st_log_messages st)))"

definition sol_tx_answer :: "int \<Rightarrow> pv \<Rightarrow> SolanaTransaction \<Rightarrow> bool" where
  "sol_tx_answer slot raw st \<longleftrightarrow>
     (\<exists>o' m t g sigs outer inner ros ris. raw = PDict o' \<and>
        d_get o' ''meta'' = Some (PDict m) \<and> d_get o' ''transaction'' = Some (PDict t) \<and>
        d_get t ''message'' = Some (PDict g) \<and> d_get t ''signatures'' = Some (PList (PStr (st_signature st) # sigs)) \<and>
        d_get g ''accountKeys'' = Some (PList (map PStr (st_account_keys st))) \<and>
        d_get g ''instructions'' = Some (PList ros) \<and>
        list_all2 (\<lambda>r ix. ix_answer (st_account_keys st) r ix \<and> ix_stack_depth ix = 1) ros outer \<and>
        d_get m ''innerInstructions'' = Some (PList ris) \<and> list_all2 (inner_answer (st_account_keys st)) ris inner \<and>
        st_instructions st = outer @ concat inner \<and> st_slot st = slot \<and> meta_answer m st)"

definition sol_block_answer :: "pv \<Rightarrow> SolanaBlock \<Rightarrow> bool" where
  "sol_block_answer raw b \<longleftrightarrow>
     (\<exists>d rs. raw = PDict d \<and> d_get d ''transactions'' = Some (PList rs) \<and>
        list_all2 (sol_tx_answer (sb_slot b)) rs (sb_transactions b) \<and>
        d_get d ''blockhash'' = Some (PStr (sb_block_hash b)) \<and> d_get d ''parentSlot'' = Some (PInt (sb_parent_slot b)) \<and>
        d_get d ''blockTime'' = map_option PInt (sb_block_time b))"

lemma rmap_all2:
  assumes "list_all2 R xs ys" and "\<And>x y. R x y \<Longrightarrow> f x = Inr (g y)"
  shows "rmap f xs = Inr (map g ys)"
  using assms(1) by (induction rule: list_all2_induct) (simp_all add: assms(2))

lemma rmap_all2_id: "list_all2 R xs ys \<Longrightarrow> (\<And>x y. R x y \<Longrightarrow> f x = Inr y) \<Longrightarrow> rmap f xs = Inr ys"
  using rmap_all2 [of R xs ys f id] by simp

lemma rmap_consts [simp]: "rmap pv_int (map PInt ns) = Inr ns" "rmap pv_str (map PStr ss) = Inr ss"
    "rmap account_key (map PStr ss) = Inr ss"
proof -
  show "rmap pv_int (map PInt ns) = Inr ns" by (induction ns) simp_all
  show "rmap pv_str (map PStr ss) = Inr ss" "rmap account_key (map PStr ss) = Inr ss"
    by (induction ss) (simp_all add: account_key_def)
qed

lemma iter_or_else [simp]: "py_iter (or_else (PList xs) (PList [])) = Inr xs"
  by (simp add: or_else_def)

lemma parse_instruction_answer:
  assumes "ix_answer keys raw ix"
  shows "parse_instruction keys depth raw = Inr (ix\<lparr>ix_stack_depth := depth\<rparr>)"
proof -
  obtain d p as where r: "raw = PDict d" "d_get d ''programIdIndex'' = Some (PInt p)" "key_at keys p (ix_program_id ix)"
      "d_get d ''accounts'' = Some (PList (map PInt as))" "list_all2 (key_at keys) as (ix_accounts ix)"
      "d_get d ''data'' = Some (PStr (ix_data_b58 ix))"
    using assms unfolding ix_answer_def by blast
  have "filter (\<lambda>i. i < int (length keys)) as = as"
    using r(5) by (induction rule: list_all2_induct) (simp_all add: key_at_def)
  then have "resolve_accounts keys as = Inr (ix_accounts ix)"
    using rmap_all2_id [OF r(5), of "py_nth keys"] by (simp add: resolve_accounts_def key_at_def py_nth_def)
  moreover have "resolve_program keys p = Inr (ix_program_id ix)"
    using r(3) by (simp add: resolve_program_def key_at_def py_nth_def)
  ultimately show ?thesis using r by (simp add: parse_instruction_def pv_get_or_def each_of_def)
qed

lemma parse_inner_answer:
  assumes "inner_answer keys raw ixs"
  shows "parse_inner keys raw = Inr ixs"
proof -
  obtain d i rs where r: "raw = PDict d" "d_get d ''index'' = Some (PInt i)" "d_get d ''instructions'' = Some (PList rs)"
      "list_all2 (\<lambda>r ix. ix_answer keys r ix \<and> ix_stack_depth ix = i + 2) rs ixs"
    using assms unfolding inner_answer_def by blast
  have "rmap (\<lambda>ix. rbind (parse_instruction keys 0 ix) (\<lambda>parsed. Inr (parsed\<lparr>ix_stack_depth := i + 2\<rparr>))) rs = Inr ixs"
    by (rule rmap_all2_id [OF r(4)]) (auto simp: parse_instruction_answer)
  then show ?thesis using r by (simp add: parse_inner_def each_of_def pv_get_or_def)
qed

lemma parse_balance_answer: "balance_answer raw tb \<Longrightarrow> parse_token_balance raw = Inr tb"
  by (cases "tb_owner tb") (auto simp: balance_answer_def parse_token_balance_def pv_get_or_def opt_str_def int_of_string_int_str)

lemma parse_balances_answer: "list_all2 balance_answer bs tbs \<Longrightarrow> parse_token_balances (PList bs) = Inr tbs"
  using rmap_all2_id [OF _ parse_balance_answer] by (simp add: parse_token_balances_def)

lemma parse_sol_tx_answer:
  assumes "sol_tx_answer slot raw st"
  shows "parse_sol_tx slot raw = Inr (Some st)"
proof -
  obtain o' m t g sigs outer inner ros ris where r: "raw = PDict o'" "d_get o' ''meta'' = Some (PDict m)"
      "d_get o' ''transaction'' = Some (PDict t)" "d_get t ''message'' = Some (PDict g)"
      "d_get t ''signatures'' = Some (PList (PStr (st_signature st) # sigs))"
      "d_get g ''accountKeys'' = Some (PList (map PStr (st_account_keys st)))"
      "d_get g ''instructions'' = Some (PList ros)"
      "list_all2 (\<lambda>r ix. ix_answer (st_account_keys st) r ix \<and> ix_stack_depth ix = 1) ros outer"
      "d_get m ''innerInstructions'' = Some (PList ris)" "list_all2 (inner_answer (st_account_keys st)) ris inner"
      "st_instructions st = outer @ concat inner" "st_slot st = slot" "meta_answer m st"
    using assms unfolding sol_tx_answer_def by blast
  have meta: "or_else (PDict m) (PDict []) = PDict m" using r(9) by (auto simp: or_else_def)
  have outer: "rmap (parse_instruction (st_account_keys st) 1) ros = Inr outer"
    by (rule rmap_all2_id [OF r(8)]) (auto simp: parse_instruction_answer)
  have inner: "rmap (parse_inner (st_account_keys st)) ris = Inr inner"
    by (rule rmap_all2_id [OF r(10)]) (simp add: parse_inner_answer)
  obtain pre post where tok: "d_get m ''preTokenBalances'' = Some (PList pre)" "parse_token_balances (PList pre) = Inr (st_pre_token_balances st)"
      "d_get m ''postTokenBalances'' = Some (PList post)" "parse_token_balances (PList post) = Inr (st_post_token_balances st)"
    using r(13) parse_balances_answer by (auto simp: meta_answer_def)
  have ok: "(case d_get m ''err'' of None \<Rightarrow> PNone | Some w \<Rightarrow> w) = PNone \<longleftrightarrow> st_success st"
    using r(13) by (auto simp: meta_answer_def split: option.splits)
  have "d_get m ''fee'' = Some (PInt (st_fee st))" "d_get m ''preBalances'' = Some (PList (map PInt (st_pre_balances st)))"
      "d_get m ''postBalances'' = Some (PList (map PInt (st_post_balances st)))"
      "d_get m ''logMessages'' = Some (PList (map PStr (st_log_messages st)))"
    using r(13) by (simp_all add: meta_answer_def)
  then show ?thesis
    using r(1-7,9,11,12) meta outer inner tok ok
    by (simp add: parse_sol_tx_def pv_get_or_def each_of_def each_or_none_def first_signature_def Let_def)
qed

lemma parse_sol_block_answer: "sol_block_answer raw b \<Longrightarrow> parse_sol_block (sb_slot b) raw = Inr b"
proof -
  assume "sol_block_answer raw b"
  then obtain d rs where r: "raw = PDict d" "d_get d ''transactions'' = Some (PList rs)"
      "list_all2 (sol_tx_answer (sb_slot b)) rs (sb_transactions b)" "d_get d ''blockhash'' = Some (PStr (sb_block_hash b))"
      "d_get d ''parentSlot'' = Some (PInt (sb_parent_slot b))" "d_get d ''blockTime'' = map_option PInt (sb_block_time b)"
    unfolding sol_block_answer_def by blast
  have "rmap (parse_sol_tx (sb_slot b)) rs = Inr (map Some (sb_transactions b))"
    by (rule rmap_all2 [OF r(3)]) (simp add: parse_sol_tx_answer)
  moreover have "List.map_filter id (map Some xs) = xs" for xs :: "SolanaTransaction list"
    by (induction xs) (simp_all add: List.map_filter_simps)
  ultimately show ?thesis
    using r by (cases "sb_block_time b") (simp_all add: parse_sol_block_def each_of_def pv_get_or_def opt_int_def)
qed

section \<open>Slots that are not listed\<close>

lemma catchup_nothing_listed:
  assumes "\<And>x y. get_blocks_classified env x y = Inr []" and "1 \<le> sn_slot_query_range_blocks chain"
  shows "nat (tip - start_s + 1) \<le> fuel \<Longrightarrow> catchup_slot_loop fuel env chain tip start_s reg = Some (Finished, [], reg)"
proof (induction fuel arbitrary: start_s)
  case (Suc fuel)
  define stop where "stop = min (start_s + sn_slot_query_range_blocks chain - 1) tip"
  have "nat (tip - (stop + 1) + 1) \<le> fuel" if "start_s \<le> tip" using Suc.prems that assms(2) by (auto simp: stop_def)
  then show ?case using Suc.IH [of "stop + 1"] assms(1) by (auto simp: stop_def [symmetric] Let_def)
qed simp

section \<open>Properties\<close>

text \<open>
  C33. A block is read faithfully: when the pool obtains the node's description of a block, with all
  accounts in the message, the adapter returns that block, under the slot it asked for. A null result
  is a skipped slot, and an error body raises.
\<close>

theorem solana_block_read:
  assumes "sol_pooled a (sl_post L (block_request L a slot)) now = (Inr (PDict d), a', t)"
  shows "(d_get d ''error'' = None \<and> d_get d ''result'' = Some raw \<and> sol_block_answer raw b \<and> sb_slot b = slot \<longrightarrow>
       solana_fetch_block L a slot now = (Inr (Some b), a', t)) \<and>
     (d_get d ''error'' = None \<and> d_get d ''result'' = Some PNone \<longrightarrow> solana_fetch_block L a slot now = (Inr None, a', t)) \<and>
     (d_get d ''error'' = Some e \<longrightarrow>
       solana_fetch_block L a slot now = (Inl (RuntimeError (''RPC error: '' @ sl_text L e)), a', t))"
proof -
  have "raw \<noteq> PNone" if "sol_block_answer raw b" using that by (auto simp: sol_block_answer_def)
  then show ?thesis
    using parse_sol_block_answer [of raw b]
    by (auto simp: solana_fetch_block_def assms read_block_body_def d_get_default_def)
qed

definition ex_sol_tx :: SolanaTransaction where
  "ex_sol_tx = \<lparr>st_signature = ''sig'', st_slot = 9, st_success = True, st_fee = 5000, st_account_keys = [''alice'', ''bob'', ''prog''],
     st_pre_balances = [10, 0], st_post_balances = [4, 6], st_pre_token_balances = [],
     st_post_token_balances = [\<lparr>tb_account_index = 1, tb_mint = ''m'', tb_owner = Some ''bob'', tb_amount = 12, tb_decimals = 6\<rparr>],
     st_log_messages = [''ok''],
     st_instructions = [\<lparr>ix_program_id = ''prog'', ix_accounts = [''alice'', ''bob''], ix_data_b58 = ''3Bxs'', ix_stack_depth = 1\<rparr>]\<rparr>"

definition ex_sol_block :: SolanaBlock where
  "ex_sol_block = \<lparr>sb_slot = 9, sb_block_hash = ''h9'', sb_parent_slot = 7, sb_block_time = Some 100, sb_transactions = [ex_sol_tx]\<rparr>"

definition ex_sol_raw :: pv where
  "ex_sol_raw = PDict [(''blockhash'', PStr ''h9''), (''parentSlot'', PInt 7), (''blockTime'', PInt 100),
     (''transactions'', PList [PDict [
        (''meta'', PDict [(''err'', PNone), (''fee'', PInt 5000), (''preBalances'', PList [PInt 10, PInt 0]),
           (''postBalances'', PList [PInt 4, PInt 6]), (''preTokenBalances'', PList []),
           (''postTokenBalances'', PList [PDict [(''accountIndex'', PInt 1), (''mint'', PStr ''m''), (''owner'', PStr ''bob''),
              (''uiTokenAmount'', PDict [(''amount'', PStr ''12''), (''decimals'', PInt 6)])]]),
           (''logMessages'', PList [PStr ''ok'']), (''innerInstructions'', PList [])]),
        (''transaction'', PDict [(''signatures'', PList [PStr ''sig'']),
           (''message'', PDict [(''accountKeys'', PList [PStr ''alice'', PStr ''bob'', PStr ''prog'']),
              (''instructions'', PList [PDict [(''programIdIndex'', PInt 2), (''accounts'', PList [PInt 0, PInt 1]),
                 (''data'', PStr ''3Bxs'')]])])])]])]"

definition ex_sol_lib :: SolanaLib where
  "ex_sol_lib = \<lparr>sl_post = (\<lambda>p u t. (Inr (PDict [(''result'', ex_sol_raw)]), 0)), sl_get_slot = (\<lambda>c u t. (Inr (PInt 9), 0)),
     sl_slot = pv_int, sl_level = id, sl_text = (\<lambda>v. ''e'')\<rparr>"

definition ex_sol_adapter :: SolanaAdapter where
  "ex_sol_adapter = \<lparr>so_chain_id = ''sol'', so_http_urls = [''u''], so_rpc_ws = None, so_commitment = ''finalized'',
     so_poll_interval_s = 2, so_rpc_timeout_s = 10, so_failure_threshold = 3, so_cooldown_s = 30,
     so_pool = Some \<lparr>pool_chain_id = ''sol'', pool_timeout_s = 10, pool_failure_threshold = 3, pool_cooldown_s = 30,
        pool_eps = [\<lparr>ep_handle = ''u'', ep_index = 0, ep_consecutive_failures = 0, ep_unhealthy_until = 0\<rparr>],
        pool_up = [(0, 1)], pool_failovers = 0\<rparr>\<rparr>"

lemma ex_sol_answer: "sol_block_answer ex_sol_raw ex_sol_block"
proof -
  have "int_str 12 = ''12''" by code_simp
  then have bal: "balance_answer (PDict [(''accountIndex'', PInt 1), (''mint'', PStr ''m''), (''owner'', PStr ''bob''),
      (''uiTokenAmount'', PDict [(''amount'', PStr ''12''), (''decimals'', PInt 6)])])
      \<lparr>tb_account_index = 1, tb_mint = ''m'', tb_owner = Some ''bob'', tb_amount = 12, tb_decimals = 6\<rparr>"
    by (simp add: balance_answer_def)
  have ix: "ix_answer [''alice'', ''bob'', ''prog''] (PDict [(''programIdIndex'', PInt 2), (''accounts'', PList [PInt 0, PInt 1]), (''data'', PStr ''3Bxs'')])
      \<lparr>ix_program_id = ''prog'', ix_accounts = [''alice'', ''bob''], ix_data_b58 = ''3Bxs'', ix_stack_depth = 1\<rparr>"
    unfolding ix_answer_def by (auto simp: key_at_def nth_Cons' intro!: exI [of _ "[0, 1]"])
  show ?thesis
    unfolding sol_block_answer_def ex_sol_raw_def ex_sol_block_def
    apply (simp add: sol_tx_answer_def ex_sol_tx_def meta_answer_def bal)
    using ix by (auto intro!: exI [of _ "[\<lparr>ix_program_id = ''prog'', ix_accounts = [''alice'', ''bob''], ix_data_b58 = ''3Bxs'', ix_stack_depth = 1\<rparr>]"])
qed

lemma ex_sol_pooled:
  "sol_pooled ex_sol_adapter (sl_post ex_sol_lib p) 1 = (Inr (PDict [(''result'', ex_sol_raw)]), ex_sol_adapter, 1)"
  by (simp add: sol_pooled_def ex_sol_adapter_def pool_call_def candidates_def ex_sol_lib_def wait_for_def mark_success_def)

theorem solana_block_read_witness: "solana_fetch_block ex_sol_lib ex_sol_adapter 9 1 = (Inr (Some ex_sol_block), ex_sol_adapter, 1)"
  using solana_block_read [OF ex_sol_pooled, of ex_sol_raw ex_sol_block] ex_sol_answer by (simp add: ex_sol_block_def)

text \<open>
  The slots of the heads: polling and the subscription both yield every slot from the first one of
  the chain to the highest one heard of, once each and in order, through failed rounds, broken messages
  and reconnections; the pauses between reconnections stay between one and sixty seconds.
\<close>

theorem solana_heads_exact:
  "solana_poll_heads rounds = [1..Max (insert 0 {n. Inr n \<in> set rounds})] \<and>
   fst (solana_ws_heads sessions) = [1..Max (insert 0 (set (session_slots sessions)))] \<and>
   (\<forall>p \<in> set (snd (solana_ws_heads sessions)). 1 \<le> p \<and> p \<le> 60)"
proof (intro conjI)
  show "solana_poll_heads rounds = [1..Max (insert 0 {n. Inr n \<in> set rounds})]"
    by (simp add: solana_poll_heads_def poll_slots_range)
  have "{n. Inr n \<in> set (map Inr (session_slots sessions) :: int res list)} = set (session_slots sessions)" by auto
  then show "fst (solana_ws_heads sessions) = [1..Max (insert 0 (set (session_slots sessions)))]"
    by (simp add: solana_ws_heads_def ws_sessions_slots poll_slots_range)
  show "\<forall>p \<in> set (snd (solana_ws_heads sessions)). 1 \<le> p \<and> p \<le> 60"
    unfolding solana_ws_heads_def by (rule ws_sessions_pauses) simp_all
qed

theorem solana_heads_exact_witness: "solana_poll_heads [Inl TimeoutError, Inr 3, Inr 2] = [1, 2, 3]"
proof -
  have "{n :: int. Inr n \<in> set [Inl TimeoutError, Inr 3, Inr 2 :: int res]} = {3, 2}" by auto
  then show ?thesis using solana_heads_exact [of "[Inl TimeoutError, Inr 3, Inr 2]" "[]"] by (simp add: upto_rec1)
qed

text \<open>
  A node that answers the listing of a window with an error, for instance because the window is
  too large, makes a catch-up pass over it: when all windows are answered so, the catch-up finishes as
  if it had succeeded and has processed nothing, whatever blocks there are.
\<close>

theorem solana_error_skips_windows:
  assumes "\<forall>x y. \<exists>a' t. sol_pooled (ad x y) (sl_post L (slots_request x y)) (now x y) = (Inr (PDict [(''error'', err)]), a', t)"
    and "re_slots env = (\<lambda>x y. fst (get_blocks L (ad x y) x y (now x y)))"
    and "1 \<le> sn_slot_query_range_blocks (cr_chain r)"
    and "re_tip env = Inr tip" and "catchup_range tip (catchup_candidates r) = Some (start_s, u)"
    and "nat MAX_CATCHUP_BLOCKS \<le> fuel"
  shows "catchup_solana fuel env r reg = Some (Finished, [], reg)"
proof -
  have "fst (get_blocks L (ad x y) x y (now x y)) = Inr []" for x y
    using assms(1) [rule_format, of x y] by (auto simp: get_blocks_def read_slots_body_def pv_get_or_def or_else_def)
  then have listed: "get_blocks_classified env x y = Inr []" for x y
    by (simp add: get_blocks_classified_def assms(2))
  note rng = catchup_range_Some [OF assms(5)]
  have "nat (u - start_s + 1) \<le> fuel" using rng(3) assms(6) by linarith
  then show ?thesis
    using catchup_nothing_listed [of env "cr_chain r" u start_s fuel reg] listed assms(3-5)
    by (cases "catchup_candidates r") (simp_all add: catchup_solana_def catchup_range_def)
qed

definition ex_error_lib :: SolanaLib where
  "ex_error_lib = ex_sol_lib\<lparr>sl_post := (\<lambda>p u t. (Inr (PDict [(''error'', PStr ''too large'')]), 0))\<rparr>"

theorem solana_error_skips_windows_witness:
  "catchup_solana 10000 ((ex_run_env 9)\<lparr>re_slots := \<lambda>x y. fst (get_blocks ex_error_lib ex_sol_adapter x y 1)\<rparr>) ex_runner None =
     Some (Finished, [], None)"
proof -
  have "sol_pooled ex_sol_adapter (sl_post ex_error_lib p) 1 = (Inr (PDict [(''error'', PStr ''too large'')]), ex_sol_adapter, 1)" for p
    by (simp add: sol_pooled_def ex_sol_adapter_def pool_call_def candidates_def ex_error_lib_def wait_for_def mark_success_def)
  then have a: "\<forall>x y. \<exists>a' t. sol_pooled ex_sol_adapter (sl_post ex_error_lib (slots_request x y)) 1 =
      (Inr (PDict [(''error'', PStr ''too large'')]), a', t)" by blast
  have rng: "catchup_range 9 (catchup_candidates ex_runner) = Some (5, 9)"
    by (simp add: ex_candidates catchup_range_def MAX_CATCHUP_BLOCKS_def)
  have r: "1 \<le> sn_slot_query_range_blocks (cr_chain ex_runner)" by (simp add: ex_runner_def ex_chain_def)
  show ?thesis
    by (rule solana_error_skips_windows [OF a _ r _ rng]) (simp_all add: ex_run_env_def MAX_CATCHUP_BLOCKS_def)
qed

end
