(* ===== verification/Worker.thy ===== *)
theory Worker
  imports Replay Config_Store Evm_Adapter Solana_Adapter
begin

text \<open>
  \<^verbatim>\<open>apps/worker/main.py\<close>: the worker process. It takes snapshots from the watcher's queue and makes the
  set of chain runners fit each one, holding a lock per chain; it writes what the runners report to the
  database and to Redis; it hands replay requests to the runner of their chain; and at the end it stops
  the runners and gives the locks back.

  What locks, nodes and the database answer is the parameter \<open>WorkerEnv\<close>. The lemmas show which runners
  a reconciliation leaves running, that a runner never runs without its lock, what becomes of exceptions,
  and that every delivery ends up as one record.
\<close>

section \<open>Adapters\<close>

datatype Adapter = EvmChain EvmAdapter | SolanaChain SolanaAdapter

text \<open>\<open>_make_adapter_factory\<close>; the two kinds are all there are.\<close>

definition make_adapter :: "int \<Rightarrow> real \<Rightarrow> SnapshotChain \<Rightarrow> Adapter res" where
  "make_adapter failure_threshold cooldown_s cfg =
     (case sn_kind cfg of
        CK_evm \<Rightarrow>
          Inr (EvmChain (evm_adapter_init (sn_id cfg) (sn_rpc_http cfg) (sn_rpc_ws cfg) (sn_confirmations cfg)
            (sn_poll_interval_ms cfg) (sn_rpc_http_fallbacks cfg) (sn_rpc_timeout_ms cfg) failure_threshold cooldown_s))
      | CK_solana \<Rightarrow>
          (case sn_commitment cfg of
             None \<Rightarrow> Inl AssertionError
           | Some commitment \<Rightarrow>
               rbind (solana_adapter_init (sn_id cfg) (sn_rpc_http cfg) commitment (sn_poll_interval_ms cfg)
                 (sn_rpc_ws cfg) (sn_rpc_http_fallbacks cfg) (sn_rpc_timeout_ms cfg) failure_threshold cooldown_s)
                 (\<lambda>a. Inr (SolanaChain a))))"

section \<open>Checkpoints\<close>

text \<open>\<open>_CheckpointAdapter\<close>: each call is a transaction of its own.\<close>

definition cp_get :: "string \<Rightarrow> Db \<Rightarrow> (int \<times> string) option" where
  "cp_get chain_id db = map_option (\<lambda>row. (cp_last_block row, cp_last_block_hash row)) (checkpoint_get chain_id db)"

definition cp_save :: "string \<Rightarrow> int \<Rightarrow> string \<Rightarrow> Db \<Rightarrow> unit res \<times> Db" where
  "cp_save chain_id n h db =
     (case checkpoint_upsert chain_id n h db of Inl e \<Rightarrow> (Inl e, db) | Inr db' \<Rightarrow> (Inr (), db'))"

section \<open>Reports of the runners\<close>

text \<open>
  \<open>_on_delivery_success\<close> and \<open>_on_delivery_failure\<close>: \<open>new_id\<close> and \<open>now\<close> are given by the database, \<open>repr_of\<close>
  is \<open>repr(exc)\<close>. \<open>answer\<close> is what the database answers the transaction: \<open>Inl\<close> when it cannot be reached or
  the commit fails. Any exception is logged and the session discarded, so that the record is lost.
\<close>

definition keep_on_error :: "Db \<Rightarrow> Db res \<Rightarrow> Db" where
  "keep_on_error db r = (case r of Inl e \<Rightarrow> db | Inr db' \<Rightarrow> db')"

definition payload_flag :: "(string, pv) dict \<Rightarrow> bool" where
  "payload_flag payload = py_truthy (d_get_default payload ''replay'' (PBool False))"

fun on_delivery :: "(exn \<Rightarrow> string) \<Rightarrow> unit res \<Rightarrow> string \<Rightarrow> int \<Rightarrow> Callback \<Rightarrow> Db \<Rightarrow> Db" where
  "on_delivery repr_of answer new_id now (OnSuccess sub chan chain payload) db =
     keep_on_error db (rbind answer (\<lambda>u. rbind (pv_str chain) (\<lambda>chain_id.
       delivery_create new_id now sub chan chain_id payload None 1 ''success'' (payload_flag payload) db)))"
| "on_delivery repr_of answer new_id now (OnFailure sub chan chain payload exc attempts) db =
     keep_on_error db (rbind answer (\<lambda>u. rbind (pv_str chain) (\<lambda>chain_id.
       delivery_create new_id now sub chan chain_id payload (Some (repr_of exc)) attempts ''failed''
         (payload_flag payload) db)))"

text \<open>\<open>_on_block_processed\<close>: one transaction for all subscriptions; a failure is ignored.\<close>

fun update_progress :: "string list \<Rightarrow> int \<Rightarrow> Db \<Rightarrow> Db res" where
  "update_progress [] n db = Inr db"
| "update_progress (sid # sids) n db =
     rbind (sub_update sid (\<lambda>s. s\<lparr>su_last_processed_block := Some n\<rparr>) db) (update_progress sids n)"

definition on_block_processed :: "string list \<Rightarrow> int \<Rightarrow> Db \<Rightarrow> Db" where
  "on_block_processed sub_ids n db = keep_on_error db (update_progress sub_ids n db)"

text \<open>\<open>_publish_tip\<close>: a key per chain with a minute to live; errors are logged.\<close>

type_synonym tips = "(string, int \<times> real) dict"

definition TIP_TTL_S :: real where
  "TIP_TTL_S = 60"

definition publish_tip :: "unit res \<Rightarrow> real \<Rightarrow> string \<Rightarrow> int \<Rightarrow> tips \<Rightarrow> tips" where
  "publish_tip answer now chain_id n store =
     (case answer of Inl e \<Rightarrow> store | Inr u \<Rightarrow> d_set chain_id (n, now + TIP_TTL_S) store)"

definition read_tip :: "real \<Rightarrow> string \<Rightarrow> tips \<Rightarrow> int option" where
  "read_tip now chain_id store =
     (case d_get store chain_id of None \<Rightarrow> None | Some (n, deadline) \<Rightarrow> if now < deadline then Some n else None)"

text \<open>\<open>_run_cleanup_loop\<close>: one entry per round, whether the database can be reached; a failed round is logged.\<close>

fun cleanup_rounds :: "nat \<Rightarrow> nat \<Rightarrow> bool list \<Rightarrow> Db \<Rightarrow> Db" where
  "cleanup_rounds keep batch [] db = db"
| "cleanup_rounds keep batch (ok # rest) db =
     cleanup_rounds keep batch rest (if ok then snd (cleanup_success keep batch db) else db)"

section \<open>Runners\<close>

text \<open>A runner's task runs, or has ended with an exception or because its loop ended.\<close>

datatype TaskState = Running | Ended "exn option"

record Worker =
  wk_registry :: AbiRegistry
  wk_runners :: "(string, ChainRunner \<times> TaskState) dict"
  wk_locks :: "(string, unit) dict"

record WorkerEnv =
  we_lib :: AbiLib
  we_channels :: ChannelEnv
  we_conn :: "Channels.Channel \<Rightarrow> unit res"
  we_close :: "Channels.Channel \<Rightarrow> unit res"
  we_threshold :: int
  we_cooldown :: real
  we_connect :: "Adapter \<Rightarrow> unit res"
  we_checkpoint :: "string \<Rightarrow> (int \<times> string) option res"
  we_acquire :: "string \<Rightarrow> bool res"
  we_release :: "string \<Rightarrow> unit res"

definition NOTIFIER_MAX_CONCURRENCY :: int where
  "NOTIFIER_MAX_CONCURRENCY = 50"

definition worker_init :: Worker where
  "worker_init = \<lparr>wk_registry = registry_init, wk_runners = [], wk_locks = []\<rparr>"

text \<open>\<open>ChainRunner(...)\<close> and \<open>runner.start(snap)\<close>, with the adapter.\<close>

definition start_runner :: "WorkerEnv \<Rightarrow> AbiRegistry \<Rightarrow> ConfigSnapshot \<Rightarrow> SnapshotChain \<Rightarrow> ChainRunner res" where
  "start_runner env reg snap cfg =
     rbind (make_adapter (we_threshold env) (we_cooldown env) cfg) (\<lambda>ad.
     rbind (we_connect env ad) (\<lambda>u.
     rbind (if sn_kind cfg \<noteq> CK_solana then rbind (cb_init (sn_confirmations cfg)) (\<lambda>b. Inr ()) else Inr ()) (\<lambda>u.
     rbind (we_checkpoint env (sn_id cfg)) (\<lambda>cp.
       runner_start (we_channels env) (we_conn env) NOTIFIER_MAX_CONCURRENCY cfg cp (Some reg) snap))))"

text \<open>\<open>_stop_runner\<close>: nothing in it raises.\<close>

definition stop_runner :: "string \<Rightarrow> Worker \<Rightarrow> Worker" where
  "stop_runner chain_id w = w\<lparr>wk_runners := d_pop chain_id (wk_runners w)\<rparr>"

text \<open>The first loop of \<open>_reconcile\<close>: stop what is no longer wanted.\<close>

fun stop_removed :: "WorkerEnv \<Rightarrow> string set \<Rightarrow> string list \<Rightarrow> Worker \<Rightarrow> exn option \<times> Worker" where
  "stop_removed env enabled [] w = (None, w)"
| "stop_removed env enabled (c # cs) w =
     (if c \<in> enabled then stop_removed env enabled cs w
      else let w1 = stop_runner c w
           in if d_has (wk_locks w1) c then
                let w2 = w1\<lparr>wk_locks := d_pop c (wk_locks w1)\<rparr>
                in case we_release env c of
                     Inl e \<Rightarrow> (Some e, w2)
                   | Inr u \<Rightarrow> stop_removed env enabled cs w2
              else stop_removed env enabled cs w1)"

text \<open>The second loop: a running chain gets the snapshot, another one is locked and started.\<close>

fun start_enabled :: "WorkerEnv \<Rightarrow> ConfigSnapshot \<Rightarrow> (string \<times> SnapshotChain) list \<Rightarrow> Worker \<Rightarrow> exn option \<times> Worker" where
  "start_enabled env snap [] w = (None, w)"
| "start_enabled env snap ((c, cfg) # rest) w =
     (case d_get (wk_runners w) c of
        Some (runner, task) \<Rightarrow>
          (case apply_snapshot (we_channels env) (we_conn env) (we_close env) NOTIFIER_MAX_CONCURRENCY
                  (Some (wk_registry w)) snap runner of
             ((ex, runner'), stopped) \<Rightarrow>
               let w' = w\<lparr>wk_runners := d_set c (runner', task) (wk_runners w)\<rparr>
               in case ex of Some e \<Rightarrow> (Some e, w') | None \<Rightarrow> start_enabled env snap rest w')
      | None \<Rightarrow>
          (case we_acquire env c of
             Inl e \<Rightarrow> (Some e, w)
           | Inr False \<Rightarrow> start_enabled env snap rest w
           | Inr True \<Rightarrow>
               let w1 = w\<lparr>wk_locks := d_set c () (wk_locks w)\<rparr>
               in case start_runner env (wk_registry w) snap cfg of
                    Inl e \<Rightarrow>
                      (case we_release env c of
                         Inl e' \<Rightarrow> (Some e', w1)
                       | Inr u \<Rightarrow> start_enabled env snap rest (w1\<lparr>wk_locks := d_pop c (wk_locks w1)\<rparr>))
                  | Inr runner \<Rightarrow>
                      start_enabled env snap rest (w1\<lparr>wk_runners := d_set c (runner, Running) (wk_runners w1)\<rparr>)))"

definition enabled_chains :: "ConfigSnapshot \<Rightarrow> (string, SnapshotChain) dict" where
  "enabled_chains snap = dict_of (map (\<lambda>c. (sn_id c, c)) (snap_chains snap))"

definition reconcile :: "WorkerEnv \<Rightarrow> ConfigSnapshot \<Rightarrow> Worker \<Rightarrow> exn option \<times> Worker" where
  "reconcile env snap w =
     (case refresh (we_lib env) snap (wk_registry w) of
        (Some e, reg) \<Rightarrow> (Some e, w\<lparr>wk_registry := reg\<rparr>)
      | (None, reg) \<Rightarrow>
          let enabled = enabled_chains snap
          in case stop_removed env (set (d_keys enabled)) (d_keys (wk_runners w)) (w\<lparr>wk_registry := reg\<rparr>) of
               (Some e, w') \<Rightarrow> (Some e, w')
             | (None, w') \<Rightarrow> start_enabled env snap enabled w')"

text \<open>
  \<open>run\<close>: the snapshots in the order of the queue, each with what the environment answers; an exception
  leaves the loop.
\<close>

fun worker_run :: "(WorkerEnv \<times> ConfigSnapshot) list \<Rightarrow> Worker \<Rightarrow> exn option \<times> Worker" where
  "worker_run [] w = (None, w)"
| "worker_run ((env, snap) # rest) w =
     (case reconcile env snap w of
        (Some e, w') \<Rightarrow> (Some e, w')
      | (None, w') \<Rightarrow> worker_run rest w')"

text \<open>
  The two parts of \<open>shutdown\<close> that concern the runners: all are stopped; the release of every lock is tried, an
  exception of it is ignored, and all locks are forgotten. The second component has the answer of each release.
\<close>

definition stop_runners :: "Worker \<Rightarrow> Worker" where
  "stop_runners w = fold stop_runner (d_keys (wk_runners w)) w"

definition release_locks :: "(string \<Rightarrow> unit res) \<Rightarrow> Worker \<Rightarrow> Worker \<times> (string \<times> unit res) list" where
  "release_locks release w = (w\<lparr>wk_locks := []\<rparr>, map (\<lambda>c. (c, release c)) (d_keys (wk_locks w)))"

text \<open>\<open>_on_replay_request\<close>: the runner that is to replay, if any.\<close>

definition on_replay_request :: "(string, pv) dict \<Rightarrow> Worker \<Rightarrow> ChainRunner option" where
  "on_replay_request msg w =
     (case d_get_default msg ''chain_id'' PNone of
        PStr c \<Rightarrow> map_option fst (d_get (wk_runners w) c)
      | _ \<Rightarrow> None)"

section \<open>Locks and runners\<close>

definition wk_ok :: "Worker \<Rightarrow> bool" where
  "wk_ok w \<longleftrightarrow> distinct (d_keys (wk_runners w)) \<and> (\<forall>c. d_has (wk_runners w) c \<longrightarrow> d_has (wk_locks w) c)"

lemma distinct_d_pop: "distinct (d_keys d) \<Longrightarrow> distinct (d_keys (d_pop k d))"
  by (rule distinct_delete)

lemma d_has_set: "d_has (d_set k v d) k' \<longleftrightarrow> k' = k \<or> d_has d k'"
  by (simp add: d_has_def d_get_set)

lemma d_has_pop: "d_has (d_pop k d) k' \<longleftrightarrow> k' \<noteq> k \<and> d_has d k'"
  by (simp add: d_has_def d_get_pop)

lemmas d_has_simps = d_has_set d_has_pop

lemma stop_removed_spec:
  "stop_removed env enabled cs w = (ex, w') \<Longrightarrow>
     (wk_ok w \<longrightarrow> wk_ok w') \<and> wk_registry w' = wk_registry w \<and>
     (ex = None \<longrightarrow> d_get (wk_runners w') = (\<lambda>c. if c \<in> set cs - enabled then None else d_get (wk_runners w) c))"
proof (induction cs arbitrary: w)
  case (Cons c cs)
  show ?case
  proof (cases "c \<in> enabled")
    case True
    then show ?thesis using Cons.IH [of w] Cons.prems by auto
  next
    case False
    define w1 where "w1 = stop_runner c w"
    define w2 where "w2 = (if d_has (wk_locks w1) c then w1\<lparr>wk_locks := d_pop c (wk_locks w1)\<rparr> else w1)"
    have ok: "wk_ok w \<longrightarrow> wk_ok w2"
      by (auto simp: wk_ok_def w2_def w1_def stop_runner_def d_has_simps distinct_d_pop)
    have w2: "wk_registry w2 = wk_registry w" "wk_runners w2 = d_pop c (wk_runners w)"
      by (simp_all add: w2_def w1_def stop_runner_def)
    have "ex \<noteq> None \<and> w' = w2 \<or> stop_removed env enabled cs w2 = (ex, w')"
      using Cons.prems False by (auto simp: w2_def w1_def Let_def split: sum.splits if_splits)
    then show ?thesis
    proof
      assume "ex \<noteq> None \<and> w' = w2"
      then show ?thesis using ok w2 by auto
    next
      assume "stop_removed env enabled cs w2 = (ex, w')"
      from Cons.IH [OF this] show ?thesis using ok w2 False by (auto simp: d_get_pop fun_eq_iff)
    qed
  qed
qed auto

text \<open>What becomes of a chain that is to run.\<close>

definition next_runner ::
  "WorkerEnv \<Rightarrow> AbiRegistry \<Rightarrow> ConfigSnapshot \<Rightarrow> string \<Rightarrow> SnapshotChain \<Rightarrow> (ChainRunner \<times> TaskState) option \<Rightarrow>
   (ChainRunner \<times> TaskState) option" where
  "next_runner env reg snap c cfg old =
     (case old of
        Some (r, task) \<Rightarrow>
          Some (snd (fst (apply_snapshot (we_channels env) (we_conn env) (we_close env) NOTIFIER_MAX_CONCURRENCY (Some reg) snap r)), task)
      | None \<Rightarrow>
          if we_acquire env c = Inr True
          then (case start_runner env reg snap cfg of Inr r \<Rightarrow> Some (r, Running) | Inl e \<Rightarrow> None)
          else None)"

lemma start_enabled_spec:
  "start_enabled env snap cfgs w = (ex, w') \<Longrightarrow> distinct (map fst cfgs) \<Longrightarrow>
     (wk_ok w \<longrightarrow> wk_ok w') \<and> wk_registry w' = wk_registry w \<and>
     (ex = None \<longrightarrow>
        (\<forall>c. d_get (wk_runners w') c =
           (case map_of cfgs c of
              None \<Rightarrow> d_get (wk_runners w) c
            | Some cfg \<Rightarrow> next_runner env (wk_registry w) snap c cfg (d_get (wk_runners w) c))))"
proof (induction cfgs arbitrary: w)
  case (Cons p cfgs)
  obtain c cfg where p: "p = (c, cfg)" by (cases p)
  have step: "(wk_ok w \<longrightarrow> wk_ok w') \<and> wk_registry w' = wk_registry w \<and>
     (ex = None \<longrightarrow> (\<forall>c'. d_get (wk_runners w') c' =
        (case map_of (p # cfgs) c' of None \<Rightarrow> d_get (wk_runners w) c'
         | Some cfg \<Rightarrow> next_runner env (wk_registry w) snap c' cfg (d_get (wk_runners w) c'))))"
    if "ex \<noteq> None \<and> w' = w1 \<or> start_enabled env snap cfgs w1 = (ex, w')" "wk_ok w \<longrightarrow> wk_ok w1"
      "wk_registry w1 = wk_registry w" "\<And>c'. c' \<noteq> c \<Longrightarrow> d_get (wk_runners w1) c' = d_get (wk_runners w) c'"
      "ex = None \<Longrightarrow> d_get (wk_runners w1) c = next_runner env (wk_registry w) snap c cfg (d_get (wk_runners w) c)" for w1
  proof -
    have c: "map_of cfgs c = None" using Cons.prems(2) p by (simp add: map_of_eq_None_iff)
    from that(1) show ?thesis
    proof
      assume "ex \<noteq> None \<and> w' = w1"
      then show ?thesis using that(2,3) by auto
    next
      assume r: "start_enabled env snap cfgs w1 = (ex, w')"
      have "distinct (map fst cfgs)" using Cons.prems(2) by simp
      note IH = Cons.IH [OF r this]
      show ?thesis
      proof (intro conjI impI allI)
        show "wk_ok w'" if "wk_ok w" using IH that \<open>wk_ok w \<longrightarrow> wk_ok w1\<close> by blast
        show "wk_registry w' = wk_registry w" using IH that(3) by simp
        show "d_get (wk_runners w') c' = (case map_of (p # cfgs) c' of None \<Rightarrow> d_get (wk_runners w) c'
             | Some cfg \<Rightarrow> next_runner env (wk_registry w) snap c' cfg (d_get (wk_runners w) c'))" if "ex = None" for c'
          using IH that c \<open>wk_registry w1 = wk_registry w\<close> p
            \<open>\<And>c'. c' \<noteq> c \<Longrightarrow> d_get (wk_runners w1) c' = d_get (wk_runners w) c'\<close>
            \<open>ex = None \<Longrightarrow> d_get (wk_runners w1) c = next_runner env (wk_registry w) snap c cfg (d_get (wk_runners w) c)\<close>
          by (cases "c' = c"; cases "map_of cfgs c'") auto
      qed
    qed
  qed
  show ?case
  proof (cases "d_get (wk_runners w) c")
    case (Some rt)
    obtain r task where rt: "rt = (r, task)" by (cases rt)
    obtain ex' r' stopped where a: "apply_snapshot (we_channels env) (we_conn env) (we_close env) NOTIFIER_MAX_CONCURRENCY
        (Some (wk_registry w)) snap r = ((ex', r'), stopped)" by (metis prod.collapse)
    have has: "d_has (wk_runners w) c" using Some by (simp add: d_has_def)
    show ?thesis
      by (rule step [of "w\<lparr>wk_runners := d_set c (r', task) (wk_runners w)\<rparr>"])
        (use Cons.prems(1) Some rt a p has in
          \<open>auto simp: Let_def wk_ok_def d_has_simps distinct_d_set d_get_set next_runner_def split: option.splits\<close>)
  next
    case None
    show ?thesis
    proof (cases "we_acquire env c")
      case (Inl e)
      show ?thesis by (rule step [of w]) (use Cons.prems(1) None Inl p in \<open>auto simp: next_runner_def\<close>)
    next
      case (Inr b)
      define w1 where "w1 = w\<lparr>wk_locks := d_set c () (wk_locks w)\<rparr>"
      consider "\<not> b" | e where "b" "start_runner env (wk_registry w) snap cfg = Inl e"
        | r where "b" "start_runner env (wk_registry w) snap cfg = Inr r"
        by (cases b; cases "start_runner env (wk_registry w) snap cfg") auto
      then show ?thesis
      proof cases
        case 1
        show ?thesis by (rule step [of w]) (use Cons.prems(1) None Inr 1 p in \<open>auto simp: next_runner_def\<close>)
      next
        case 2
        have free: "\<not> d_has (wk_runners w) c" using None by (simp add: d_has_def)
        show ?thesis
        proof (cases "we_release env c")
          case (Inl e')
          show ?thesis
            by (rule step [of w1]) (use Cons.prems(1) None Inr 2 Inl p in
              \<open>auto simp: w1_def Let_def wk_ok_def d_has_simps\<close>)
        next
          case rel: (Inr u)
          show ?thesis
            by (rule step [of "w1\<lparr>wk_locks := d_pop c (wk_locks w1)\<rparr>"])
              (use Cons.prems(1) None Inr 2 rel p free in
                \<open>auto simp: w1_def Let_def wk_ok_def d_has_simps next_runner_def\<close>)
        qed
      next
        case 3
        show ?thesis
          by (rule step [of "w1\<lparr>wk_runners := d_set c (r, Running) (wk_runners w1)\<rparr>"])
            (use Cons.prems(1) None Inr 3 p in
              \<open>auto simp: w1_def Let_def wk_ok_def d_has_simps distinct_d_set d_get_set next_runner_def\<close>)
      qed
    qed
  qed
qed simp

lemma reconcile_ok:
  assumes "reconcile env snap w = (ex, w')" and "wk_ok w"
  shows "wk_ok w'"
proof -
  obtain ex1 reg where f: "refresh (we_lib env) snap (wk_registry w) = (ex1, reg)" by (metis prod.collapse)
  obtain ex2 w2 where s: "stop_removed env (set (d_keys (enabled_chains snap))) (d_keys (wk_runners w)) (w\<lparr>wk_registry := reg\<rparr>) = (ex2, w2)"
    by (metis prod.collapse)
  have ok1: "wk_ok (w\<lparr>wk_registry := reg\<rparr>)" using assms(2) by (simp add: wk_ok_def)
  then have ok2: "wk_ok w2" using stop_removed_spec [OF s] by blast
  have d: "distinct (map fst (enabled_chains snap))" by (simp add: enabled_chains_def distinct_dict_of)
  show ?thesis
    using assms(1) f s ok1 ok2 start_enabled_spec [OF _ d]
    by (cases ex1; cases ex2) (auto simp: reconcile_def Let_def simp del: set_map list.set_map)
qed

lemma worker_run_ok: "worker_run snaps w = (ex, w') \<Longrightarrow> wk_ok w \<Longrightarrow> wk_ok w'"
proof (induction snaps w rule: worker_run.induct)
  case (2 env snap rest w)
  then show ?case using reconcile_ok [of env snap w] by (auto split: prod.splits option.splits)
qed simp

section \<open>Channels that cannot be started\<close>

abbreviation channels_start :: "WorkerEnv \<Rightarrow> ConfigSnapshot \<Rightarrow> exn option" where
  "channels_start env snap \<equiv>
     fst (notifier_start (we_channels env) (we_conn env) (snap_channels snap) (notifier_init NOTIFIER_MAX_CONCURRENCY True True))"

lemma apply_snapshot_result:
  "fst (fst (apply_snapshot (we_channels env) (we_conn env) clo NOTIFIER_MAX_CONCURRENCY reg snap r)) = channels_start env snap"
  "channels_start env snap = None \<Longrightarrow>
     cr_snap (snd (fst (apply_snapshot (we_channels env) (we_conn env) clo NOTIFIER_MAX_CONCURRENCY reg snap r))) = snap"
  "cr_matcher (snd (fst (apply_snapshot E conn clo k reg snap r))) = matcher_init snap"
  "cr_chain (snd (fst (apply_snapshot E conn clo k reg snap r))) = cr_chain r"
  by (auto simp: apply_snapshot_def Let_def split: prod.splits option.splits)

lemma runner_start_result:
  assumes "runner_start E conn k cfg cp reg snap = Inr r"
  shows "cr_snap r = snap \<and> cr_matcher r = matcher_init snap \<and> cr_chain r = cfg"
proof -
  obtain ex n where "notifier_start E conn (snap_channels snap) (notifier_init k True True) = (ex, n)" by (metis prod.collapse)
  then show ?thesis using assms by (cases ex) (auto simp: runner_start_def rbind_Inr_iff)
qed

lemma start_runner_result:
  "start_runner env reg snap cfg = Inr r \<Longrightarrow> cr_snap r = snap \<and> cr_matcher r = matcher_init snap \<and> cr_chain r = cfg"
  by (auto simp: start_runner_def rbind_Inr_iff dest!: runner_start_result)

lemma start_enabled_bad_channel:
  assumes "channels_start env snap = Some e"
  shows "c \<in> fst ` set cfgs \<Longrightarrow> d_has (wk_runners w) c \<Longrightarrow> fst (start_enabled env snap cfgs w) \<noteq> None"
proof (induction cfgs arbitrary: w)
  case (Cons p cfgs)
  obtain c' cfg where p: "p = (c', cfg)" by (cases p)
  show ?case
  proof (cases "d_get (wk_runners w) c'")
    case (Some rt)
    obtain r task where rt: "rt = (r, task)" by (cases rt)
    obtain ex r' stopped where a: "apply_snapshot (we_channels env) (we_conn env) (we_close env) NOTIFIER_MAX_CONCURRENCY
        (Some (wk_registry w)) snap r = ((ex, r'), stopped)" by (metis prod.collapse)
    have "ex = Some e" using apply_snapshot_result(1) [of env "we_close env" "Some (wk_registry w)" snap r] a assms by simp
    then show ?thesis using p Some rt a by (simp add: Let_def)
  next
    case None
    then have "c \<in> fst ` set cfgs" using Cons.prems p by (auto simp: d_has_def)
    then show ?thesis
      using Cons.IH Cons.prems(2) p None by (auto simp: Let_def d_has_simps split: sum.splits bool.splits)
  qed
qed simp

text \<open>What a reconciliation without an exception leaves, chain by chain.\<close>

lemma reconcile_runners:
  assumes "reconcile env snap w = (None, w')"
  shows "d_get (wk_runners w') c =
      (case d_get (enabled_chains snap) c of
         None \<Rightarrow> None
       | Some cfg \<Rightarrow> next_runner env (wk_registry w') snap c cfg (d_get (wk_runners w) c))"
    and "d_get (enabled_chains snap) c \<noteq> None \<Longrightarrow> d_get (wk_runners w) c \<noteq> None \<Longrightarrow> channels_start env snap = None"
proof -
  have "\<exists>reg. refresh (we_lib env) snap (wk_registry w) = (None, reg)"
    using assms by (auto simp: reconcile_def split: prod.splits option.splits)
  then obtain reg where f: "refresh (we_lib env) snap (wk_registry w) = (None, reg)" by blast
  let ?E = "enabled_chains snap" and ?w = "w\<lparr>wk_registry := reg\<rparr>"
  obtain ex w2 where s: "stop_removed env (set (d_keys ?E)) (d_keys (wk_runners w)) ?w = (ex, w2)" by (metis prod.collapse)
  have start: "start_enabled env snap ?E w2 = (None, w')" and "ex = None"
    using assms f s by (cases ex; simp add: reconcile_def del: set_map list.set_map)+
  note stopped = stop_removed_spec [OF s [unfolded \<open>ex = None\<close>]]
  have d: "distinct (map fst ?E)" by (simp add: enabled_chains_def distinct_dict_of)
  note started = start_enabled_spec [OF start d]
  have E: "d_get ?E c = None \<longleftrightarrow> c \<notin> set (d_keys ?E)" by (simp add: map_of_eq_None_iff)
  have keep: "d_get (wk_runners w2) c = (if c \<in> set (d_keys ?E) then d_get (wk_runners w) c else None)"
    using stopped by (auto simp: map_of_eq_None_iff)
  have reg: "wk_registry w2 = wk_registry w'" using started by simp
  show "d_get (wk_runners w') c = (case d_get ?E c of None \<Rightarrow> None
      | Some cfg \<Rightarrow> next_runner env (wk_registry w') snap c cfg (d_get (wk_runners w) c))"
    using started keep E reg by (cases "d_get ?E c") auto
  show "channels_start env snap = None" if "d_get ?E c \<noteq> None" "d_get (wk_runners w) c \<noteq> None"
  proof -
    have "c \<in> fst ` set ?E" using that(1) by (metis E list.set_map)
    moreover have "d_has (wk_runners w2) c" using keep that E by (auto simp: d_has_def)
    ultimately show ?thesis
      using start_enabled_bad_channel [of env snap _ c ?E w2] start by (cases "channels_start env snap") auto
  qed
qed

lemma reconcile_follows:
  assumes "reconcile env snap w = (None, w')" and "d_get (wk_runners w') c = Some (r, task)"
  shows "cr_snap r = snap \<and> cr_matcher r = matcher_init snap \<and> d_get (enabled_chains snap) c \<noteq> None \<and>
    (case d_get (wk_runners w) c of
       None \<Rightarrow> task = Running \<and> d_get (enabled_chains snap) c = Some (cr_chain r)
     | Some (r0, task0) \<Rightarrow> task = task0 \<and> cr_chain r = cr_chain r0)"
proof -
  obtain cfg where cfg: "d_get (enabled_chains snap) c = Some cfg"
      "next_runner env (wk_registry w') snap c cfg (d_get (wk_runners w) c) = Some (r, task)"
    using reconcile_runners(1) [OF assms(1), of c] assms(2) by (cases "d_get (enabled_chains snap) c") auto
  show ?thesis
  proof (cases "d_get (wk_runners w) c")
    case None
    then have "start_runner env (wk_registry w') snap cfg = Inr r" "task = Running"
      using cfg by (auto simp: next_runner_def split: if_splits sum.splits)
    then show ?thesis using start_runner_result None cfg(1) by auto
  next
    case (Some rt)
    then have "channels_start env snap = None" using reconcile_runners(2) [OF assms(1), of c] cfg(1) by simp
    then show ?thesis using Some cfg apply_snapshot_result by (cases rt) (auto simp: next_runner_def)
  qed
qed

text \<open>
  What makes a runner work with a snapshot: it keeps the snapshot, the matcher is built on it, the notifier has
  started exactly its channels, and the filter of an EVM chain is the one for its subscriptions. The topics of
  the filter are those of a registry that has seen nothing but this snapshot. The settings of the chain itself are
  not among it: those are fixed when the runner is made.
\<close>

definition started_notifier :: "ChannelEnv \<Rightarrow> SnapshotChannel list \<Rightarrow> exn option \<times> Notifier" where
  "started_notifier E chans = notifier_start E (\<lambda>c. Inr ()) chans (notifier_init NOTIFIER_MAX_CONCURRENCY True True)"

definition runner_configured :: "ChannelEnv \<Rightarrow> AbiLib \<Rightarrow> ConfigSnapshot \<Rightarrow> ChainRunner \<Rightarrow> bool" where
  "runner_configured E L snap r \<longleftrightarrow>
     cr_snap r = snap \<and> cr_matcher r = matcher_init snap \<and> started_notifier E (snap_channels snap) = (None, cr_notifier r) \<and>
     (sn_kind (cr_chain r) \<noteq> CK_solana \<longrightarrow> cr_evm_filter r =
        Some (build_evm_log_filter snap (sn_id (cr_chain r)) (Some (snd (refresh L snap registry_init)))))"

text \<open>A connection that can be made decides nothing about the channel it is made for.\<close>

lemma channel_start_any: "channel_start conn ch = Inr ch' \<Longrightarrow> channel_start (\<lambda>c. Inr ()) ch = Inr ch'"
  by (auto simp: channel_start_def rbind_Inr_iff split: Channels.Channel.splits if_splits)

lemma notifier_start_any:
  "notifier_start E conn cs n = (None, n') \<Longrightarrow> notifier_start E (\<lambda>c. Inr ()) cs n = (None, n')"
proof (induction E conn cs n rule: notifier_start.induct)
  case (2 E conn cfg rest n)
  then obtain ch inst where i: "channel_factory E cfg = Inr ch" "channel_start conn ch = Inr inst"
      "notifier_start E conn rest (n\<lparr>nt_channels := d_set (sc_id cfg) inst (nt_channels n)\<rparr>) = (None, n')"
    by (auto simp: rbind_Inr_iff split: sum.splits)
  then show ?case using "2.IH" [of inst] channel_start_any [OF i(2)] by simp
qed simp

lemma started_notifier_any:
  "notifier_start E conn cs (notifier_init NOTIFIER_MAX_CONCURRENCY True True) = (None, n) \<Longrightarrow>
   started_notifier E cs = (None, n)"
  unfolding started_notifier_def by (rule notifier_start_any)

lemma refresh_index:
  assumes "refresh L snap r = (None, r')"
  shows "ar_topic0_index r' = ar_topic0_index (snd (refresh L snap registry_init))"
proof -
  have "\<exists>r''. refresh L snap registry_init = (None, r'')"
    using refresh_None [OF assms] by (auto simp: refresh_def snapshot_abis_def Let_def)
  then show ?thesis
    using refresh_None [OF assms] refresh_None [of L snap registry_init] by auto
qed

lemma filter_by_index:
  assumes "ar_topic0_index r = ar_topic0_index r'"
  shows "build_evm_log_filter snap c (Some r) = build_evm_log_filter snap c (Some r')"
proof -
  have "collect_topic0s (Some r) subs out = collect_topic0s (Some r') subs out" for subs out
    using assms by (induction subs arbitrary: out) (auto simp: event_topic0_for_def split: option.splits)
  then show ?thesis by (simp add: build_evm_log_filter_def Let_def)
qed

lemma runner_start_configured:
  assumes "runner_start E conn NOTIFIER_MAX_CONCURRENCY cfg cp (Some reg) snap = Inr r" and "refresh L snap old = (None, reg)"
  shows "runner_configured E L snap r"
proof -
  obtain ex n where n: "notifier_start E conn (snap_channels snap) (notifier_init NOTIFIER_MAX_CONCURRENCY True True) = (ex, n)"
    by (metis prod.collapse)
  then show ?thesis
    using assms(1) started_notifier_any filter_by_index [OF refresh_index [OF assms(2)]]
    by (cases ex) (auto simp: runner_start_def rbind_Inr_iff runner_configured_def)
qed

lemma apply_snapshot_configured:
  assumes "apply_snapshot E conn clo NOTIFIER_MAX_CONCURRENCY (Some reg) snap r = ((None, r'), stopped)"
    and "refresh L snap old = (None, reg)"
  shows "runner_configured E L snap r'"
proof -
  obtain ex n where n: "notifier_start E conn (snap_channels snap) (notifier_init NOTIFIER_MAX_CONCURRENCY True True) = (ex, n)"
    by (metis prod.collapse)
  then show ?thesis
    using assms(1) started_notifier_any filter_by_index [OF refresh_index [OF assms(2)]]
    by (cases ex) (auto simp: apply_snapshot_def Let_def runner_configured_def)
qed

lemma reconcile_registry:
  assumes "reconcile env snap w = (None, w')"
  shows "refresh (we_lib env) snap (wk_registry w) = (None, wk_registry w')"
proof -
  obtain reg where f: "refresh (we_lib env) snap (wk_registry w) = (None, reg)"
    using assms by (auto simp: reconcile_def split: prod.splits option.splits)
  obtain ex w2 where s: "stop_removed env (set (d_keys (enabled_chains snap))) (d_keys (wk_runners w)) (w\<lparr>wk_registry := reg\<rparr>) = (ex, w2)"
    by (metis prod.collapse)
  have "start_enabled env snap (enabled_chains snap) w2 = (None, w')" "wk_registry w2 = reg"
    using assms f s stop_removed_spec [OF s] by (cases ex; simp add: reconcile_def del: set_map list.set_map)+
  then show ?thesis
    using f start_enabled_spec [of env snap "enabled_chains snap"] by (auto simp: enabled_chains_def distinct_dict_of)
qed

lemma reconcile_configures:
  assumes "reconcile env snap w = (None, w')" and "d_get (wk_runners w') c = Some (r, task)"
  shows "runner_configured (we_channels env) (we_lib env) snap r"
proof -
  obtain cfg where cfg: "d_get (enabled_chains snap) c = Some cfg"
      "next_runner env (wk_registry w') snap c cfg (d_get (wk_runners w) c) = Some (r, task)"
    using reconcile_runners(1) [OF assms(1), of c] assms(2) by (cases "d_get (enabled_chains snap) c") auto
  note reg = reconcile_registry [OF assms(1)]
  show ?thesis
  proof (cases "d_get (wk_runners w) c")
    case None
    then have "start_runner env (wk_registry w') snap cfg = Inr r"
      using cfg by (auto simp: next_runner_def split: if_splits sum.splits)
    then show ?thesis using runner_start_configured [OF _ reg] by (auto simp: start_runner_def rbind_Inr_iff)
  next
    case (Some rt)
    then have ch: "channels_start env snap = None" using reconcile_runners(2) [OF assms(1), of c] cfg(1) by simp
    obtain r0 task0 where rt: "rt = (r0, task0)" by (cases rt)
    obtain ex r1 stopped where a: "apply_snapshot (we_channels env) (we_conn env) (we_close env) NOTIFIER_MAX_CONCURRENCY
        (Some (wk_registry w')) snap r0 = ((ex, r1), stopped)" by (metis prod.collapse)
    have "ex = None" "r1 = r"
      using a ch apply_snapshot_result(1) [of env "we_close env" "Some (wk_registry w')" snap r0] cfg(2) Some rt
      by (simp_all add: next_runner_def)
    then show ?thesis using apply_snapshot_configured [OF _ reg] a by simp
  qed
qed

section \<open>Records of deliveries\<close>

definition outcome_status :: "SendOutcome \<Rightarrow> DeliveryStatus" where
  "outcome_status o' = (if so_status o' = ''success'' then DS_success else DS_failed)"

text \<open>
  The callbacks of a list of outcomes, in the order in which they run, each with what the database answers it and the
  id and the time it gives the record.
\<close>

record DeliveryReport =
  rp_answer :: "unit res"
  rp_id :: string
  rp_now :: int
  rp_outcome :: SendOutcome

definition record_all :: "(exn \<Rightarrow> string) \<Rightarrow> DeliveryReport list \<Rightarrow> Db \<Rightarrow> Db" where
  "record_all repr_of reports db =
     fold (\<lambda>p d. case so_callback (rp_outcome p) of
         None \<Rightarrow> d
       | Some cb \<Rightarrow> on_delivery repr_of (rp_answer p) (rp_id p) (rp_now p) cb d) reports db"

text \<open>The record that belongs to an outcome of a send.\<close>

definition record_of :: "string \<Rightarrow> bool \<Rightarrow> SendOutcome \<Rightarrow> DeliveryRecord \<Rightarrow> bool" where
  "record_of chain rp o' r \<longleftrightarrow>
     dr_subscription_id r = so_sub o' \<and> dr_channel_id r = so_chan o' \<and> dr_chain_id r = chain \<and>
     dr_status r = outcome_status o' \<and> dr_is_replay r = rp"

lemma send_one_record:
  assumes "nt_on_failure n" and "nt_on_success n"
    and "d_get (tk_payload t) ''chain_id'' = Some (PStr chain)"
    and "i \<notin> dr_id ` set (db_deliveries db)"
  shows "\<exists>r. (case so_callback (send_one E net n t) of None \<Rightarrow> db | Some cb \<Rightarrow> on_delivery repr_of (Inr ()) i now cb db) =
      db\<lparr>db_deliveries := db_deliveries db @ [r]\<rparr> \<and>
    dr_id r = i \<and> record_of chain (payload_flag (tk_payload t)) (send_one E net n t) r"
proof -
  obtain res calls sleeps where s: "channel_send E net (tk_channel t) (tk_payload t) = (res, calls, sleeps)" by (metis prod.collapse)
  note defs = send_one_def s Let_def d_get_default_def assms keep_on_error_def delivery_create_def delivery_status_def
    row_insert_def outcome_status_def record_of_def
  show ?thesis by (cases res; simp add: defs; rule exI; rule conjI; (rule refl)?; simp)
qed

text \<open>A callback that does not reach the database leaves nothing.\<close>

lemma on_delivery_outage: "on_delivery repr_of (Inl e) i now cb db = db"
  by (cases cb) (simp_all add: keep_on_error_def)

definition sent_for :: "string \<Rightarrow> bool \<Rightarrow> Notifier \<Rightarrow> SendOutcome \<Rightarrow> bool" where
  "sent_for chain rp n o' \<longleftrightarrow> (\<exists>E net t. o' = send_one E net n t \<and>
     d_get (tk_payload t) ''chain_id'' = Some (PStr chain) \<and> payload_flag (tk_payload t) = rp)"

lemma record_all_spec:
  assumes "nt_on_failure n" and "nt_on_success n"
  shows "\<forall>p \<in> set ps. sent_for chain rp n (rp_outcome p) \<Longrightarrow> distinct (map rp_id ps) \<Longrightarrow>
    rp_id ` set ps \<inter> dr_id ` set (db_deliveries db) = {} \<Longrightarrow>
    \<exists>rs. record_all repr_of ps db = db\<lparr>db_deliveries := db_deliveries db @ rs\<rparr> \<and>
      list_all2 (\<lambda>p r. dr_id r = rp_id p \<and> record_of chain rp (rp_outcome p) r) (filter (\<lambda>p. rp_answer p = Inr ()) ps) rs"
proof (induction ps arbitrary: db)
  case Nil
  then show ?case by (intro exI [of _ "[]"]) (simp add: record_all_def)
next
  case (Cons p ps)
  have rest: "\<forall>p \<in> set ps. sent_for chain rp n (rp_outcome p)" "distinct (map rp_id ps)"
    using Cons.prems(1,2) by simp_all
  show ?case
  proof (cases "rp_answer p")
    case (Inl e)
    have "rp_id ` set ps \<inter> dr_id ` set (db_deliveries db) = {}" using Cons.prems(3) by auto
    moreover have "record_all repr_of (p # ps) db = record_all repr_of ps db"
      by (simp add: record_all_def Inl on_delivery_outage split: option.split)
    ultimately show ?thesis using Cons.IH [OF rest, of db] Inl by simp
  next
    case (Inr u)
    obtain E net t where t: "rp_outcome p = send_one E net n t" "d_get (tk_payload t) ''chain_id'' = Some (PStr chain)"
        "payload_flag (tk_payload t) = rp" using Cons.prems(1) by (auto simp: sent_for_def)
    have ans: "rp_answer p = Inr ()" using Inr by simp
    have "rp_id p \<notin> dr_id ` set (db_deliveries db)" using Cons.prems(3) by auto
    from send_one_record [where E = E and net = net and repr_of = repr_of and now = "rp_now p", OF assms t(2) this] obtain r
      where r: "(case so_callback (rp_outcome p) of None \<Rightarrow> db | Some c \<Rightarrow> on_delivery repr_of (rp_answer p) (rp_id p) (rp_now p) c db) =
          db\<lparr>db_deliveries := db_deliveries db @ [r]\<rparr>" "dr_id r = rp_id p" "record_of chain rp (rp_outcome p) r"
      unfolding t(1,3) ans by blast
    have "rp_id ` set ps \<inter> dr_id ` set (db_deliveries (db\<lparr>db_deliveries := db_deliveries db @ [r]\<rparr>)) = {}"
      using Cons.prems(2,3) r(2) by auto
    from Cons.IH [OF rest this] obtain rs where
      rs: "record_all repr_of ps (db\<lparr>db_deliveries := db_deliveries db @ [r]\<rparr>) = db\<lparr>db_deliveries := db_deliveries db @ r # rs\<rparr>"
        "list_all2 (\<lambda>p r. dr_id r = rp_id p \<and> record_of chain rp (rp_outcome p) r) (filter (\<lambda>p. rp_answer p = Inr ()) ps) rs"
      by auto
    show ?thesis
      by (rule exI [of _ "r # rs"]) (use rs r Inr in \<open>simp add: record_all_def\<close>)
  qed
qed

lemma task_payload_facts:
  "t \<in> set (dispatch_tasks n clk ev rp hits) \<Longrightarrow>
     d_get (tk_payload t) ''chain_id'' = Some (PStr (ev_chain_id ev)) \<and> payload_flag (tk_payload t) = rp"
proof (induction hits arbitrary: clk)
  case (Cons h hits)
  obtain sub chans where h: "h = (sub, chans)" by (cases h)
  have p: "d_get (build_payload a b ev sub rp) ''chain_id'' = Some (PStr (ev_chain_id ev))"
      "payload_flag (build_payload a b ev sub rp) = rp" for a b
    by (auto simp: build_payload_def payload_flag_def d_get_default_def split: option.splits)
  show ?case using Cons p by (auto simp: h Let_def split: option.splits)
qed simp

section \<open>Stopping everything\<close>

lemma fold_stop_runner:
  "wk_runners (fold stop_runner cs w) = fold d_pop cs (wk_runners w)"
  "wk_locks (fold stop_runner cs w) = wk_locks w"
  by (induction cs arbitrary: w) (simp_all add: stop_runner_def)

lemma fold_d_pop_all: "set (d_keys d) \<subseteq> set cs \<Longrightarrow> fold d_pop cs d = []"
proof (induction cs arbitrary: d)
  case (Cons c cs)
  have "set (d_keys (d_pop c d)) \<subseteq> set cs" using Cons.prems by (auto simp: delete_keys)
  then show ?case using Cons.IH by simp
qed simp

lemma stop_runners_spec: "wk_runners (stop_runners w) = []" "wk_locks (stop_runners w) = wk_locks w"
  by (simp_all add: stop_runners_def fold_stop_runner fold_d_pop_all)

section \<open>An example\<close>

text \<open>An environment in which all goes well, and one chain to watch.\<close>

definition ex_worker_env :: WorkerEnv where
  "ex_worker_env = \<lparr>we_lib = ex_lib, we_channels = ex_env, we_conn = (\<lambda>c. Inr ()), we_close = (\<lambda>c. Inr ()), we_threshold = 3,
     we_cooldown = 30, we_connect = (\<lambda>a. Inr ()), we_checkpoint = (\<lambda>c. Inr None), we_acquire = (\<lambda>c. Inr True),
     we_release = (\<lambda>c. Inr ())\<rparr>"

definition ex_worker_snap :: ConfigSnapshot where
  "ex_worker_snap = \<lparr>snap_version = 1, snap_subscriptions = [ex_sub], snap_channels = [ex_channel],
     snap_chains = [Evm_Runner.ex_chain], snap_abis = []\<rparr>"

definition ex_worker :: Worker where
  "ex_worker = snd (reconcile ex_worker_env ex_worker_snap worker_init)"

lemma ex_worker_keys:
  "map (apsnd snd) (wk_runners ex_worker) = [(''eth'', Running)] \<and> wk_locks ex_worker = [(''eth'', ())] \<and>
   fst (reconcile ex_worker_env ex_worker_snap worker_init) = None"
  by code_simp

section \<open>Properties\<close>

text \<open>
  C16. A reconciliation that ends without an exception leaves running exactly: the chains of the
  snapshot that ran already, whose task and chain configuration stay what they were, even if the task has
  ended, and those whose lock could be taken and whose runner could be started. All of them
  work with the new snapshot, and none runs without its lock.
\<close>

theorem reconcile_exact:
  assumes "wk_ok w" and "reconcile env snap w = (None, w')"
  shows "d_get (wk_runners w') c =
      (case d_get (enabled_chains snap) c of
         None \<Rightarrow> None
       | Some cfg \<Rightarrow> next_runner env (wk_registry w') snap c cfg (d_get (wk_runners w) c)) \<and>
    (\<forall>r task. d_get (wk_runners w') c = Some (r, task) \<longrightarrow>
       cr_snap r = snap \<and> cr_matcher r = matcher_init snap \<and> d_has (wk_locks w') c \<and>
       (case d_get (wk_runners w) c of
          None \<Rightarrow> task = Running \<and> d_get (enabled_chains snap) c = Some (cr_chain r)
        | Some (r0, task0) \<Rightarrow> task = task0 \<and> cr_chain r = cr_chain r0))"
proof -
  have "wk_ok w'" using reconcile_ok [OF assms(2,1)] .
  then show ?thesis
    using reconcile_runners(1) [OF assms(2), of c] reconcile_follows [OF assms(2), of c] by (auto simp: wk_ok_def d_has_def)
qed

theorem reconcile_exact_witness:
  "\<exists>r. d_get (wk_runners ex_worker) ''eth'' = Some (r, Running) \<and> cr_snap r = ex_worker_snap \<and> cr_chain r = Evm_Runner.ex_chain \<and>
     d_has (wk_locks ex_worker) ''eth''"
proof -
  have ok: "wk_ok worker_init" by (simp add: wk_ok_def worker_init_def d_has_def)
  have run: "reconcile ex_worker_env ex_worker_snap worker_init = (None, ex_worker)"
    using ex_worker_keys by (simp add: ex_worker_def prod_eq_iff)
  obtain r where r: "d_get (wk_runners ex_worker) ''eth'' = Some (r, Running)" using ex_worker_keys by auto
  have E: "d_get (enabled_chains ex_worker_snap) ''eth'' = Some Evm_Runner.ex_chain"
    by (simp add: enabled_chains_def ex_worker_snap_def Evm_Runner.ex_chain_def dict_of_def)
  have old: "d_get (wk_runners worker_init) ''eth'' = None" by (simp add: worker_init_def)
  from conjunct2 [OF reconcile_exact [OF ok run, of "''eth''"], rule_format, OF r] show ?thesis
    using r unfolding E old by simp
qed

text \<open>
  A runner never runs without its lock, in any sequence of reconciliations, also after one that
  raised; and stopping all of them afterwards leaves no runner, tries to release every
  lock the worker held and forgets them all.
\<close>

theorem runners_hold_locks:
  assumes "worker_run snaps worker_init = (ex, w)"
  shows "(\<forall>c. d_has (wk_runners w) c \<longrightarrow> d_has (wk_locks w) c) \<and> wk_runners (stop_runners w) = [] \<and>
    set (d_keys (wk_runners w)) \<subseteq> fst ` set (snd (release_locks release (stop_runners w))) \<and>
    wk_locks (fst (release_locks release (stop_runners w))) = []"
proof -
  have init: "wk_ok worker_init" by (simp add: wk_ok_def worker_init_def d_has_def)
  have held: "\<forall>c. d_has (wk_runners w) c \<longrightarrow> d_has (wk_locks w) c"
    using worker_run_ok [OF assms init] by (simp add: wk_ok_def)
  have "set (d_keys (wk_runners w)) \<subseteq> set (d_keys (wk_locks w))"
  proof
    fix c assume "c \<in> set (d_keys (wk_runners w))"
    then have "d_has (wk_runners w) c" by (simp only: d_has_iff)
    with held show "c \<in> set (d_keys (wk_locks w))" by (simp only: d_has_iff)
  qed
  with held show ?thesis by (simp add: stop_runners_spec release_locks_def image_image)
qed

theorem runners_hold_locks_witness:
  "d_has (wk_runners ex_worker) ''eth'' \<and> d_has (wk_locks ex_worker) ''eth'' \<and> ''eth'' \<in> fst ` set (snd (release_locks (\<lambda>c. Inl TimeoutError) (stop_runners ex_worker)))"
proof -
  have run: "worker_run [(ex_worker_env, ex_worker_snap)] worker_init = (None, ex_worker)"
    using ex_worker_keys by (simp add: ex_worker_def case_prod_beta)
  have has: "d_has (wk_runners ex_worker) ''eth''" using ex_worker_keys by (auto simp: d_has_def)
  then have "''eth'' \<in> set (d_keys (wk_runners ex_worker))" by (simp only: d_has_iff)
  then show ?thesis using runners_hold_locks [OF run, of "\<lambda>c. Inl TimeoutError"] has by auto
qed

text \<open>
  One channel that cannot be started ends the worker: as soon as some chain of the snapshot is
  running, the reconciliation raises, whichever subscriptions use the channel.
\<close>

theorem bad_channel_ends_worker:
  assumes "channels_start env snap = Some e" and "fst (refresh (we_lib env) snap (wk_registry w)) = None"
    and "d_has (wk_runners w) c" and "c \<in> sn_id ` set (snap_chains snap)"
  shows "fst (reconcile env snap w) \<noteq> None"
proof -
  obtain reg where f: "refresh (we_lib env) snap (wk_registry w) = (None, reg)"
    using assms(2) by (metis prod.collapse)
  let ?E = "enabled_chains snap"
  obtain ex w2 where s: "stop_removed env (set (d_keys ?E)) (d_keys (wk_runners w)) (w\<lparr>wk_registry := reg\<rparr>) = (ex, w2)"
    by (metis prod.collapse)
  have E: "c \<in> set (d_keys ?E)"
  proof -
    have "c \<in> fst ` set (rev (map (\<lambda>c. (sn_id c, c)) (snap_chains snap)))"
      using assms(4) by (simp add: image_image)
    then have "map_of (rev (map (\<lambda>c. (sn_id c, c)) (snap_chains snap))) c \<noteq> None"
      by (simp only: map_of_eq_None_iff not_not)
    then have "d_get ?E c \<noteq> None" by (simp add: enabled_chains_def d_get_dict_of)
    then show ?thesis by (simp only: map_of_eq_None_iff not_not list.set_map)
  qed
  show ?thesis
  proof (cases ex)
    case None
    have "d_get (wk_runners w2) c = d_get (wk_runners w) c" using stop_removed_spec [OF s [unfolded None]] E by simp
    then have "d_has (wk_runners w2) c" using assms(3) by (simp add: d_has_def)
    then show ?thesis
      using start_enabled_bad_channel [OF assms(1) E [unfolded list.set_map]] f s None
      by (simp add: reconcile_def del: set_map list.set_map)
  next
    case (Some e')
    then show ?thesis using f s by (simp add: reconcile_def del: set_map list.set_map)
  qed
qed

text \<open>An HTTP channel without a \<^verbatim>\<open>url\<close>, which no subscription uses.\<close>

definition ex_bad_snap :: ConfigSnapshot where
  "ex_bad_snap = ex_worker_snap\<lparr>snap_version := 2,
     snap_channels := [ex_channel, \<lparr>sc_id = ''c2'', sc_name = ''new'', sc_type = CT_http, sc_config = []\<rparr>]\<rparr>"

theorem bad_channel_ends_worker_witness: "fst (reconcile ex_worker_env ex_bad_snap ex_worker) \<noteq> None"
proof (rule bad_channel_ends_worker)
  show "channels_start ex_worker_env ex_bad_snap = Some KeyError" by code_simp
  show "fst (refresh (we_lib ex_worker_env) ex_bad_snap (wk_registry ex_worker)) = None" by code_simp
  show "d_has (wk_runners ex_worker) ''eth''" using ex_worker_keys by (auto simp: d_has_def)
  show "''eth'' \<in> sn_id ` set (snap_chains ex_bad_snap)" by (simp add: ex_bad_snap_def ex_worker_snap_def Evm_Runner.ex_chain_def)
qed

lemma dispatch_sent:
  assumes "o' \<in> set (dispatch E net clk n ev hits rp)"
  shows "sent_for (ev_chain_id ev) rp n o'"
proof -
  obtain i t where "(i, t) \<in> set (enumerate 0 (dispatch_tasks n clk ev rp hits))" "o' = send_one E (net i) n t"
    using assms by (auto simp: dispatch_def)
  moreover from this have "t \<in> set (dispatch_tasks n clk ev rp hits)"
    by (metis enumerate_eq_zip set_zip_rightD)
  ultimately show ?thesis using task_payload_facts unfolding sent_for_def by blast
qed

text \<open>
  C31. Every delivery ends up in the database as one record: when the outcomes of a dispatch are reported
  to the worker, in whatever order the sends end, one row is added for each report whose transaction the database
  takes, in the order of the reports, with the subscription, the channel and the chain of its send, its success or
  failure and whether it was a replay; a report that meets an outage is logged and leaves nothing; and nothing else
  changes.
\<close>

theorem deliveries_recorded:
  assumes "mset (map rp_outcome reports) = mset (dispatch E net clk n ev hits rp)"
    and "nt_on_failure n" and "nt_on_success n"
    and "distinct (map rp_id reports)" and "rp_id ` set reports \<inter> dr_id ` set (db_deliveries db) = {}"
  shows "\<exists>rs. record_all repr_of reports db = db\<lparr>db_deliveries := db_deliveries db @ rs\<rparr> \<and>
    list_all2 (\<lambda>p r. dr_id r = rp_id p \<and> record_of (ev_chain_id ev) rp (rp_outcome p) r)
      (filter (\<lambda>p. rp_answer p = Inr ()) reports) rs"
proof (rule record_all_spec [OF assms(2,3) _ assms(4,5)])
  have "rp_outcome ` set reports = set (dispatch E net clk n ev hits rp)"
    using mset_eq_setD [OF assms(1)] by simp
  then show "\<forall>p \<in> set reports. sent_for (ev_chain_id ev) rp n (rp_outcome p)"
    using dispatch_sent by blast
qed

definition ex_outcomes :: "SendOutcome list" where
  "ex_outcomes = dispatch ex_env (\<lambda>i w k. Inr 200) (\<lambda>i. (0, ''d'')) ex_notifier ex_transfer
     (match_hits (matcher_init ex_snapshot) ex_transfer) False"

definition ex_report :: "unit res \<Rightarrow> DeliveryReport" where
  "ex_report answer = \<lparr>rp_answer = answer, rp_id = ''r1'', rp_now = 5, rp_outcome = hd ex_outcomes\<rparr>"

theorem deliveries_recorded_witness:
  "(\<exists>r. record_all (\<lambda>e. ''error'') [ex_report (Inr ())] ex_db =
       ex_db\<lparr>db_deliveries := db_deliveries ex_db @ [r]\<rparr> \<and> dr_id r = ''r1'' \<and> dr_chain_id r = ''eth'') \<and>
   record_all (\<lambda>e. ''error'') [ex_report (Inl TimeoutError)] ex_db = ex_db \<and> length ex_outcomes = 1"
proof -
  have "[(ss_id s, sc_id c). (s, cs) \<leftarrow> match_hits (matcher_init ex_snapshot) ex_transfer, c \<leftarrow> cs,
      d_has (nt_channels ex_notifier) (sc_id c)] = [(''s1'', ''c1'')]" by code_simp
  then have "map (\<lambda>out. (so_sub out, so_chan out)) ex_outcomes = [(''s1'', ''c1'')]"
    unfolding ex_outcomes_def dispatch_pairs .
  from arg_cong [OF this, of length] have len: "length ex_outcomes = 1" by simp
  then obtain x where x: "ex_outcomes = [x]" by (auto simp: length_Suc_conv)
  have flags: "nt_on_failure ex_notifier" "nt_on_success ex_notifier" by (simp_all add: ex_notifier_def)
  have "\<exists>rs. record_all (\<lambda>e. ''error'') [ex_report answer] ex_db = ex_db\<lparr>db_deliveries := db_deliveries ex_db @ rs\<rparr> \<and>
    list_all2 (\<lambda>p r. dr_id r = rp_id p \<and> record_of (ev_chain_id ex_transfer) False (rp_outcome p) r)
      (filter (\<lambda>p. rp_answer p = Inr ()) [ex_report answer]) rs" for answer
    by (rule deliveries_recorded [where E = ex_env and net = "\<lambda>i w k. Inr 200" and clk = "\<lambda>i. (0, ''d'')" and n = ex_notifier
          and hits = "match_hits (matcher_init ex_snapshot) ex_transfer"]) (simp_all add: ex_report_def x [unfolded ex_outcomes_def] x flags ex_db_def db_empty_def)
  from this [of "Inr ()"] this [of "Inl TimeoutError"] len show ?thesis
    by (auto simp: ex_report_def list_all2_Cons1 record_of_def ex_transfer_def)
qed

end
