(* ===== verification/Idl_Fetcher.thy ===== *)
theory Idl_Fetcher
  imports Abi_Registry
begin

text \<open>
  \<^verbatim>\<open>core/abi/idl_fetcher.py\<close>: reading the IDL of an Anchor program from the account in which Anchor keeps
  it. Public keys and addresses (solders), the HTTP request, and the decoders base64, zlib, UTF-8 and JSON
  are fields of \<open>IdlLib\<close>. The lemmas show that the compressed stream is found behind any header of up to 87
  bytes, and that the IDL that comes back belongs to the program in the eyes of the ABI registry.
\<close>

section \<open>Operations\<close>

record IdlLib =
  il_pubkey :: "string \<Rightarrow> byte list res"
  il_find_address :: "byte list list \<Rightarrow> byte list \<Rightarrow> byte list"
  il_key_str :: "byte list \<Rightarrow> string"
  il_post :: "string \<Rightarrow> pv \<Rightarrow> pv res"
  il_b64decode :: "pv \<Rightarrow> byte list res"
  il_decompress :: "byte list \<Rightarrow> byte list option"
  il_utf8 :: "byte list \<Rightarrow> string option"
  il_loads :: "string \<Rightarrow> pv option"

definition IDL_SEED :: "byte list" where
  "IDL_SEED = map of_char ''anchor:idl''"

definition ANCHOR_DISCRIMINATOR_LEN :: nat where
  "ANCHOR_DISCRIMINATOR_LEN = 8"

definition idl_address :: "IdlLib \<Rightarrow> string \<Rightarrow> string res" where
  "idl_address L program_id =
     rbind (il_pubkey L program_id) (\<lambda>program_pubkey.
       Inr (il_key_str L (il_find_address L [IDL_SEED, program_pubkey] program_pubkey)))"

text \<open>\<open>_try_decompress\<close>: at most 80 offsets.\<close>

fun try_offsets :: "IdlLib \<Rightarrow> byte list \<Rightarrow> nat list \<Rightarrow> string option" where
  "try_offsets L raw [] = None"
| "try_offsets L raw (off # offs) =
     (case Option.bind (il_decompress L (drop off raw)) (il_utf8 L) of
        Some s \<Rightarrow> Some s
      | None \<Rightarrow> try_offsets L raw offs)"

definition try_decompress :: "IdlLib \<Rightarrow> byte list \<Rightarrow> nat \<Rightarrow> string option" where
  "try_decompress L raw start = try_offsets L raw [start..<min (start + 80) (length raw)]"

text \<open>The address is filled in where it is missing. A value that is no object raises at the assignment or before.\<close>

definition fill_address :: "string \<Rightarrow> pv \<Rightarrow> pv res" where
  "fill_address program_id meta =
     (case meta of
        PDict m \<Rightarrow> Inr (PDict (if d_has m ''address'' then m else d_set ''address'' (PStr program_id) m))
      | PStr s \<Rightarrow> if contains ''address'' s then Inr meta else Inl TypeError
      | PList xs \<Rightarrow> if list_ex (py_eq (PStr ''address'')) xs then Inr meta else Inl TypeError
      | _ \<Rightarrow> Inl TypeError)"

text \<open>\<open>len\<close>, for the log line.\<close>

fun py_len :: "pv \<Rightarrow> nat res" where
  "py_len (PStr s) = Inr (length s)"
| "py_len (PBytes bs) = Inr (length bs)"
| "py_len (PList xs) = Inr (length xs)"
| "py_len (PTuple xs) = Inr (length xs)"
| "py_len (PDict d) = Inr (length d)"
| "py_len v = Inl TypeError"

definition complete_idl :: "string \<Rightarrow> pv \<Rightarrow> pv res" where
  "complete_idl program_id idl =
     (case idl of
        PDict d \<Rightarrow>
          rbind (fill_address program_id (d_get_default d ''metadata'' (PDict []))) (\<lambda>meta.
            let d' = d_set ''metadata'' meta d
            in rbind (py_len (d_get_default d' ''events'' (PList []))) (\<lambda>n.
               rbind (py_len (d_get_default d' ''instructions'' (PList []))) (\<lambda>m. Inr (PDict d'))))
      | _ \<Rightarrow> Inl TypeError)"

definition account_request :: "string \<Rightarrow> pv" where
  "account_request addr =
     PDict [(''jsonrpc'', PStr ''2.0''), (''id'', PInt 1), (''method'', PStr ''getAccountInfo''),
            (''params'', PList [PStr addr, PDict [(''encoding'', PStr ''base64'')]])]"

text \<open>\<open>result["value"]["data"][0]\<close>; \<open>None\<close> when there is no account.\<close>

definition account_data :: "pv \<Rightarrow> pv option res" where
  "account_data body =
     rbind (pv_get_or body ''result'' PNone) (\<lambda>result.
       if result = PNone then Inr None
       else rbind (pv_get_or result ''value'' PNone) (\<lambda>val.
         if val = PNone then Inr None
         else rbind (pv_index val ''data'') (\<lambda>data.
           case data of
             PDict d \<Rightarrow> Inl KeyError
           | _ \<Rightarrow> rbind (py_iter data) (\<lambda>xs. case xs of [] \<Rightarrow> Inl IndexError | x # _ \<Rightarrow> Inr (Some x)))))"

definition fetch_idl_from_chain :: "IdlLib \<Rightarrow> string \<Rightarrow> string \<Rightarrow> pv option res" where
  "fetch_idl_from_chain L rpc_url program_id =
     rbind (idl_address L program_id) (\<lambda>addr.
     rbind (il_post L rpc_url (account_request addr)) (\<lambda>body.
     rbind (account_data body) (\<lambda>data.
       case data of
         None \<Rightarrow> Inr None
       | Some data_b64 \<Rightarrow>
           rbind (il_b64decode L data_b64) (\<lambda>raw.
             case try_decompress L raw ANCHOR_DISCRIMINATOR_LEN of
               None \<Rightarrow> Inr None
             | Some idl_json \<Rightarrow>
                 (case il_loads L idl_json of
                    None \<Rightarrow> Inr None
                  | Some idl \<Rightarrow> rbind (complete_idl program_id idl) (\<lambda>idl. Inr (Some idl)))))))"

section \<open>Facts\<close>

lemma try_offsets_first:
  assumes "\<forall>o' \<in> set pre. Option.bind (il_decompress L (drop o' raw)) (il_utf8 L) = None"
    and "Option.bind (il_decompress L (drop off raw)) (il_utf8 L) = Some s"
  shows "try_offsets L raw (pre @ off # post) = Some s"
  using assms by (induction pre) auto

lemma try_decompress_header:
  assumes "start \<le> length hdr" and "length hdr < start + 80" and "data \<noteq> []"
    and "Option.bind (il_decompress L data) (il_utf8 L) = Some s"
    and "\<forall>i. start \<le> i \<and> i < length hdr \<longrightarrow> Option.bind (il_decompress L (drop i (hdr @ data))) (il_utf8 L) = None"
  shows "try_decompress L (hdr @ data) start = Some s"
proof -
  let ?n = "length hdr" and ?hi = "min (start + 80) (length (hdr @ data))"
  have "?n < ?hi" using assms(2,3) by (cases data) auto
  then have "[start..<?hi] = [start..<?n] @ ?n # [Suc ?n..<?hi]"
    using assms(1) upt_add_eq_append [of start ?n "?hi - ?n"] by (simp add: upt_conv_Cons)
  moreover have "try_offsets L (hdr @ data) ([start..<?n] @ ?n # [Suc ?n..<?hi]) = Some s"
    by (rule try_offsets_first) (use assms(4,5) in auto)
  ultimately show ?thesis by (simp add: try_decompress_def)
qed

lemma complete_idl_program:
  assumes "complete_idl program_id (PDict d) = Inr idl" and "program_id \<noteq> []"
    and "\<forall>m. d_get d ''metadata'' = Some m \<longrightarrow> (\<exists>md. m = PDict md \<and> d_get md ''address'' \<in> {None, Some (PStr program_id)})"
  shows "idl_program_id idl = Inr (Some program_id) \<and>
    (\<exists>d'. idl = PDict d' \<and> (\<forall>k. k \<noteq> ''metadata'' \<longrightarrow> d_get d' k = d_get d k))"
proof -
  obtain md where md: "d_get_default d ''metadata'' (PDict []) = PDict md" "d_get md ''address'' \<in> {None, Some (PStr program_id)}"
    using assms(3) by (cases "d_get d ''metadata''") (auto simp: d_get_default_def)
  let ?m = "if d_has md ''address'' then md else d_set ''address'' (PStr program_id) md"
  have idl: "idl = PDict (d_set ''metadata'' (PDict ?m) d)"
    using assms(1) md(1) by (auto simp: complete_idl_def fill_address_def Let_def res_simps)
  have "d_get ?m ''address'' = Some (PStr program_id)"
    using md(2) by (auto simp: d_has_def d_get_set)
  then show ?thesis
    using assms(2) by (simp add: idl idl_program_id_def pv_get_or_def d_get_set)
qed

section \<open>Properties\<close>

text \<open>
  Fetching works for every account layout: whatever header of 8 to 87 bytes stands before the compressed
  IDL, as long as nothing in it is itself a compressed text, the result is the decoded IDL with all its
  entries, and it names the requested program as the registry reads it. The assumption on \<open>il_loads\<close> is that
  the text is the JSON of an object \<open>d\<close> whose metadata, if any, does not name another program.
\<close>

theorem idl_fetched:
  assumes "idl_address L program_id = Inr addr" and "program_id \<noteq> []"
    and "il_post L url (account_request addr) =
      Inr (PDict [(''result'', PDict [(''value'', PDict [(''data'', PList [blob, PStr ''base64''])])])])"
    and "il_b64decode L blob = Inr (hdr @ data)" and "8 \<le> length hdr" and "length hdr < 88" and "data \<noteq> []"
    and "Option.bind (il_decompress L data) (il_utf8 L) = Some idl_txt" and "il_loads L idl_txt = Some (PDict d)"
    and "\<forall>i. 8 \<le> i \<and> i < length hdr \<longrightarrow> Option.bind (il_decompress L (drop i (hdr @ data))) (il_utf8 L) = None"
    and "\<forall>m. d_get d ''metadata'' = Some m \<longrightarrow> (\<exists>md. m = PDict md \<and> d_get md ''address'' \<in> {None, Some (PStr program_id)})"
    and "\<forall>k \<in> {''events'', ''instructions''}. \<exists>xs. d_get_default d k (PList []) = PList xs"
  shows "\<exists>idl. fetch_idl_from_chain L url program_id = Inr (Some (PDict idl)) \<and>
    idl_program_id (PDict idl) = Inr (Some program_id) \<and> (\<forall>k. k \<noteq> ''metadata'' \<longrightarrow> d_get idl k = d_get d k)"
proof -
  have raw: "try_decompress L (hdr @ data) ANCHOR_DISCRIMINATOR_LEN = Some idl_txt"
    unfolding ANCHOR_DISCRIMINATOR_LEN_def by (rule try_decompress_header) (use assms(5-8,10) in auto)
  have other: "d_get_default (d_set ''metadata'' m d) k w = d_get_default d k w" if "k \<noteq> ''metadata''" for m k and w :: pv
    using that by (simp add: d_get_default_def d_get_set)
  obtain meta where "fill_address program_id (d_get_default d ''metadata'' (PDict [])) = Inr meta"
    using assms(11) by (cases "d_get d ''metadata''") (auto simp: d_get_default_def fill_address_def)
  then obtain idl where idl: "complete_idl program_id (PDict d) = Inr idl"
    using assms(12) by (auto simp: complete_idl_def Let_def other)
  from complete_idl_program [OF this assms(2,11)] obtain d' where
    d': "idl = PDict d'" "idl_program_id idl = Inr (Some program_id)" "\<forall>k. k \<noteq> ''metadata'' \<longrightarrow> d_get d' k = d_get d k"
    by blast
  have "fetch_idl_from_chain L url program_id = Inr (Some idl)"
    using assms(1,3,4,9) raw idl by (simp add: fetch_idl_from_chain_def account_data_def pv_get_or_def d_index_def)
  with d' show ?thesis by blast
qed

text \<open>A library in which compression adds one byte and JSON texts are looked up in a table.\<close>

definition ex_idl_lib :: IdlLib where
  "ex_idl_lib = \<lparr>il_pubkey = (\<lambda>s. Inr (map of_char s)), il_find_address = (\<lambda>seeds p. p), il_key_str = map (\<lambda>b. char_of (unat b)),
     il_post = (\<lambda>url req. Inr (PDict [(''result'', PDict [(''value'', PDict [(''data'', PList [PStr ''x'', PStr ''base64''])])])])),
     il_b64decode = (\<lambda>v. Inr (replicate 44 0 @ [120, 65])),
     il_decompress = (\<lambda>bs. if hd bs = 120 then Some (tl bs) else None), il_utf8 = (\<lambda>bs. Some (map (\<lambda>b. char_of (unat b)) bs)),
     il_loads = (\<lambda>s. if s = ''A'' then Some (PDict [(''events'', PList []), (''name'', PStr ''amm'')]) else None)\<rparr>"

theorem idl_fetched_witness:
  "\<exists>idl. fetch_idl_from_chain ex_idl_lib ''http://n'' ''Prog'' = Inr (Some (PDict idl)) \<and>
     idl_program_id (PDict idl) = Inr (Some ''Prog'') \<and> d_get idl ''name'' = Some (PStr ''amm'')"
proof -
  have nth: "hd (drop i (replicate 44 0 @ [120, 65 :: byte])) = 0" if "i < 44" for i
    using that by (simp add: hd_drop_conv_nth nth_append)
  have "\<exists>idl. fetch_idl_from_chain ex_idl_lib ''http://n'' ''Prog'' = Inr (Some (PDict idl)) \<and>
      idl_program_id (PDict idl) = Inr (Some ''Prog'') \<and>
      (\<forall>k. k \<noteq> ''metadata'' \<longrightarrow> d_get idl k = d_get [(''events'', PList []), (''name'', PStr ''amm'')] k)"
    by (rule idl_fetched [where addr = "''Prog''" and blob = "PStr ''x''" and hdr = "replicate 44 0" and data = "[120, 65]" and idl_txt = "''A''"])
      (use nth in \<open>simp_all add: ex_idl_lib_def idl_address_def d_get_default_def char_of_def bit_0\<close>)
  then show ?thesis by auto
qed

end
