(* ===== verification/Web_Api.thy ===== *)
theory Web_Api
  imports Web_Schemas Worker Idl_Fetcher
begin

text \<open>
  The management API that changes the configuration: \<^verbatim>\<open>apps/web/routers/_common.py\<close>, \<^verbatim>\<open>chains.py\<close>,
  \<^verbatim>\<open>channels.py\<close>, \<^verbatim>\<open>subscriptions.py\<close> and \<^verbatim>\<open>abis.py\<close>. A handler takes the database and the messages
  published so far and gives an answer with their new state. It works on a session: what is not committed
  when it raises is discarded, so that an error leaves the database as it was.

  \<open>WebEnv\<close> holds what the handlers get from outside: whether Redis takes a message, the identifier
  \<open>uuid4\<close> makes, \<open>jsonschema.validate\<close> (the message of its error, if any) and the library of the IDL fetcher.

  \<open>config_writer\<close> is the contract the configuration watcher relies on: a request that is answered with
  success raises the version by one, any other leaves everything as it was. The lemmas show that all
  requests together fulfil it, and what follows for the worker.
\<close>

section \<open>Answers\<close>

datatype 'a Response = Ok int 'a | HTTPException int string | Unhandled exn

fun status_code :: "'a Response \<Rightarrow> int" where
  "status_code (Ok st v) = st"
| "status_code (HTTPException st d) = st"
| "status_code (Unhandled e) = 500"

record Web =
  wb_db :: Db
  wb_published :: "(string \<times> (string, pv) dict) list"

record WebEnv =
  wv_publish :: "unit res"
  wv_new_id :: string
  wv_schema :: "pv \<Rightarrow> pv \<Rightarrow> string option"
  wv_idl :: IdlLib

text \<open>\<open>bump_and_publish\<close>: \<open>session\<close> is the database as the open transaction sees it.\<close>

definition bump_and_publish :: "WebEnv \<Rightarrow> string \<Rightarrow> string \<Rightarrow> string \<Rightarrow> Db \<Rightarrow> Web \<Rightarrow> int \<times> Web" where
  "bump_and_publish env entity entity_id action session w =
     (case version_bump session of
        (new_version, db) \<Rightarrow>
          let w' = w\<lparr>wb_db := db\<rparr>;
              msg = [(''entity'', PStr entity), (''id'', PStr entity_id), (''action'', PStr action), (''version'', PInt new_version)]
          in (new_version,
              case wv_publish env of
                Inl e \<Rightarrow> w'
              | Inr u \<Rightarrow> w'\<lparr>wb_published := wb_published w' @ [(''config_changed'', msg)]\<rparr>))"

text \<open>The end of every handler that writes.\<close>

definition written :: "WebEnv \<Rightarrow> string \<Rightarrow> string \<Rightarrow> string \<Rightarrow> int \<Rightarrow> 'a \<Rightarrow> Web \<Rightarrow> Db res \<Rightarrow> 'a Response \<times> Web" where
  "written env entity entity_id action st v w session =
     (case session of
        Inl e \<Rightarrow> (Unhandled e, w)
      | Inr db \<Rightarrow> (Ok st v, snd (bump_and_publish env entity entity_id action db w)))"

text \<open>Looking a row up, or answering 404.\<close>

definition or_404 :: "'r option \<Rightarrow> string \<Rightarrow> Web \<Rightarrow> ('r \<Rightarrow> 'a Response \<times> Web) \<Rightarrow> 'a Response \<times> Web" where
  "or_404 row detail w k = (case row of None \<Rightarrow> (HTTPException 404 detail, w) | Some r \<Rightarrow> k r)"

section \<open>Chains\<close>

definition chain_row :: "ChainCreate \<Rightarrow> Chain" where
  "chain_row p =
     \<lparr>ch_id = pc_id p, ch_kind = pc_kind p, ch_rpc_http = pc_rpc_http p, ch_rpc_ws = pc_rpc_ws p,
      ch_confirmations = pc_confirmations p, ch_poll_interval_ms = pc_poll_interval_ms p, ch_enabled = pc_enabled p,
      ch_commitment = pc_commitment p, ch_trace_internal_calls = Some (pc_trace_internal_calls p),
      ch_log_query_range_blocks = pc_log_query_range_blocks p, ch_slot_query_range_blocks = pc_slot_query_range_blocks p,
      ch_rpc_http_fallbacks = pc_rpc_http_fallbacks p, ch_rpc_timeout_ms = pc_rpc_timeout_ms p\<rparr>"

definition create_chain :: "WebEnv \<Rightarrow> ChainCreate \<Rightarrow> Web \<Rightarrow> Chain Response \<times> Web" where
  "create_chain env payload w =
     (if chain_get (pc_id payload) (wb_db w) \<noteq> None then (HTTPException 409 ''chain id already exists'', w)
      else written env ''chain'' (pc_id payload) ''create'' 201 (chain_row payload) w
             (chain_create (chain_row payload) (wb_db w)))"

text \<open>The columns a \<open>PUT\<close> assigns: all but the id and the kind.\<close>

definition chain_assign :: "ChainCreate \<Rightarrow> Chain \<Rightarrow> Chain" where
  "chain_assign p c = (chain_row p)\<lparr>ch_id := ch_id c, ch_kind := ch_kind c\<rparr>"

definition update_chain :: "WebEnv \<Rightarrow> string \<Rightarrow> ChainCreate \<Rightarrow> Web \<Rightarrow> Chain Response \<times> Web" where
  "update_chain env chain_id payload w =
     or_404 (chain_get chain_id (wb_db w)) ''chain not found'' w (\<lambda>row.
       written env ''chain'' chain_id ''update'' 200 (chain_assign payload row) w
         (Inr (chain_update chain_id (chain_assign payload) (wb_db w))))"

definition list_chains :: "Web \<Rightarrow> Chain list Response \<times> Web" where
  "list_chains w = (Ok 200 (chain_list_all (wb_db w)), w)"

definition get_chain :: "string \<Rightarrow> Web \<Rightarrow> Chain Response \<times> Web" where
  "get_chain chain_id w = or_404 (chain_get chain_id (wb_db w)) ''chain not found'' w (\<lambda>row. (Ok 200 row, w))"

definition delete_chain :: "WebEnv \<Rightarrow> string \<Rightarrow> Web \<Rightarrow> unit Response \<times> Web" where
  "delete_chain env chain_id w =
     or_404 (chain_get chain_id (wb_db w)) ''chain not found'' w (\<lambda>row.
       written env ''chain'' chain_id ''delete'' 204 () w (Inr (chain_delete chain_id (wb_db w))))"

record ChainStatus =
  st_chain_id :: string
  st_enabled :: bool
  st_latest_block :: "int option"
  st_latest_block_hash :: "string option"

definition chain_status :: "string \<Rightarrow> Web \<Rightarrow> ChainStatus Response \<times> Web" where
  "chain_status chain_id w =
     or_404 (chain_get chain_id (wb_db w)) ''chain not found'' w (\<lambda>chain.
       let cp = checkpoint_get chain_id (wb_db w)
       in (Ok 200 \<lparr>st_chain_id = chain_id, st_enabled = ch_enabled chain,
             st_latest_block = map_option cp_last_block cp, st_latest_block_hash = map_option cp_last_block_hash cp\<rparr>, w))"

record ChainLagOut =
  lg_chain_id :: string
  lg_tip_block :: "int option"
  lg_last_processed_block :: "int option"
  lg_lag_blocks :: "int option"

text \<open>\<open>tip_raw\<close> is what Redis answers for the key of the tip.\<close>

definition get_chain_lag :: "string option res \<Rightarrow> string \<Rightarrow> Web \<Rightarrow> ChainLagOut Response \<times> Web" where
  "get_chain_lag tip_raw chain_id w =
     or_404 (chain_get chain_id (wb_db w)) ''chain not found'' w (\<lambda>chain.
       case rbind tip_raw (\<lambda>raw. case raw of None \<Rightarrow> Inr None | Some s \<Rightarrow> rbind (py_int (PStr s)) (\<lambda>n. Inr (Some n))) of
         Inl e \<Rightarrow> (Unhandled e, w)
       | Inr tip_block \<Rightarrow>
           let last_processed = map_option cp_last_block (checkpoint_get chain_id (wb_db w));
               lag = (case (tip_block, last_processed) of (Some t, Some l) \<Rightarrow> Some (max 0 (t - l)) | _ \<Rightarrow> None)
           in (Ok 200 \<lparr>lg_chain_id = chain_id, lg_tip_block = tip_block, lg_last_processed_block = last_processed,
                 lg_lag_blocks = lag\<rparr>, w))"

section \<open>Channels\<close>

text \<open>The \<open>config_schema\<close> of the five drivers.\<close>

definition schema_of :: "string list \<Rightarrow> (string \<times> pv) list \<Rightarrow> pv" where
  "schema_of required props =
     PDict [(''type'', PStr ''object''), (''required'', PList (map PStr required)), (''properties'', PDict props)]"

abbreviation of_type :: "string \<Rightarrow> pv" where
  "of_type t \<equiv> PDict [(''type'', PStr t)]"

definition http_schema :: pv where
  "http_schema = schema_of [''url'']
     [(''url'', of_type ''string''), (''method'', of_type ''string''), (''headers'', of_type ''object''),
      (''hmac_secret'', of_type ''string''), (''timeout_seconds'', of_type ''number'')]"

definition redis_streams_schema :: pv where
  "redis_streams_schema = schema_of [''stream'']
     [(''stream'', of_type ''string''), (''maxlen'', of_type ''integer''), (''redis_url'', of_type ''string'')]"

definition kafka_schema :: pv where
  "kafka_schema = schema_of [''bootstrap_servers'', ''topic'']
     [(''bootstrap_servers'', of_type ''string''), (''topic'', of_type ''string''), (''key'', of_type ''string''),
      (''compression_type'', of_type ''string''),
      (''linger_ms'', PDict [(''type'', PStr ''integer''), (''minimum'', PInt 0)]),
      (''batch_size'', PDict [(''type'', PStr ''integer''), (''minimum'', PInt 1)]), (''acks'', of_type ''string'')]"

definition rabbitmq_schema :: pv where
  "rabbitmq_schema = schema_of [''url'']
     [(''url'', of_type ''string''), (''exchange'', of_type ''string''), (''routing_key'', of_type ''string''),
      (''queue'', of_type ''string'')]"

definition websocket_schema :: pv where
  "websocket_schema = schema_of [''ws_fanout_channel''] [(''ws_fanout_channel'', of_type ''string'')]"

text \<open>\<open>CHANNEL_REGISTRY.get(type).config_schema\<close>; the application imports all five drivers.\<close>

fun config_schema :: "ChannelType \<Rightarrow> pv" where
  "config_schema CT_http = http_schema"
| "config_schema CT_mq = redis_streams_schema"
| "config_schema CT_kafka = kafka_schema"
| "config_schema CT_rabbitmq = rabbitmq_schema"
| "config_schema CT_ws = websocket_schema"

definition config_error :: "WebEnv \<Rightarrow> ChannelCreate \<Rightarrow> string option" where
  "config_error env payload = wv_schema env (config_schema (pn_type payload)) (PDict (pn_config payload))"

definition create_channel :: "WebEnv \<Rightarrow> ChannelCreate \<Rightarrow> Web \<Rightarrow> Config_Store.Channel Response \<times> Web" where
  "create_channel env payload w =
     (case config_error env payload of
        Some msg \<Rightarrow> (HTTPException 422 msg, w)
      | None \<Rightarrow>
          written env ''channel'' (wv_new_id env) ''create'' 201
            \<lparr>cn_id = wv_new_id env, cn_name = pn_name payload, cn_type = pn_type payload, cn_config = pn_config payload\<rparr> w
            (channel_create (wv_new_id env) (pn_name payload) (pn_type payload) (pn_config payload) (wb_db w)))"

text \<open>The type of the payload chooses the schema; the row keeps its own type.\<close>

definition channel_assign :: "ChannelCreate \<Rightarrow> Config_Store.Channel \<Rightarrow> Config_Store.Channel" where
  "channel_assign p c = c\<lparr>cn_name := pn_name p, cn_config := pn_config p\<rparr>"

definition update_channel :: "WebEnv \<Rightarrow> string \<Rightarrow> ChannelCreate \<Rightarrow> Web \<Rightarrow> Config_Store.Channel Response \<times> Web" where
  "update_channel env channel_id payload w =
     or_404 (channel_get channel_id (wb_db w)) ''channel not found'' w (\<lambda>row.
       case config_error env payload of
         Some msg \<Rightarrow> (HTTPException 422 msg, w)
       | None \<Rightarrow>
           written env ''channel'' channel_id ''update'' 200 (channel_assign payload row) w
             (Inr (channel_update channel_id (channel_assign payload) (wb_db w))))"

definition list_channels :: "Web \<Rightarrow> Config_Store.Channel list Response \<times> Web" where
  "list_channels w = (Ok 200 (channel_list_all (wb_db w)), w)"

definition get_channel :: "string \<Rightarrow> Web \<Rightarrow> Config_Store.Channel Response \<times> Web" where
  "get_channel channel_id w = or_404 (channel_get channel_id (wb_db w)) ''channel not found'' w (\<lambda>row. (Ok 200 row, w))"

definition delete_channel :: "WebEnv \<Rightarrow> string \<Rightarrow> Web \<Rightarrow> unit Response \<times> Web" where
  "delete_channel env channel_id w =
     or_404 (channel_get channel_id (wb_db w)) ''channel not found'' w (\<lambda>row.
       written env ''channel'' channel_id ''delete'' 204 () w (Inr (channel_delete channel_id (wb_db w))))"

text \<open>
  \<open>channel_health\<close>: a driver is made and started; an HTTP client sends a \<open>HEAD\<close> request, a driver on the bus
  pings Redis. Whatever raises, also in closing, is reported as an error.
\<close>

definition probe :: "(Channels.Channel \<Rightarrow> int res) \<Rightarrow> unit res \<Rightarrow> Channels.Channel \<Rightarrow> string res" where
  "probe head ping ch =
     (case ch of
        Http c \<Rightarrow> rbind (head ch) (\<lambda>st. Inr (''HTTP '' @ int_str st))
      | RedisStreams c \<Rightarrow> rbind ping (\<lambda>u. Inr ''redis ping ok'')
      | WebSocket c \<Rightarrow> rbind ping (\<lambda>u. Inr ''redis ping ok'')
      | _ \<Rightarrow> Inr ''connected'')"

record ChannelHealth =
  hl_channel_id :: string
  hl_status :: string
  hl_detail :: string

definition channel_health ::
  "ChannelEnv \<Rightarrow> (Channels.Channel \<Rightarrow> unit res) \<Rightarrow> (Channels.Channel \<Rightarrow> unit res) \<Rightarrow> (Channels.Channel \<Rightarrow> int res) \<Rightarrow>
   unit res \<Rightarrow> (exn \<Rightarrow> string) \<Rightarrow> string \<Rightarrow> Web \<Rightarrow> ChannelHealth Response \<times> Web" where
  "channel_health E conn clo head ping repr_of channel_id w =
     or_404 (channel_get channel_id (wb_db w)) ''channel not found'' w (\<lambda>row.
       let report = (\<lambda>st d. (Ok 200 \<lparr>hl_channel_id = channel_id, hl_status = st, hl_detail = d\<rparr>, w))
       in case rbind (channel_factory E (snap_channel row)) (channel_start conn) of
            Inl e \<Rightarrow> report ''error'' (repr_of e)
          | Inr ch \<Rightarrow>
              (case channel_stop clo ch of
                 Inl e \<Rightarrow> report ''error'' (repr_of e)
               | Inr ch' \<Rightarrow>
                   (case probe head ping ch of
                      Inl e \<Rightarrow> report ''error'' (repr_of e)
                    | Inr d \<Rightarrow> report ''ok'' d)))"

section \<open>Subscriptions\<close>

definition sub_row :: "string \<Rightarrow> SubscriptionCreate \<Rightarrow> Subscription" where
  "sub_row new_id p =
     \<lparr>su_id = new_id, su_name = ps_name p, su_chain_id = ps_chain_id p, su_address = ps_address p, su_abi_id = ps_abi_id p,
      su_match_kind = ps_match_kind p, su_match_name = ps_match_name p, su_arg_filters = ps_arg_filters p,
      su_enabled = ps_enabled p, su_start_block = ps_start_block p, su_last_processed_block = None,
      su_business_name = ps_business_name p\<rparr>"

definition create_subscription :: "WebEnv \<Rightarrow> SubscriptionCreate \<Rightarrow> Web \<Rightarrow> Subscription Response \<times> Web" where
  "create_subscription env payload w =
     or_404 (chain_get (ps_chain_id payload) (wb_db w)) ''chain_id not found'' w (\<lambda>chain.
       written env ''subscription'' (wv_new_id env) ''create'' 201 (sub_row (wv_new_id env) payload) w
         (sub_create (sub_row (wv_new_id env) payload) (wb_db w)))"

text \<open>A \<open>PUT\<close> keeps the id, the chain and the progress.\<close>

definition sub_assign :: "SubscriptionCreate \<Rightarrow> Subscription \<Rightarrow> Subscription" where
  "sub_assign p s =
     (sub_row (su_id s) p)\<lparr>su_chain_id := su_chain_id s, su_last_processed_block := su_last_processed_block s\<rparr>"

definition update_subscription :: "WebEnv \<Rightarrow> string \<Rightarrow> SubscriptionCreate \<Rightarrow> Web \<Rightarrow> Subscription Response \<times> Web" where
  "update_subscription env sub_id payload w =
     or_404 (sub_get sub_id (wb_db w)) ''subscription not found'' w (\<lambda>row.
       written env ''subscription'' sub_id ''update'' 200 (sub_assign payload row) w
         (sub_update sub_id (sub_assign payload) (wb_db w)))"

definition list_subscriptions :: "Web \<Rightarrow> Subscription list Response \<times> Web" where
  "list_subscriptions w = (Ok 200 (sub_list_all (wb_db w)), w)"

definition bound_ids :: "Db \<Rightarrow> string \<Rightarrow> string list" where
  "bound_ids db sub_id = map lk_channel_id (filter (\<lambda>l. lk_subscription_id l = sub_id) (db_links db))"

definition get_subscription :: "string \<Rightarrow> Web \<Rightarrow> (Subscription \<times> string list) Response \<times> Web" where
  "get_subscription sub_id w =
     or_404 (sub_get sub_id (wb_db w)) ''subscription not found'' w (\<lambda>row. (Ok 200 (row, bound_ids (wb_db w) sub_id), w))"

definition delete_subscription :: "WebEnv \<Rightarrow> string \<Rightarrow> Web \<Rightarrow> unit Response \<times> Web" where
  "delete_subscription env sub_id w =
     or_404 (sub_get sub_id (wb_db w)) ''subscription not found'' w (\<lambda>row.
       written env ''subscription'' sub_id ''delete'' 204 () w (Inr (sub_delete sub_id (wb_db w))))"

definition bind_channel_handler :: "WebEnv \<Rightarrow> string \<Rightarrow> string \<Rightarrow> Web \<Rightarrow> unit Response \<times> Web" where
  "bind_channel_handler env sub_id channel_id w =
     or_404 (sub_get sub_id (wb_db w)) ''subscription not found'' w (\<lambda>s.
     or_404 (channel_get channel_id (wb_db w)) ''channel not found'' w (\<lambda>c.
       case bind_channel sub_id channel_id (wb_db w) of
         Inl e \<Rightarrow> if e = IntegrityError then (HTTPException 409 ''channel already bound'', w) else (Unhandled e, w)
       | Inr db \<Rightarrow> written env ''subscription'' sub_id ''bind_channel'' 204 () w (Inr db)))"

definition set_enabled :: "WebEnv \<Rightarrow> bool \<Rightarrow> string \<Rightarrow> string \<Rightarrow> Web \<Rightarrow> unit Response \<times> Web" where
  "set_enabled env on action sub_id w =
     or_404 (sub_get sub_id (wb_db w)) ''subscription not found'' w (\<lambda>s.
       written env ''subscription'' sub_id action 200 () w
         (sub_update sub_id (\<lambda>s. s\<lparr>su_enabled := on\<rparr>) (wb_db w)))"

definition pause_subscription :: "WebEnv \<Rightarrow> string \<Rightarrow> Web \<Rightarrow> unit Response \<times> Web" where
  "pause_subscription env sub_id w = set_enabled env False ''pause'' sub_id w"

definition resume_subscription :: "WebEnv \<Rightarrow> string \<Rightarrow> Web \<Rightarrow> unit Response \<times> Web" where
  "resume_subscription env sub_id w = set_enabled env True ''resume'' sub_id w"

section \<open>ABIs\<close>

definition create_abi :: "WebEnv \<Rightarrow> AbiCreate \<Rightarrow> Web \<Rightarrow> Abi Response \<times> Web" where
  "create_abi env payload w =
     written env ''abi'' (wv_new_id env) ''create'' 201
       \<lparr>ab_id = wv_new_id env, ab_name = pa_name payload, ab_kind = pa_kind payload, ab_body = pa_body payload\<rparr> w
       (abi_create (wv_new_id env) (pa_name payload) (pa_kind payload) (pa_body payload) (wb_db w))"

definition list_abis :: "Web \<Rightarrow> Abi list Response \<times> Web" where
  "list_abis w = (Ok 200 (abi_list_all (wb_db w)), w)"

definition get_abi :: "string \<Rightarrow> Web \<Rightarrow> Abi Response \<times> Web" where
  "get_abi abi_id w = or_404 (abi_get abi_id (wb_db w)) ''abi not found'' w (\<lambda>row. (Ok 200 row, w))"

definition delete_abi :: "WebEnv \<Rightarrow> string \<Rightarrow> Web \<Rightarrow> unit Response \<times> Web" where
  "delete_abi env abi_id w =
     or_404 (abi_get abi_id (wb_db w)) ''abi not found'' w (\<lambda>row.
       written env ''abi'' abi_id ''delete'' 204 () w (Inr (abi_delete abi_id (wb_db w))))"

definition fetch_and_create_idl :: "WebEnv \<Rightarrow> string \<Rightarrow> string \<Rightarrow> string option \<Rightarrow> Web \<Rightarrow> Abi Response \<times> Web" where
  "fetch_and_create_idl env program_id rpc_url name w =
     (case fetch_idl_from_chain (wv_idl env) rpc_url program_id of
        Inl e \<Rightarrow> (Unhandled e, w)
      | Inr None \<Rightarrow> (HTTPException 404 (''IDL not found on-chain for program '' @ program_id), w)
      | Inr (Some idl) \<Rightarrow>
          let nm = (case name of None \<Rightarrow> [] | Some n \<Rightarrow> n);
              nm = (if nm = [] then ''idl-'' @ take 8 program_id else nm)
          in written env ''abi'' (wv_new_id env) ''create'' 201
               \<lparr>ab_id = wv_new_id env, ab_name = nm, ab_kind = AK_solana_idl, ab_body = idl\<rparr> w
               (abi_create (wv_new_id env) nm AK_solana_idl idl (wb_db w)))"

section \<open>All writing requests\<close>

datatype ConfigRequest =
    CreateChain ChainCreate
  | UpdateChain string ChainCreate
  | DeleteChain string
  | CreateChannel ChannelCreate
  | UpdateChannel string ChannelCreate
  | DeleteChannel string
  | CreateSubscription SubscriptionCreate
  | UpdateSubscription string SubscriptionCreate
  | DeleteSubscription string
  | BindChannel string string
  | PauseSubscription string
  | ResumeSubscription string
  | CreateAbi AbiCreate
  | DeleteAbi string
  | FetchIdl string string "string option"

text \<open>The framework validates the body, 422 if that fails, and gives an unhandled exception the status 500.\<close>

definition with_body :: "'p res \<Rightarrow> Web \<Rightarrow> ('p \<Rightarrow> 'a Response \<times> Web) \<Rightarrow> int \<times> Web" where
  "with_body body w k = (case body of Inl e \<Rightarrow> (422, w) | Inr p \<Rightarrow> map_prod status_code id (k p))"

fun handle_config :: "WebEnv \<Rightarrow> ConfigRequest \<Rightarrow> Web \<Rightarrow> int \<times> Web" where
  "handle_config env (CreateChain p) w = with_body (chain_create_model p) w (\<lambda>p. create_chain env p w)"
| "handle_config env (UpdateChain i p) w = with_body (chain_create_model p) w (\<lambda>p. update_chain env i p w)"
| "handle_config env (DeleteChain i) w = map_prod status_code id (delete_chain env i w)"
| "handle_config env (CreateChannel p) w = with_body (channel_create_model p) w (\<lambda>p. create_channel env p w)"
| "handle_config env (UpdateChannel i p) w = with_body (channel_create_model p) w (\<lambda>p. update_channel env i p w)"
| "handle_config env (DeleteChannel i) w = map_prod status_code id (delete_channel env i w)"
| "handle_config env (CreateSubscription p) w = with_body (subscription_create_model p) w (\<lambda>p. create_subscription env p w)"
| "handle_config env (UpdateSubscription i p) w = with_body (subscription_create_model p) w (\<lambda>p. update_subscription env i p w)"
| "handle_config env (DeleteSubscription i) w = map_prod status_code id (delete_subscription env i w)"
| "handle_config env (BindChannel i c) w = map_prod status_code id (bind_channel_handler env i c w)"
| "handle_config env (PauseSubscription i) w = map_prod status_code id (pause_subscription env i w)"
| "handle_config env (ResumeSubscription i) w = map_prod status_code id (resume_subscription env i w)"
| "handle_config env (CreateAbi p) w = with_body (abi_create_model p) w (\<lambda>p. create_abi env p w)"
| "handle_config env (DeleteAbi i) w = map_prod status_code id (delete_abi env i w)"
| "handle_config env (FetchIdl p u n) w = map_prod status_code id (fetch_and_create_idl env p u n w)"

section \<open>The contract with the watcher\<close>

locale config_writer =
  fixes handle :: "'q \<Rightarrow> Web \<Rightarrow> int \<times> Web"
  assumes refused: "handle q w = (st, w') \<Longrightarrow> 400 \<le> st \<Longrightarrow> w' = w"
    and accepted: "handle q w = (st, w') \<Longrightarrow> st < 400 \<Longrightarrow> version_get (wb_db w') = version_get (wb_db w) + 1"
    and statements: "handle q w = (st, w') \<Longrightarrow> db_run (wb_db w) (wb_db w')"
begin

lemma keeps_integrity: "handle q w = (st, w') \<Longrightarrow> db_ok (wb_db w) \<Longrightarrow> db_ok (wb_db w')"
  using statements db_run_ok by blast

lemma same_version_same_state: "handle q w = (st, w') \<Longrightarrow> version_get (wb_db w') = version_get (wb_db w) \<Longrightarrow> w' = w"
  using refused accepted by (cases "st < 400") fastforce+

lemma version_counts:
  "version_get (wb_db (fold (\<lambda>q w. snd (handle q w)) qs w)) =
     version_get (wb_db w) + int (length (filter (\<lambda>k. fst (handle (qs ! k) (fold (\<lambda>q w. snd (handle q w)) (take k qs) w)) < 400) [0..<length qs]))"
proof (induction qs rule: rev_induct)
  case (snoc q qs)
  let ?run = "\<lambda>qs. fold (\<lambda>q w. snd (handle q w)) qs w"
  obtain st w' where h: "handle q (?run qs) = (st, w')" by (metis prod.collapse)
  have same: "filter (\<lambda>k. fst (handle ((qs @ [q]) ! k) (?run (take k (qs @ [q])))) < 400) [0..<length qs] =
      filter (\<lambda>k. fst (handle (qs ! k) (?run (take k qs))) < 400) [0..<length qs]"
    by (rule filter_cong) (simp_all add: nth_append)
  show ?case
  proof (cases "st < 400")
    case True
    then show ?thesis using snoc accepted [OF h True] h same by simp
  next
    case False
    then show ?thesis using snoc refused [OF h] h same by simp
  qed
qed simp

end

lemma version_bump_spec:
  "version_bump db = (v, db') \<Longrightarrow> v = version_get db + 1 \<and> db' = db\<lparr>db_version := Some v\<rparr>"
  by (auto simp: version_bump_def version_get_def split: option.splits)

text \<open>What a committed request leaves behind.\<close>

definition notice :: "WebEnv \<Rightarrow> string \<Rightarrow> string \<Rightarrow> string \<Rightarrow> int \<Rightarrow> (string \<times> (string, pv) dict) list" where
  "notice env entity entity_id action v =
     (if isl (wv_publish env) then []
      else [(''config_changed'', [(''entity'', PStr entity), (''id'', PStr entity_id), (''action'', PStr action), (''version'', PInt v)])])"

text \<open>What a request is to do to the tables, without answers, versions and messages.\<close>

fun config_effect :: "WebEnv \<Rightarrow> ConfigRequest \<Rightarrow> Db \<Rightarrow> Db \<Rightarrow> bool" where
  "config_effect env (CreateChain p) db db' \<longleftrightarrow> (\<exists>q. chain_create_model p = Inr q \<and> chain_create (chain_row q) db = Inr db')"
| "config_effect env (UpdateChain i p) db db' \<longleftrightarrow>
     (\<exists>q. chain_create_model p = Inr q \<and> chain_get i db \<noteq> None \<and> db' = chain_update i (chain_assign q) db)"
| "config_effect env (DeleteChain i) db db' \<longleftrightarrow> db' = chain_delete i db"
| "config_effect env (CreateChannel p) db db' \<longleftrightarrow>
     config_error env p = None \<and> channel_create (wv_new_id env) (pn_name p) (pn_type p) (pn_config p) db = Inr db'"
| "config_effect env (UpdateChannel i p) db db' \<longleftrightarrow>
     config_error env p = None \<and> channel_get i db \<noteq> None \<and> db' = channel_update i (channel_assign p) db"
| "config_effect env (DeleteChannel i) db db' \<longleftrightarrow> db' = channel_delete i db"
| "config_effect env (CreateSubscription p) db db' \<longleftrightarrow>
     (\<exists>q. subscription_create_model p = Inr q \<and> sub_create (sub_row (wv_new_id env) q) db = Inr db')"
| "config_effect env (UpdateSubscription i p) db db' \<longleftrightarrow>
     (\<exists>q. subscription_create_model p = Inr q \<and> sub_update i (sub_assign q) db = Inr db')"
| "config_effect env (DeleteSubscription i) db db' \<longleftrightarrow> db' = sub_delete i db"
| "config_effect env (BindChannel i c) db db' \<longleftrightarrow> bind_channel i c db = Inr db'"
| "config_effect env (PauseSubscription i) db db' \<longleftrightarrow> sub_update i (\<lambda>s. s\<lparr>su_enabled := False\<rparr>) db = Inr db'"
| "config_effect env (ResumeSubscription i) db db' \<longleftrightarrow> sub_update i (\<lambda>s. s\<lparr>su_enabled := True\<rparr>) db = Inr db'"
| "config_effect env (CreateAbi p) db db' \<longleftrightarrow> abi_create (wv_new_id env) (pa_name p) (pa_kind p) (pa_body p) db = Inr db'"
| "config_effect env (DeleteAbi i) db db' \<longleftrightarrow> db' = abi_delete i db"
| "config_effect env (FetchIdl p u n) db db' \<longleftrightarrow>
     (\<exists>idl nm. fetch_idl_from_chain (wv_idl env) u p = Inr (Some idl) \<and> abi_create (wv_new_id env) nm AK_solana_idl idl db = Inr db')"

definition committed :: "WebEnv \<Rightarrow> (Db \<Rightarrow> bool) \<Rightarrow> Web \<Rightarrow> Web \<Rightarrow> bool" where
  "committed env eff w w' \<longleftrightarrow>
     (\<exists>db entity i action. eff db \<and> wb_db w' = db\<lparr>db_version := Some (version_get db + 1)\<rparr> \<and>
        wb_published w' = wb_published w @ notice env entity i action (version_get db + 1))"

definition outcome_ok :: "WebEnv \<Rightarrow> (Db \<Rightarrow> bool) \<Rightarrow> Web \<Rightarrow> int \<times> Web \<Rightarrow> bool" where
  "outcome_ok env eff w out \<longleftrightarrow>
     400 \<le> fst out \<and> snd out = w \<or> fst out \<in> {200, 201, 204} \<and> committed env eff w (snd out)"

lemma written_ok:
  assumes "st \<in> {200, 201, 204}" and "\<And>db. session = Inr db \<Longrightarrow> eff db"
  shows "outcome_ok env eff w (map_prod status_code id (written env en i a st v w session))"
proof (cases session)
  case (Inl e)
  then show ?thesis by (simp add: written_def outcome_ok_def)
next
  case (Inr db)
  obtain n db' where b: "version_bump db = (n, db')" by (metis prod.collapse)
  have "committed env eff w (snd (bump_and_publish env en i a db w))"
    unfolding committed_def
    by (rule exI [of _ db], rule exI [of _ en], rule exI [of _ i], rule exI [of _ a])
      (use assms(2) [OF Inr] version_bump_spec [OF b] b in \<open>auto simp: bump_and_publish_def Let_def notice_def split: sum.splits\<close>)
  then show ?thesis using assms(1) Inr by (auto simp: written_def outcome_ok_def)
qed

lemma or_404_ok:
  assumes "\<And>r. row = Some r \<Longrightarrow> outcome_ok env eff w (map_prod status_code id (k r))"
  shows "outcome_ok env eff w (map_prod status_code id (or_404 row d w k))"
  using assms by (cases row) (simp_all add: or_404_def outcome_ok_def)

lemma with_body_ok:
  assumes "\<And>p. body = Inr p \<Longrightarrow> outcome_ok env eff w (map_prod status_code id (k p))"
  shows "outcome_ok env eff w (with_body body w k)"
  using assms by (cases body) (simp_all add: with_body_def outcome_ok_def)

lemma refuse_ok: "400 \<le> st \<Longrightarrow> outcome_ok env eff w (st, w)"
  by (simp add: outcome_ok_def)

lemmas handler_ok = with_body_ok or_404_ok refuse_ok written_ok

named_theorems handler_defs "the handlers that write"

declare create_chain_def [handler_defs] update_chain_def [handler_defs] delete_chain_def [handler_defs]
  create_channel_def [handler_defs] update_channel_def [handler_defs] delete_channel_def [handler_defs]
  create_subscription_def [handler_defs] update_subscription_def [handler_defs] delete_subscription_def [handler_defs]
  bind_channel_handler_def [handler_defs] pause_subscription_def [handler_defs] resume_subscription_def [handler_defs]
  set_enabled_def [handler_defs] create_abi_def [handler_defs] delete_abi_def [handler_defs] fetch_and_create_idl_def [handler_defs]

lemma handle_config_ok: "outcome_ok env (config_effect env req (wb_db w)) w (handle_config env req w)"
  by (cases req)
    (auto simp: handler_defs channel_create_model_def abi_create_model_def Let_def
      split: sum.splits option.splits if_splits intro!: handler_ok)

text \<open>An effect is one statement of a repository and leaves the version alone.\<close>

lemma statement_versions:
  "chain_create c db = Inr db' \<Longrightarrow> version_get db' = version_get db"
  "version_get (chain_update i f db) = version_get db"
  "version_get (chain_delete i db) = version_get db"
  "channel_create i n t cfg db = Inr db' \<Longrightarrow> version_get db' = version_get db"
  "version_get (channel_update i g db) = version_get db"
  "version_get (channel_delete i db) = version_get db"
  "sub_create s db = Inr db' \<Longrightarrow> version_get db' = version_get db"
  "sub_update i h db = Inr db' \<Longrightarrow> version_get db' = version_get db"
  "version_get (sub_delete i db) = version_get db"
  "bind_channel i j db = Inr db' \<Longrightarrow> version_get db' = version_get db"
  "abi_create i n k b db = Inr db' \<Longrightarrow> version_get db' = version_get db"
  "version_get (abi_delete i db) = version_get db"
  by (auto simp: op_defs version_get_def chain_delete_def cascade_chain_def sub_delete_def Let_def res_simps
      split: option.splits if_splits)

lemma effect_version: "config_effect env req db db' \<Longrightarrow> version_get db' = version_get db"
  by (cases req) (auto simp: statement_versions)

lemma sub_update_steps:
  "sub_update i (sub_assign p) db = Inr db' \<Longrightarrow> db_step db db'"
  "sub_update i (su_enabled_update (\<lambda>_. b)) db = Inr db' \<Longrightarrow> db_step db db'"
  subgoal by (rule step_sub_update [of "sub_assign p" i]) (simp_all add: sub_assign_def sub_row_def)
  subgoal by (rule step_sub_update [of "su_enabled_update (\<lambda>_. b)" i]) simp_all
  done

lemma effect_step:
  assumes "config_effect env req db db'"
  shows "db_step db db'"
proof (cases "\<exists>i p. req = UpdateSubscription i p \<or> req = PauseSubscription i \<or> req = ResumeSubscription i")
  case True
  then show ?thesis using assms sub_update_steps by auto
next
  case False
  then show ?thesis
    using assms by (cases req) (auto simp: chain_assign_def channel_assign_def intro: db_step.intros intro!: step_chain_update step_channel_update)
qed

interpretation api: config_writer "handle_config env" for env
proof
  fix q w st w'
  assume h: "handle_config env q w = (st, w')"
  have ok: "400 \<le> st \<and> w' = w \<or> st \<in> {200, 201, 204} \<and> committed env (config_effect env q (wb_db w)) w w'"
    using handle_config_ok [of env q w] h by (simp add: outcome_ok_def)
  show "w' = w" if "400 \<le> st" using ok that by auto
  show "version_get (wb_db w') = version_get (wb_db w) + 1" if "st < 400"
    using ok that effect_version by (auto simp: committed_def version_get_def)
  show "db_run (wb_db w) (wb_db w')"
  proof (cases "w' = w")
    case False
    then obtain db where db: "config_effect env q (wb_db w) db" "wb_db w' = db\<lparr>db_version := Some (version_get db + 1)\<rparr>"
      using ok by (auto simp: committed_def)
    have "db_step db (wb_db w')"
      by (rule step_bump [of _ "version_get db + 1"]) (auto simp: db(2) version_bump_def version_get_def split: option.splits)
    with effect_step [OF db(1)] show ?thesis by (metis db_run_refl db_run_step)
  qed (simp add: db_run_refl)
qed

section \<open>What a driver needs of its configuration\<close>

text \<open>
  The part of JSON Schema the drivers rely on, as the documentation of \<^verbatim>\<open>jsonschema\<close> has it: an object
  that is valid has the required keys, and values of the types named by \<^verbatim>\<open>properties\<close>.
\<close>

fun has_type :: "string \<Rightarrow> pv \<Rightarrow> bool" where
  "has_type t (PStr s) = (t = ''string'')"
| "has_type t (PDict d) = (t = ''object'')"
| "has_type t (PInt n) = (t \<in> {''integer'', ''number''})"
| "has_type t (PFloat x) = (t = ''number'')"
| "has_type t v = False"








section \<open>Configurations the worker can run\<close>

text \<open>
  Rows a worker can start from. A \<open>PUT\<close> is harmless when the kind or type in its body is that of the row.
\<close>

definition chain_ok :: "Chain \<Rightarrow> bool" where
  "chain_ok c \<longleftrightarrow>
     (ch_commitment c = None \<longleftrightarrow> ch_kind c = CK_evm) \<and> set_option (ch_commitment c) \<subseteq> {''confirmed'', ''finalized''} \<and>
     0 \<le> ch_confirmations c"



fun run_requests :: "(WebEnv \<times> ConfigRequest) list \<Rightarrow> Web \<Rightarrow> Web" where
  "run_requests [] w = w"
| "run_requests ((env, req) # rest) w = run_requests rest (snd (handle_config env req w))"


lemma chain_model_ok:
  assumes "chain_create_model p = Inr q"
  shows "chain_ok (chain_row q) \<and> pc_kind q = pc_kind p"
proof -
  have "chain_fields_ok p" "check_kind_fields p = Inr p" "q = normalize_fallbacks p"
    using assms by (auto simp: chain_create_model_def check_kind_fields_def split: if_splits)
  then show ?thesis
    by (cases "pc_kind p")
      (auto simp: chain_ok_def chain_row_def normalize_fallbacks_def chain_fields_ok_def int_between_def check_kind_fields_def
        split: if_splits)
qed

















section \<open>An example\<close>

text \<open>A validator for schemas of the form the drivers have.\<close>

definition ex_validate :: "pv \<Rightarrow> pv \<Rightarrow> string option" where
  "ex_validate sch v =
     (case (sch, v) of
        (PDict [_, (_, PList req), (_, PDict props)], PDict d) \<Rightarrow>
          if list_all (\<lambda>r. case r of PStr k \<Rightarrow> d_has d k | _ \<Rightarrow> False) req \<and>
             list_all (\<lambda>(k, s). case (s, d_get d k) of
                 (PDict ((_, PStr t) # _), Some x) \<Rightarrow> has_type t x | _ \<Rightarrow> True) props
          then None else Some ''invalid''
      | _ \<Rightarrow> Some ''invalid'')"


definition ex_web_env :: "string \<Rightarrow> WebEnv" where
  "ex_web_env i = \<lparr>wv_publish = Inr (), wv_new_id = i, wv_schema = ex_validate, wv_idl = ex_idl_lib\<rparr>"

definition ex_web :: Web where
  "ex_web = \<lparr>wb_db = db_empty True, wb_published = []\<rparr>"

definition ex_hook :: ChannelCreate where
  "ex_hook = \<lparr>pn_name = ''hook'', pn_type = CT_http, pn_config = [(''url'', PStr ''http://x'')]\<rparr>"

definition ex_sub_body :: SubscriptionCreate where
  "ex_sub_body = \<lparr>ps_name = ''transfers'', ps_business_name = Some '' '', ps_chain_id = ''sol'', ps_address = None, ps_abi_id = None,
     ps_match_kind = MK_native_transfer, ps_match_name = None, ps_arg_filters = [(''lamports_gte'', PInt 5)],
     ps_start_block = None, ps_enabled = True\<rparr>"

definition ex_requests :: "(WebEnv \<times> ConfigRequest) list" where
  "ex_requests = [(ex_web_env ''u1'', CreateChain ex_chain_body), (ex_web_env ''c1'', CreateChannel ex_hook),
     (ex_web_env ''s1'', CreateSubscription ex_sub_body), (ex_web_env ''u2'', BindChannel ''s1'' ''c1'')]"

section \<open>Properties\<close>

text \<open>
  C13. The management API does what its requests stand for, and nothing else: a request that is answered with
  an error, also an unexpected one, leaves the database and the published messages as they were; any other
  performs its effect on the tables, raises the version by exactly one in the same transaction and announces
  that version, if Redis takes the message. The database stays consistent in either case.
\<close>

theorem config_request_refines:
  assumes "handle_config env req w = (st, w')"
  shows "(400 \<le> st \<and> w' = w \<or>
     st \<in> {200, 201, 204} \<and>
     (\<exists>db entity i action. config_effect env req (wb_db w) db \<and>
        wb_db w' = db\<lparr>db_version := Some (version_get (wb_db w) + 1)\<rparr> \<and>
        wb_published w' = wb_published w @ notice env entity i action (version_get (wb_db w) + 1))) \<and>
    (db_ok (wb_db w) \<longrightarrow> db_ok (wb_db w'))"
proof -
  have "400 \<le> st \<and> w' = w \<or> st \<in> {200, 201, 204} \<and> committed env (config_effect env req (wb_db w)) w w'"
    using handle_config_ok [of env req w] assms by (simp add: outcome_ok_def)
  then show ?thesis
    using api.keeps_integrity [OF assms] effect_version unfolding committed_def by metis
qed

theorem config_request_refines_witness:
  "fst (handle_config (ex_web_env ''u1'') (CreateChain ex_chain_body) ex_web) = 201 \<and>
   version_get (wb_db (snd (handle_config (ex_web_env ''u1'') (CreateChain ex_chain_body) ex_web))) = 1 \<and>
   length (wb_published (snd (handle_config (ex_web_env ''u1'') (CreateChain ex_chain_body) ex_web))) = 1"
proof -
  obtain st w' where h: "handle_config (ex_web_env ''u1'') (CreateChain ex_chain_body) ex_web = (st, w')" by (metis prod.collapse)
  have "fst (handle_config (ex_web_env ''u1'') (CreateChain ex_chain_body) ex_web) = 201" by code_simp
  then have st: "st = 201" using h by simp
  have v: "version_get (wb_db ex_web) = 0" by (simp add: ex_web_def db_empty_def version_get_def)
  obtain db en i a where "wb_db w' = db\<lparr>db_version := Some 1\<rparr>"
      "wb_published w' = wb_published ex_web @ notice (ex_web_env ''u1'') en i a 1"
    using conjunct1 [OF config_request_refines [OF h]] st v by auto
  then show ?thesis
    unfolding h st by (simp add: version_get_def notice_def ex_web_env_def ex_web_def)
qed



text \<open>
  Without that proviso it fails. A \<open>PUT\<close> on a Solana chain with a body for an EVM chain is accepted and takes
  the commitment away, after which no adapter can be made.
\<close>

lemma update_chain_drops_commitment:
  assumes "chain_get i (wb_db w) = Some row" and "ch_kind row = CK_solana"
    and "chain_create_model p = Inr q" and "pc_kind p = CK_evm"
  shows "fst (handle_config env (UpdateChain i p) w) = 200 \<and>
    (\<exists>row'. chain_get i (wb_db (snd (handle_config env (UpdateChain i p) w))) = Some row' \<and>
       make_adapter th cd (snap_chain row') = Inl AssertionError)"
proof -
  let ?db = "chain_update i (chain_assign q) (wb_db w)"
  have "chain_ok (chain_row q)" "pc_kind q = CK_evm" using chain_model_ok [OF assms(3)] assms(4) by auto
  then have none: "pc_commitment q = None" by (simp add: chain_ok_def chain_row_def)
  have h: "handle_config env (UpdateChain i p) w =
      (200, snd (bump_and_publish env ''chain'' i ''update'' ?db w))"
    using assms(1,3) by (simp add: with_body_def update_chain_def or_404_def written_def)
  obtain v db' where b: "version_bump ?db = (v, db')" by (metis prod.collapse)
  have "wb_db (snd (bump_and_publish env ''chain'' i ''update'' ?db w)) = db'"
    using b by (auto simp: bump_and_publish_def Let_def split: sum.splits)
  moreover have "chain_get i db' = Some (chain_assign q row)"
    using assms(1) version_bump_spec [OF b]
    by (simp add: chain_get_def chain_update_def row_get_update chain_assign_def)
  ultimately show ?thesis
    using h none assms(2) by (simp add: make_adapter_def snap_chain_def chain_assign_def chain_row_def)
qed

text \<open>
  Likewise a \<open>PUT\<close> on an HTTP channel with the type and configuration of a WebSocket channel is accepted; the
  row stays an HTTP channel without URL, which ends the worker at its next reconciliation.
\<close>

lemma update_channel_breaks_driver:
  "fst (handle_config (ex_web_env ''u3'') (UpdateChannel ''c1''
      \<lparr>pn_name = ''hook'', pn_type = CT_ws, pn_config = [(''ws_fanout_channel'', PStr ''f'')]\<rparr>)
      (run_requests ex_requests ex_web)) = 200 \<and>
   channels_start ex_worker_env (load_snapshot (wb_db (snd (handle_config (ex_web_env ''u3'') (UpdateChannel ''c1''
      \<lparr>pn_name = ''hook'', pn_type = CT_ws, pn_config = [(''ws_fanout_channel'', PStr ''f'')]\<rparr>)
      (run_requests ex_requests ex_web))))) = Some KeyError"
  by code_simp

end
