(* ===== verification/Redis_Bus.thy ===== *)
theory Redis_Bus
  imports Py_Values
begin

text \<open>
  \<^verbatim>\<open>core/bus/redis_bus.py\<close>, the message bus between the web process and the workers, and
  \<^verbatim>\<open>apps/worker/replay_watcher.py\<close>, which hands the messages of one channel to a callback. The Redis client is
  given by what its commands answer; \<open>json.dumps\<close> and \<open>json.loads\<close> are the fields of \<open>BusLib\<close>. The lemmas
  say which messages reach the callback.
\<close>

section \<open>The bus\<close>

record BusLib =
  bl_dumps :: "pv \<Rightarrow> string res"
  bl_loads :: "string \<Rightarrow> pv res"
  bl_decode :: "byte list \<Rightarrow> string res"

record RedisBus =
  rb_client :: bool

definition bus_init :: RedisBus where
  "bus_init = \<lparr>rb_client = False\<rparr>"

text \<open>
  \<open>connect\<close>: the client is set before the ping that may raise; \<open>opened\<close> is what making the client from
  the URL answers. \<open>disconnect\<close>: a client that cannot be closed is kept.
\<close>

definition bus_connect :: "unit res \<Rightarrow> bool res \<Rightarrow> RedisBus \<Rightarrow> unit res \<times> RedisBus" where
  "bus_connect opened ping bus =
     (case opened of
        Inl e \<Rightarrow> (Inl e, bus)
      | Inr u \<Rightarrow> (rbind ping (\<lambda>b. Inr ()), bus\<lparr>rb_client := True\<rparr>))"

definition bus_disconnect :: "unit res \<Rightarrow> RedisBus \<Rightarrow> unit res \<times> RedisBus" where
  "bus_disconnect aclosed bus =
     (if \<not> rb_client bus then (Inr (), bus)
      else case aclosed of Inl e \<Rightarrow> (Inl e, bus) | Inr u \<Rightarrow> (Inr (), bus\<lparr>rb_client := False\<rparr>))"

definition bus_ping :: "bool res \<Rightarrow> RedisBus \<Rightarrow> bool" where
  "bus_ping ping bus =
     (if \<not> rb_client bus then False else case ping of Inl e \<Rightarrow> False | Inr b \<Rightarrow> b)"

text \<open>\<open>publish\<close>: the text that goes out on the channel, if the client takes it.\<close>

definition bus_publish :: "BusLib \<Rightarrow> unit res \<Rightarrow> RedisBus \<Rightarrow> pv \<Rightarrow> string res" where
  "bus_publish L answer bus payload =
     (if \<not> rb_client bus then Inl AssertionError
      else rbind (bl_dumps L payload) (\<lambda>s. rbind answer (\<lambda>u. Inr s)))"

text \<open>What the client's \<open>listen\<close> yields: a dictionary, or an exception that ends it.\<close>

definition read_message :: "BusLib \<Rightarrow> pv \<Rightarrow> pv option res" where
  "read_message L msg =
     rbind (pv_get_or msg ''type'' PNone) (\<lambda>ty.
       if ty \<noteq> PStr ''message'' then Inr None
       else rbind (pv_get_or msg ''data'' PNone) (\<lambda>data.
            rbind (case data of PBytes bs \<Rightarrow> rbind (bl_decode L bs) (\<lambda>s. Inr (PStr s)) | _ \<Rightarrow> Inr data) (\<lambda>data.
            rbind (case data of PStr s \<Rightarrow> bl_loads L s | _ \<Rightarrow> Inl TypeError) (\<lambda>v. Inr (Some v)))))"

text \<open>\<open>subscribe\<close>: the messages it yields, and the exception it ends with, if any.\<close>

fun bus_subscribe :: "BusLib \<Rightarrow> pv res list \<Rightarrow> pv list \<times> exn option" where
  "bus_subscribe L [] = ([], None)"
| "bus_subscribe L (Inl e # rest) = ([], Some e)"
| "bus_subscribe L (Inr msg # rest) =
     (case read_message L msg of
        Inl e \<Rightarrow> ([], Some e)
      | Inr None \<Rightarrow> bus_subscribe L rest
      | Inr (Some v) \<Rightarrow> (case bus_subscribe L rest of (vs, ex) \<Rightarrow> (v # vs, ex)))"

section \<open>The replay watcher\<close>

text \<open>
  \<open>_run\<close>: the callback gets every message; what it raises is logged. \<open>calls\<close> are the messages it was called
  with, the exception is the one the task ends with.
\<close>

fun watch_replays :: "(pv \<Rightarrow> unit res) \<Rightarrow> pv list \<Rightarrow> pv list" where
  "watch_replays on_replay [] = []"
| "watch_replays on_replay (msg # rest) =
     (case on_replay msg of Inl e \<Rightarrow> msg # watch_replays on_replay rest | Inr u \<Rightarrow> msg # watch_replays on_replay rest)"

definition replay_watcher_run :: "BusLib \<Rightarrow> (pv \<Rightarrow> unit res) \<Rightarrow> pv res list \<Rightarrow> pv list \<times> exn option" where
  "replay_watcher_run L on_replay raws =
     (case bus_subscribe L raws of (msgs, ex) \<Rightarrow> (watch_replays on_replay msgs, ex))"

section \<open>Facts\<close>

text \<open>The frame Redis makes of a published text.\<close>

definition message_frame :: "string \<Rightarrow> pv" where
  "message_frame s = PDict [(''type'', PStr ''message''), (''data'', PStr s)]"

definition json_faithful :: "BusLib \<Rightarrow> pv \<Rightarrow> bool" where
  "json_faithful L v \<longleftrightarrow> (\<exists>s. bl_dumps L v = Inr s \<and> bl_loads L s = Inr v)"

lemma watch_replays_all: "watch_replays on_replay msgs = msgs"
  by (induction msgs) (auto split: sum.splits)

lemma read_message_frame: "read_message L (message_frame s) = rbind (bl_loads L s) (\<lambda>v. Inr (Some v))"
  by (simp add: read_message_def message_frame_def pv_get_or_def)

lemma subscribe_published:
  assumes "json_faithful L v" and "bus_publish L answer bus v = Inr s"
  shows "bus_subscribe L (Inr (message_frame s) # rest) = (case bus_subscribe L rest of (vs, ex) \<Rightarrow> (v # vs, ex))"
proof -
  have "bl_dumps L v = Inr s" using assms(2) by (auto simp: bus_publish_def res_simps split: if_splits)
  then have "bl_loads L s = Inr v" using assms(1) by (auto simp: json_faithful_def)
  then show ?thesis by (simp add: read_message_frame)
qed

lemma subscribe_append:
  assumes "\<forall>r \<in> set raws. \<exists>msg v. r = Inr msg \<and> read_message L msg = Inr v"
  shows "bus_subscribe L (raws @ rest) =
    (List.map_filter (\<lambda>r. case read_message L (projr r) of Inr v \<Rightarrow> v | Inl e \<Rightarrow> None) raws @ fst (bus_subscribe L rest),
     snd (bus_subscribe L rest))"
  using assms by (induction raws) (auto simp: List.map_filter_simps split: option.splits prod.splits)

section \<open>Properties\<close>

text \<open>
  A subscriber gets every published message, in order, whatever the callback makes of the earlier ones,
  up to the first thing that cannot be read; that ends the subscription and nothing after it arrives.
\<close>

theorem replay_requests_arrive:
  assumes "\<forall>(v, s) \<in> set sent. json_faithful L v \<and> bus_publish L (Inr ()) bus v = Inr s"
  shows "replay_watcher_run L on_replay (map (\<lambda>(v, s). Inr (message_frame s)) sent) = (map fst sent, None) \<and>
    replay_watcher_run L on_replay (map (\<lambda>(v, s). Inr (message_frame s)) sent @ Inl e # later) = (map fst sent, Some e) \<and>
    (bl_loads L bad = Inl e' \<longrightarrow>
       replay_watcher_run L on_replay (map (\<lambda>(v, s). Inr (message_frame s)) sent @ Inr (message_frame bad) # later) =
         (map fst sent, Some e'))"
proof -
  have "bus_subscribe L (map (\<lambda>(v, s). Inr (message_frame s)) sent @ rest) =
      (map fst sent @ fst (bus_subscribe L rest), snd (bus_subscribe L rest))" for rest
    using assms
  proof (induction sent)
    case (Cons p sent)
    obtain v s where p: "p = (v, s)" by (cases p)
    have "json_faithful L v" "bus_publish L (Inr ()) bus v = Inr s" using Cons.prems p by auto
    from subscribe_published [OF this] show ?case using Cons p by (simp add: case_prod_beta del: bus_subscribe.simps)
  qed simp
  from this [of "[]"] this [of "Inl e # later"] this [of "Inr (message_frame bad) # later"] show ?thesis
    by (simp add: replay_watcher_run_def watch_replays_all read_message_frame)
qed

definition ex_bus_lib :: BusLib where
  "ex_bus_lib = \<lparr>bl_dumps = (\<lambda>v. case v of PStr s \<Rightarrow> Inr (CHR 0x22 # s) | _ \<Rightarrow> Inl TypeError),
     bl_loads = (\<lambda>s. case s of [] \<Rightarrow> Inl ValueError | c # s' \<Rightarrow> if c = CHR 0x22 then Inr (PStr s') else Inl ValueError),
     bl_decode = (\<lambda>bs. Inl ValueError)\<rparr>"

theorem replay_requests_arrive_witness:
  "replay_watcher_run ex_bus_lib (\<lambda>m. Inl TypeError)
     [Inr (message_frame (CHR 0x22 # ''a'')), Inr (message_frame (CHR 0x22 # ''b'')), Inr (message_frame ''x''), Inr (message_frame (CHR 0x22 # ''c''))] =
   ([PStr ''a'', PStr ''b''], Some ValueError)"
  using replay_requests_arrive [of "[(PStr ''a'', CHR 0x22 # ''a''), (PStr ''b'', CHR 0x22 # ''b'')]" ex_bus_lib "\<lparr>rb_client = True\<rparr>"
      "\<lambda>m. Inl TypeError" undefined "[Inr (message_frame (CHR 0x22 # ''c''))]" "''x''" ValueError]
  by (simp add: json_faithful_def bus_publish_def ex_bus_lib_def)

end
