(* ===== verification/Web_Records.thy ===== *)
theory Web_Records
  imports Web_Api Redis_Bus
begin

text \<open>
  The parts of the API that do not touch the configuration: the delivery records of
  \<^verbatim>\<open>apps/web/routers/delivery_records.py\<close> with their manual retry, and the log buffer, written by
  \<^verbatim>\<open>core/logging.py\<close> and read by \<^verbatim>\<open>apps/web/routers/logs.py\<close>. The lemmas show what a retry records, that none
  of these requests changes the configuration, and which log lines can be read.
\<close>

section \<open>Delivery records\<close>

definition list_delivery_records :: "string option \<Rightarrow> string option \<Rightarrow> Web \<Rightarrow> DeliveryRecord list Response \<times> Web" where
  "list_delivery_records subscription_id status_filter w =
     (case delivery_list_all 200 subscription_id status_filter (wb_db w) of
        Inl e \<Rightarrow> (Unhandled e, w)
      | Inr rows \<Rightarrow> (Ok 200 rows, w))"

text \<open>The \<open>try\<close> block of \<open>retry_delivery\<close>: the channel is closed in any case, and what that raises wins.\<close>

definition resend ::
  "ChannelEnv \<Rightarrow> (Channels.Channel \<Rightarrow> unit res) \<Rightarrow> (Channels.Channel \<Rightarrow> unit res) \<Rightarrow> net \<Rightarrow> Config_Store.Channel \<Rightarrow>
   (string, pv) dict \<Rightarrow> unit res" where
  "resend E conn clo net ch_row payload =
     rbind (channel_factory E (snap_channel ch_row)) (\<lambda>ch.
     rbind (channel_start conn ch) (\<lambda>ch.
       case channel_stop clo ch of
         Inl e \<Rightarrow> Inl e
       | Inr ch' \<Rightarrow> fst (channel_send E net ch payload)))"

definition retry_delivery ::
  "ChannelEnv \<Rightarrow> (Channels.Channel \<Rightarrow> unit res) \<Rightarrow> (Channels.Channel \<Rightarrow> unit res) \<Rightarrow> net \<Rightarrow> (exn \<Rightarrow> string) \<Rightarrow> int \<Rightarrow> string \<Rightarrow>
   Web \<Rightarrow> string Response \<times> Web" where
  "retry_delivery E conn clo net repr_of now delivery_id w =
     or_404 (delivery_get delivery_id (wb_db w)) ''delivery not found'' w (\<lambda>row.
     or_404 (channel_get (dr_channel_id row) (wb_db w)) ''channel no longer exists'' w (\<lambda>ch_row.
       case resend E conn clo net ch_row (dr_event_payload row) of
         Inl e \<Rightarrow> (HTTPException 502 (repr_of e), w\<lparr>wb_db := bump_attempt delivery_id (repr_of e) (wb_db w)\<rparr>)
       | Inr u \<Rightarrow> (Ok 200 delivery_id, w\<lparr>wb_db := mark_resolved delivery_id now (wb_db w)\<rparr>)))"

definition resolve_delivery :: "int \<Rightarrow> string \<Rightarrow> Web \<Rightarrow> string Response \<times> Web" where
  "resolve_delivery now delivery_id w =
     or_404 (delivery_get delivery_id (wb_db w)) ''delivery not found'' w (\<lambda>row.
       (Ok 200 delivery_id, w\<lparr>wb_db := mark_resolved delivery_id now (wb_db w)\<rparr>))"

definition delete_delivery :: "string \<Rightarrow> Web \<Rightarrow> unit Response \<times> Web" where
  "delete_delivery delivery_id w =
     or_404 (delivery_get delivery_id (wb_db w)) ''delivery not found'' w (\<lambda>row.
       (Ok 204 (), w\<lparr>wb_db := delivery_delete delivery_id (wb_db w)\<rparr>))"

section \<open>The log buffer\<close>

definition MAX_LOGS :: nat where
  "MAX_LOGS = 500"

text \<open>\<open>_push\<close>: newest first, then trimmed; either command may fail, which ends the task.\<close>

definition log_push :: "unit res \<Rightarrow> unit res \<Rightarrow> string \<Rightarrow> string list \<Rightarrow> string list" where
  "log_push pushed trimmed line store =
     (case pushed of
        Inl e \<Rightarrow> store
      | Inr u \<Rightarrow> (case trimmed of Inl e \<Rightarrow> line # store | Inr u \<Rightarrow> take MAX_LOGS (line # store)))"

text \<open>\<open>LRANGE key start stop\<close>, where a negative index counts from the end.\<close>

definition lrange :: "int \<Rightarrow> int \<Rightarrow> 'a list \<Rightarrow> 'a list" where
  "lrange start stop xs =
     (let n = int (length xs);
          a = max 0 (if start < 0 then n + start else start);
          b = (if stop < 0 then n + stop else stop)
      in take (nat (b - a + 1)) (drop (nat a) xs))"

definition get_logs :: "BusLib \<Rightarrow> int \<Rightarrow> string list \<Rightarrow> pv list" where
  "get_logs L limit store =
     map (\<lambda>item. case bl_loads L item of Inr v \<Rightarrow> v | Inl e \<Rightarrow> PDict [(''message'', PStr item)]) (lrange 0 (limit - 1) store)"

definition clear_logs :: "string list \<Rightarrow> string list" where
  "clear_logs store = []"

section \<open>Facts\<close>

lemma delivery_get_frame:
  "delivery_get i (mark_resolved j now db) =
     (if i = j then map_option (\<lambda>r. r\<lparr>dr_status := DS_resolved, dr_resolved_at := Some now\<rparr>) (delivery_get i db) else delivery_get i db)"
  "delivery_get i (bump_attempt j err db) =
     (if i = j then map_option (\<lambda>r. r\<lparr>dr_attempts := dr_attempts r + 1, dr_error := Some err\<rparr>) (delivery_get i db) else delivery_get i db)"
  by (simp_all add: delivery_get_def mark_resolved_def bump_attempt_def row_get_update)

lemma load_snapshot_deliveries [simp]: "load_snapshot (db\<lparr>db_deliveries := rows\<rparr>) = load_snapshot db"
  by (simp add: load_snapshot_def list_enabled_with_channels_def bound_channels_def channel_get_def chain_list_enabled_def
      abi_list_all_def version_get_def)

lemma load_snapshot_records:
  "load_snapshot (mark_resolved i now db) = load_snapshot db"
  "load_snapshot (bump_attempt i err db) = load_snapshot db"
  "load_snapshot (delivery_delete i db) = load_snapshot db"
  by (simp_all add: mark_resolved_def bump_attempt_def delivery_delete_def)

lemma fold_log_push:
  "length store \<le> MAX_LOGS \<Longrightarrow>
   fold (log_push (Inr ()) (Inr ())) lines store = take MAX_LOGS (rev lines @ store)"
proof (induction lines arbitrary: store)
  case (Cons l ls)
  have "fold (log_push (Inr ()) (Inr ())) ls (take MAX_LOGS (l # store)) = take MAX_LOGS (rev ls @ take MAX_LOGS (l # store))"
    by (rule Cons.IH) simp
  moreover have "take MAX_LOGS (rev ls @ take MAX_LOGS (l # store)) = take MAX_LOGS (rev ls @ l # store)"
    by (simp add: take_append min_def)
  moreover have "log_push (Inr ()) (Inr ()) l store = take MAX_LOGS (l # store)" by (simp add: log_push_def)
  ultimately show ?case by simp
qed simp

section \<open>Properties\<close>

text \<open>
  A manual retry records what happened and nothing else: if the payload goes out the record becomes resolved;
  if anything raises, from making the driver to closing it, the answer is 502 and the record keeps its status, with one
  attempt more and the new error. Every other record, the configuration and its version stay as they are.
\<close>

theorem retry_delivery_recorded:
  assumes "retry_delivery E conn clo net repr_of now i w = (r, w')"
    and "delivery_get i (wb_db w) = Some row" and "channel_get (dr_channel_id row) (wb_db w) = Some ch"
  shows "(case resend E conn clo net ch (dr_event_payload row) of
       Inr u \<Rightarrow> r = Ok 200 i \<and> delivery_get i (wb_db w') = Some (row\<lparr>dr_status := DS_resolved, dr_resolved_at := Some now\<rparr>)
     | Inl e \<Rightarrow> r = HTTPException 502 (repr_of e) \<and>
         delivery_get i (wb_db w') = Some (row\<lparr>dr_attempts := dr_attempts row + 1, dr_error := Some (repr_of e)\<rparr>)) \<and>
    (\<forall>j. j \<noteq> i \<longrightarrow> delivery_get j (wb_db w') = delivery_get j (wb_db w)) \<and>
    load_snapshot (wb_db w') = load_snapshot (wb_db w) \<and> wb_published w' = wb_published w"
  using assms
  by (cases "resend E conn clo net ch (dr_event_payload row)")
    (auto simp: retry_delivery_def or_404_def delivery_get_frame load_snapshot_records)

definition ex_failed :: Web where
  "ex_failed = \<lparr>wb_db = (db_empty True)\<lparr>
      db_channels := [\<lparr>cn_id = ''c1'', cn_name = ''hook'', cn_type = CT_http, cn_config = []\<rparr>],
      db_deliveries := [\<lparr>dr_id = ''d1'', dr_subscription_id = ''s1'', dr_channel_id = ''c1'', dr_chain_id = ''eth'', dr_event_payload = [],
        dr_error = Some ''old'', dr_attempts = 3, dr_status = DS_failed, dr_created_at = 1, dr_resolved_at = None, dr_is_replay = False\<rparr>]\<rparr>,
     wb_published = []\<rparr>"

theorem retry_delivery_recorded_witness:
  "\<exists>w'. retry_delivery ex_env (\<lambda>c. Inr ()) (\<lambda>c. Inr ()) (\<lambda>x k. Inr 200) (\<lambda>e. ''error'') 9 ''d1'' ex_failed =
      (HTTPException 502 ''error'', w') \<and>
    (\<exists>r. delivery_get ''d1'' (wb_db w') = Some r \<and> dr_attempts r = 4 \<and> dr_status r = DS_failed)"
proof -
  let ?out = "retry_delivery ex_env (\<lambda>c. Inr ()) (\<lambda>c. Inr ()) (\<lambda>x k. Inr 200) (\<lambda>e. ''error'') 9 ''d1'' ex_failed"
  obtain r w' where out: "?out = (r, w')" by (metis prod.collapse)
  obtain row where row: "delivery_get ''d1'' (wb_db ex_failed) = Some row" "dr_channel_id row = ''c1''" "dr_attempts row = 3" "dr_status row = DS_failed"
    by (simp add: delivery_get_def row_get_def ex_failed_def)
  obtain ch where ch: "channel_get ''c1'' (wb_db ex_failed) = Some ch" "cn_type ch = CT_http" "cn_config ch = []"
    by (simp add: channel_get_def row_get_def ex_failed_def)
  have "resend ex_env (\<lambda>c. Inr ()) (\<lambda>c. Inr ()) (\<lambda>x k. Inr 200) ch (dr_event_payload row) = Inl KeyError"
    by (simp add: resend_def channel_factory_def snap_channel_def http_init_def d_index_def ch)
  with retry_delivery_recorded [OF out row(1)] ch(1) row(2,3,4) show ?thesis unfolding out by auto
qed

text \<open>
  C39. The log buffer keeps the newest 500 lines: after any number of lines that Redis took, reading with a positive
  limit gives that many of the newest, newest first, each as written or, where it is no JSON, as a plain message.
\<close>

theorem logs_newest_first:
  assumes "0 < limit" and "length store \<le> 500"
  shows "get_logs L limit (fold (log_push (Inr ()) (Inr ())) lines store) =
    map (\<lambda>item. case bl_loads L item of Inr v \<Rightarrow> v | Inl e \<Rightarrow> PDict [(''message'', PStr item)])
      (take (min (nat limit) 500) (rev lines @ store))"
  using assms by (simp add: get_logs_def lrange_def fold_log_push MAX_LOGS_def min_def)

theorem logs_newest_first_witness:
  "get_logs ex_bus_lib 2 (fold (log_push (Inr ()) (Inr ())) [''a'', ''b''] [''c'']) =
     [PDict [(''message'', PStr ''b'')], PDict [(''message'', PStr ''a'')]]"
  using logs_newest_first [of 2 "[''c'']" ex_bus_lib "[''a'', ''b'']"] by (simp add: ex_bus_lib_def)

text \<open>A limit of zero asks Redis for everything.\<close>

lemma logs_limit_zero: "lrange 0 (0 - 1) store = store"
  by (simp add: lrange_def)

end
