(* ===== verification/Config_Watcher.thy ===== *)
theory Config_Watcher
  imports Config_Store
begin

text \<open>
  \<^verbatim>\<open>apps/worker/config_watcher.py\<close>: reloads the configuration on a message from Redis and at regular
  intervals, and puts a snapshot on the worker's queue when its version differs from the last one it put
  there. The two tasks interleave at their awaits: a task reads the database at one moment and decides
  at a later one.

  The lemmas show that every emission is a state the database had, that no two emissions in a row have
  the same version, that the watcher always comes to rest on the current configuration, and that an
  overtaken reload may emit an old one in between.
\<close>

section \<open>Operations\<close>

record Watcher =
  cw_last_version :: "int option"
  cw_out :: "ConfigSnapshot list"

definition watcher_init :: Watcher where
  "watcher_init = \<lparr>cw_last_version = None, cw_out = []\<rparr>"

text \<open>\<open>_reload_and_maybe_emit\<close> once the load has answered; a failed load is logged.\<close>

definition reload_and_maybe_emit :: "ConfigSnapshot res \<Rightarrow> Watcher \<Rightarrow> Watcher" where
  "reload_and_maybe_emit loaded w =
     (case loaded of
        Inl e \<Rightarrow> w
      | Inr snap \<Rightarrow>
          if cw_last_version w = Some (snap_version snap) then w
          else w\<lparr>cw_last_version := Some (snap_version snap), cw_out := cw_out w @ [snap]\<rparr>)"

section \<open>Interleaving\<close>

datatype WatchTask = Subscriber | Poller

text \<open>
  \<open>wt_history\<close> is every configuration the database has had, the current one last; \<open>wt_loaded t\<close> the
  snapshot task \<open>t\<close> has read and not yet decided on.
\<close>

record WatchState =
  wt_history :: "ConfigSnapshot list"
  wt_watcher :: Watcher
  wt_loaded :: "WatchTask \<Rightarrow> ConfigSnapshot option"

text \<open>\<open>start\<close>: the initial load, before the tasks exist.\<close>

definition watch_start :: "ConfigSnapshot \<Rightarrow> WatchState" where
  "watch_start snap =
     \<lparr>wt_history = [snap], wt_watcher = reload_and_maybe_emit (Inr snap) watcher_init, wt_loaded = (\<lambda>t. None)\<rparr>"

text \<open>
  A change of the configuration commits with a higher version. A task loads when its trigger fires (a
  message for the subscriber, the interval for the poller); a load that fails leaves everything as it
  was and is no step.
\<close>

inductive watch_step :: "WatchState \<Rightarrow> WatchState \<Rightarrow> bool" where
  commit: "snap_version (last (wt_history s)) < snap_version snap \<Longrightarrow>
    watch_step s (s\<lparr>wt_history := wt_history s @ [snap]\<rparr>)"
| load: "wt_loaded s t = None \<Longrightarrow> watch_step s (s\<lparr>wt_loaded := (wt_loaded s)(t := Some (last (wt_history s)))\<rparr>)"
| decide: "wt_loaded s t = Some snap \<Longrightarrow>
    watch_step s (s\<lparr>wt_loaded := (wt_loaded s)(t := None), wt_watcher := reload_and_maybe_emit (Inr snap) (wt_watcher s)\<rparr>)"

inductive watch_run :: "WatchState \<Rightarrow> bool" where
  start: "watch_run (watch_start snap)"
| step: "watch_run s \<Longrightarrow> watch_step s s' \<Longrightarrow> watch_run s'"

inductive_cases watch_stepE: "watch_step s s'"

section \<open>Invariant\<close>

definition emitted :: "WatchState \<Rightarrow> ConfigSnapshot list" where
  "emitted s = cw_out (wt_watcher s)"

text \<open>
  Versions of the history increase; whatever is held or emitted is in the history; the remembered version
  is that of the last emission, and neighbours among the emissions differ.
\<close>

definition watch_inv :: "WatchState \<Rightarrow> bool" where
  "watch_inv s \<longleftrightarrow>
     wt_history s \<noteq> [] \<and> sorted_wrt (\<lambda>a b. snap_version a < snap_version b) (wt_history s) \<and>
     (\<forall>t snap. wt_loaded s t = Some snap \<longrightarrow> snap \<in> set (wt_history s)) \<and>
     set (emitted s) \<subseteq> set (wt_history s) \<and> emitted s \<noteq> [] \<and>
     cw_last_version (wt_watcher s) = Some (snap_version (last (emitted s))) \<and>
     successively (\<lambda>a b. snap_version a \<noteq> snap_version b) (emitted s)"

lemma successively_snoc:
  "successively P (xs @ [y]) \<longleftrightarrow> successively P xs \<and> (xs \<noteq> [] \<longrightarrow> P (last xs) y)"
  by (auto simp: successively_append_iff)

lemma watch_inv_start: "watch_inv (watch_start snap)"
  by (simp add: watch_inv_def watch_start_def emitted_def reload_and_maybe_emit_def watcher_init_def)

lemma watch_inv_step:
  assumes "watch_step s s'" and "watch_inv s"
  shows "watch_inv s'"
  using assms(1)
proof cases
  case (commit snap)
  have "snap_version a < snap_version snap" if "a \<in> set (wt_history s)" for a
  proof -
    have "snap_version a \<le> snap_version (last (wt_history s))"
      using assms(2) that by (cases "wt_history s" rule: rev_cases) (auto simp: watch_inv_def sorted_wrt_append)
    then show ?thesis using commit by simp
  qed
  then show ?thesis using assms(2) commit(1) by (auto simp: watch_inv_def emitted_def sorted_wrt_append)
next
  case (load t)
  then show ?thesis using assms(2) by (auto simp: watch_inv_def emitted_def)
next
  case (decide t snap)
  show ?thesis
  proof (cases "cw_last_version (wt_watcher s) = Some (snap_version snap)")
    case True
    then have "s' = s\<lparr>wt_loaded := (wt_loaded s)(t := None)\<rparr>"
      using decide by (simp add: reload_and_maybe_emit_def)
    then show ?thesis using assms(2) by (auto simp: watch_inv_def emitted_def)
  next
    case False
    then have "emitted s' = emitted s @ [snap]" "cw_last_version (wt_watcher s') = Some (snap_version snap)"
        "wt_history s' = wt_history s" "wt_loaded s' = (wt_loaded s)(t := None)"
      using decide by (simp_all add: reload_and_maybe_emit_def emitted_def)
    then show ?thesis
      using False assms(2) decide(2) by (auto simp: watch_inv_def successively_snoc)
  qed
qed

lemma watch_run_inv: "watch_run s \<Longrightarrow> watch_inv s"
  by (induction rule: watch_run.induct) (auto simp: watch_inv_start intro: watch_inv_step)

text \<open>In a history a version belongs to one configuration.\<close>

lemma history_version_inj:
  assumes "sorted_wrt (\<lambda>a b. snap_version a < snap_version b) xs" and "a \<in> set xs" and "b \<in> set xs"
    and "snap_version a = snap_version b"
  shows "a = b"
proof -
  obtain i j where "i < length xs" "j < length xs" "xs ! i = a" "xs ! j = b" using assms(2,3) by (metis in_set_conv_nth)
  moreover have "\<not> i < j" "\<not> j < i"
    using assms(1,4) calculation unfolding sorted_wrt_iff_nth_less by (metis order_less_irrefl)+
  ultimately show ?thesis by (metis linorder_neqE_nat)
qed

section \<open>Properties\<close>

text \<open>
  Whatever the interleaving: every emission is a configuration the database had, two emissions in
  a row have different versions, right after a task has decided on a load of the current configuration
  the last emission is that configuration, and an idle task can always get there in two steps.
\<close>

theorem watcher_converges:
  assumes "watch_run s"
  shows "set (emitted s) \<subseteq> set (wt_history s) \<and>
    successively (\<lambda>a b. snap_version a \<noteq> snap_version b) (emitted s) \<and>
    (wt_loaded s t = Some (last (wt_history s)) \<and> watch_step s s' \<and> wt_loaded s' t = None \<longrightarrow>
       last (emitted s') = last (wt_history s)) \<and>
    (wt_loaded s t = None \<longrightarrow> (\<exists>s1 s2. watch_step s s1 \<and> watch_step s1 s2 \<and> last (emitted s2) = last (wt_history s2)))"
proof (intro conjI impI)
  note inv = watch_run_inv [OF assms]
  show "set (emitted s) \<subseteq> set (wt_history s)" "successively (\<lambda>a b. snap_version a \<noteq> snap_version b) (emitted s)"
    using inv by (simp_all add: watch_inv_def)
  have settled: "last (emitted u') = last (wt_history u)"
    if "watch_inv u" "u' = u\<lparr>wt_loaded := f, wt_watcher := reload_and_maybe_emit (Inr (last (wt_history u))) (wt_watcher u)\<rparr>" for u u' f
  proof (cases "cw_last_version (wt_watcher u) = Some (snap_version (last (wt_history u)))")
    case True
    then have "snap_version (last (emitted u)) = snap_version (last (wt_history u))"
      using that(1) by (simp add: watch_inv_def)
    moreover have "last (emitted u) \<in> set (wt_history u)" "last (wt_history u) \<in> set (wt_history u)"
      using that(1) last_in_set by (auto simp: watch_inv_def)
    ultimately have "last (emitted u) = last (wt_history u)"
      using that(1) history_version_inj [of "wt_history u"] unfolding watch_inv_def by blast
    then show ?thesis using True that(2) by (simp add: reload_and_maybe_emit_def emitted_def)
  next
    case False
    then show ?thesis using that(2) by (simp add: reload_and_maybe_emit_def emitted_def)
  qed
  show "last (emitted s') = last (wt_history s)"
    if "wt_loaded s t = Some (last (wt_history s)) \<and> watch_step s s' \<and> wt_loaded s' t = None"
  proof -
    from that have "watch_step s s'" by blast
    then show ?thesis
    proof cases
      case (decide t' snap)
      moreover have "t' = t" using that decide by (auto split: if_splits)
      ultimately show ?thesis using that settled [OF inv, of s'] by simp
    qed (use that in \<open>auto split: if_splits\<close>)
  qed
  show "\<exists>s1 s2. watch_step s s1 \<and> watch_step s1 s2 \<and> last (emitted s2) = last (wt_history s2)"
    if idle: "wt_loaded s t = None"
  proof -
    define s1 where "s1 = s\<lparr>wt_loaded := (wt_loaded s)(t := Some (last (wt_history s)))\<rparr>"
    define s2 where "s2 = s1\<lparr>wt_loaded := (wt_loaded s1)(t := None),
      wt_watcher := reload_and_maybe_emit (Inr (last (wt_history s1))) (wt_watcher s1)\<rparr>"
    have st: "watch_step s s1" unfolding s1_def by (rule watch_step.load [OF idle])
    have "wt_loaded s1 t = Some (last (wt_history s1))" by (simp add: s1_def)
    then have "watch_step s1 s2" unfolding s2_def by (rule watch_step.decide)
    moreover have "last (emitted s2) = last (wt_history s1)" "wt_history s2 = wt_history s1"
      using settled [OF watch_inv_step [OF st inv] s2_def] by (simp_all add: s2_def)
    ultimately show ?thesis using st by metis
  qed
qed

definition ex_config :: "int \<Rightarrow> ConfigSnapshot" where
  "ex_config v = \<lparr>snap_version = v, snap_subscriptions = [], snap_channels = [], snap_chains = [], snap_abis = []\<rparr>"

theorem watcher_converges_witness:
  "\<exists>s1 s2. watch_step (watch_start (ex_config 1)) s1 \<and> watch_step s1 s2 \<and> last (emitted s2) = last (wt_history s2)"
  using watcher_converges [OF watch_run.start, of "ex_config 1" Poller] by (simp add: watch_start_def)

text \<open>
  An overtaken reload: the subscriber reads version 1, the poller reads and emits version 2, and then
  the subscriber emits version 1 again.
\<close>

lemma stale_emission:
  "\<exists>s. watch_run s \<and> map snap_version (emitted s) = [0, 2, 1] \<and> map snap_version (wt_history s) = [0, 1, 2]"
proof -
  let ?H = "map ex_config [0, 1, 2]" and ?none = "\<lambda>t :: WatchTask. None :: ConfigSnapshot option"
  let ?w = "\<lambda>v out. \<lparr>cw_last_version = Some v, cw_out = map ex_config out\<rparr>"
  have v: "snap_version (ex_config n) = n" for n by (simp add: ex_config_def)
  have "watch_run (watch_start (ex_config 0))" by (rule watch_run.start)
  then have "watch_run \<lparr>wt_history = map ex_config [0], wt_watcher = ?w 0 [0], wt_loaded = ?none\<rparr>"
    by (simp add: watch_start_def reload_and_maybe_emit_def watcher_init_def v)
  from watch_run.step [OF this watch_step.commit, of "ex_config 1"]
  have "watch_run \<lparr>wt_history = map ex_config [0, 1], wt_watcher = ?w 0 [0], wt_loaded = ?none\<rparr>" by (simp add: v)
  from watch_run.step [OF this watch_step.load, of Subscriber]
  have "watch_run \<lparr>wt_history = map ex_config [0, 1], wt_watcher = ?w 0 [0], wt_loaded = ?none(Subscriber := Some (ex_config 1))\<rparr>"
    by simp
  from watch_run.step [OF this watch_step.commit, of "ex_config 2"]
  have "watch_run \<lparr>wt_history = ?H, wt_watcher = ?w 0 [0], wt_loaded = ?none(Subscriber := Some (ex_config 1))\<rparr>" by (simp add: v)
  from watch_run.step [OF this watch_step.load, of Poller]
  have "watch_run \<lparr>wt_history = ?H, wt_watcher = ?w 0 [0],
      wt_loaded = ?none(Subscriber := Some (ex_config 1), Poller := Some (ex_config 2))\<rparr>" by simp
  from watch_run.step [OF this watch_step.decide, of Poller "ex_config 2"]
  have "watch_run \<lparr>wt_history = ?H, wt_watcher = ?w 2 [0, 2],
      wt_loaded = ?none(Subscriber := Some (ex_config 1), Poller := None)\<rparr>" by (simp add: reload_and_maybe_emit_def v)
  from watch_run.step [OF this watch_step.decide, of Subscriber "ex_config 1"]
  have run: "watch_run \<lparr>wt_history = ?H, wt_watcher = ?w 1 [0, 2, 1],
      wt_loaded = ?none(Subscriber := None, Poller := None)\<rparr>" by (simp add: reload_and_maybe_emit_def v fun_upd_twist)
  show ?thesis by (rule exI, rule conjI, rule run) (simp add: emitted_def v)
qed

end
