(* ===== verification/System.thy ===== *)
theory System
  imports Web_Records Config_Watcher
begin

text \<open>
  The way of a configuration change through the whole service: from a request to the API
  (\<^verbatim>\<open>apps/web/routers\<close>) through the database, the watcher's reload (\<open>load_snapshot\<close> of
  \<^verbatim>\<open>core/config/snapshot.py\<close>, one statement after the other) and its queue to the worker's runners
  (\<^verbatim>\<open>apps/worker/main.py\<close>). The processes interleave: between any two statements of a reload other requests
  may be committed, and the runners write their progress.

  The lemmas show that writes of progress never show in a snapshot, that a reload may mix old and new tables
  but, because it reads the version first, never under the current version, and that the worker comes to run the
  current configuration or ends with an exception, all of this as long as no two requests of the API overlap. For requests
  that do there is a run in which a change stays unnoticed.
\<close>

section \<open>A reload, statement by statement\<close>

text \<open>What \<open>load_snapshot\<close> has read so far; \<open>GotSubs\<close> holds the bindings read and the subscriptions whose channels are still to be asked for.\<close>

datatype Reading =
  Idle
| GotVersion int
| GotChains int "Chain list"
| GotAbis int "Chain list" "Abi list"
| GotSubs int "Chain list" "Abi list" "(Subscription \<times> Config_Store.Channel list) list" "Subscription list"

fun read_next :: "Db \<Rightarrow> Reading \<Rightarrow> Reading" where
  "read_next db Idle = GotVersion (version_get db)"
| "read_next db (GotVersion v) = GotChains v (chain_list_enabled db)"
| "read_next db (GotChains v cs) = GotAbis v cs (abi_list_all db)"
| "read_next db (GotAbis v cs as) = GotSubs v cs as [] (filter su_enabled (db_subs db))"
| "read_next db (GotSubs v cs as bs (s # todo)) = GotSubs v cs as (bs @ [(s, bound_channels db (su_id s))]) todo"
| "read_next db (GotSubs v cs as bs []) = GotSubs v cs as bs []"

text \<open>The rest of \<open>load_snapshot\<close>, which only computes.\<close>

definition assemble :: "int \<Rightarrow> Chain list \<Rightarrow> Abi list \<Rightarrow> (Subscription \<times> Config_Store.Channel list) list \<Rightarrow> ConfigSnapshot" where
  "assemble v cs as bs =
     (let (by_id, subs) = load_bindings bs [] []; active_chain_ids = ss_chain_id ` set subs
      in \<lparr>snap_version = v, snap_subscriptions = subs, snap_channels = map snd by_id,
          snap_chains = filter (\<lambda>c. sn_id c \<in> active_chain_ids) (map snap_chain cs), snap_abis = map snap_abi as\<rparr>)"

fun read_result :: "Reading \<Rightarrow> ConfigSnapshot option" where
  "read_result (GotSubs v cs as bs []) = Some (assemble v cs as bs)"
| "read_result _ = None"

section \<open>The processes\<close>

text \<open>
  Writes to the database that are not configuration: the runners' callbacks, the clean-up loop and the requests
  on delivery records.
\<close>

inductive progress_write :: "Db \<Rightarrow> Db \<Rightarrow> bool" where
  delivery: "progress_write db (on_delivery repr_of answer i now cb db)"
| processed: "progress_write db (on_block_processed sids n db)"
| checkpoint: "progress_write db (snd (cp_save c n h db))"
| cleanup: "progress_write db (cleanup_rounds keep batch oks db)"
| retry: "progress_write db (wb_db (snd (retry_delivery E conn clo net repr_of now i \<lparr>wb_db = db, wb_published = pub\<rparr>)))"
| resolve: "progress_write db (wb_db (snd (resolve_delivery now i \<lparr>wb_db = db, wb_published = pub\<rparr>)))"
| remove: "progress_write db (wb_db (snd (delete_delivery i \<lparr>wb_db = db, wb_published = pub\<rparr>)))"

text \<open>
  A request of the management API and its transaction. \<open>ConfigVersionRepo.bump\<close> reads the version row with one statement
  and writes it back with a later one, and the commit comes after that: \<open>or_seen\<close> is the version column as it was read.
  Two transactions that overlap under \<^verbatim>\<open>READ COMMITTED\<close> may have read the same one. At its commit
  the request acts on the tables with the version it has seen; a request that is refused changes nothing, and so does one that
  finds the row inserted by another since it saw none (the primary key refuses a second one).
\<close>

record OpenRequest =
  or_env :: WebEnv
  or_request :: ConfigRequest
  or_seen :: "int option"

definition commit_request :: "OpenRequest \<Rightarrow> Web \<Rightarrow> Web" where
  "commit_request q w =
     (case handle_config (or_env q) (or_request q) (w\<lparr>wb_db := (wb_db w)\<lparr>db_version := or_seen q\<rparr>\<rparr>) of
        (st, w') \<Rightarrow> if 400 \<le> st \<or> (or_seen q = None \<and> db_version (wb_db w) \<noteq> None) then w else w')"

text \<open>
  \<open>sy_open\<close> are the requests that have read the version and not ended. \<open>sy_taken\<close> counts the snapshots the worker has taken
  from the queue \<^const>\<open>cw_out\<close>; \<open>sy_failed\<close> is the exception that ended it.
\<close>

record Sys =
  sy_web :: Web
  sy_open :: "OpenRequest list"
  sy_watcher :: Watcher
  sy_reading :: "WatchTask \<Rightarrow> Reading"
  sy_taken :: nat
  sy_failed :: "exn option"
  sy_worker :: Worker

definition sys_start :: "Web \<Rightarrow> Sys" where
  "sys_start web =
     \<lparr>sy_web = web, sy_open = [], sy_watcher = reload_and_maybe_emit (Inr (load_snapshot (wb_db web))) watcher_init,
      sy_reading = (\<lambda>t. Idle), sy_taken = 0, sy_failed = None, sy_worker = worker_init\<rparr>"

text \<open>
  The steps: a request reads the version; it commits, or is given up; a write of progress; a statement of a reload; its end, by
  the decision or by a failure; the worker's \<open>_reconcile\<close> of the next snapshot; and whatever a runner does by itself,
  which never assigns its chain, snapshot, matcher, notifier or filter, and uses the registry for lookups. \<open>E\<close> and \<open>L\<close> are the
  libraries the worker's process computes with, the same at every step; what its connections answer may differ.
\<close>

inductive sys_step :: "ChannelEnv \<Rightarrow> AbiLib \<Rightarrow> Sys \<Rightarrow> Sys \<Rightarrow> bool" for E L where
  request_begin: "sys_step E L s (s\<lparr>sy_open := sy_open s @
    [\<lparr>or_env = env, or_request = req, or_seen = db_version (wb_db (sy_web s))\<rparr>]\<rparr>)"
| request_commit: "q \<in> set (sy_open s) \<Longrightarrow>
    sys_step E L s (s\<lparr>sy_open := remove1 q (sy_open s), sy_web := commit_request q (sy_web s)\<rparr>)"
| request_fail: "q \<in> set (sy_open s) \<Longrightarrow> sys_step E L s (s\<lparr>sy_open := remove1 q (sy_open s)\<rparr>)"
| progress: "progress_write (wb_db (sy_web s)) db \<Longrightarrow> sys_step E L s (s\<lparr>sy_web := (sy_web s)\<lparr>wb_db := db\<rparr>\<rparr>)"
| statement: "sys_step E L s (s\<lparr>sy_reading := (sy_reading s)(t := read_next (wb_db (sy_web s)) (sy_reading s t))\<rparr>)"
| failed_load: "sys_step E L s (s\<lparr>sy_reading := (sy_reading s)(t := Idle), sy_watcher := reload_and_maybe_emit (Inl e) (sy_watcher s)\<rparr>)"
| decide: "read_result (sy_reading s t) = Some snap \<Longrightarrow>
    sys_step E L s (s\<lparr>sy_reading := (sy_reading s)(t := Idle), sy_watcher := reload_and_maybe_emit (Inr snap) (sy_watcher s)\<rparr>)"
| take: "sy_failed s = None \<Longrightarrow> sy_taken s < length (cw_out (sy_watcher s)) \<Longrightarrow> we_channels env = E \<Longrightarrow> we_lib env = L \<Longrightarrow>
    reconcile env (cw_out (sy_watcher s) ! sy_taken s) (sy_worker s) = (ex, w) \<Longrightarrow>
    sys_step E L s (s\<lparr>sy_taken := Suc (sy_taken s), sy_failed := ex, sy_worker := w\<rparr>)"
| runs: "d_get (wk_runners (sy_worker s)) c = Some (r, task) \<Longrightarrow>
    cr_chain r' = cr_chain r \<Longrightarrow> cr_snap r' = cr_snap r \<Longrightarrow> cr_matcher r' = cr_matcher r \<Longrightarrow>
    cr_notifier r' = cr_notifier r \<Longrightarrow> cr_evm_filter r' = cr_evm_filter r \<Longrightarrow>
    sys_step E L s (s\<lparr>sy_worker := (sy_worker s)\<lparr>wk_runners := d_set c (r', task') (wk_runners (sy_worker s)), wk_registry := reg\<rparr>\<rparr>)"

text \<open>All runs of the service, and those in which no request begins before the one before it has ended.\<close>

inductive sys_run :: "ChannelEnv \<Rightarrow> AbiLib \<Rightarrow> Sys \<Rightarrow> bool" for E L where
  start: "sys_run E L (sys_start web)"
| step: "sys_run E L s \<Longrightarrow> sys_step E L s s' \<Longrightarrow> sys_run E L s'"

inductive serial_run :: "ChannelEnv \<Rightarrow> AbiLib \<Rightarrow> Sys \<Rightarrow> bool" for E L where
  start: "serial_run E L (sys_start web)"
| step: "serial_run E L s \<Longrightarrow> sys_step E L s s' \<Longrightarrow> length (sy_open s') \<le> 1 \<Longrightarrow> serial_run E L s'"

lemma serial_run_sys: "serial_run E L s \<Longrightarrow> sys_run E L s"
  by (induction rule: serial_run.induct) (auto intro: sys_run.intros)

section \<open>Progress does not show in a snapshot\<close>

definition strip_progress :: "Subscription \<Rightarrow> Subscription" where
  "strip_progress s = s\<lparr>su_last_processed_block := None\<rparr>"

definition same_config :: "Db \<Rightarrow> Db \<Rightarrow> bool" where
  "same_config db db' \<longleftrightarrow>
     db_version db' = db_version db \<and> db_chains db' = db_chains db \<and> db_abis db' = db_abis db \<and> db_links db' = db_links db \<and>
     db_channels db' = db_channels db \<and> map strip_progress (db_subs db') = map strip_progress (db_subs db)"

lemma same_config_refl [simp]: "same_config db db"
  by (simp add: same_config_def)

lemma same_config_deliveries [simp]: "same_config db (db\<lparr>db_deliveries := rows\<rparr>)"
  and same_config_checkpoints [simp]: "same_config db (db\<lparr>db_checkpoints := cps\<rparr>)"
  by (simp_all add: same_config_def version_get_def)

lemma same_config_trans: "same_config a b \<Longrightarrow> same_config b c \<Longrightarrow> same_config a c"
  by (simp add: same_config_def)

lemma update_progress_config: "update_progress sids n db = Inr db' \<Longrightarrow> same_config db db'"
proof (induction sids arbitrary: db)
  case (Cons sid sids)
  then obtain db1 where db1: "sub_update sid (\<lambda>s. s\<lparr>su_last_processed_block := Some n\<rparr>) db = Inr db1" "update_progress sids n db1 = Inr db'"
    by (auto simp: rbind_Inr_iff)
  have "same_config db db1"
    using db1(1)
    by (auto simp: sub_update_def same_config_def version_get_def row_update_def strip_progress_def split: option.splits if_splits)
  then show ?case using Cons.IH [OF db1(2)] by (rule same_config_trans)
qed simp

lemma cleanup_config: "same_config db (cleanup_rounds keep batch oks db)"
proof (induction keep batch oks db rule: cleanup_rounds.induct)
  case (2 keep batch ok rest db)
  have "same_config db (if ok then snd (cleanup_success keep batch db) else db)" by (simp add: cleanup_success_def Let_def)
  then show ?case using 2 by (auto intro: same_config_trans)
qed simp

lemma progress_write_config: "progress_write db db' \<Longrightarrow> same_config db db'"
proof (induction rule: progress_write.induct)
  case (delivery db repr_of answer i now cb)
  show ?case
    by (cases cb) (auto simp: keep_on_error_def delivery_create_def rbind_Inr_iff split: sum.splits)
next
  case (processed db sids n)
  show ?case by (auto simp: on_block_processed_def keep_on_error_def update_progress_config split: sum.splits)
next
  case (checkpoint db c n h)
  show ?case by (auto simp: cp_save_def checkpoint_upsert_def split: if_splits)
next
  case (cleanup db keep batch oks)
  show ?case by (rule cleanup_config)
qed (auto simp: retry_delivery_def resolve_delivery_def delete_delivery_def or_404_def mark_resolved_def bump_attempt_def
    delivery_delete_def split: option.splits sum.splits)

section \<open>What a reload comes to\<close>

text \<open>The result if nothing changes from here on.\<close>

fun read_rest :: "Db \<Rightarrow> Reading \<Rightarrow> ConfigSnapshot" where
  "read_rest db Idle = load_snapshot db"
| "read_rest db (GotVersion v) = assemble v (chain_list_enabled db) (abi_list_all db) (list_enabled_with_channels db)"
| "read_rest db (GotChains v cs) = assemble v cs (abi_list_all db) (list_enabled_with_channels db)"
| "read_rest db (GotAbis v cs as) = assemble v cs as (list_enabled_with_channels db)"
| "read_rest db (GotSubs v cs as bs todo) = assemble v cs as (bs @ map (\<lambda>s. (s, bound_channels db (su_id s))) todo)"

lemma load_assembles:
  "load_snapshot db = assemble (version_get db) (chain_list_enabled db) (abi_list_all db) (list_enabled_with_channels db)"
  by (simp add: load_snapshot_def assemble_def)

lemma read_next_rest: "read_rest db (read_next db r) = read_rest db r"
  by (induction db r rule: read_next.induct) (simp_all add: load_assembles list_enabled_with_channels_def)

lemma read_result_rest: "read_result r = Some snap \<Longrightarrow> read_rest db r = snap"
  by (induction r rule: read_result.induct) auto

lemma assemble_strip: "assemble v cs as (map (apfst strip_progress) bs) = assemble v cs as bs"
proof -
  have s: "snap_sub (strip_progress s) cs = snap_sub s cs" for s cs by (simp add: snap_sub_def strip_progress_def)
  have "map (\<lambda>(s, cs). snap_sub s cs) (filter (\<lambda>(s, cs). cs \<noteq> []) (map (apfst strip_progress) bs)) =
      map (\<lambda>(s, cs). snap_sub s cs) (filter (\<lambda>(s, cs). cs \<noteq> []) bs)"
    by (induction bs) (auto simp: s)
  moreover have "concat (map snd (map (apfst strip_progress) bs)) = concat (map snd bs)" by (simp add: comp_def)
  ultimately show ?thesis unfolding assemble_def load_bindings_closed by simp
qed

lemma same_config_version: "same_config db db' \<Longrightarrow> version_get db' = version_get db"
  by (simp add: same_config_def version_get_def)

lemma bound_channels_config: "same_config db db' \<Longrightarrow> bound_channels db' i = bound_channels db i"
  by (simp add: same_config_def bound_channels_def channel_get_def)

lemma enabled_config:
  assumes "same_config db db'"
  shows "map (apfst strip_progress) (list_enabled_with_channels db') = map (apfst strip_progress) (list_enabled_with_channels db)"
proof -
  have f: "map (apfst strip_progress) (list_enabled_with_channels d) =
      map (\<lambda>s. (s, bound_channels d (su_id s))) (filter su_enabled (map strip_progress (db_subs d)))" for d
    by (simp add: list_enabled_with_channels_def filter_map comp_def strip_progress_def)
  have "map strip_progress (db_subs db') = map strip_progress (db_subs db)" using assms by (simp add: same_config_def)
  then show ?thesis unfolding f by (simp add: bound_channels_config [OF assms])
qed

lemma assemble_config:
  assumes "same_config db db'"
  shows "assemble v cs as (list_enabled_with_channels db') = assemble v cs as (list_enabled_with_channels db)"
  by (metis assemble_strip enabled_config [OF assms])

lemma read_rest_config:
  assumes "same_config db db'"
  shows "read_rest db' r = read_rest db r"
  using assms
  by (cases r) (simp_all add: load_assembles assemble_config [OF assms] bound_channels_config [OF assms]
      same_config_version [OF assms] same_config_def chain_list_enabled_def abi_list_all_def)

lemma load_snapshot_config: "same_config db db' \<Longrightarrow> load_snapshot db' = load_snapshot db"
  using read_rest_config [of db db' Idle] by simp

section \<open>The invariant\<close>

fun read_version :: "Reading \<Rightarrow> int option" where
  "read_version Idle = None"
| "read_version (GotVersion v) = Some v"
| "read_version (GotChains v cs) = Some v"
| "read_version (GotAbis v cs as) = Some v"
| "read_version (GotSubs v cs as bs todo) = Some v"

text \<open>A version is current only together with the tables of now.\<close>

definition reading_ok :: "Db \<Rightarrow> Reading \<Rightarrow> bool" where
  "reading_ok db r \<longleftrightarrow>
     (\<forall>v. read_version r = Some v \<longrightarrow> v \<le> version_get db \<and> (v = version_get db \<longrightarrow> read_rest db r = load_snapshot db))"

definition watcher_ok :: "Db \<Rightarrow> Watcher \<Rightarrow> bool" where
  "watcher_ok db w \<longleftrightarrow> cw_out w \<noteq> [] \<and> cw_last_version w = Some (snap_version (last (cw_out w))) \<and>
     snap_version (last (cw_out w)) \<le> version_get db \<and>
     (snap_version (last (cw_out w)) = version_get db \<longrightarrow> last (cw_out w) = load_snapshot db)"

text \<open>
  Every runner works with the snapshot: with its subscriptions, ABIs and bindings in the matcher, exactly its
  channels in the notifier, its filter at the node; on a chain the snapshot names, holding its lock. (What it does not get anew is
  the chain's own settings: a running runner keeps those it was made with.)
\<close>

definition runs_snapshot :: "ChannelEnv \<Rightarrow> AbiLib \<Rightarrow> ConfigSnapshot \<Rightarrow> Worker \<Rightarrow> bool" where
  "runs_snapshot E L snap w \<longleftrightarrow>
     (\<forall>c r task. d_get (wk_runners w) c = Some (r, task) \<longrightarrow>
        runner_configured E L snap r \<and> sn_id (cr_chain r) = c \<and> d_get (enabled_chains snap) c \<noteq> None \<and>
        d_has (wk_locks w) c)"

lemma enabled_chain_id: "d_get (enabled_chains snap) c = Some cfg \<Longrightarrow> sn_id cfg = c"
  by (auto simp: enabled_chains_def d_get_dict_of dest!: map_of_SomeD)

definition worker_ok :: "ChannelEnv \<Rightarrow> AbiLib \<Rightarrow> ConfigSnapshot list \<Rightarrow> nat \<Rightarrow> exn option \<Rightarrow> Worker \<Rightarrow> bool" where
  "worker_ok E L out n failed w \<longleftrightarrow> n \<le> length out \<and> wk_ok w \<and>
     (failed = None \<longrightarrow> (if n = 0 then wk_runners w = [] else runs_snapshot E L (out ! (n - 1)) w))"

definition sys_inv :: "ChannelEnv \<Rightarrow> AbiLib \<Rightarrow> Sys \<Rightarrow> bool" where
  "sys_inv E L s \<longleftrightarrow> (\<forall>t. reading_ok (wb_db (sy_web s)) (sy_reading s t)) \<and> watcher_ok (wb_db (sy_web s)) (sy_watcher s) \<and>
     worker_ok E L (cw_out (sy_watcher s)) (sy_taken s) (sy_failed s) (sy_worker s) \<and>
     length (sy_open s) \<le> 1 \<and> (\<forall>q \<in> set (sy_open s). or_seen q = db_version (wb_db (sy_web s)))"

lemma version_assemble [simp]: "snap_version (assemble v cs as bs) = v"
  by (simp add: assemble_def split: prod.splits)

lemma version_load [simp]: "snap_version (load_snapshot db) = version_get db"
  by (simp add: load_assembles)

lemma read_result_version: "read_result r = Some snap \<Longrightarrow> read_version r = Some (snap_version snap)"
  by (induction r rule: read_result.induct) auto

lemma reading_ok_next: "reading_ok db r \<Longrightarrow> reading_ok db (read_next db r)"
proof -
  assume ok: "reading_ok db r"
  have "read_version (read_next db r) = (if r = Idle then Some (version_get db) else read_version r)"
    by (induction db r rule: read_next.induct) auto
  then show ?thesis using ok by (cases "r = Idle") (auto simp: reading_ok_def read_next_rest load_assembles)
qed

text \<open>
  What the watcher relies on: a write to the database raises the version or leaves what a snapshot shows as it was.
  Then whatever was read before stays right: not current any more in the first case, unchanged in the second.
\<close>

locale versioned_config =
  fixes writes :: "Db \<Rightarrow> Db \<Rightarrow> bool"
  assumes versioned: "writes db db' \<Longrightarrow> version_get db < version_get db' \<or> same_config db db'"
begin

lemma reading_kept:
  assumes "writes db db'" and "reading_ok db r"
  shows "reading_ok db' r"
  using versioned [OF assms(1)]
proof
  assume "version_get db < version_get db'"
  then show ?thesis using assms(2) by (fastforce simp: reading_ok_def)
next
  assume c: "same_config db db'"
  then show ?thesis
    using assms(2) by (simp add: reading_ok_def read_rest_config [OF c] load_snapshot_config [OF c] same_config_version [OF c])
qed

lemma watcher_kept:
  assumes "writes db db'" and "watcher_ok db w"
  shows "watcher_ok db' w"
  using versioned [OF assms(1)]
proof
  assume "version_get db < version_get db'"
  then show ?thesis using assms(2) by (auto simp: watcher_ok_def)
next
  assume c: "same_config db db'"
  then show ?thesis using assms(2) by (simp add: watcher_ok_def load_snapshot_config [OF c] same_config_version [OF c])
qed

lemma version_determines:
  assumes "writes\<^sup>*\<^sup>* db db'"
  shows "version_get db \<le> version_get db' \<and> (version_get db' = version_get db \<longrightarrow> load_snapshot db' = load_snapshot db)"
  using assms
proof (induction rule: rtranclp_induct)
  case (step db1 db2)
  from versioned [OF step(2)] show ?case
  proof
    assume "version_get db1 < version_get db2"
    then show ?thesis using step.IH by simp
  next
    assume c: "same_config db1 db2"
    then show ?thesis using step.IH by (simp add: load_snapshot_config [OF c] same_config_version [OF c])
  qed
qed simp

end

text \<open>The writes of the service: requests of the management API and progress.\<close>

definition service_write :: "Db \<Rightarrow> Db \<Rightarrow> bool" where
  "service_write db db' \<longleftrightarrow>
     progress_write db db' \<or> (\<exists>env req pub. db' = wb_db (snd (handle_config env req \<lparr>wb_db = db, wb_published = pub\<rparr>)))"

interpretation service: versioned_config service_write
proof
  fix db db'
  assume "service_write db db'"
  then consider "progress_write db db'" | env req pub where "db' = wb_db (snd (handle_config env req \<lparr>wb_db = db, wb_published = pub\<rparr>))"
    by (auto simp: service_write_def)
  then show "version_get db < version_get db' \<or> same_config db db'"
  proof cases
    case 1
    then show ?thesis using progress_write_config by blast
  next
    case 2
    obtain st w' where h: "handle_config env req \<lparr>wb_db = db, wb_published = pub\<rparr> = (st, w')" by (metis prod.collapse)
    show ?thesis using 2 h api.refused [OF h] api.accepted [OF h] by (cases "st < 400") auto
  qed
qed

text \<open>A request that has seen the version of now commits as if it were one step.\<close>

lemma commit_request_serial:
  assumes "or_seen q = db_version (wb_db w)"
  shows "commit_request q w = snd (handle_config (or_env q) (or_request q) w)"
proof -
  have w: "w\<lparr>wb_db := (wb_db w)\<lparr>db_version := or_seen q\<rparr>\<rparr> = w" by (simp add: assms)
  obtain st w' where h: "handle_config (or_env q) (or_request q) w = (st, w')" by (metis prod.collapse)
  show ?thesis using api.refused [OF h] h by (auto simp: commit_request_def w assms)
qed

lemma request_write: "or_seen q = db_version (wb_db w) \<Longrightarrow> service_write (wb_db w) (wb_db (commit_request q w))"
  unfolding service_write_def commit_request_serial by (metis Web.cases Web.select_convs)

lemma watcher_ok_decide:
  assumes "watcher_ok db w" and "snap_version snap \<le> version_get db" and "snap_version snap = version_get db \<longrightarrow> snap = load_snapshot db"
  shows "watcher_ok db (reload_and_maybe_emit (Inr snap) w)"
  using assms by (auto simp: watcher_ok_def reload_and_maybe_emit_def)

lemma worker_ok_queue:
  assumes "worker_ok E L (cw_out w) n failed wk"
  shows "worker_ok E L (cw_out (reload_and_maybe_emit loaded w)) n failed wk"
  using assms by (auto simp: worker_ok_def reload_and_maybe_emit_def nth_append split: sum.splits if_splits)

lemma worker_ok_take:
  assumes "worker_ok (we_channels env) (we_lib env) out n None w" and "n < length out" and "reconcile env (out ! n) w = (ex, w')"
  shows "worker_ok (we_channels env) (we_lib env) out (Suc n) ex w'"
proof -
  have ok: "wk_ok w'" using assms reconcile_ok by (auto simp: worker_ok_def)
  have "runs_snapshot (we_channels env) (we_lib env) (out ! n) w'" if "ex = None"
    unfolding runs_snapshot_def
  proof (intro allI impI)
    fix c r task assume g: "d_get (wk_runners w') c = Some (r, task)"
    note rec = assms(3) [unfolded that]
    have "sn_id (cr_chain r) = c"
    proof (cases "d_get (wk_runners w) c")
      case None
      then have "d_get (enabled_chains (out ! n)) c = Some (cr_chain r)" using reconcile_follows [OF rec g] by simp
      then show ?thesis by (rule enabled_chain_id)
    next
      case (Some rt)
      then have "n \<noteq> 0" using assms(1) by (cases n) (auto simp: worker_ok_def)
      then have "sn_id (cr_chain (fst rt)) = c"
        using assms(1) Some unfolding worker_ok_def runs_snapshot_def by (metis prod.collapse)
      then show ?thesis using reconcile_follows [OF rec g] Some by (cases rt) simp
    qed
    then show "runner_configured (we_channels env) (we_lib env) (out ! n) r \<and> sn_id (cr_chain r) = c \<and>
        d_get (enabled_chains (out ! n)) c \<noteq> None \<and> d_has (wk_locks w') c"
      using reconcile_configures [OF rec g] reconcile_follows [OF rec g] ok g by (simp add: wk_ok_def d_has_def)
  qed
  then show ?thesis using assms(2) ok by (simp add: worker_ok_def)
qed

lemma worker_ok_runs:
  assumes "worker_ok E L out n failed w" and "d_get (wk_runners w) c = Some (r, task)"
    and "cr_chain r' = cr_chain r" and "cr_snap r' = cr_snap r" and "cr_matcher r' = cr_matcher r"
    and "cr_notifier r' = cr_notifier r" and "cr_evm_filter r' = cr_evm_filter r"
  shows "worker_ok E L out n failed (w\<lparr>wk_runners := d_set c (r', task') (wk_runners w), wk_registry := reg\<rparr>)"
proof -
  let ?w = "w\<lparr>wk_runners := d_set c (r', task') (wk_runners w), wk_registry := reg\<rparr>"
  have ok: "wk_ok ?w"
    using assms(1,2) by (auto simp: worker_ok_def wk_ok_def d_has_simps distinct_d_set) (auto simp: d_has_def)
  have "runner_configured E L snap r' = runner_configured E L snap r" for snap
    using assms(3-7) by (simp add: runner_configured_def)
  then have "runs_snapshot E L snap ?w" if "runs_snapshot E L snap w" for snap
    using that assms(2,3) unfolding runs_snapshot_def by (auto simp: d_get_set)
  then show ?thesis using assms(1,2) ok by (auto simp: worker_ok_def split: if_splits)
qed

lemma sys_inv_start: "sys_inv E L (sys_start web)"
  by (simp add: sys_inv_def sys_start_def reading_ok_def watcher_ok_def worker_ok_def reload_and_maybe_emit_def watcher_init_def
      wk_ok_def worker_init_def d_has_def)

lemma sys_inv_step:
  assumes "sys_step E L s s'" and "sys_inv E L s" and "length (sy_open s') \<le> 1"
  shows "sys_inv E L s'"
  using assms(1)
proof cases
  case (request_begin env req)
  then have "sy_open s = []" using assms(3) by simp
  then show ?thesis using assms(2) request_begin by (simp add: sys_inv_def)
next
  case (request_commit q)
  have q: "or_seen q = db_version (wb_db (sy_web s))" and "sy_open s = [q]"
    using assms(2) request_commit(2) by (auto simp: sys_inv_def) (cases "sy_open s"; auto)
  note commits = request_write [OF q]
  show ?thesis
    using assms(2) service.reading_kept [OF commits] service.watcher_kept [OF commits] \<open>sy_open s = [q]\<close>
    by (simp add: request_commit sys_inv_def)
next
  case (request_fail q)
  then show ?thesis
    using assms(2,3) notin_set_remove1 by (fastforce simp: sys_inv_def)
next
  case (progress db)
  then have "service_write (wb_db (sy_web s)) db" by (simp add: service_write_def)
  moreover have "db_version db = db_version (wb_db (sy_web s))"
    using progress_write_config [OF progress(2)] by (simp add: same_config_def)
  ultimately show ?thesis
    using assms(2) service.reading_kept service.watcher_kept by (simp add: progress sys_inv_def)
next
  case (statement t)
  then show ?thesis using assms(2) reading_ok_next by (simp add: sys_inv_def)
next
  case (failed_load t e)
  then show ?thesis using assms(2) by (simp add: sys_inv_def reading_ok_def reload_and_maybe_emit_def)
next
  case (decide t snap)
  have "reading_ok (wb_db (sy_web s)) (sy_reading s t)" using assms(2) by (simp add: sys_inv_def)
  then have "snap_version snap \<le> version_get (wb_db (sy_web s)) \<and>
      (snap_version snap = version_get (wb_db (sy_web s)) \<longrightarrow> snap = load_snapshot (wb_db (sy_web s)))"
    using read_result_version [OF decide(2)] read_result_rest [OF decide(2)] by (simp add: reading_ok_def)
  then show ?thesis
    using assms(2) watcher_ok_decide worker_ok_queue by (simp add: decide sys_inv_def reading_ok_def)
next
  case (take env ex w)
  then show ?thesis using assms(2) worker_ok_take [OF _ take(3,6)] by (simp add: sys_inv_def)
next
  case (runs c r task r' task' reg)
  then show ?thesis using assms(2) worker_ok_runs by (simp add: sys_inv_def)
qed

lemma serial_run_inv: "serial_run E L s \<Longrightarrow> sys_inv E L s"
  by (induction rule: serial_run.induct) (auto simp: sys_inv_start intro: sys_inv_step)

section \<open>Settling\<close>

text \<open>Steps during which no request begins or ends; they keep a run serial.\<close>

definition quiet_step :: "ChannelEnv \<Rightarrow> AbiLib \<Rightarrow> Sys \<Rightarrow> Sys \<Rightarrow> bool" where
  "quiet_step E L s s' \<longleftrightarrow> sys_step E L s s' \<and> sy_open s' = sy_open s"

lemma quiet_steps: "(quiet_step E L)\<^sup>*\<^sup>* s s' \<Longrightarrow> (sys_step E L)\<^sup>*\<^sup>* s s'"
  by (induction rule: rtranclp_induct) (auto simp: quiet_step_def intro: rtranclp.rtrancl_into_rtrancl)

lemma serial_run_steps: "(quiet_step E L)\<^sup>*\<^sup>* s s' \<Longrightarrow> serial_run E L s \<Longrightarrow> serial_run E L s'"
proof (induction rule: rtranclp_induct)
  case (step y z)
  then have y: "serial_run E L y" by simp
  have "length (sy_open y) \<le> 1" using serial_run_inv [OF y] by (simp add: sys_inv_def)
  then show ?case using step(2) serial_run.step [OF y] by (simp add: quiet_step_def)
qed simp

text \<open>A whole reload by one task, and the worker's way through the rest of the queue.\<close>

definition reload_now :: "WatchTask \<Rightarrow> Sys \<Rightarrow> Sys" where
  "reload_now t s = s\<lparr>sy_reading := (sy_reading s)(t := Idle),
     sy_watcher := reload_and_maybe_emit (Inr (load_snapshot (wb_db (sy_web s)))) (sy_watcher s)\<rparr>"

fun drain :: "WorkerEnv \<Rightarrow> nat \<Rightarrow> Sys \<Rightarrow> Sys" where
  "drain env 0 s = s"
| "drain env (Suc k) s =
     (if sy_failed s \<noteq> None then s
      else case reconcile env (cw_out (sy_watcher s) ! sy_taken s) (sy_worker s) of
             (ex, w) \<Rightarrow> drain env k (s\<lparr>sy_taken := Suc (sy_taken s), sy_failed := ex, sy_worker := w\<rparr>))"

abbreviation pending :: "Sys \<Rightarrow> nat" where
  "pending s \<equiv> length (cw_out (sy_watcher s)) - sy_taken s"

abbreviation reading_at :: "Sys \<Rightarrow> WatchTask \<Rightarrow> Reading \<Rightarrow> Sys" where
  "reading_at s t r \<equiv> s\<lparr>sy_reading := (sy_reading s)(t := r)\<rparr>"

lemma statement_step: "quiet_step E L (reading_at s t r) (reading_at s t (read_next (wb_db (sy_web s)) r))"
  using sys_step.statement [of E L "reading_at s t r" t] by (simp add: quiet_step_def)

lemma read_subs_steps:
  "(quiet_step E L)\<^sup>*\<^sup>* (reading_at s t (GotSubs v cs as bs todo))
     (reading_at s t (GotSubs v cs as (bs @ map (\<lambda>x. (x, bound_channels (wb_db (sy_web s)) (su_id x))) todo) []))"
proof (induction todo arbitrary: bs)
  case (Cons x todo)
  have "quiet_step E L (reading_at s t (GotSubs v cs as bs (x # todo)))
      (reading_at s t (GotSubs v cs as (bs @ [(x, bound_channels (wb_db (sy_web s)) (su_id x))]) todo))"
    using statement_step [where s = s and t = t and r = "GotSubs v cs as bs (x # todo)"] by simp
  from converse_rtranclp_into_rtranclp [OF this Cons.IH] show ?case by (simp only: append_assoc append.simps list.map)
qed simp

lemma reload_now_steps:
  assumes "sy_reading s t = Idle"
  shows "(quiet_step E L)\<^sup>*\<^sup>* s (reload_now t s)"
proof -
  let ?db = "wb_db (sy_web s)" and ?at = "reading_at s t"
  let ?v = "version_get ?db" and ?cs = "chain_list_enabled ?db" and ?as = "abi_list_all ?db"
  let ?full = "GotSubs ?v ?cs ?as (list_enabled_with_channels ?db) []"
  have "quiet_step E L (?at Idle) (?at (GotVersion ?v))" "quiet_step E L (?at (GotVersion ?v)) (?at (GotChains ?v ?cs))"
      "quiet_step E L (?at (GotChains ?v ?cs)) (?at (GotAbis ?v ?cs ?as))"
      "quiet_step E L (?at (GotAbis ?v ?cs ?as)) (?at (GotSubs ?v ?cs ?as [] (filter su_enabled (db_subs ?db))))"
    using statement_step [where s = s and t = t] by (metis read_next.simps)+
  moreover have "(quiet_step E L)\<^sup>*\<^sup>* (?at (GotSubs ?v ?cs ?as [] (filter su_enabled (db_subs ?db)))) (?at ?full)"
    using read_subs_steps [where s = s and t = t and bs = "[]"] by (simp add: list_enabled_with_channels_def)
  ultimately have "(quiet_step E L)\<^sup>*\<^sup>* (?at Idle) (?at ?full)" by (meson converse_rtranclp_into_rtranclp)
  moreover have "?at Idle = s" using assms by (metis (mono_tags) Sys.surjective Sys.update_convs(4) fun_upd_triv)
  moreover have "quiet_step E L (?at ?full) (reload_now t s)"
    using sys_step.decide [of "?at ?full" t "load_snapshot ?db" E L] by (simp add: quiet_step_def reload_now_def load_assembles)
  ultimately show ?thesis by (metis rtranclp.rtrancl_into_rtrancl)
qed

lemma drain_steps:
  "k \<le> pending s \<Longrightarrow> (quiet_step (we_channels env) (we_lib env))\<^sup>*\<^sup>* s (drain env k s) \<and> sy_web (drain env k s) = sy_web s \<and> sy_watcher (drain env k s) = sy_watcher s \<and>
     (sy_failed (drain env k s) = None \<longrightarrow> sy_taken (drain env k s) = sy_taken s + k)"
proof (induction k arbitrary: s)
  case (Suc k)
  obtain ex w where r: "reconcile env (cw_out (sy_watcher s) ! sy_taken s) (sy_worker s) = (ex, w)" by (metis prod.collapse)
  let ?s = "s\<lparr>sy_taken := Suc (sy_taken s), sy_failed := ex, sy_worker := w\<rparr>"
  show ?case
  proof (cases "sy_failed s")
    case None
    have "sys_step (we_channels env) (we_lib env) s ?s" by (rule sys_step.take [OF None _ refl refl r]) (use Suc.prems in simp)
    then have "quiet_step (we_channels env) (we_lib env) s ?s" by (simp add: quiet_step_def)
    moreover have "k \<le> pending ?s" using Suc.prems by simp
    note Suc.IH [OF this]
    ultimately show ?thesis using None r by (auto intro: converse_rtranclp_into_rtranclp)
  qed simp
qed simp

lemma synced_runs:
  assumes "serial_run E L s" and "cw_last_version (sy_watcher s) = Some (version_get (wb_db (sy_web s)))"
    and "sy_failed s = None" and "sy_taken s = length (cw_out (sy_watcher s))"
  shows "runs_snapshot E L (load_snapshot (wb_db (sy_web s))) (sy_worker s)"
proof -
  let ?out = "cw_out (sy_watcher s)"
  have "?out \<noteq> []" "last ?out = load_snapshot (wb_db (sy_web s))" "worker_ok E L ?out (length ?out) None (sy_worker s)"
    using serial_run_inv [OF assms(1)] assms(2-4) by (auto simp: sys_inv_def watcher_ok_def)
  then show ?thesis by (simp add: worker_ok_def last_conv_nth)
qed

lemma reloaded_version:
  "cw_last_version (sy_watcher (reload_now t s)) = Some (version_get (wb_db (sy_web (reload_now t s))))"
  by (auto simp: reload_now_def reload_and_maybe_emit_def)

section \<open>An example\<close>

text \<open>A service that has started on one chain and has nothing more to do.\<close>

definition ex_service :: Sys where
  "ex_service = sys_start (run_requests ex_requests ex_web)"

definition ex_settled :: Sys where
  "ex_settled = drain ex_worker_env (pending ex_service) ex_service"

lemma ex_settled_facts:
  "pending ex_service = 1" "sy_failed ex_settled = None" "sy_taken ex_settled = 1" "length (cw_out (sy_watcher ex_settled)) = 1"
  "map (apsnd snd) (wk_runners (sy_worker ex_settled)) = [(''sol'', Running)]"
  "cw_last_version (sy_watcher ex_settled) = Some (version_get (wb_db (sy_web ex_settled)))"
  by code_simp+

lemma ex_settled_run: "serial_run ex_env ex_lib ex_service" "serial_run ex_env ex_lib ex_settled"
proof -
  show s: "serial_run ex_env ex_lib ex_service" unfolding ex_service_def by (rule serial_run.start)
  have "(quiet_step (we_channels ex_worker_env) (we_lib ex_worker_env))\<^sup>*\<^sup>* ex_service ex_settled"
    unfolding ex_settled_def using drain_steps [of "pending ex_service" ex_service] by blast
  then show "serial_run ex_env ex_lib ex_settled" using serial_run_steps s by (simp add: ex_worker_env_def)
qed

section \<open>Properties\<close>

text \<open>
  C12. As long as the requests of the API do not overlap, a version stands for one configuration, although a reload takes many
  statements with other commits between them: whenever the version the watcher remembers is the one in the database, the last
  snapshot it emitted is the configuration in the database; and once the worker has taken all snapshots without an exception, each of
  its runners works with that configuration (its matcher, its channels, its filter), for a chain it names, holding its lock; the
  chain's own settings are those the runner was made with. Requests that do overlap can break this (\<open>lost_bump_hides_change\<close>).
\<close>

theorem version_identifies_config:
  assumes "serial_run E L s" and "cw_last_version (sy_watcher s) = Some (version_get (wb_db (sy_web s)))"
  shows "last (cw_out (sy_watcher s)) = load_snapshot (wb_db (sy_web s)) \<and>
    (sy_failed s = None \<and> sy_taken s = length (cw_out (sy_watcher s)) \<longrightarrow>
       runs_snapshot E L (load_snapshot (wb_db (sy_web s))) (sy_worker s))"
  using serial_run_inv [OF assms(1)] synced_runs [OF assms] assms(2) by (auto simp: sys_inv_def watcher_ok_def)

theorem version_identifies_config_witness:
  "\<exists>r. d_get (wk_runners (sy_worker ex_settled)) ''sol'' = Some (r, Running) \<and>
     runner_configured ex_env ex_lib (load_snapshot (wb_db (sy_web ex_settled))) r"
proof -
  obtain r where "d_get (wk_runners (sy_worker ex_settled)) ''sol'' = Some (r, Running)" using ex_settled_facts(5) by auto
  then show ?thesis
    using version_identifies_config [OF ex_settled_run(2) ex_settled_facts(6)] ex_settled_facts(2-4) by (auto simp: runs_snapshot_def)
qed

text \<open>
  C11. Every change reaches the worker, as long as the requests of the API do not overlap. From any state of the service in which
  one of the watcher's tasks is idle, its next reload, without any message from Redis, and the worker's reconciliations after it,
  whatever its connections answer, are a run of the service after which the worker has ended with an exception or each of its
  runners works with the configuration of the database: its snapshot and matcher, a notifier with exactly its channels, and the
  filter of its chain. The chain's own settings are not exchanged in a runner that runs already.
\<close>

theorem change_reaches_worker:
  assumes "serial_run (we_channels env) (we_lib env) s" and "sy_reading s t = Idle"
  shows "\<exists>s'. s' = drain env (pending (reload_now t s)) (reload_now t s) \<and>
    (sys_step (we_channels env) (we_lib env))\<^sup>*\<^sup>* s s' \<and> sy_web s' = sy_web s \<and>
    (sy_failed s' \<noteq> None \<or> runs_snapshot (we_channels env) (we_lib env) (load_snapshot (wb_db (sy_web s))) (sy_worker s'))"
proof -
  let ?E = "we_channels env" and ?L = "we_lib env" and ?r = "reload_now t s"
  let ?d = "drain env (pending ?r) ?r"
  have r: "(quiet_step ?E ?L)\<^sup>*\<^sup>* s ?r" by (rule reload_now_steps [OF assms(2)])
  have run_r: "serial_run ?E ?L ?r" using serial_run_steps [OF r assms(1)] .
  have d: "(quiet_step ?E ?L)\<^sup>*\<^sup>* ?r ?d" "sy_web ?d = sy_web ?r" "sy_watcher ?d = sy_watcher ?r"
      "sy_failed ?d = None \<Longrightarrow> sy_taken ?d = sy_taken ?r + pending ?r"
    using drain_steps [of "pending ?r" ?r env] by auto
  have web: "sy_web ?r = sy_web s" by (simp add: reload_now_def)
  have "sy_taken ?r \<le> length (cw_out (sy_watcher ?r))" using serial_run_inv [OF run_r] by (simp add: sys_inv_def worker_ok_def)
  then have "runs_snapshot ?E ?L (load_snapshot (wb_db (sy_web s))) (sy_worker ?d)" if "sy_failed ?d = None"
    using synced_runs [OF serial_run_steps [OF d(1) run_r], OF _ that] reloaded_version [of t s] d(2-4) that web by simp
  then show ?thesis using quiet_steps [OF r] quiet_steps [OF d(1)] d(2) web by (auto intro: rtranclp_trans)
qed

theorem change_reaches_worker_witness:
  "\<exists>s'. (sys_step ex_env ex_lib)\<^sup>*\<^sup>* ex_service s' \<and> sy_web s' = sy_web ex_service \<and> sy_failed s' = None \<and>
     runs_snapshot ex_env ex_lib (load_snapshot (wb_db (sy_web ex_service))) (sy_worker s') \<and> map fst (wk_runners (sy_worker s')) = [''sol'']"
proof -
  let ?s = "drain ex_worker_env (pending (reload_now Poller ex_service)) (reload_now Poller ex_service)"
  have idle: "sy_reading ex_service Poller = Idle" by (simp add: ex_service_def sys_start_def)
  have E: "we_channels ex_worker_env = ex_env" "we_lib ex_worker_env = ex_lib" by (simp_all add: ex_worker_env_def)
  have "sy_failed ?s = None" "map fst (wk_runners (sy_worker ?s)) = [''sol'']" by code_simp+
  then show ?thesis using change_reaches_worker [of ex_worker_env, unfolded E, OF ex_settled_run(1) idle] by auto
qed

text \<open>
  What the reload can mix: it has read the chains of an empty database when a chain, a channel and a subscription are
  added; the snapshot has the subscription without its chain, a configuration that never was in the database, under the old version.
\<close>

lemma torn_snapshot:
  "case read_result ((read_next (wb_db (run_requests ex_requests ex_web)) ^^ 4) ((read_next (wb_db ex_web) ^^ 2) Idle)) of
     None \<Rightarrow> False
   | Some snap \<Rightarrow> map ss_chain_id (snap_subscriptions snap) = [''sol''] \<and> snap_chains snap = [] \<and> snap_version snap = 0"
  by code_simp

text \<open>
  Two requests that overlap: one creates a channel, the other binds a subscription to one, and both have read the same version. The
  watcher loads what the first has committed; when the second commits, under the same version, the version it remembers is that of the
  database, its last emission lacks the subscription, and no later reload emits anything.
\<close>

definition ex_overlap_begun :: Sys where
  "ex_overlap_begun =
     (let s = sys_start (run_requests (take 3 ex_requests) ex_web); v = db_version (wb_db (sy_web s))
      in s\<lparr>sy_open := [\<lparr>or_env = ex_web_env ''c2'', or_request = CreateChannel ex_hook, or_seen = v\<rparr>,
                       \<lparr>or_env = ex_web_env ''u2'', or_request = BindChannel ''s1'' ''c1'', or_seen = v\<rparr>]\<rparr>)"

definition commit_first :: "Sys \<Rightarrow> Sys" where
  "commit_first s = s\<lparr>sy_open := tl (sy_open s), sy_web := commit_request (hd (sy_open s)) (sy_web s)\<rparr>"

definition ex_overlapped :: Sys where
  "ex_overlapped = commit_first (reload_now Poller (commit_first ex_overlap_begun))"

lemma commit_first_step: "sy_open s \<noteq> [] \<Longrightarrow> sys_step E L s (commit_first s)"
  using sys_step.request_commit [of "hd (sy_open s)" s E L] by (cases "sy_open s") (simp_all add: commit_first_def)

lemma ex_overlapped_run: "sys_run E L ex_overlapped"
proof -
  let ?s = "sys_start (run_requests (take 3 ex_requests) ex_web)"
  have steps: "sys_run E L s \<Longrightarrow> (sys_step E L)\<^sup>*\<^sup>* s s' \<Longrightarrow> sys_run E L s'" for s s'
    by (rotate_tac, induction rule: rtranclp_induct) (auto intro: sys_run.step)
  have "sys_run E L ?s" by (rule sys_run.start)
  from sys_run.step [OF sys_run.step [OF this sys_step.request_begin [of E L _ "ex_web_env ''c2''" "CreateChannel ex_hook"]]
      sys_step.request_begin [of E L _ "ex_web_env ''u2''" "BindChannel ''s1'' ''c1''"]]
  have begun: "sys_run E L ex_overlap_begun" by (simp add: ex_overlap_begun_def Let_def sys_start_def)
  have op: "sy_open ex_overlap_begun \<noteq> []" "tl (sy_open ex_overlap_begun) \<noteq> []" by (simp_all add: ex_overlap_begun_def Let_def)
  have "sys_step E L ex_overlap_begun (commit_first ex_overlap_begun)"
    by (rule commit_first_step) (rule op(1))
  from sys_run.step [OF begun this] have first: "sys_run E L (commit_first ex_overlap_begun)" .
  have "sy_reading (commit_first ex_overlap_begun) Poller = Idle"
    by (simp add: commit_first_def ex_overlap_begun_def Let_def sys_start_def)
  from steps [OF first quiet_steps [OF reload_now_steps [OF this]]]
  have loaded: "sys_run E L (reload_now Poller (commit_first ex_overlap_begun))" .
  have "sys_step E L (reload_now Poller (commit_first ex_overlap_begun)) ex_overlapped"
    unfolding ex_overlapped_def by (rule commit_first_step) (use op(2) in \<open>simp add: reload_now_def commit_first_def\<close>)
  from sys_run.step [OF loaded this] show ?thesis .
qed

lemma lost_bump_hides_change:
  "sys_run E L ex_overlapped \<and>
   cw_last_version (sy_watcher ex_overlapped) = Some (version_get (wb_db (sy_web ex_overlapped))) \<and>
   snap_subscriptions (last (cw_out (sy_watcher ex_overlapped))) = [] \<and>
   length (snap_subscriptions (load_snapshot (wb_db (sy_web ex_overlapped)))) = 1 \<and>
   sy_watcher (reload_now t ex_overlapped) = sy_watcher ex_overlapped"
proof -
  have v: "cw_last_version (sy_watcher ex_overlapped) = Some (version_get (wb_db (sy_web ex_overlapped)))" by code_simp
  then have "sy_watcher (reload_now t ex_overlapped) = sy_watcher ex_overlapped"
    by (simp add: reload_now_def reload_and_maybe_emit_def)
  moreover have "snap_subscriptions (last (cw_out (sy_watcher ex_overlapped))) = []" by code_simp
  moreover have "length (snap_subscriptions (load_snapshot (wb_db (sy_web ex_overlapped)))) = 1" by code_simp
  ultimately show ?thesis using v ex_overlapped_run by blast
qed

end
