(* ===== verification/Dispatch_Loop.thy ===== *)
theory Dispatch_Loop
  imports Notifier
begin

text \<open>
  The concurrency of \<^verbatim>\<open>core/notifier/notifier.py\<close>. The runner starts a dispatch for every event and
  does not wait for it, so the sends of several dispatches are in flight together. Each send asks
  \<open>_get_sem\<close> for the semaphore of the notifier, which the first one makes, and sends while it holds
  a permit.

  The state is that of the event loop: the attribute \<open>_sem\<close>, the semaphore objects that were made,
  and the tasks with what each is waiting for. A notifier that \<open>apply_snapshot\<close> has replaced keeps a
  semaphore of its own, so that the limit is one per notifier. The semaphore is \<open>asyncio.Semaphore\<close> of the supported
  Python version: a counter and a queue, where \<open>release\<close> hands the permit to the first waiter, who
  holds it from then on although his task runs later. No task is cancelled here. The lemmas show
  that one semaphore is made, that its counter and the permits held add up to the limit, and that
  no schedule gets stuck before every send has ended.
\<close>

section \<open>asyncio.Semaphore\<close>

text \<open>The waiters in order, each with whether \<open>set_result\<close> was called on its future.\<close>

record Semaphore =
  sm_value :: int
  sm_waiters :: "(nat \<times> bool) list"

definition semaphore_init :: "int \<Rightarrow> Semaphore res" where
  "semaphore_init v = (if v < 0 then Inl ValueError else Inr \<lparr>sm_value = v, sm_waiters = []\<rparr>)"

fun wake_first :: "(nat \<times> bool) list \<Rightarrow> (nat \<times> bool) list option" where
  "wake_first [] = None"
| "wake_first ((t, woken) # ws) =
     (if \<not> woken then Some ((t, True) # ws) else map_option (Cons (t, woken)) (wake_first ws))"

definition wake_up_next :: "Semaphore \<Rightarrow> Semaphore" where
  "wake_up_next s =
     (case wake_first (sm_waiters s) of
        None \<Rightarrow> s
      | Some ws \<Rightarrow> s\<lparr>sm_value := sm_value s - 1, sm_waiters := ws\<rparr>)"

text \<open>\<open>acquire\<close> up to the point where it has the permit or waits, and what it does when it goes on.\<close>

definition sem_acquire :: "nat \<Rightarrow> Semaphore \<Rightarrow> bool \<times> Semaphore" where
  "sem_acquire t s =
     (if sm_value s = 0 \<or> sm_waiters s \<noteq> [] then (False, s\<lparr>sm_waiters := sm_waiters s @ [(t, False)]\<rparr>)
      else (True, s\<lparr>sm_value := sm_value s - 1\<rparr>))"

definition sem_resume :: "nat \<Rightarrow> Semaphore \<Rightarrow> Semaphore" where
  "sem_resume t s =
     (let s' = s\<lparr>sm_waiters := remove1 (t, True) (sm_waiters s)\<rparr>
      in if sm_value s' > 0 then wake_up_next s' else s')"

definition sem_release :: "Semaphore \<Rightarrow> Semaphore" where
  "sem_release s = wake_up_next (s\<lparr>sm_value := sm_value s + 1\<rparr>)"

section \<open>The tasks of all dispatches\<close>

text \<open>A task waits for, or holds, the semaphore object it got from \<open>_get_sem\<close>.\<close>

datatype SendPhase = Created | Waiting nat | InFlight nat | Ended "SendOutcome res"

text \<open>A call of \<open>dispatch\<close>, with the notifier as it was then, and the network and clock it meets.\<close>

record DispatchCall =
  dc_notifier :: Notifier
  dc_net :: "nat \<Rightarrow> net"
  dc_clk :: "nat \<Rightarrow> int \<times> string"
  dc_event :: Event
  dc_hits :: "(SnapshotSubscription \<times> SnapshotChannel list) list"
  dc_replay :: bool

record SendLoop =
  sl_notifier :: Notifier
  sl_sem :: "nat option"
  sl_sems :: "Semaphore list"
  sl_calls :: "DispatchCall list"
  sl_work :: "(SendTask \<times> net) list"
  sl_phase :: "SendPhase list"

definition loop_init :: "Notifier \<Rightarrow> SendLoop" where
  "loop_init n = \<lparr>sl_notifier = n, sl_sem = None, sl_sems = [], sl_calls = [], sl_work = [], sl_phase = []\<rparr>"

text \<open>\<open>_get_sem\<close>: the semaphore is made when it is first asked for.\<close>

definition get_sem :: "SendLoop \<Rightarrow> (nat \<times> SendLoop) res" where
  "get_sem s =
     (case sl_sem s of
        Some r \<Rightarrow> Inr (r, s)
      | None \<Rightarrow>
          rbind (semaphore_init (nt_max_concurrency (sl_notifier s))) (\<lambda>sem.
            Inr (length (sl_sems s), s\<lparr>sl_sem := Some (length (sl_sems s)), sl_sems := sl_sems s @ [sem]\<rparr>)))"

text \<open>\<open>dispatch\<close> creates its tasks and waits for them; none has run yet.\<close>

definition call_work :: "DispatchCall \<Rightarrow> (SendTask \<times> net) list" where
  "call_work c = map (\<lambda>(i, t). (t, dc_net c i))
     (enumerate 0 (dispatch_tasks (dc_notifier c) (dc_clk c) (dc_event c) (dc_replay c) (dc_hits c)))"

definition dispatch_call :: "DispatchCall \<Rightarrow> SendLoop \<Rightarrow> SendLoop" where
  "dispatch_call c s =
     s\<lparr>sl_calls := sl_calls s @ [c], sl_work := sl_work s @ call_work c,
       sl_phase := sl_phase s @ replicate (length (call_work c)) Created\<rparr>"

text \<open>
  The steps of one task of \<open>_send_one\<close>: up to the entry of \<open>async with self._get_sem()\<close>; from the
  wake-up into its body; and the send with its callback, up to the exit. An exception of \<open>_get_sem\<close>
  leaves \<open>_send_one\<close> and is kept by \<open>gather\<close>.
\<close>

definition send_enter :: "nat \<Rightarrow> SendLoop \<Rightarrow> SendLoop" where
  "send_enter i s =
     (case get_sem s of
        Inl e \<Rightarrow> s\<lparr>sl_phase := (sl_phase s)[i := Ended (Inl e)]\<rparr>
      | Inr (r, s1) \<Rightarrow>
          (case sem_acquire i (sl_sems s1 ! r) of (got, sem) \<Rightarrow>
             s1\<lparr>sl_sems := (sl_sems s1)[r := sem],
                sl_phase := (sl_phase s1)[i := if got then InFlight r else Waiting r]\<rparr>))"

definition send_resume :: "nat \<Rightarrow> nat \<Rightarrow> SendLoop \<Rightarrow> SendLoop" where
  "send_resume i r s =
     s\<lparr>sl_sems := (sl_sems s)[r := sem_resume i (sl_sems s ! r)], sl_phase := (sl_phase s)[i := InFlight r]\<rparr>"

definition send_end :: "ChannelEnv \<Rightarrow> nat \<Rightarrow> nat \<Rightarrow> SendLoop \<Rightarrow> SendLoop" where
  "send_end E i r s =
     s\<lparr>sl_sems := (sl_sems s)[r := sem_release (sl_sems s ! r)],
       sl_phase := (sl_phase s)[i := Ended (Inr
         (send_one E (snd (sl_work s ! i)) (sl_notifier s) (fst (sl_work s ! i))))]\<rparr>"

inductive task_step :: "ChannelEnv \<Rightarrow> SendLoop \<Rightarrow> SendLoop \<Rightarrow> bool" for E where
  enter: "i < length (sl_phase s) \<Longrightarrow> sl_phase s ! i = Created \<Longrightarrow> task_step E s (send_enter i s)"
| resume: "i < length (sl_phase s) \<Longrightarrow> sl_phase s ! i = Waiting r \<Longrightarrow>
    (i, True) \<in> set (sm_waiters (sl_sems s ! r)) \<Longrightarrow> task_step E s (send_resume i r s)"
| ended: "i < length (sl_phase s) \<Longrightarrow> sl_phase s ! i = InFlight r \<Longrightarrow> task_step E s (send_end E i r s)"

text \<open>Further dispatches may start, and \<open>start\<close> and \<open>stop\<close> may change the channels, at any time.\<close>

inductive loop_step :: "ChannelEnv \<Rightarrow> SendLoop \<Rightarrow> SendLoop \<Rightarrow> bool" for E where
  task: "task_step E s s' \<Longrightarrow> loop_step E s s'"
| dispatched: "dc_notifier c = sl_notifier s \<Longrightarrow> loop_step E s (dispatch_call c s)"
| channels_changed: "loop_step E s (s\<lparr>sl_notifier := (sl_notifier s)\<lparr>nt_channels := chs\<rparr>\<rparr>)"

inductive_cases task_stepE: "task_step E s s'"
inductive_cases loop_stepE: "loop_step E s s'"

definition in_flight :: "SendLoop \<Rightarrow> nat" where
  "in_flight s = length (filter (\<lambda>p. case p of InFlight r \<Rightarrow> True | _ \<Rightarrow> False) (sl_phase s))"

definition call_outcomes :: "ChannelEnv \<Rightarrow> DispatchCall \<Rightarrow> SendOutcome list" where
  "call_outcomes E c =
     dispatch E (dc_net c) (dc_clk c) (dc_notifier c) (dc_event c) (dc_hits c) (dc_replay c)"

section \<open>The semaphore keeps count\<close>

definition woken :: "Semaphore \<Rightarrow> nat" where
  "woken s = length (filter snd (sm_waiters s))"

definition queue_served :: "Semaphore \<Rightarrow> bool" where
  "queue_served s \<longleftrightarrow> ((\<exists>i. (i, False) \<in> set (sm_waiters s)) \<longrightarrow>
     sm_value s = 0 \<or> (\<exists>i. (i, True) \<in> set (sm_waiters s)))"

lemma wake_first_None: "wake_first ws = None \<longleftrightarrow> list_all snd ws"
  by (induction ws rule: wake_first.induct) auto

lemma wake_first_Some:
  "wake_first ws = Some ws' \<Longrightarrow>
   map fst ws' = map fst ws \<and> length (filter snd ws') = Suc (length (filter snd ws)) \<and>
   (\<exists>i. (i, True) \<in> set ws')"
  by (induction ws arbitrary: ws' rule: wake_first.induct) (fastforce split: if_splits)+

lemma wake_up_next_count:
  assumes "1 \<le> sm_value s"
  shows "0 \<le> sm_value (wake_up_next s) \<and>
    sm_value (wake_up_next s) + int (woken (wake_up_next s)) = sm_value s + int (woken s) \<and>
    map fst (sm_waiters (wake_up_next s)) = map fst (sm_waiters s) \<and> queue_served (wake_up_next s)"
proof (cases "wake_first (sm_waiters s)")
  case None
  then have "list_all snd (sm_waiters s)"
    by (simp add: wake_first_None)
  with None assms show ?thesis
    by (auto simp: wake_up_next_def woken_def queue_served_def list_all_iff)
next
  case (Some ws)
  then show ?thesis
    using wake_first_Some [OF Some] assms by (auto simp: wake_up_next_def woken_def queue_served_def)
qed

lemma sem_release_count:
  "0 \<le> sm_value s \<Longrightarrow>
   0 \<le> sm_value (sem_release s) \<and> queue_served (sem_release s) \<and>
   sm_value (sem_release s) + int (woken (sem_release s)) = sm_value s + int (woken s) + 1 \<and>
   map fst (sm_waiters (sem_release s)) = map fst (sm_waiters s)"
  using wake_up_next_count [of "s\<lparr>sm_value := sm_value s + 1\<rparr>"]
  by (simp add: sem_release_def woken_def)

lemma filter_remove1_length:
  "x \<in> set xs \<Longrightarrow> P x \<Longrightarrow> Suc (length (filter P (remove1 x xs))) = length (filter P xs)"
  by (induction xs) auto

lemma map_fst_remove1:
  "distinct (map fst xs) \<Longrightarrow> (i, b) \<in> set xs \<Longrightarrow> map fst (remove1 (i, b) xs) = remove1 i (map fst xs)"
  by (induction xs) (auto simp: image_iff)

lemma sem_resume_count:
  assumes "0 \<le> sm_value s" and "(i, True) \<in> set (sm_waiters s)" and "distinct (map fst (sm_waiters s))"
  shows "0 \<le> sm_value (sem_resume i s) \<and> queue_served (sem_resume i s) \<and>
    sm_value (sem_resume i s) + int (woken (sem_resume i s)) + 1 = sm_value s + int (woken s) \<and>
    map fst (sm_waiters (sem_resume i s)) = remove1 i (map fst (sm_waiters s))"
proof -
  let ?s = "s\<lparr>sm_waiters := remove1 (i, True) (sm_waiters s)\<rparr>"
  have w: "int (woken ?s) + 1 = int (woken s)"
    using filter_remove1_length [OF assms(2), of snd] by (simp add: woken_def)
  have m: "map fst (sm_waiters ?s) = remove1 i (map fst (sm_waiters s))"
    using map_fst_remove1 [OF assms(3,2)] by simp
  show ?thesis
  proof (cases "sm_value s > 0")
    case True
    then show ?thesis
      using wake_up_next_count [of ?s] w m by (simp add: sem_resume_def Let_def)
  next
    case False
    then show ?thesis
      using assms(1) w m by (simp add: sem_resume_def Let_def queue_served_def)
  qed
qed

lemma sem_acquire_count:
  assumes "0 \<le> sm_value s" and "queue_served s" and "sem_acquire i s = (got, s')"
  shows "0 \<le> sm_value s' \<and> queue_served s' \<and>
    sm_value s' + int (woken s') + of_bool got = sm_value s + int (woken s) \<and>
    map fst (sm_waiters s') = map fst (sm_waiters s) @ (if got then [] else [i])"
proof (cases "sm_value s = 0 \<or> sm_waiters s \<noteq> []")
  case True
  then have s': "got = False" "s' = s\<lparr>sm_waiters := sm_waiters s @ [(i, False)]\<rparr>"
    using assms(3) by (simp_all add: sem_acquire_def)
  have "sm_value s = 0 \<or> (\<exists>j. (j, True) \<in> set (sm_waiters s))"
  proof (cases "sm_value s = 0")
    case False
    then obtain j b where "(j, b) \<in> set (sm_waiters s)"
      using True by (cases "sm_waiters s") auto
    then show ?thesis
      using assms(2) False by (cases b) (auto simp: queue_served_def)
  qed simp
  then show ?thesis
    using assms(1) by (auto simp: s' woken_def queue_served_def)
next
  case False
  then show ?thesis
    using assms by (auto simp: sem_acquire_def woken_def queue_served_def)
qed

section \<open>The invariant of the event loop\<close>

lemma count_list_update:
  "i < length xs \<Longrightarrow> count_list (xs[i := y]) x + of_bool (xs ! i = x) = count_list xs x + of_bool (y = x)"
proof (induction xs arbitrary: i)
  case (Cons a xs)
  show ?case
  proof (cases i)
    case (Suc j)
    then show ?thesis
      using Cons.IH [of j] Cons.prems by (cases "a = x") simp_all
  qed auto
qed simp

definition permits_kept :: "int \<Rightarrow> SendPhase list \<Rightarrow> Semaphore \<Rightarrow> bool" where
  "permits_kept permits ph sem \<longleftrightarrow>
     0 \<le> sm_value sem \<and> queue_served sem \<and>
     sm_value sem + int (woken sem) + int (count_list ph (InFlight 0)) = permits \<and>
     distinct (map fst (sm_waiters sem)) \<and>
     fst ` set (sm_waiters sem) = {i. i < length ph \<and> ph ! i = Waiting 0}"

fun phase_ok :: "ChannelEnv \<Rightarrow> Notifier \<Rightarrow> SendTask \<times> net \<Rightarrow> SendPhase \<Rightarrow> bool" where
  "phase_ok E n w Created = True"
| "phase_ok E n w (Waiting r) = (r = 0)"
| "phase_ok E n w (InFlight r) = (r = 0)"
| "phase_ok E n w (Ended out) = (out = Inr (send_one E (snd w) n (fst w)))"

definition same_notifier :: "Notifier \<Rightarrow> Notifier \<Rightarrow> bool" where
  "same_notifier n n' \<longleftrightarrow> nt_max_concurrency n' = nt_max_concurrency n \<and>
     nt_on_failure n' = nt_on_failure n \<and> nt_on_success n' = nt_on_success n"

definition loop_inv :: "ChannelEnv \<Rightarrow> Notifier \<Rightarrow> SendLoop \<Rightarrow> bool" where
  "loop_inv E n s \<longleftrightarrow>
     same_notifier n (sl_notifier s) \<and> list_all (\<lambda>c. same_notifier n (dc_notifier c)) (sl_calls s) \<and>
     sl_work s = concat (map call_work (sl_calls s)) \<and>
     list_all2 (phase_ok E n) (sl_work s) (sl_phase s) \<and>
     (case sl_sem s of
        None \<Rightarrow> sl_sems s = [] \<and> list_all (\<lambda>p. p = Created) (sl_phase s)
      | Some r \<Rightarrow> r = 0 \<and> (\<exists>sem. sl_sems s = [sem] \<and> permits_kept (nt_max_concurrency n) (sl_phase s) sem))"

lemma send_one_same: "same_notifier n n' \<Longrightarrow> send_one E net n' t = send_one E net n t"
  by (auto simp: send_one_def same_notifier_def Let_def split: prod.splits sum.splits)

lemma loop_init_inv: "loop_inv E n (loop_init n)"
  by (simp add: loop_inv_def loop_init_def same_notifier_def)

lemma dispatch_call_inv:
  assumes "loop_inv E n s" and "dc_notifier c = sl_notifier s"
  shows "loop_inv E n (dispatch_call c s)"
proof -
  have new: "list_all2 (phase_ok E n) ws (replicate (length ws) Created)" for ws
    by (simp add: list_all2_conv_all_nth)
  have kept: "permits_kept k (ph @ replicate m Created) sem" if "permits_kept k ph sem" for k ph m sem
  proof -
    have "count_list (replicate m Created) (InFlight 0) = 0"
      by (simp add: count_list_0_iff)
    moreover have "{i. i < length (ph @ replicate m Created) \<and> (ph @ replicate m Created) ! i = Waiting 0}
        = {i. i < length ph \<and> ph ! i = Waiting 0}"
      by (fastforce simp: nth_append split: if_splits)
    ultimately show ?thesis
      using that by (simp add: permits_kept_def)
  qed
  have "list_all (\<lambda>p. p = Created) (replicate m Created)" for m
    by (simp add: list_all_iff)
  then show ?thesis
    using assms new kept
    by (auto simp: loop_inv_def dispatch_call_def list_all2_appendI split: option.splits)
qed

text \<open>A step of one task keeps the permits in balance.\<close>

lemma permits_kept_acquire:
  assumes "permits_kept k ph sem" and "i < length ph" and "ph ! i = Created"
    and "sem_acquire i sem = (got, sem')"
  shows "permits_kept k (ph[i := if got then InFlight 0 else Waiting 0]) sem'"
proof -
  note kept = assms(1) [unfolded permits_kept_def]
  have c: "0 \<le> sm_value sem'" "queue_served sem'"
      "sm_value sem' + int (woken sem') + of_bool got = sm_value sem + int (woken sem)"
      "map fst (sm_waiters sem') = map fst (sm_waiters sem) @ (if got then [] else [i])"
    using sem_acquire_count [OF _ _ assms(4)] kept by simp_all
  have "i \<notin> fst ` set (sm_waiters sem)"
    using kept assms(3) by simp
  moreover have "fst ` set (sm_waiters sem') = fst ` set (sm_waiters sem) \<union> (if got then {} else {i})"
    using arg_cong [OF c(4), of set] by simp
  ultimately show ?thesis
    using kept c count_list_update [OF assms(2), of "if got then InFlight 0 else Waiting 0" "InFlight 0"] assms(2,3)
    by (auto simp: permits_kept_def nth_list_update split: if_splits)
qed

lemma permits_kept_resume:
  assumes "permits_kept k ph sem" and "i < length ph" and "ph ! i = Waiting 0"
    and "(i, True) \<in> set (sm_waiters sem)"
  shows "permits_kept k (ph[i := InFlight 0]) (sem_resume i sem)"
proof -
  note kept = assms(1) [unfolded permits_kept_def]
  have c: "0 \<le> sm_value (sem_resume i sem)" "queue_served (sem_resume i sem)"
      "sm_value (sem_resume i sem) + int (woken (sem_resume i sem)) + 1 = sm_value sem + int (woken sem)"
      "map fst (sm_waiters (sem_resume i sem)) = remove1 i (map fst (sm_waiters sem))"
    using sem_resume_count [OF _ assms(4)] kept by simp_all
  have "fst ` set (sm_waiters (sem_resume i sem)) = fst ` set (sm_waiters sem) - {i}"
    using arg_cong [OF c(4), of set] kept by simp
  then show ?thesis
    using kept c count_list_update [OF assms(2), of "InFlight 0" "InFlight 0"] assms(2,3)
    by (auto simp: permits_kept_def nth_list_update split: if_splits)
qed

lemma permits_kept_release:
  assumes "permits_kept k ph sem" and "i < length ph" and "ph ! i = InFlight 0"
  shows "permits_kept k (ph[i := Ended out]) (sem_release sem)"
proof -
  note kept = assms(1) [unfolded permits_kept_def]
  have c: "0 \<le> sm_value (sem_release sem)" "queue_served (sem_release sem)"
      "sm_value (sem_release sem) + int (woken (sem_release sem)) = sm_value sem + int (woken sem) + 1"
      "map fst (sm_waiters (sem_release sem)) = map fst (sm_waiters sem)"
    using sem_release_count kept by simp_all
  have "fst ` set (sm_waiters (sem_release sem)) = fst ` set (sm_waiters sem)"
    using arg_cong [OF c(4), of set] by simp
  then show ?thesis
    using kept c count_list_update [OF assms(2), of "Ended out" "InFlight 0"] assms(2,3)
    by (auto simp: permits_kept_def nth_list_update split: if_splits)
qed

lemma phase_update:
  "loop_inv E n s \<Longrightarrow> i < length (sl_phase s) \<Longrightarrow> phase_ok E n (sl_work s ! i) p \<Longrightarrow>
   list_all2 (phase_ok E n) (concat (map call_work (sl_calls s))) ((sl_phase s)[i := p])"
  by (auto simp: loop_inv_def list_all2_conv_all_nth nth_list_update)

lemma phase_at:
  "loop_inv E n s \<Longrightarrow> i < length (sl_phase s) \<Longrightarrow> phase_ok E n (sl_work s ! i) (sl_phase s ! i)"
  by (auto simp: loop_inv_def list_all2_conv_all_nth)

text \<open>A task that has begun shares the one semaphore.\<close>

lemma begun_sem:
  assumes "loop_inv E n s" and "i < length (sl_phase s)" and "sl_phase s ! i \<noteq> Created"
  obtains sem where "sl_sem s = Some 0" "sl_sems s = [sem]"
    "permits_kept (nt_max_concurrency n) (sl_phase s) sem"
  using assms by (auto simp: loop_inv_def list_all_length split: option.splits)

lemma get_sem_one:
  assumes "loop_inv E n s" and "1 \<le> nt_max_concurrency n"
  obtains sem where "get_sem s = Inr (0, s\<lparr>sl_sem := Some 0, sl_sems := [sem]\<rparr>)"
    "permits_kept (nt_max_concurrency n) (sl_phase s) sem"
proof (cases "sl_sem s")
  case None
  let ?sem = "\<lparr>sm_value = nt_max_concurrency n, sm_waiters = []\<rparr>"
  have all: "list_all (\<lambda>p. p = Created) (sl_phase s)" "sl_sems s = []"
    using assms(1) None by (simp_all add: loop_inv_def)
  then have "InFlight 0 \<notin> set (sl_phase s)" "\<not> (\<exists>i < length (sl_phase s). sl_phase s ! i = Waiting 0)"
    by (fastforce simp: list_all_iff in_set_conv_nth)+
  then have "permits_kept (nt_max_concurrency n) (sl_phase s) ?sem"
    using assms(2) by (simp add: permits_kept_def queue_served_def woken_def)
  moreover have "get_sem s = Inr (0, s\<lparr>sl_sem := Some 0, sl_sems := [?sem]\<rparr>)"
    using None all assms by (simp add: get_sem_def semaphore_init_def loop_inv_def same_notifier_def)
  ultimately show thesis by (rule that [rotated])
next
  case (Some r)
  then obtain sem where "r = 0" "sl_sems s = [sem]" "permits_kept (nt_max_concurrency n) (sl_phase s) sem"
    using assms(1) by (auto simp: loop_inv_def)
  then show thesis
    using Some by (intro that [of sem]) (simp_all add: get_sem_def)
qed

lemma send_enter_inv:
  assumes "loop_inv E n s" and "1 \<le> nt_max_concurrency n"
    and "i < length (sl_phase s)" and "sl_phase s ! i = Created"
  shows "loop_inv E n (send_enter i s) \<and>
    (\<exists>r. sl_phase (send_enter i s) = (sl_phase s)[i := InFlight r] \<or>
         sl_phase (send_enter i s) = (sl_phase s)[i := Waiting r])"
proof -
  obtain sem where g: "get_sem s = Inr (0, s\<lparr>sl_sem := Some 0, sl_sems := [sem]\<rparr>)"
      and kept: "permits_kept (nt_max_concurrency n) (sl_phase s) sem"
    using get_sem_one [OF assms(1,2)] .
  obtain got sem' where a: "sem_acquire i sem = (got, sem')"
    by (metis prod.exhaust)
  have e: "send_enter i s = s\<lparr>sl_sem := Some 0, sl_sems := [sem'],
      sl_phase := (sl_phase s)[i := if got then InFlight 0 else Waiting 0]\<rparr>"
    using g a by (simp add: send_enter_def)
  have "list_all2 (phase_ok E n) (concat (map call_work (sl_calls s)))
      ((sl_phase s)[i := if got then InFlight 0 else Waiting 0])"
    by (rule phase_update [OF assms(1,3)]) simp
  then show ?thesis
    using assms(1) permits_kept_acquire [OF kept assms(3,4) a] unfolding e
    by (auto simp: loop_inv_def)
qed

lemma send_resume_inv:
  assumes "loop_inv E n s" and "i < length (sl_phase s)" and "sl_phase s ! i = Waiting r"
    and "(i, True) \<in> set (sm_waiters (sl_sems s ! r))"
  shows "loop_inv E n (send_resume i r s)"
proof -
  have r: "r = 0"
    using phase_at [OF assms(1,2)] assms(3) by simp
  obtain sem where s: "sl_sem s = Some 0" "sl_sems s = [sem]"
      "permits_kept (nt_max_concurrency n) (sl_phase s) sem"
    by (rule begun_sem [OF assms(1,2)]) (simp_all add: assms(3))
  then show ?thesis
    using assms r permits_kept_resume [OF s(3) assms(2)] phase_update [OF assms(1,2), of "InFlight 0"]
    by (simp add: loop_inv_def send_resume_def)
qed

lemma send_end_inv:
  assumes "loop_inv E n s" and "i < length (sl_phase s)" and "sl_phase s ! i = InFlight r"
  shows "loop_inv E n (send_end E i r s)"
proof -
  have r: "r = 0"
    using phase_at [OF assms(1,2)] assms(3) by simp
  obtain sem where s: "sl_sem s = Some 0" "sl_sems s = [sem]"
      "permits_kept (nt_max_concurrency n) (sl_phase s) sem"
    by (rule begun_sem [OF assms(1,2)]) (simp_all add: assms(3))
  have "phase_ok E n (sl_work s ! i)
      (Ended (Inr (send_one E (snd (sl_work s ! i)) (sl_notifier s) (fst (sl_work s ! i)))))"
    using assms(1) send_one_same by (auto simp: loop_inv_def)
  from phase_update [OF assms(1,2) this] show ?thesis
    using assms r s permits_kept_release [OF s(3) assms(2)]
    by (simp add: loop_inv_def send_end_def)
qed

lemma task_step_inv:
  "task_step E s s' \<Longrightarrow> loop_inv E n s \<Longrightarrow> 1 \<le> nt_max_concurrency n \<Longrightarrow> loop_inv E n s'"
  by (erule task_stepE) (simp_all add: send_enter_inv send_resume_inv send_end_inv)

lemma channels_inv: "loop_inv E n s \<Longrightarrow> loop_inv E n (s\<lparr>sl_notifier := (sl_notifier s)\<lparr>nt_channels := chs\<rparr>\<rparr>)"
  by (cases "sl_sem s") (auto simp: loop_inv_def same_notifier_def)

lemma loop_step_inv:
  assumes "loop_step E s s'" and "loop_inv E n s" and "1 \<le> nt_max_concurrency n"
  shows "loop_inv E n s'"
  using assms(1)
proof cases
  case task
  then show ?thesis by (rule task_step_inv [OF _ assms(2,3)])
next
  case (dispatched c)
  then show ?thesis using dispatch_call_inv [OF assms(2)] by simp
next
  case (channels_changed chs)
  then show ?thesis using channels_inv [OF assms(2)] by simp
qed

lemma loop_run_inv:
  "(loop_step E)\<^sup>*\<^sup>* (loop_init n) s \<Longrightarrow> 1 \<le> nt_max_concurrency n \<Longrightarrow> loop_inv E n s"
  by (induction rule: rtranclp_induct) (auto simp: loop_init_inv intro: loop_step_inv)

section \<open>Every schedule ends\<close>

fun phase_work :: "SendPhase \<Rightarrow> nat" where
  "phase_work Created = 3"
| "phase_work (Waiting r) = 2"
| "phase_work (InFlight r) = 1"
| "phase_work (Ended out) = 0"

definition loop_work :: "SendLoop \<Rightarrow> nat" where
  "loop_work s = sum_list (map phase_work (sl_phase s))"

lemma phase_work_update:
  "i < length ph \<Longrightarrow> phase_work p < phase_work (ph ! i) \<Longrightarrow>
   sum_list (map phase_work (ph[i := p])) < sum_list (map phase_work ph)"
proof (induction ph arbitrary: i)
  case (Cons a ph)
  then show ?case by (cases i) auto
qed simp

lemma task_step_work:
  assumes "task_step E s s'" and "loop_inv E n s" and "1 \<le> nt_max_concurrency n"
  shows "loop_work s' < loop_work s"
  using assms(1)
proof cases
  case (enter i)
  then show ?thesis
    using send_enter_inv [OF assms(2,3) enter(2,3)] phase_work_update [OF enter(2)] by (auto simp: loop_work_def)
qed (auto simp: loop_work_def send_resume_def send_end_def phase_work_update)

lemma loop_work_bound: "loop_inv E n s \<Longrightarrow> loop_work s \<le> 3 * length (sl_work s)"
proof -
  have "phase_work p \<le> 3" for p
    by (cases p) simp_all
  then have "sum_list (map phase_work ph) \<le> 3 * length ph" for ph
    by (induction ph) (auto intro: add_mono)
  then show "loop_inv E n s \<Longrightarrow> loop_work s \<le> 3 * length (sl_work s)"
    by (auto simp: loop_work_def loop_inv_def dest: list_all2_lengthD)
qed

lemma task_run_inv:
  "(task_step E ^^ k) s s' \<Longrightarrow> loop_inv E n s \<Longrightarrow> 1 \<le> nt_max_concurrency n \<Longrightarrow>
   loop_inv E n s' \<and> loop_work s' + k \<le> loop_work s \<and> sl_calls s' = sl_calls s"
proof (induction k arbitrary: s')
  case (Suc k)
  then obtain t where t: "(task_step E ^^ k) s t" "task_step E t s'" by auto
  have "sl_calls s' = sl_calls t"
    using t(2)
    by cases (auto simp: send_enter_def send_resume_def send_end_def get_sem_def semaphore_init_def res_simps
        split: sum.splits prod.splits option.splits if_splits)
  with Suc t task_step_inv [OF t(2)] task_step_work [OF t(2)] show ?case by fastforce
qed simp

text \<open>As long as a send has not ended, some task can go on: a waiter is served or somebody holds a permit.\<close>

lemma task_progress:
  assumes "loop_inv E n s" and "1 \<le> nt_max_concurrency n"
    and "i < length (sl_phase s)" and "\<not> (\<exists>out. sl_phase s ! i = Ended out)"
  shows "\<exists>s'. task_step E s s'"
proof (cases "sl_phase s ! i")
  case Created
  then show ?thesis using assms(3) task_step.enter by blast
next
  case (Waiting r)
  then have r: "r = 0"
    using phase_at [OF assms(1,3)] by simp
  obtain sem where s: "sl_sems s = [sem]" "permits_kept (nt_max_concurrency n) (sl_phase s) sem"
    by (rule begun_sem [OF assms(1,3)]) (simp_all add: Waiting)
  have waits: "fst ` set (sm_waiters sem) = {i. i < length (sl_phase s) \<and> sl_phase s ! i = Waiting 0}"
    using s(2) by (simp add: permits_kept_def)
  show ?thesis
  proof (cases "\<exists>j. (j, True) \<in> set (sm_waiters sem)")
    case True
    then obtain j where "(j, True) \<in> set (sm_waiters sem)" by blast
    moreover from this have "j < length (sl_phase s)" "sl_phase s ! j = Waiting 0"
      using waits by force+
    ultimately show ?thesis
      using s(1) task_step.resume [of j s 0 E] by auto
  next
    case False
    then have "woken sem = 0"
      by (auto simp: woken_def filter_empty_conv)
    moreover have "i \<in> fst ` set (sm_waiters sem)"
      using waits Waiting assms(3) r by simp
    then have "\<exists>b. (i, b) \<in> set (sm_waiters sem)" by auto
    then have "sm_value sem = 0"
      using s(2) False by (auto simp: permits_kept_def queue_served_def) (metis (full_types))
    ultimately have "count_list (sl_phase s) (InFlight 0) \<noteq> 0"
      using s(2) assms(2) by (auto simp: permits_kept_def)
    then obtain j where "j < length (sl_phase s)" "sl_phase s ! j = InFlight 0"
      by (auto simp: count_list_0_iff in_set_conv_nth)
    then show ?thesis using task_step.ended by blast
  qed
next
  case (InFlight r)
  then show ?thesis using assms(3) task_step.ended by blast
next
  case (Ended out)
  then show ?thesis using assms(4) by blast
qed

lemma call_outcomes_work:
  assumes "same_notifier n (dc_notifier c)"
  shows "call_outcomes E c = map (\<lambda>w. send_one E (snd w) n (fst w)) (call_work c)"
  by (simp add: call_outcomes_def dispatch_def call_work_def case_prod_beta send_one_same [OF assms])

lemma all_ended:
  assumes "loop_inv E n s" and "list_all (\<lambda>p. \<exists>out. p = Ended out) (sl_phase s)"
  shows "sl_phase s = map (\<lambda>out. Ended (Inr out)) (concat (map (call_outcomes E) (sl_calls s)))"
proof -
  have "map (call_outcomes E) (sl_calls s) =
      map (\<lambda>c. map (\<lambda>w. send_one E (snd w) n (fst w)) (call_work c)) (sl_calls s)"
    using assms(1) by (auto simp: loop_inv_def list_all_iff intro: call_outcomes_work)
  moreover have "sl_work s = concat (map call_work (sl_calls s))"
    using assms(1) by (simp add: loop_inv_def)
  ultimately have "concat (map (call_outcomes E) (sl_calls s)) = map (\<lambda>w. send_one E (snd w) n (fst w)) (sl_work s)"
    by (simp only: map_concat map_map comp_def)
  moreover have "sl_phase s = map (\<lambda>w. Ended (Inr (send_one E (snd w) n (fst w)))) (sl_work s)"
  proof (rule nth_equalityI)
    show "length (sl_phase s) = length (map (\<lambda>w. Ended (Inr (send_one E (snd w) n (fst w)))) (sl_work s))"
      using assms(1) by (auto simp: loop_inv_def dest: list_all2_lengthD)
    then show "sl_phase s ! i = map (\<lambda>w. Ended (Inr (send_one E (snd w) n (fst w)))) (sl_work s) ! i"
      if "i < length (sl_phase s)" for i
      using that assms(2) phase_at [OF assms(1) that] by (force simp: list_all_length)
  qed
  ultimately show ?thesis by simp
qed

lemma in_flight_permits: "loop_inv E n s \<Longrightarrow> 1 \<le> nt_max_concurrency n \<Longrightarrow> int (in_flight s) \<le> nt_max_concurrency n"
proof -
  assume inv: "loop_inv E n s" and p: "1 \<le> nt_max_concurrency n"
  have "in_flight s = count_list (sl_phase s) (InFlight 0)"
  proof -
    have "(case p of InFlight r \<Rightarrow> True | _ \<Rightarrow> False) = (p = InFlight 0)" if "p \<in> set (sl_phase s)" for p
      using that phase_at [OF inv] by (fastforce simp: in_set_conv_nth split: SendPhase.splits)
    then show ?thesis
      by (simp add: in_flight_def count_list_eq_length_filter cong: filter_cong) (metis)
  qed
  then show ?thesis
  proof (cases "sl_sem s")
    case None
    then have "list_all (\<lambda>p. p = Created) (sl_phase s)" using inv by (simp add: loop_inv_def)
    then have "in_flight s = 0" by (auto simp: in_flight_def list_all_iff filter_empty_conv)
    then show ?thesis using p by simp
  next
    case (Some r)
    then show ?thesis
      using inv \<open>in_flight s = _\<close> by (auto simp: loop_inv_def permits_kept_def)
  qed
qed

section \<open>Properties\<close>

text \<open>
  C15. Whatever dispatches are started, whenever their tasks are scheduled and however the
  channels are started and stopped in between: the sends of all dispatches share one semaphore, so that no
  more of them are in flight together than its limit. From every such state, the tasks that exist
  take at most three more steps each, and they can go on until every send has ended; the outcomes
  are then those of every \<open>dispatch\<close>, in the order of the calls.
\<close>

theorem dispatch_interleaving:
  assumes "1 \<le> nt_max_concurrency n" and "(loop_step E)\<^sup>*\<^sup>* (loop_init n) s"
  shows "int (in_flight s) \<le> nt_max_concurrency n \<and> length (sl_sems s) \<le> 1 \<and>
    (\<forall>k s'. (task_step E ^^ k) s s' \<longrightarrow>
      int (in_flight s') \<le> nt_max_concurrency n \<and> k \<le> 3 * length (sl_work s) \<and>
      ((\<exists>s''. task_step E s' s'') \<or>
       sl_phase s' = map (\<lambda>out. Ended (Inr out)) (concat (map (call_outcomes E) (sl_calls s)))))"
proof (intro conjI allI impI)
  note inv = loop_run_inv [OF assms(2,1)]
  show "int (in_flight s) \<le> nt_max_concurrency n"
    by (rule in_flight_permits [OF inv assms(1)])
  show "length (sl_sems s) \<le> 1"
    using inv by (auto simp: loop_inv_def split: option.splits)
  fix k s' assume "(task_step E ^^ k) s s'"
  then have s': "loop_inv E n s'" "loop_work s' + k \<le> loop_work s" "sl_calls s' = sl_calls s"
    using task_run_inv [OF _ inv assms(1)] by blast+
  show "int (in_flight s') \<le> nt_max_concurrency n"
    by (rule in_flight_permits [OF s'(1) assms(1)])
  show "k \<le> 3 * length (sl_work s)"
    using s'(2) loop_work_bound [OF inv] by simp
  show "(\<exists>s''. task_step E s' s'') \<or>
      sl_phase s' = map (\<lambda>out. Ended (Inr out)) (concat (map (call_outcomes E) (sl_calls s)))"
  proof (cases "list_all (\<lambda>p. \<exists>out. p = Ended out) (sl_phase s')")
    case True
    then show ?thesis using all_ended [OF s'(1) True] s'(3) by simp
  next
    case False
    then show ?thesis using task_progress [OF s'(1) assms(1)] by (auto simp: list_all_length)
  qed
qed

text \<open>Two dispatches under a limit of one: the second send waits for the first.\<close>

definition ex_single :: Notifier where
  "ex_single = ex_notifier\<lparr>nt_max_concurrency := 1\<rparr>"

definition ex_send_call :: DispatchCall where
  "ex_send_call = \<lparr>dc_notifier = ex_single, dc_net = \<lambda>i w k. Inr 200, dc_clk = \<lambda>i. (0, ''d''), dc_event = ex_transfer,
     dc_hits = [(ex_sub, [ex_channel])], dc_replay = False\<rparr>"

definition ex_two_sends :: SendLoop where
  "ex_two_sends = send_enter 1 (send_enter 0 (dispatch_call ex_send_call (dispatch_call ex_send_call (loop_init ex_single))))"

lemma ex_send_call_work: "length (call_work ex_send_call) = 1"
  by (simp add: call_work_def ex_send_call_def Let_def ex_single_def ex_notifier_def ex_channel_def List.map_filter_simps)

lemma ex_two_sends_eq:
  "sl_phase ex_two_sends = [InFlight 0, Waiting 0]" "sl_sems ex_two_sends = [\<lparr>sm_value = 0, sm_waiters = [(1, False)]\<rparr>]"
  "length (sl_work ex_two_sends) = 2"
  by (simp_all add: ex_two_sends_def dispatch_call_def loop_init_def ex_send_call_work send_enter_def get_sem_def
      semaphore_init_def sem_acquire_def ex_single_def)

lemma ex_two_sends_run: "(loop_step ex_env)\<^sup>*\<^sup>* (loop_init ex_single) ex_two_sends"
proof -
  let ?s1 = "dispatch_call ex_send_call (loop_init ex_single)"
  let ?s2 = "dispatch_call ex_send_call ?s1"
  have ph: "sl_phase ?s2 = [Created, Created]" "sl_phase (send_enter 0 ?s2) = [InFlight 0, Created]"
    by (simp_all add: dispatch_call_def loop_init_def ex_send_call_work send_enter_def get_sem_def
        semaphore_init_def sem_acquire_def ex_single_def)
  have "loop_step ex_env (loop_init ex_single) ?s1" "loop_step ex_env ?s1 ?s2"
    by (rule loop_step.dispatched; simp add: ex_send_call_def loop_init_def dispatch_call_def)+
  moreover have "loop_step ex_env ?s2 (send_enter 0 ?s2)"
    using ph by (intro loop_step.task task_step.enter) simp_all
  moreover have "loop_step ex_env (send_enter 0 ?s2) ex_two_sends"
    unfolding ex_two_sends_def using ph by (intro loop_step.task task_step.enter) simp_all
  ultimately show ?thesis
    by (meson converse_rtranclp_into_rtranclp rtranclp.rtrancl_refl)
qed

theorem dispatch_interleaving_witness:
  "int (in_flight ex_two_sends) \<le> 1 \<and> in_flight ex_two_sends = 1 \<and> sl_phase ex_two_sends ! 1 = Waiting 0 \<and>
   (\<exists>s''. task_step ex_env ex_two_sends s'')"
proof -
  have lim: "1 \<le> nt_max_concurrency ex_single"
    by (simp add: ex_single_def)
  have "(task_step ex_env ^^ 0) ex_two_sends ex_two_sends"
    by simp
  then show ?thesis
    using dispatch_interleaving [OF lim ex_two_sends_run]
    by (fastforce simp: ex_single_def in_flight_def ex_two_sends_eq)
qed

text \<open>When the first send has ended it hands its permit to the second, which then sends.\<close>

lemma ex_permit_handed_over:
  "sl_sems (send_end ex_env 0 0 ex_two_sends) = [\<lparr>sm_value = 0, sm_waiters = [(1, True)]\<rparr>]"
  by (simp add: send_end_def ex_two_sends_eq sem_release_def wake_up_next_def)

end
