(* ===== verification/Web_Test.thy ===== *)
theory Web_Test
  imports Web_Api
begin

text \<open>
  \<^verbatim>\<open>apps/web/routers/test.py\<close>: two handlers with which an operator tries the configuration on one block. One reports
  the events of the block and the subscriptions they match, the other delivers them for one subscription. Both use
  an adapter, a registry and a matcher of their own; \<open>TestEnv\<close> holds the libraries and the clock. The lemmas compare
  what they report and send with what the worker hands over for the same block: \<open>handed_over\<close> reads the worker's own
  \<^const>\<open>process_block_with_logs\<close> and \<^const>\<open>process_solana_slot\<close>.
\<close>

section \<open>Reading a block\<close>

record TestEnv =
  te_lib :: AbiLib
  te_web3 :: Web3
  te_solana :: SolanaLib
  te_now :: real
  te_repr :: "exn \<Rightarrow> string"

text \<open>The three ends of reading: no connection, an exception later on, or a result. The handlers answer the first
  with 502 and turn every other exception into a 500, which is \<open>Unhandled\<close> here.\<close>

datatype 'a Attempt = NoConnection exn | Failed exn | Parsed 'a

definition read_evm :: "TestEnv \<Rightarrow> Chain \<Rightarrow> AbiRegistry \<Rightarrow> int \<Rightarrow> (Block \<times> Event list) Attempt" where
  "read_evm env chain reg n =
     (let a = evm_adapter_init (ch_id chain) (ch_rpc_http chain) (ch_rpc_ws chain) (ch_confirmations chain) 1000 [] 10000 3 30
      in case evm_connect (te_web3 env) a (te_now env) of
           (Inl e, a1, t1) \<Rightarrow> NoConnection e
         | (Inr u, a1, t1) \<Rightarrow>
             (case evm_fetch_block (te_web3 env) a1 n t1 of
                (Inl e, a2, t2) \<Rightarrow> Failed e
              | (Inr blk, a2, t2) \<Rightarrow>
                  (case evm_fetch_logs (te_web3 env) a2 n n None None t2 of
                     (Inl e, a3, t3) \<Rightarrow> Failed e
                   | (Inr logs, a3, t3) \<Rightarrow>
                       let block = blk\<lparr>blk_logs := logs\<rparr>
                       in Parsed (block, fst (evm_pipeline_run (evm_parsers (te_lib env) (ch_id chain)) block reg)))))"

definition read_solana :: "TestEnv \<Rightarrow> Chain \<Rightarrow> AbiRegistry \<Rightarrow> int \<Rightarrow> (SolanaBlock \<times> Event list) option Attempt" where
  "read_solana env chain reg n =
     (case ch_commitment chain of
        None \<Rightarrow> Failed AssertionError
      | Some commitment \<Rightarrow>
          (case solana_adapter_init (ch_id chain) (ch_rpc_http chain) commitment 2000 None [] 10000 3 30 of
             Inl e \<Rightarrow> Failed e
           | Inr a \<Rightarrow>
               (case solana_connect a of
                  Inl e \<Rightarrow> NoConnection e
                | Inr a1 \<Rightarrow>
                    (case solana_fetch_block (te_solana env) a1 n (te_now env) of
                       (Inl e, a2, t) \<Rightarrow> Failed e
                     | (Inr None, a2, t) \<Rightarrow> Parsed None
                     | (Inr (Some block), a2, t) \<Rightarrow>
                         Parsed (Some (block, fst (solana_pipeline_run (solana_parsers (te_lib env) (ch_id chain)) block reg)))))))"

section \<open>Trying a block\<close>

text \<open>\<open>asdict(ev)\<close>; \<open>_safe_dict\<close> is \<^const>\<open>safe\<close>.\<close>

definition event_dict :: "Event \<Rightarrow> (string, pv) dict" where
  "event_dict ev =
     [(''chain_id'', PStr (ev_chain_id ev)), (''block_number'', PInt (ev_block_number ev)), (''block_hash'', PStr (ev_block_hash ev)),
      (''block_timestamp'', PInt (ev_block_timestamp ev)), (''tx_hash'', PStr (ev_tx_hash ev)), (''tx_index'', pv_opt_int (ev_tx_index ev)),
      (''log_index'', pv_opt_int (ev_log_index ev)), (''kind'', PStr (kind_str (ev_kind ev))), (''contract'', pv_opt_str (ev_contract ev)),
      (''name'', pv_opt_str (ev_name ev)), (''args'', PDict (ev_args ev)), (''raw'', PDict (ev_raw ev))]"

record EnrichedEvent =
  en_event :: pv
  en_matched_subscriptions :: "(SnapshotSubscription \<times> SnapshotChannel list) list"
  en_matched :: bool

definition enrich_events :: "Matcher \<Rightarrow> Event list \<Rightarrow> EnrichedEvent list" where
  "enrich_events m events =
     map (\<lambda>ev. let hits = match_event m ev
               in \<lparr>en_event = safe (PDict (event_dict ev)), en_matched_subscriptions = hits, en_matched = (0 < length hits)\<rparr>) events"

record ParseReport =
  rp_chain_id :: string
  rp_block_number :: int
  rp_tx_count :: "nat option"
  rp_log_count :: "nat option"
  rp_event_count :: nat
  rp_matched_count :: nat
  rp_events :: "EnrichedEvent list"

definition parse_report :: "Chain \<Rightarrow> int \<Rightarrow> nat option \<Rightarrow> nat option \<Rightarrow> EnrichedEvent list \<Rightarrow> ParseReport" where
  "parse_report chain n txs logs enriched =
     \<lparr>rp_chain_id = ch_id chain, rp_block_number = n, rp_tx_count = txs, rp_log_count = logs,
      rp_event_count = length enriched, rp_matched_count = length (filter en_matched enriched), rp_events = enriched\<rparr>"

definition parse_block_handler :: "TestEnv \<Rightarrow> string \<Rightarrow> int \<Rightarrow> Web \<Rightarrow> ParseReport Response \<times> Web" where
  "parse_block_handler env chain_id n w =
     or_404 (chain_get chain_id (wb_db w)) ''chain not found'' w (\<lambda>chain.
       let snap = load_snapshot (wb_db w)
       in case refresh (te_lib env) snap registry_init of
            (Some e, reg) \<Rightarrow> (Unhandled e, w)
          | (None, reg) \<Rightarrow>
              let m = matcher_init snap
              in case ch_kind chain of
                   CK_evm \<Rightarrow>
                     (case read_evm env chain reg n of
                        NoConnection e \<Rightarrow> (HTTPException 502 (te_repr env e), w)
                      | Failed e \<Rightarrow> (Unhandled e, w)
                      | Parsed (block, events) \<Rightarrow>
                          (Ok 200 (parse_report chain n (Some (length (blk_txs block))) (Some (length (blk_logs block))) (enrich_events m events)), w))
                 | CK_solana \<Rightarrow>
                     (case read_solana env chain reg n of
                        NoConnection e \<Rightarrow> (HTTPException 502 (te_repr env e), w)
                      | Failed e \<Rightarrow> (Unhandled e, w)
                      | Parsed None \<Rightarrow> (Ok 200 (parse_report chain n None None []), w)
                      | Parsed (Some (block, events)) \<Rightarrow>
                          (Ok 200 (parse_report chain n (Some (length (sb_transactions block))) None (enrich_events m events)), w)))"

section \<open>Trying a subscription\<close>

text \<open>One send: whether it counts as delivered, and the exception that is noted.\<close>

definition try_send ::
  "ChannelEnv \<Rightarrow> (Channels.Channel \<Rightarrow> unit res) \<Rightarrow> (Channels.Channel \<Rightarrow> unit res) \<Rightarrow> net \<Rightarrow> SnapshotChannel \<Rightarrow> (string, pv) dict \<Rightarrow>
   bool \<times> exn option" where
  "try_send E conn clo net cfg payload =
     (case rbind (channel_factory E cfg) (channel_start conn) of
        Inl e \<Rightarrow> (False, Some e)
      | Inr ch \<Rightarrow>
          let r = fst (channel_send E net ch payload)
          in (r = Inr (), case channel_stop clo ch of Inl e \<Rightarrow> Some e | Inr ch' \<Rightarrow> (case r of Inl e \<Rightarrow> Some e | Inr u \<Rightarrow> None)))"

record TestSend =
  tx_event :: Event
  tx_channel :: string
  tx_delivered :: bool
  tx_error :: "exn option"

definition test_channels :: "Db \<Rightarrow> ConfigSnapshot \<Rightarrow> SnapshotSubscription \<Rightarrow> SnapshotChannel list" where
  "test_channels db snap sub =
     (let cs = filter (\<lambda>c. sc_id c \<in> set (ss_channel_ids sub)) (snap_channels snap)
      in if cs = [] \<and> ss_channel_ids sub \<noteq> []
         then List.map_filter (\<lambda>cid. map_option snap_channel (channel_get cid db)) (ss_channel_ids sub) else cs)"

definition resolved_channels :: "ConfigSnapshot \<Rightarrow> SnapshotChannel list \<Rightarrow> SnapshotSubscription \<Rightarrow> SnapshotChannel list" where
  "resolved_channels snap fallback sub =
     (let cs = resolve_channels (channels_by_id (snap_channels snap)) sub in if cs = [] then fallback else cs)"

text \<open>
  The loop over the events: for every match of the subscription the sends to its channels. \<open>send\<close> is
  \<^const>\<open>try_send\<close>, \<open>stamp\<close> the time and the id that go into a payload.
\<close>

definition test_sends ::
  "(SnapshotChannel \<Rightarrow> (string, pv) dict \<Rightarrow> bool \<times> exn option) \<Rightarrow> int \<times> string \<Rightarrow> ConfigSnapshot \<Rightarrow> SnapshotChannel list \<Rightarrow> string \<Rightarrow>
   Event list \<Rightarrow> TestSend list list" where
  "test_sends send stamp snap fallback sub_id events =
     concat (map (\<lambda>ev.
       map (\<lambda>(sub, cs). map (\<lambda>ch. case send ch (build_payload (fst stamp) (snd stamp) ev sub False) of
             (ok, err) \<Rightarrow> \<lparr>tx_event = ev, tx_channel = sc_id ch, tx_delivered = ok, tx_error = err\<rparr>)
           (resolved_channels snap fallback sub))
         (filter (\<lambda>(sub, cs). ss_id sub = sub_id) (match_event (matcher_init snap) ev))) events)"

record SubscriptionReport =
  sr_total_events :: nat
  sr_matched :: nat
  sr_delivered :: nat
  sr_channels :: "string list"

definition subscription_report :: "nat \<Rightarrow> SnapshotChannel list \<Rightarrow> TestSend list list \<Rightarrow> SubscriptionReport" where
  "subscription_report n_events chans sends =
     \<lparr>sr_total_events = n_events, sr_matched = length sends, sr_delivered = length (filter tx_delivered (concat sends)),
      sr_channels = map sc_id chans\<rparr>"

definition test_subscription ::
  "TestEnv \<Rightarrow> ChannelEnv \<Rightarrow> (Channels.Channel \<Rightarrow> unit res) \<Rightarrow> (Channels.Channel \<Rightarrow> unit res) \<Rightarrow> net \<Rightarrow> int \<times> string \<Rightarrow> string \<Rightarrow> int \<Rightarrow> Web \<Rightarrow>
   (SubscriptionReport \<times> TestSend list list) Response \<times> Web" where
  "test_subscription env E conn clo net stamp sub_id n w =
     or_404 (sub_get sub_id (wb_db w)) ''subscription not found'' w (\<lambda>row.
     or_404 (chain_get (su_chain_id row) (wb_db w)) ''chain not found'' w (\<lambda>chain.
       let snap = load_snapshot (wb_db w)
       in case refresh (te_lib env) snap registry_init of
            (Some e, reg) \<Rightarrow> (Unhandled e, w)
          | (None, reg) \<Rightarrow>
              or_404 (List.find (\<lambda>s. ss_id s = sub_id) (snap_subscriptions snap)) ''subscription not in snapshot (disabled?)'' w (\<lambda>sub.
                let chans = test_channels (wb_db w) snap sub;
                    finish = (\<lambda>events. let sends = test_sends (try_send E conn clo net) stamp snap chans sub_id events
                                       in (Ok 200 (subscription_report (length events) chans sends, sends), w))
                in case ch_kind chain of
                     CK_evm \<Rightarrow>
                       (case read_evm env chain reg n of
                          NoConnection e \<Rightarrow> (HTTPException 502 (te_repr env e), w)
                        | Failed e \<Rightarrow> (Unhandled e, w)
                        | Parsed (block, events) \<Rightarrow> finish events)
                   | CK_solana \<Rightarrow>
                       (case read_solana env chain reg n of
                          NoConnection e \<Rightarrow> (HTTPException 502 (te_repr env e), w)
                        | Failed e \<Rightarrow> (Unhandled e, w)
                        | Parsed None \<Rightarrow> (Ok 200 (subscription_report 0 [] [], []), w)
                        | Parsed (Some (block, events)) \<Rightarrow> finish events))))"

section \<open>Facts\<close>

text \<open>The events the handlers work with, whatever the kind of the chain.\<close>

definition block_events :: "TestEnv \<Rightarrow> Chain \<Rightarrow> AbiRegistry \<Rightarrow> int \<Rightarrow> Event list" where
  "block_events env chain reg n =
     (case ch_kind chain of
        CK_evm \<Rightarrow> (case read_evm env chain reg n of Parsed (block, events) \<Rightarrow> events | _ \<Rightarrow> [])
      | CK_solana \<Rightarrow> (case read_solana env chain reg n of Parsed (Some (block, events)) \<Rightarrow> events | _ \<Rightarrow> []))"

lemma read_evm_events:
  "read_evm env chain reg n = Parsed (block, events) \<Longrightarrow> events = fst (evm_events (te_lib env) (ch_id chain) block (Some reg))"
  by (auto simp: read_evm_def evm_events_def Let_def case_prod_beta split: sum.splits prod.splits)

lemma read_solana_events:
  "read_solana env chain reg n = Parsed (Some (block, events)) \<Longrightarrow>
     events = fst (solana_events (te_lib env) (ch_id chain) block (Some reg))"
  by (auto simp: read_solana_def solana_events_def case_prod_beta split: sum.splits prod.splits option.splits)

text \<open>Every match in a loaded snapshot has a channel.\<close>

lemma loaded_match_channels:
  assumes "keys_ok db" and "(s, cs) \<in> set (match_event (matcher_init (load_snapshot db)) ev)"
  shows "cs \<noteq> [] \<and> cs = channels_for_subscription (load_snapshot db) s"
proof -
  from assms(2) obtain row where row: "row \<in> set (db_subs db)" "su_enabled row" "bound_channels db (su_id row) \<noteq> []"
      "s = snap_sub row (bound_channels db (su_id row))" "cs = channels_for_subscription (load_snapshot db) s"
    by (auto simp: match_event_mem load_snapshot_subs split: if_splits)
  then show ?thesis using resolve_bound [OF assms(1) row(1,2)] by simp
qed

lemma loaded_match_hits:
  assumes "keys_ok db"
  shows "match_event (matcher_init (load_snapshot db)) ev = match_hits (matcher_init (load_snapshot db)) ev"
proof -
  have "filter (\<lambda>(s, cs). cs \<noteq> []) (match_event (matcher_init (load_snapshot db)) ev) = match_event (matcher_init (load_snapshot db)) ev"
    using loaded_match_channels [OF assms] by (intro filter_True) auto
  then show ?thesis by (simp add: match_hits_def)
qed

lemma resolved_loaded:
  assumes "keys_ok db" and "(s, cs) \<in> set (match_event (matcher_init (load_snapshot db)) ev)"
  shows "resolved_channels (load_snapshot db) fallback s = cs"
  using loaded_match_channels [OF assms] by (auto simp: resolved_channels_def channels_for_subscription_def Let_def)

text \<open>
  What the worker hands to its notifier and what the report shows, in the same terms: an event as the report prints it, and
  the subscriptions with their channels.
\<close>

definition shown :: "Event \<Rightarrow> pv" where
  "shown ev = safe (PDict (event_dict ev))"

definition handed_over :: "Effect list \<Rightarrow> (pv \<times> hits) list" where
  "handed_over es = List.map_filter (\<lambda>e. case e of Dispatched ev hits again \<Rightarrow> if again then None else Some (shown ev, hits) | _ \<Rightarrow> None) es"

definition reported :: "ParseReport \<Rightarrow> (pv \<times> hits) list" where
  "reported rep = map (\<lambda>x. (en_event x, en_matched_subscriptions x)) (filter en_matched (rp_events rep))"

text \<open>What the worker hands over from the internal calls of a block, after the events of its pipeline.\<close>

definition internal_effects :: "RunnerEnv \<Rightarrow> SnapshotChain \<Rightarrow> Matcher \<Rightarrow> int \<Rightarrow> Block \<Rightarrow> AbiRegistry option \<Rightarrow> Effect list" where
  "internal_effects we chain m n block reg =
     fst (snd (internal_step we chain m n block (snd (evm_events (re_lib we) (sn_id chain) block reg))))"

lemma handed_over_simps [simp]:
  "handed_over [] = []"
  "handed_over (Dispatched ev hits False # es) = (shown ev, hits) # handed_over es"
  "handed_over (SaveCheckpoint k h # es) = handed_over es"
  "handed_over (BlockProcessed ids k # es) = handed_over es"
  "handed_over (es @ es') = handed_over es @ handed_over es'"
  by (simp_all add: handed_over_def List.map_filter_simps)

lemma handed_over_dispatches:
  "handed_over (concat (map (dispatch_hits m False) events)) =
     map (\<lambda>ev. (shown ev, match_hits m ev)) (filter (\<lambda>ev. match_hits m ev \<noteq> []) events)"
  by (induction events) (auto simp: dispatch_hits_def Let_def)

lemma handed_over_finish [simp]: "handed_over (fst (snd (finish_block env ids k h reg))) = []"
  by (simp add: finish_block_eq split: sum.split)

lemma handed_over_seq:
  "handed_over (fst (snd (act_seq (act_emit ds) (act_seq step (finish_block env ids k h)) reg))) =
     handed_over ds @ handed_over (fst (snd (step reg)))"
proof -
  obtain r es reg' where s: "step reg = (r, es, reg')" by (metis prod.collapse)
  show ?thesis
    by (cases r; cases "finish_block env ids k h reg'")
      (use handed_over_finish [of env ids k h reg'] in \<open>auto simp: act_bind_def act_emit_def s\<close>)
qed

lemma handed_over_block:
  "handed_over (fst (snd (process_block_with_logs we chain m n block (blk_logs block) reg))) =
     map (\<lambda>ev. (shown ev, match_hits m ev))
       (filter (\<lambda>ev. match_hits m ev \<noteq> []) (fst (evm_events (re_lib we) (sn_id chain) block reg))) @
     handed_over (internal_effects we chain m n block reg)"
  by (simp add: process_block_with_logs_def handed_over_seq handed_over_dispatches internal_effects_def Let_def split: prod.split)

lemma handed_over_slot:
  assumes "re_slot we n = Inr (Some block)"
  shows "handed_over (fst (snd (process_solana_slot we chain m n reg))) =
    map (\<lambda>ev. (shown ev, match_hits m ev))
      (filter (\<lambda>ev. match_hits m ev \<noteq> []) (fst (solana_events (re_lib we) (sn_id chain) block reg)))"
proof -
  obtain evs reg1 where ev: "solana_events (re_lib we) (sn_id chain) block reg = (evs, reg1)" by (metis prod.collapse)
  have "process_solana_slot we chain m n reg =
      act_seq (act_emit (concat (map (dispatch_hits m False) evs)))
        (act_seq (act_return ()) (finish_block we (matched_sub_ids m evs) (sb_slot block) (sb_block_hash block))) reg1"
    by (simp add: process_solana_slot_def assms ev)
  then show ?thesis unfolding handed_over_seq by (simp add: handed_over_seq handed_over_dispatches ev act_return_def)
qed

lemma internal_effects_untraced: "\<not> sn_trace_internal_calls chain \<Longrightarrow> internal_effects we chain m n block reg = []"
  by (simp add: internal_effects_def internal_step_def)

lemma reported_enriched:
  assumes "keys_ok db"
  shows "reported (parse_report chain n txs logs (enrich_events (matcher_init (load_snapshot db)) events)) =
    map (\<lambda>ev. (shown ev, match_hits (matcher_init (load_snapshot db)) ev))
      (filter (\<lambda>ev. match_hits (matcher_init (load_snapshot db)) ev \<noteq> []) events)"
  by (simp add: reported_def parse_report_def enrich_events_def shown_def Let_def filter_map comp_def loaded_match_hits [OF assms])

lemma report_counts:
  "rp_matched_count (parse_report chain n txs logs evs) = length (reported (parse_report chain n txs logs evs))"
  "rp_event_count (parse_report chain n txs logs evs) = length (rp_events (parse_report chain n txs logs evs))"
  "map en_event (rp_events (parse_report chain n txs logs (enrich_events m events))) = map shown events"
  by (simp_all add: parse_report_def reported_def enrich_events_def shown_def Let_def)

section \<open>An example\<close>

text \<open>A node whose slot 9 holds one transfer, and a configuration with one subscription for it.\<close>

definition ex_transfer_raw :: pv where
  "ex_transfer_raw = PDict [(''blockhash'', PStr ''h9''), (''parentSlot'', PInt 7), (''blockTime'', PInt 100),
     (''transactions'', PList [PDict [
        (''meta'', PDict [(''err'', PNone), (''fee'', PInt 5000)]),
        (''transaction'', PDict [(''signatures'', PList [PStr ''sig'']),
           (''message'', PDict [(''accountKeys'', PList [PStr ''A'', PStr ''B'', PStr SOLANA_SYSTEM_PROGRAM_ID]),
              (''instructions'', PList [PDict [(''programIdIndex'', PInt 2), (''accounts'', PList [PInt 0, PInt 1]),
                 (''data'', PStr (ix_data_b58 ex_ix))]])])])]])]"

definition ex_test_env :: TestEnv where
  "ex_test_env = \<lparr>te_lib = ex_lib, te_web3 = undefined,
     te_solana = ex_sol_lib\<lparr>sl_post := (\<lambda>p u t. (Inr (PDict [(''result'', ex_transfer_raw)]), 0))\<rparr>, te_now = 1, te_repr = (\<lambda>e. ''e'')\<rparr>"

definition ex_tested :: Web where
  "ex_tested = run_requests [(ex_web_env ''u1'', CreateChain ex_chain_body), (ex_web_env ''c1'', CreateChannel ex_hook),
     (ex_web_env ''s1'', CreateSubscription (ex_sub_body\<lparr>ps_arg_filters := [(''value_gte'', PInt 5)]\<rparr>)),
     (ex_web_env ''u2'', BindChannel ''s1'' ''c1'')] ex_web"

definition ex_tested_block :: SolanaBlock where
  "ex_tested_block = \<lparr>sb_slot = 9, sb_block_hash = ''h9'', sb_parent_slot = 7, sb_block_time = Some 100,
     sb_transactions = [\<lparr>st_signature = ''sig'', st_slot = 9, st_success = True, st_fee = 5000,
        st_account_keys = [''A'', ''B'', SOLANA_SYSTEM_PROGRAM_ID], st_pre_balances = [], st_post_balances = [],
        st_pre_token_balances = [], st_post_token_balances = [], st_log_messages = [], st_instructions = [ex_ix]\<rparr>]\<rparr>"

definition ex_tested_chain :: Chain where
  "ex_tested_chain = \<lparr>ch_id = ''sol'', ch_kind = CK_solana, ch_rpc_http = ''http://a'', ch_rpc_ws = None, ch_confirmations = 0,
     ch_poll_interval_ms = 3000, ch_enabled = True, ch_commitment = Some ''finalized'', ch_trace_internal_calls = Some False,
     ch_log_query_range_blocks = 100, ch_slot_query_range_blocks = 1000, ch_rpc_http_fallbacks = [''http://b''],
     ch_rpc_timeout_ms = 10000\<rparr>"

definition ex_tested_events :: "Event list" where
  "ex_tested_events = fst (solana_pipeline_run (solana_parsers ex_lib ''sol'') ex_tested_block registry_init)"

lemma ex_tested_facts:
  "chain_get ''sol'' (wb_db ex_tested) = Some ex_tested_chain"
  "refresh ex_lib (load_snapshot (wb_db ex_tested)) registry_init = (None, registry_init)"
  "keys_ok (wb_db ex_tested)"
  "map (\<lambda>ev. map (ss_id \<circ> fst) (match_event (matcher_init (load_snapshot (wb_db ex_tested))) ev)) ex_tested_events = [[''s1'']]"
  by code_simp+

lemma ex_read: "read_solana ex_test_env ex_tested_chain registry_init 9 = Parsed (Some (ex_tested_block, ex_tested_events))"
proof -
  have "read_block_body (te_solana ex_test_env) 9 (PDict [(''result'', ex_transfer_raw)]) = Inr (Some ex_tested_block)" by code_simp
  then show ?thesis
    by (simp add: read_solana_def ex_tested_chain_def solana_adapter_init_def COMMITMENT_MAP_def solana_connect_def pool_init_def
        solana_fetch_block_def sol_pooled_def pool_call_def candidates_def ex_test_env_def wait_for_def mark_success_def ex_tested_events_def)
qed

lemma ex_tested_kind: "ch_kind ex_tested_chain = CK_solana" "te_lib ex_test_env = ex_lib"
  by (simp_all add: ex_tested_chain_def ex_test_env_def)

lemma ex_tested_block_events: "block_events ex_test_env ex_tested_chain registry_init 9 = ex_tested_events"
  by (simp add: block_events_def ex_read ex_tested_kind)

lemmas ex_tested_run = ex_tested_kind ex_tested_facts ex_read ex_tested_block_events or_404_def

section \<open>Properties\<close>

text \<open>
  C38. The report on a block against the worker's own processing of it. Give the worker the block and the logs that the handler has
  read, a registry refreshed with the same snapshot and the same libraries: then the report shows all events of
  the worker's pipeline, its matched events with their subscriptions and channels are what \<open>_process_block_with_prefetched_logs\<close> or
  \<open>_process_solana_slot\<close> hands to the notifier, in that order and no more, but for a traced EVM chain, where the worker goes on with the
  events of the internal calls, which the report lacks. The counts are those of the events and of the hand-overs shown. Nothing is
  stored or published. (The worker asks a node for the logs of its filter only: C10 is about those.)
\<close>

theorem parse_block_agrees:
  assumes "parse_block_handler env i n w = (Ok st rep, w')" and "keys_ok (wb_db w)" and "re_lib we = te_lib env"
    and "m = matcher_init (load_snapshot (wb_db w))"
  shows "\<exists>chain reg. chain_get i (wb_db w) = Some chain \<and>
    refresh (te_lib env) (load_snapshot (wb_db w)) registry_init = (None, reg) \<and>
    (case ch_kind chain of
       CK_evm \<Rightarrow> \<exists>block events. read_evm env chain reg n = Parsed (block, events) \<and> map en_event (rp_events rep) = map shown events \<and>
         handed_over (fst (snd (process_block_with_logs we (snap_chain chain) m n block (blk_logs block) (Some reg)))) =
           reported rep @ handed_over (internal_effects we (snap_chain chain) m n block (Some reg)) \<and>
         (sn_trace_internal_calls (snap_chain chain) \<or> internal_effects we (snap_chain chain) m n block (Some reg) = [])
     | CK_solana \<Rightarrow> \<exists>slot. read_solana env chain reg n = Parsed slot \<and>
         map en_event (rp_events rep) = (case slot of None \<Rightarrow> [] | Some (block, events) \<Rightarrow> map shown events) \<and>
         (re_slot we n = Inr (map_option fst slot) \<longrightarrow>
           handed_over (fst (snd (process_solana_slot we (snap_chain chain) m n (Some reg)))) = reported rep)) \<and>
    rp_event_count rep = length (rp_events rep) \<and> rp_matched_count rep = length (reported rep) \<and> w' = w"
proof -
  obtain chain where chain: "chain_get i (wb_db w) = Some chain"
    using assms(1) by (cases "chain_get i (wb_db w)") (auto simp: parse_block_handler_def or_404_def)
  obtain ex reg where f: "refresh (te_lib env) (load_snapshot (wb_db w)) registry_init = (ex, reg)" by (metis prod.collapse)
  have ex: "ex = None" using assms(1) chain f by (cases ex) (auto simp: parse_block_handler_def or_404_def)
  have id: "sn_id (snap_chain chain) = ch_id chain" by (simp add: snap_chain_def)
  note h = assms(1) [unfolded parse_block_handler_def or_404_def chain option.case Let_def f ex prod.case]
  note report = reported_enriched [OF assms(2), folded assms(4)] report_counts
  show ?thesis
  proof (cases "ch_kind chain")
    case CK_evm
    then obtain block events txs logs where r: "read_evm env chain reg n = Parsed (block, events)" "w' = w"
        "rep = parse_report chain n txs logs (enrich_events m events)"
      using h by (auto simp: assms(4) split: Attempt.splits)
    have "events = fst (evm_events (re_lib we) (sn_id (snap_chain chain)) block (Some reg))"
      using read_evm_events [OF r(1)] by (simp add: assms(3) id)
    then have "handed_over (fst (snd (process_block_with_logs we (snap_chain chain) m n block (blk_logs block) (Some reg)))) =
        reported rep @ handed_over (internal_effects we (snap_chain chain) m n block (Some reg))"
      by (simp add: handed_over_block r(3) report)
    moreover have "sn_trace_internal_calls (snap_chain chain) \<or> internal_effects we (snap_chain chain) m n block (Some reg) = []"
      using internal_effects_untraced by blast
    ultimately show ?thesis
      by (intro exI [of _ chain] exI [of _ reg]) (simp add: chain f ex CK_evm r(1,2), simp add: r(3) report)
  next
    case CK_solana
    then obtain slot where slot: "read_solana env chain reg n = Parsed slot" using h by (auto split: Attempt.splits option.splits)
    show ?thesis
    proof (cases slot)
      case None
      then have "rep = parse_report chain n None None (enrich_events m [])" "w' = w"
        using h CK_solana slot by (auto simp: enrich_events_def)
      moreover have "handed_over (fst (snd (process_solana_slot we (snap_chain chain) m n (Some reg)))) = []"
          if "re_slot we n = Inr None"
        by (simp add: process_solana_slot_def act_return_def that)
      ultimately show ?thesis
        by (intro exI [of _ chain] exI [of _ reg]) (simp add: chain f ex slot CK_solana None report)
    next
      case (Some be)
      obtain block events where be: "be = (block, events)" by (cases be)
      have r: "rep = parse_report chain n (Some (length (sb_transactions block))) None (enrich_events m events)" "w' = w"
        using h [symmetric] by (simp_all add: CK_solana slot Some be assms(4))
      have "events = fst (solana_events (re_lib we) (sn_id (snap_chain chain)) block (Some reg))"
        using read_solana_events slot Some be by (simp add: assms(3) id)
      then have "handed_over (fst (snd (process_solana_slot we (snap_chain chain) m n (Some reg)))) = reported rep"
          if "re_slot we n = Inr (Some block)"
        using handed_over_slot [OF that] by (simp add: r(1) report)
      then show ?thesis
        by (intro exI [of _ chain] exI [of _ reg]) (simp add: chain f ex slot CK_solana Some be r report)
    qed
  qed
qed

theorem parse_block_agrees_witness:
  "\<exists>rep. parse_block_handler ex_test_env ''sol'' 9 ex_tested = (Ok 200 rep, ex_tested) \<and> rp_matched_count rep = 1 \<and>
     handed_over (fst (snd (process_solana_slot (ex_slot_env\<lparr>re_lib := ex_lib, re_slot := \<lambda>n. Inr (Some ex_tested_block)\<rparr>)
       (snap_chain ex_tested_chain) (matcher_init (load_snapshot (wb_db ex_tested))) 9 (Some registry_init)))) = reported rep"
proof -
  let ?m = "matcher_init (load_snapshot (wb_db ex_tested))"
  let ?we = "ex_slot_env\<lparr>re_lib := ex_lib, re_slot := \<lambda>n. Inr (Some ex_tested_block)\<rparr>"
  obtain rep where h: "parse_block_handler ex_test_env ''sol'' 9 ex_tested = (Ok 200 rep, ex_tested)"
    by (simp add: parse_block_handler_def ex_tested_run)
  have lib: "re_lib ?we = te_lib ex_test_env" by (simp add: ex_tested_kind)
  have a: "rp_matched_count rep = length (reported rep)"
      "handed_over (fst (snd (process_solana_slot ?we (snap_chain ex_tested_chain) ?m 9 (Some registry_init)))) = reported rep"
    using parse_block_agrees [OF h ex_tested_facts(3) lib refl] by (auto simp: ex_tested_run)
  have e: "ex_tested_events = fst (solana_events ex_lib (sn_id (snap_chain ex_tested_chain)) ex_tested_block (Some registry_init))"
    by (simp add: ex_tested_events_def solana_events_def snap_chain_def ex_tested_chain_def split: prod.split)
  have "length (filter (\<lambda>ev. match_hits ?m ev \<noteq> []) ex_tested_events) = 1" by code_simp
  then have "length (reported rep) = 1"
    unfolding a(2) [symmetric] by (simp add: handed_over_slot [where block = ex_tested_block] flip: e)
  then show ?thesis using h a by auto
qed

text \<open>
  Trying a subscription sends each event of the block that the worker would deliver for it to exactly the channels
  the worker would use, once each, and to nothing else; the report counts the matches and the sends that went out.
\<close>

theorem test_subscription_sends:
  assumes "test_subscription env E conn clo net stamp i n w = (Ok st (rep, sends), w')" and "keys_ok (wb_db w)"
  shows "\<exists>row chain reg events. sub_get i (wb_db w) = Some row \<and> chain_get (su_chain_id row) (wb_db w) = Some chain \<and>
    refresh (te_lib env) (load_snapshot (wb_db w)) registry_init = (None, reg) \<and> events = block_events env chain reg n \<and>
    map (map (\<lambda>x. (tx_event x, tx_channel x))) sends =
      concat (map (\<lambda>ev. map (\<lambda>(s, cs). map (\<lambda>c. (ev, sc_id c)) cs)
        (filter (\<lambda>(s, cs). ss_id s = i) (match_hits (matcher_init (load_snapshot (wb_db w))) ev))) events) \<and>
    sr_matched rep = length sends \<and> sr_delivered rep = length (filter tx_delivered (concat sends)) \<and> w' = w"
proof -
  let ?db = "wb_db w"
  let ?snap = "load_snapshot ?db"
  obtain row where row: "sub_get i ?db = Some row"
    using assms(1) by (cases "sub_get i ?db") (auto simp: test_subscription_def or_404_def)
  obtain chain where chain: "chain_get (su_chain_id row) ?db = Some chain"
    using assms(1) row by (cases "chain_get (su_chain_id row) ?db") (auto simp: test_subscription_def or_404_def)
  obtain ex reg where f: "refresh (te_lib env) ?snap registry_init = (ex, reg)" by (metis prod.collapse)
  have ex: "ex = None" using assms(1) row chain f by (cases ex) (auto simp: test_subscription_def or_404_def)
  obtain sub where sub: "List.find (\<lambda>s. ss_id s = i) (snap_subscriptions ?snap) = Some sub"
    using assms(1) row chain f ex
    by (cases "List.find (\<lambda>s. ss_id s = i) (snap_subscriptions ?snap)") (auto simp: test_subscription_def or_404_def)
  have "w' = w \<and> (\<exists>chans k. rep = subscription_report k chans sends \<and>
      sends = test_sends (try_send E conn clo net) stamp ?snap (test_channels ?db ?snap sub) i (block_events env chain reg n))"
    using assms(1) row chain f ex sub
    by (auto simp: test_subscription_def or_404_def block_events_def test_sends_def Let_def
        split: ChainKind.splits Attempt.splits option.splits prod.splits)
  moreover have "map (map (\<lambda>x. (tx_event x, tx_channel x))) (test_sends send stamp ?snap fb i evs) =
      concat (map (\<lambda>ev. map (\<lambda>(s, cs). map (\<lambda>c. (ev, sc_id c)) cs)
        (filter (\<lambda>(s, cs). ss_id s = i) (match_hits (matcher_init ?snap) ev))) evs)" for send fb evs
    unfolding test_sends_def map_concat loaded_match_hits [OF assms(2), symmetric]
    by (rule arg_cong [of _ _ concat]) (auto simp: case_prod_beta resolved_loaded [OF assms(2)])
  ultimately show ?thesis using row chain f ex by (auto simp: subscription_report_def)
qed

theorem test_subscription_sends_witness:
  "\<exists>rep sends. test_subscription ex_test_env ex_env (\<lambda>c. Inr ()) (\<lambda>c. Inr ()) (\<lambda>x k. Inr 200) (0, ''d'') ''s1'' 9 ex_tested =
     (Ok 200 (rep, sends), ex_tested) \<and> map (map tx_channel) sends = [[''c1'']] \<and> sr_matched rep = 1"
proof -
  let ?m = "matcher_init (load_snapshot (wb_db ex_tested))"
  have row: "map_option su_chain_id (sub_get ''s1'' (wb_db ex_tested)) = Some ''sol''"
    and fnd: "map_option ss_id (List.find (\<lambda>s. ss_id s = ''s1'') (snap_subscriptions (load_snapshot (wb_db ex_tested)))) = Some ''s1''"
    by code_simp+
  obtain rep sends where h: "test_subscription ex_test_env ex_env (\<lambda>c. Inr ()) (\<lambda>c. Inr ()) (\<lambda>x k. Inr 200) (0, ''d'') ''s1'' 9 ex_tested =
      (Ok 200 (rep, sends), ex_tested)"
    using row fnd by (auto simp: test_subscription_def ex_tested_run Let_def)
  have ids: "map (map (\<lambda>x. (tx_event x, tx_channel x))) sends =
      concat (map (\<lambda>ev. map (\<lambda>(s, cs). map (\<lambda>c. (ev, sc_id c)) cs) (filter (\<lambda>(s, cs). ss_id s = ''s1'') (match_hits ?m ev))) ex_tested_events)"
    and n: "sr_matched rep = length sends"
    using test_subscription_sends [OF h ex_tested_facts(3)] row by (auto simp: ex_tested_run)
  have c: "map (map snd) (concat (map (\<lambda>ev. map (\<lambda>(s, cs). map (\<lambda>c. (ev, sc_id c)) cs) (filter (\<lambda>(s, cs). ss_id s = ''s1'') (match_hits ?m ev)))
      ex_tested_events)) = [[''c1'']]"
    by code_simp
  have "map (map tx_channel) sends = map (map snd) (map (map (\<lambda>x. (tx_event x, tx_channel x))) sends)" by (simp add: comp_def)
  then have "map (map tx_channel) sends = [[''c1'']]" unfolding ids c .
  then show ?thesis using h n by (auto dest: arg_cong [of _ _ length])
qed

end
