(* ===== verification/Web_Fanout.thy ===== *)
theory Web_Fanout
  imports Web_Api "HOL-Library.Sublist"
begin

text \<open>
  \<^verbatim>\<open>apps/web/routers/ws.py\<close>: a browser that connects to \<^verbatim>\<open>/ws\<close> gets the messages that the WebSocket driver publishes
  on the fan-out channel of its configuration. A producer task puts them into a bounded queue and drops them when it is
  full, a consumer task sends them on. The lemmas show what a client receives under every interleaving of the two.
\<close>

section \<open>Operations\<close>

definition QUEUE_SIZE :: nat where
  "QUEUE_SIZE = 256"

definition WARN_WINDOW_S :: real where
  "WARN_WINDOW_S = 60"

text \<open>\<open>row.config.get("ws_fanout_channel")\<close>\<close>

definition resolve_fanout_channel :: "string \<Rightarrow> Db \<Rightarrow> pv option" where
  "resolve_fanout_channel channel_id db =
     (case channel_get channel_id db of
        None \<Rightarrow> None
      | Some row \<Rightarrow>
          if cn_type row \<noteq> CT_ws then None
          else let fanout = cfg_get (cn_config row) ''ws_fanout_channel'' in if fanout = PNone then None else Some fanout)"

datatype WsSession = WsRefused int | WsOpen pv

definition ws_endpoint :: "string \<Rightarrow> Db \<Rightarrow> WsSession" where
  "ws_endpoint channel_id db =
     (case resolve_fanout_channel channel_id db of None \<Rightarrow> WsRefused 1008 | Some fanout \<Rightarrow> WsOpen fanout)"

text \<open>
  A session: what has arrived on the channel, the queue, what has been sent to the client, when a warning was
  logged (newest first), and the time of the last one.
\<close>

record Fanout =
  fo_received :: "string list"
  fo_queue :: "string list"
  fo_sent :: "string list"
  fo_warnings :: "real list"
  fo_last_warn_at :: real

definition fanout_init :: Fanout where
  "fanout_init = \<lparr>fo_received = [], fo_queue = [], fo_sent = [], fo_warnings = [], fo_last_warn_at = 0\<rparr>"

definition produce :: "real \<Rightarrow> string \<Rightarrow> Fanout \<Rightarrow> Fanout" where
  "produce now body f =
     (let f = f\<lparr>fo_received := fo_received f @ [body]\<rparr>
      in if length (fo_queue f) < QUEUE_SIZE then f\<lparr>fo_queue := fo_queue f @ [body]\<rparr>
         else if now - fo_last_warn_at f \<ge> WARN_WINDOW_S then f\<lparr>fo_warnings := now # fo_warnings f, fo_last_warn_at := now\<rparr>
         else f)"

definition consume :: "Fanout \<Rightarrow> Fanout" where
  "consume f =
     (case fo_queue f of
        [] \<Rightarrow> f
      | body # rest \<Rightarrow> f\<lparr>fo_queue := rest, fo_sent := fo_sent f @ [body]\<rparr>)"

text \<open>The two tasks interleave at their awaits.\<close>

inductive fanout_step :: "Fanout \<Rightarrow> Fanout \<Rightarrow> bool" where
  produced: "fanout_step f (produce now body f)"
| consumed: "fo_queue f \<noteq> [] \<Longrightarrow> fanout_step f (consume f)"

inductive fanout_run :: "Fanout \<Rightarrow> bool" where
  opened: "fanout_run fanout_init"
| stepped: "fanout_run f \<Longrightarrow> fanout_step f f' \<Longrightarrow> fanout_run f'"

section \<open>Facts\<close>

text \<open>Warnings are at least a window apart.\<close>

fun spaced :: "real list \<Rightarrow> bool" where
  "spaced (b # a # xs) \<longleftrightarrow> a + WARN_WINDOW_S \<le> b \<and> spaced (a # xs)"
| "spaced xs \<longleftrightarrow> True"

definition fanout_inv :: "Fanout \<Rightarrow> bool" where
  "fanout_inv f \<longleftrightarrow>
     subseq (fo_sent f @ fo_queue f) (fo_received f) \<and> length (fo_queue f) \<le> QUEUE_SIZE \<and>
     spaced (fo_warnings f) \<and> (\<forall>a xs. fo_warnings f = a # xs \<longrightarrow> fo_last_warn_at f = a)"

lemma fanout_step_inv: "fanout_step f f' \<Longrightarrow> fanout_inv f \<Longrightarrow> fanout_inv f'"
proof (induction rule: fanout_step.induct)
  case (produced f now body)
  have "subseq ((fo_sent f @ fo_queue f) @ [body]) (fo_received f @ [body])"
    using produced by (intro list_emb_append_mono) (simp_all add: fanout_inv_def)
  then show ?case
    using produced by (cases "fo_warnings f") (auto simp: fanout_inv_def produce_def Let_def)
next
  case (consumed f)
  then show ?case by (cases "fo_queue f") (auto simp: fanout_inv_def consume_def)
qed

lemma fanout_run_inv: "fanout_run f \<Longrightarrow> fanout_inv f"
proof (induction rule: fanout_run.induct)
  case opened
  then show ?case by (simp add: fanout_inv_def fanout_init_def)
qed (rule fanout_step_inv)

text \<open>A client listens where the driver of the same channel publishes.\<close>

lemma driver_publishes_here:
  assumes "ws_endpoint i db = WsOpen v"
  shows "\<exists>row c. channel_get i db = Some row \<and> channel_factory E (snap_channel row) = Inr (WebSocket c) \<and> wc_fanout_channel c = v"
proof -
  obtain row where row: "channel_get i db = Some row" "cn_type row = CT_ws" "cfg_get (cn_config row) ''ws_fanout_channel'' = v" "v \<noteq> PNone"
    using assms by (auto simp: ws_endpoint_def resolve_fanout_channel_def Let_def split: option.splits if_splits)
  then have "d_index (cn_config row) ''ws_fanout_channel'' = Inr v"
    by (auto simp: cfg_get_def d_get_default_def d_index_def split: option.splits)
  with row show ?thesis by (auto simp: channel_factory_def snap_channel_def websocket_init_def)
qed

section \<open>Properties\<close>

text \<open>
  A session exists only for a WebSocket channel and listens where that channel's driver publishes. Under every
  interleaving of producer and consumer the client receives messages in the order they were published,
  each at most once; the queue holds at most 256; a message that arrives while there is room is never lost; and
  warnings about lost ones are at least a minute apart.
\<close>

theorem fanout_in_order:
  assumes "ws_endpoint i db = WsOpen v" and "fanout_run f"
  shows "(\<exists>row c. channel_get i db = Some row \<and> channel_factory E (snap_channel row) = Inr (WebSocket c) \<and> wc_fanout_channel c = v) \<and>
    subseq (fo_sent f @ fo_queue f) (fo_received f) \<and> length (fo_queue f) \<le> 256 \<and> spaced (fo_warnings f) \<and>
    (length (fo_queue f) < 256 \<longrightarrow> fo_queue (produce now body f) = fo_queue f @ [body]) \<and>
    (fo_queue f \<noteq> [] \<longrightarrow> fo_sent (consume f) = fo_sent f @ [hd (fo_queue f)])"
  using fanout_run_inv [OF assms(2)] driver_publishes_here [OF assms(1), of E]
  by (cases "fo_queue f") (auto simp: fanout_inv_def QUEUE_SIZE_def produce_def consume_def Let_def)

definition ex_ws_db :: Db where
  "ex_ws_db = (db_empty True)\<lparr>db_channels := [\<lparr>cn_id = ''c1'', cn_name = ''live'', cn_type = CT_ws, cn_config = [(''ws_fanout_channel'', PStr ''f'')]\<rparr>]\<rparr>"

theorem fanout_in_order_witness:
  "subseq (fo_sent (consume (produce 1 ''b'' (produce 0 ''a'' fanout_init))) @ fo_queue (consume (produce 1 ''b'' (produce 0 ''a'' fanout_init))))
     (fo_received (consume (produce 1 ''b'' (produce 0 ''a'' fanout_init)))) \<and>
   fo_sent (consume (produce 1 ''b'' (produce 0 ''a'' fanout_init))) = [''a'']"
proof -
  have s: "ws_endpoint ''c1'' ex_ws_db = WsOpen (PStr ''f'')" by code_simp
  have q: "fo_queue (produce 1 ''b'' (produce 0 ''a'' fanout_init)) = [''a'', ''b'']"
    by (simp add: produce_def fanout_init_def QUEUE_SIZE_def)
  have "fanout_run (consume (produce 1 ''b'' (produce 0 ''a'' fanout_init)))"
    using q by (intro stepped [OF stepped [OF stepped [OF opened produced] produced] consumed]) simp
  from fanout_in_order [OF s this] show ?thesis
    by (simp add: consume_def q) (simp add: produce_def fanout_init_def Let_def)
qed

end
