(* ===== verification/Replay_Request.thy ===== *)
theory Replay_Request
  imports Web_Api Redis_Bus
begin

text \<open>
  A replay from the request to the runner: \<open>replay_subscription\<close> in \<^verbatim>\<open>apps/web/routers/subscriptions.py\<close>
  describes the subscription and its channels in a message, and \<open>ChainRunner.replay\<close> in
  \<^verbatim>\<open>apps/worker/chain_runner.py\<close> builds a snapshot from the message. The lemmas show that nothing is lost on
  the way, and that the replay delivers what the running worker would deliver.
\<close>

section \<open>Operations\<close>

definition channel_item :: "Config_Store.Channel \<Rightarrow> pv" where
  "channel_item ch = PDict [(''id'', PStr (cn_id ch)), (''name'', PStr (cn_name ch)),
     (''type'', PStr (channel_type_str (cn_type ch))), (''config'', PDict (cn_config ch))]"

definition sub_item :: "string list \<Rightarrow> Subscription \<Rightarrow> pv" where
  "sub_item channel_ids sub = PDict
     [(''id'', PStr (su_id sub)), (''name'', PStr (su_name sub)), (''chain_id'', PStr (su_chain_id sub)),
      (''address'', pv_opt_str (su_address sub)), (''abi_id'', pv_opt_str (su_abi_id sub)),
      (''match_kind'', PStr (kind_str (su_match_kind sub))), (''match_name'', pv_opt_str (su_match_name sub)),
      (''arg_filters'', PDict (su_arg_filters sub)), (''enabled'', PBool True),
      (''channel_ids'', PList (map PStr channel_ids)), (''start_block'', PNone),
      (''business_name'', pv_opt_str (su_business_name sub))]"

definition replay_message :: "string \<Rightarrow> Db \<Rightarrow> Subscription \<Rightarrow> ReplayRequest \<Rightarrow> (string, pv) dict" where
  "replay_message request_id db sub p =
     [(''request_id'', PStr request_id), (''chain_id'', PStr (su_chain_id sub)),
      (''subscription'', sub_item (bound_ids db (su_id sub)) sub),
      (''channels'', PList (map channel_item (bound_channels db (su_id sub)))),
      (''from_block'', PInt (pr_from_block p)), (''to_block'', PInt (pr_to_block p))]"

record ReplayAccepted =
  ra_request_id :: string
  ra_chain_id :: string
  ra_span :: int

text \<open>\<open>max_span\<close> is \<open>settings.replay.max_replay_blocks\<close>. Here a failing Redis is not forgiven.\<close>

definition replay_subscription :: "WebEnv \<Rightarrow> int \<Rightarrow> string \<Rightarrow> ReplayRequest \<Rightarrow> Web \<Rightarrow> ReplayAccepted Response \<times> Web" where
  "replay_subscription env max_span sub_id payload w =
     or_404 (sub_get sub_id (wb_db w)) ''subscription not found'' w (\<lambda>sub.
       if pr_to_block payload < pr_from_block payload then (HTTPException 422 ''to_block < from_block'', w)
       else let span = pr_to_block payload - pr_from_block payload + 1
            in if span > max_span
               then (HTTPException 422 (''replay span '' @ int_str span @ '' exceeds max '' @ int_str max_span), w)
               else case wv_publish env of
                   Inl e \<Rightarrow> (Unhandled e, w)
                 | Inr u \<Rightarrow>
                     (Ok 202 \<lparr>ra_request_id = wv_new_id env, ra_chain_id = su_chain_id sub, ra_span = span\<rparr>,
                      w\<lparr>wb_published := wb_published w @ [(''replay_request'', replay_message (wv_new_id env) (wb_db w) sub payload)]\<rparr>))"

text \<open>
  Back from the message. \<open>SnapshotSubscription(**d)\<close> and \<open>SnapshotChannel(**d)\<close> need the keys without a default
  and take no others. The classes do not check types; here a value of another type than declared is refused.
\<close>

fun kind_of_str :: "string \<Rightarrow> MatchKind res" where
  "kind_of_str s =
     (if s = ''native_transfer'' then Inr MK_native_transfer
      else if s = ''token_transfer'' then Inr MK_token_transfer
      else if s = ''event'' then Inr MK_event
      else if s = ''call'' then Inr MK_call
      else Inl TypeError)"

fun channel_type_of_str :: "string \<Rightarrow> ChannelType res" where
  "channel_type_of_str s =
     (if s = ''mq'' then Inr CT_mq
      else if s = ''http'' then Inr CT_http
      else if s = ''ws'' then Inr CT_ws
      else if s = ''kafka'' then Inr CT_kafka
      else if s = ''rabbitmq'' then Inr CT_rabbitmq
      else Inl TypeError)"

fun pv_dict :: "pv \<Rightarrow> (string, pv) dict res" where
  "pv_dict (PDict d) = Inr d"
| "pv_dict v = Inl TypeError"

fun pv_bool :: "pv \<Rightarrow> bool res" where
  "pv_bool (PBool b) = Inr b"
| "pv_bool v = Inl TypeError"

fun pv_strs :: "pv \<Rightarrow> string list res" where
  "pv_strs (PList xs) = rmap pv_str xs"
| "pv_strs v = Inl TypeError"

definition sub_fields :: "string list" where
  "sub_fields = [''id'', ''name'', ''chain_id'', ''address'', ''abi_id'', ''match_kind'', ''match_name'', ''arg_filters'', ''enabled'']"

definition keyword_call :: "string list \<Rightarrow> string list \<Rightarrow> (string, pv) dict \<Rightarrow> unit res" where
  "keyword_call needed optional d =
     (if set needed \<subseteq> set (d_keys d) \<and> set (d_keys d) \<subseteq> set (needed @ optional) then Inr () else Inl TypeError)"

definition snapshot_sub_of :: "pv \<Rightarrow> SnapshotSubscription res" where
  "snapshot_sub_of v =
     rbind (pv_dict v) (\<lambda>d.
     rbind (keyword_call sub_fields [''channel_ids'', ''start_block'', ''business_name''] d) (\<lambda>u.
     rbind (rbind (d_index d ''id'') pv_str) (\<lambda>i.
     rbind (rbind (d_index d ''name'') pv_str) (\<lambda>name.
     rbind (rbind (d_index d ''chain_id'') pv_str) (\<lambda>chain_id.
     rbind (rbind (d_index d ''address'') opt_str) (\<lambda>address.
     rbind (rbind (d_index d ''abi_id'') opt_str) (\<lambda>abi_id.
     rbind (rbind (rbind (d_index d ''match_kind'') pv_str) kind_of_str) (\<lambda>match_kind.
     rbind (rbind (d_index d ''match_name'') opt_str) (\<lambda>match_name.
     rbind (rbind (d_index d ''arg_filters'') pv_dict) (\<lambda>arg_filters.
     rbind (rbind (d_index d ''enabled'') pv_bool) (\<lambda>enabled.
     rbind (pv_strs (d_get_default d ''channel_ids'' (PList []))) (\<lambda>channel_ids.
     rbind (opt_int (d_get_default d ''start_block'' PNone)) (\<lambda>start_block.
     rbind (opt_str (d_get_default d ''business_name'' PNone)) (\<lambda>business_name.
       Inr \<lparr>ss_id = i, ss_name = name, ss_chain_id = chain_id, ss_address = address, ss_abi_id = abi_id,
            ss_match_kind = match_kind, ss_match_name = match_name, ss_arg_filters = arg_filters, ss_enabled = enabled,
            ss_channel_ids = channel_ids, ss_start_block = start_block, ss_business_name = business_name\<rparr>))))))))))))))"

definition snapshot_channel_of :: "pv \<Rightarrow> SnapshotChannel res" where
  "snapshot_channel_of v =
     rbind (pv_dict v) (\<lambda>d.
     rbind (keyword_call [''id'', ''name'', ''type'', ''config''] [] d) (\<lambda>u.
     rbind (rbind (d_index d ''id'') pv_str) (\<lambda>i.
     rbind (rbind (d_index d ''name'') pv_str) (\<lambda>name.
     rbind (rbind (rbind (d_index d ''type'') pv_str) channel_type_of_str) (\<lambda>ty.
     rbind (rbind (d_index d ''config'') pv_dict) (\<lambda>config.
       Inr \<lparr>sc_id = i, sc_name = name, sc_type = ty, sc_config = config\<rparr>))))))"

definition read_replay_message :: "(string, pv) dict \<Rightarrow> (SnapshotSubscription \<times> SnapshotChannel list \<times> int \<times> int) res" where
  "read_replay_message msg =
     rbind (rbind (d_index msg ''subscription'') snapshot_sub_of) (\<lambda>sub.
     rbind (rbind (d_index msg ''channels'') py_iter) (\<lambda>cs.
     rbind (rmap snapshot_channel_of cs) (\<lambda>channels.
     rbind (rbind (d_index msg ''from_block'') pv_int) (\<lambda>from_b.
     rbind (rbind (d_index msg ''to_block'') pv_int) (\<lambda>to_b. Inr (sub, channels, from_b, to_b))))))"

text \<open>\<open>runner.replay(msg)\<close>\<close>

definition replay_request_run ::
  "ChannelEnv \<Rightarrow> (Channels.Channel \<Rightarrow> unit res) \<Rightarrow> RunnerEnv \<Rightarrow> ChainRunner \<Rightarrow> (string, pv) dict \<Rightarrow> unit act" where
  "replay_request_run E conn env runner msg = (\<lambda>reg.
     case read_replay_message msg of
       Inl e \<Rightarrow> (Inl e, [], reg)
     | Inr (sub, channels, from_b, to_b) \<Rightarrow>
         replay E conn NOTIFIER_MAX_CONCURRENCY env (cr_chain runner) sub channels from_b to_b reg)"

section \<open>Facts\<close>

text \<open>The subscription a replay works with: enabled, and from the first block on.\<close>

definition replayed :: "Db \<Rightarrow> Subscription \<Rightarrow> SnapshotSubscription" where
  "replayed db s = (snap_sub s [])\<lparr>ss_enabled := True, ss_start_block := None, ss_channel_ids := bound_ids db (su_id s)\<rparr>"

lemma opt_str_of: "opt_str (pv_opt_str s) = Inr s"
  by (cases s) (simp_all add: opt_str_def)

lemma kind_of_kind_str: "kind_of_str (kind_str k) = Inr k"
  by (cases k) simp_all

lemma channel_type_of_type_str: "channel_type_of_str (channel_type_str t) = Inr t"
  by (cases t) simp_all

lemma rmap_PStr: "rmap pv_str (map PStr ss) = Inr ss"
  by (induction ss) simp_all

lemma snapshot_sub_of_item: "snapshot_sub_of (sub_item (bound_ids db (su_id s)) s) = Inr (replayed db s)"
  by (simp add: snapshot_sub_of_def sub_item_def keyword_call_def sub_fields_def d_index_def d_get_default_def
      opt_str_of kind_of_kind_str rmap_PStr replayed_def snap_sub_def opt_int_def del: kind_of_str.simps)

lemma snapshot_channel_of_item: "snapshot_channel_of (channel_item c) = Inr (snap_channel c)"
  by (simp add: snapshot_channel_of_def channel_item_def keyword_call_def d_index_def channel_type_of_type_str snap_channel_def
      del: channel_type_of_str.simps)

lemma read_replay_message_of:
  "read_replay_message (replay_message i db s p) =
     Inr (replayed db s, map snap_channel (bound_channels db (su_id s)), pr_from_block p, pr_to_block p)"
proof -
  have "rmap snapshot_channel_of (map channel_item cs) = Inr (map snap_channel cs)" for cs
    by (induction cs) (simp_all add: snapshot_channel_of_item)
  then show ?thesis
    by (simp add: read_replay_message_def replay_message_def d_index_def snapshot_sub_of_item)
qed

lemma bound_channel_get:
  assumes "c \<in> set (bound_channels db i)"
  shows "channel_get (cn_id c) db = Some c"
proof -
  from assms obtain l :: SubscriptionChannel where l: "channel_get (lk_channel_id l) db = Some c" by (auto simp: bound_channels_def)
  then have "cn_id c = lk_channel_id l" unfolding channel_get_def by (rule conjunct2 [OF row_get_Some])
  with l show ?thesis by simp
qed

lemma by_id_bound:
  assumes "l \<in> set (db_links db)" and "lk_subscription_id l = i"
  shows "d_get (channels_by_id (map snap_channel (bound_channels db i))) (lk_channel_id l) =
    map_option snap_channel (channel_get (lk_channel_id l) db)"
proof (cases "channel_get (lk_channel_id l) db")
  case None
  have "lk_channel_id l \<notin> sc_id ` set (map snap_channel (bound_channels db i))"
    using None bound_channel_get by fastforce
  then show ?thesis using None by (simp add: channels_by_id_None)
next
  case (Some c)
  have c: "c \<in> set (bound_channels db i)" "cn_id c = lk_channel_id l"
    using Some assms by (auto simp: bound_channels_def channel_get_def dest: row_get_Some)
  then have "lk_channel_id l \<in> sc_id ` set (map snap_channel (bound_channels db i))" by force
  then obtain x where x: "d_get (channels_by_id (map snap_channel (bound_channels db i))) (lk_channel_id l) = Some x"
    using channels_by_id_None [of "map snap_channel (bound_channels db i)" "lk_channel_id l"] by auto
  from channels_by_id_Some [OF x] obtain c' where "x = snap_channel c'" "c' \<in> set (bound_channels db i)" "cn_id c' = lk_channel_id l"
    by auto
  moreover from this have "channel_get (lk_channel_id l) db = Some c'" using bound_channel_get [of c' db i] by simp
  ultimately show ?thesis using x Some by simp
qed

lemma replay_channels:
  "channels_for_subscription (replay_snapshot (replayed db s) (map snap_channel (bound_channels db (su_id s)))) (replayed db s) =
     map snap_channel (bound_channels db (su_id s))"
proof -
  let ?by = "channels_by_id (map snap_channel (bound_channels db (su_id s)))"
  let ?ls = "filter (\<lambda>l. lk_subscription_id l = su_id s) (db_links db)"
  have "List.map_filter (d_get ?by) (map lk_channel_id ls) =
      map snap_channel (List.map_filter (\<lambda>l. channel_get (lk_channel_id l) db) ls)" if "set ls \<subseteq> set ?ls" for ls
    using that by (induction ls) (auto simp: List.map_filter_simps by_id_bound split: option.splits)
  from this [OF order_refl] show ?thesis
    by (simp add: channels_for_subscription_def resolve_channels_def replay_snapshot_def replayed_def bound_ids_def
        bound_channels_def)
qed

lemma replay_sub_matches:
  assumes "\<forall>n. su_start_block s = Some n \<longrightarrow> n \<le> ev_block_number ev"
  shows "sub_matches (replayed db s) ev = sub_matches (snap_sub s cs) ev"
  using assms by (cases "su_start_block s") (simp_all add: sub_matches_def replayed_def snap_sub_def)

section \<open>Properties\<close>

text \<open>
  C29. An accepted replay request reaches the runner undistorted: one message is published, for the chain of the
  subscription, with a range of at most \<open>max_span\<close> blocks; read back it gives the stored subscription, enabled
  and without start block, and its channels. For an event from the start block on, the replay delivers to
  exactly the channels to which the worker delivers it live, if the subscription is enabled and has channels.
\<close>

theorem replay_request_faithful:
  assumes "replay_subscription env max_span sub_id p w = (Ok st a, w')" and "keys_ok (wb_db w)"
  shows "\<exists>s msg chs. sub_get sub_id (wb_db w) = Some s \<and> chs = map snap_channel (bound_channels (wb_db w) sub_id) \<and>
    w' = w\<lparr>wb_published := wb_published w @ [(''replay_request'', msg)]\<rparr> \<and>
    d_get msg ''chain_id'' = Some (PStr (su_chain_id s)) \<and>
    read_replay_message msg = Inr (replayed (wb_db w) s, chs, pr_from_block p, pr_to_block p) \<and>
    pr_from_block p \<le> pr_to_block p \<and> pr_to_block p - pr_from_block p < max_span \<and>
    (\<forall>ev. su_enabled s \<and> chs \<noteq> [] \<and> (\<forall>n. su_start_block s = Some n \<longrightarrow> n \<le> ev_block_number ev) \<longrightarrow>
       ((replayed (wb_db w) s, chs) \<in> set (match_hits (matcher_init (replay_snapshot (replayed (wb_db w) s) chs)) ev) \<longleftrightarrow>
        (snap_sub s (bound_channels (wb_db w) sub_id), chs) \<in> set (match_hits (matcher_init (load_snapshot (wb_db w))) ev)))"
proof -
  let ?db = "wb_db w"
  obtain s where s: "sub_get sub_id ?db = Some s"
    using assms(1) by (cases "sub_get sub_id ?db") (auto simp: replay_subscription_def or_404_def)
  then have row: "s \<in> set (db_subs ?db)" "su_id s = sub_id" by (auto simp: sub_get_def dest: row_get_Some)
  let ?bc = "bound_channels ?db sub_id" and ?msg = "replay_message (wv_new_id env) ?db s p"
  have w': "w' = w\<lparr>wb_published := wb_published w @ [(''replay_request'', ?msg)]\<rparr>"
    and range: "pr_from_block p \<le> pr_to_block p" "pr_to_block p - pr_from_block p < max_span"
    using assms(1) s by (auto simp: replay_subscription_def or_404_def Let_def split: if_splits sum.splits)
  have live: "(replayed ?db s, map snap_channel ?bc) \<in>
        set (match_hits (matcher_init (replay_snapshot (replayed ?db s) (map snap_channel ?bc))) ev) \<longleftrightarrow>
      (snap_sub s ?bc, map snap_channel ?bc) \<in> set (match_hits (matcher_init (load_snapshot ?db)) ev)"
    if "su_enabled s" "map snap_channel ?bc \<noteq> []" "\<forall>n. su_start_block s = Some n \<longrightarrow> n \<le> ev_block_number ev" for ev
  proof -
    have mem: "snap_sub s ?bc \<in> set (snap_subscriptions (load_snapshot ?db))"
      using row that(1,2) unfolding load_snapshot_subs by auto
    have chans: "channels_for_subscription (load_snapshot ?db) (snap_sub s ?bc) = map snap_channel ?bc"
      using resolve_bound [OF assms(2) row(1) that(1)] row(2) by simp
    have fields: "ss_chain_id (snap_sub s ?bc) = ss_chain_id (replayed ?db s)" "ss_match_kind (snap_sub s ?bc) = ss_match_kind (replayed ?db s)"
        "ss_enabled (replayed ?db s)" "ss_enabled (snap_sub s ?bc)"
      using that(1) by (simp_all add: snap_sub_def replayed_def)
    have subs: "snap_subscriptions (replay_snapshot (replayed ?db s) (map snap_channel ?bc)) = [replayed ?db s]"
      by (simp add: replay_snapshot_def)
    show ?thesis
      using mem chans fields subs that(2) replay_sub_matches [OF that(3), of ?db ?bc] replay_channels [of ?db s] row(2)
      by (simp add: match_hits_def match_event_mem)
  qed
  show ?thesis
    by (rule exI [of _ s], rule exI [of _ ?msg], rule exI [of _ "map snap_channel ?bc"])
      (use s w' range live row(2) read_replay_message_of [of "wv_new_id env" ?db s p] in
        \<open>auto simp: replay_message_def\<close>)
qed

definition ex_replay :: ReplayRequest where
  "ex_replay = \<lparr>pr_from_block = 10, pr_to_block = 12\<rparr>"

definition ex_indexed :: Web where
  "ex_indexed = run_requests ex_requests ex_web"

theorem replay_request_faithful_witness:
  "\<exists>a w' msg chs sub. replay_subscription (ex_web_env ''r1'') 100 ''s1'' ex_replay ex_indexed = (Ok 202 a, w') \<and>
     wb_published w' = wb_published ex_indexed @ [(''replay_request'', msg)] \<and>
     read_replay_message msg = Inr (sub, chs, 10, 12) \<and> ss_id sub = ''s1''"
proof -
  let ?out = "replay_subscription (ex_web_env ''r1'') 100 ''s1'' ex_replay ex_indexed"
  have "case fst ?out of Ok st a \<Rightarrow> st = 202 | _ \<Rightarrow> False" by code_simp
  then obtain a where "fst ?out = Ok 202 a" by (cases "fst ?out") auto
  then obtain w' where r: "?out = (Ok 202 a, w')" by (metis prod.collapse)
  have keys: "keys_ok (wb_db ex_indexed)" by code_simp
  from replay_request_faithful [OF r keys] obtain s msg where
    "sub_get ''s1'' (wb_db ex_indexed) = Some s" "wb_published w' = wb_published ex_indexed @ [(''replay_request'', msg)]"
    "read_replay_message msg = Inr (replayed (wb_db ex_indexed) s, map snap_channel (bound_channels (wb_db ex_indexed) ''s1''), 10, 12)"
    by (auto simp: ex_replay_def)
  moreover from this(1) have "su_id s = ''s1''" unfolding sub_get_def by (rule conjunct2 [OF row_get_Some])
  then have "ss_id (replayed (wb_db ex_indexed) s) = ''s1''" by (simp add: replayed_def snap_sub_def)
  ultimately show ?thesis using r by blast
qed

end
