(* ===== verification/Chain_Lock.thy ===== *)
theory Chain_Lock
  imports Complex_Main Prelude
begin

text \<open>
  \<^verbatim>\<open>core/worker/chain_lock.py\<close>: the lock in Redis that lets one worker process a chain. Every Redis
  command is atomic; the operations of the class are sequences of commands, between which other
  workers act and time passes. A state holds the clock, the key in Redis and, for each worker, how far
  it is in which operation.

  The lemmas show that the lock excludes as long as no holder's lease runs out, that a crashed holder
  blocks a chain no longer than its lease, and what happens when a lease does run out.
\<close>

section \<open>Redis\<close>

text \<open>A key with its value and its deadline; from the deadline on the key is gone.\<close>

type_synonym key = "(string \<times> real) option"

definition redis_get :: "real \<Rightarrow> key \<Rightarrow> string option" where
  "redis_get now k = (case k of None \<Rightarrow> None | Some (v, d) \<Rightarrow> if now < d then Some v else None)"

text \<open>\<open>SET key v NX EX ttl\<close>\<close>

definition redis_set_nx :: "real \<Rightarrow> string \<Rightarrow> real \<Rightarrow> key \<Rightarrow> bool \<times> key" where
  "redis_set_nx now v ttl k = (if redis_get now k = None then (True, Some (v, now + ttl)) else (False, k))"

definition redis_expire :: "real \<Rightarrow> real \<Rightarrow> key \<Rightarrow> key" where
  "redis_expire now ttl k = (case redis_get now k of None \<Rightarrow> k | Some v \<Rightarrow> Some (v, now + ttl))"

section \<open>The lock's operations\<close>

definition LOCK_TTL_S :: real where
  "LOCK_TTL_S = 30"

definition RENEW_INTERVAL_S :: real where
  "RENEW_INTERVAL_S = 10"

text \<open>
  Where a worker is: \<open>Idle\<close>; in \<open>acquire\<close> after a failed \<open>SET NX\<close>; holding, with the renewal task asleep;
  in the renewal between \<open>GET\<close> and \<open>EXPIRE\<close>; holding, after the renewal task found the lock lost and
  ended; in \<open>release\<close> between \<open>GET\<close> and \<open>DEL\<close>.
\<close>

datatype lock_pc = Idle | AcquireGet | Holding | RenewExpire | HoldingLost | ReleaseDel

record LockState =
  ls_now :: real
  ls_key :: key
  ls_pc :: "string \<Rightarrow> lock_pc"

definition lock_init :: LockState where
  "lock_init = \<lparr>ls_now = 0, ls_key = None, ls_pc = (\<lambda>w. Idle)\<rparr>"

text \<open>\<open>acquire\<close>: \<open>SET NX EX\<close>, and when it fails a \<open>GET\<close> to see whether the lock is this worker's already.\<close>

definition acquire_set :: "string \<Rightarrow> LockState \<Rightarrow> LockState" where
  "acquire_set w s =
     (case redis_set_nx (ls_now s) w LOCK_TTL_S (ls_key s) of
        (True, k) \<Rightarrow> s\<lparr>ls_key := k, ls_pc := (ls_pc s)(w := Holding)\<rparr>
      | (False, k) \<Rightarrow> s\<lparr>ls_pc := (ls_pc s)(w := AcquireGet)\<rparr>)"

definition acquire_get :: "string \<Rightarrow> LockState \<Rightarrow> LockState" where
  "acquire_get w s =
     s\<lparr>ls_pc := (ls_pc s)(w := (if redis_get (ls_now s) (ls_key s) = Some w then Holding else Idle))\<rparr>"

text \<open>One round of \<open>_renew_loop\<close>. Redis may fail at either command, which is logged; the loop goes on.\<close>

definition renew_get :: "string \<Rightarrow> LockState \<Rightarrow> LockState" where
  "renew_get w s =
     s\<lparr>ls_pc := (ls_pc s)(w := (if redis_get (ls_now s) (ls_key s) = Some w then RenewExpire else HoldingLost))\<rparr>"

definition renew_expire :: "string \<Rightarrow> LockState \<Rightarrow> LockState" where
  "renew_expire w s =
     s\<lparr>ls_key := redis_expire (ls_now s) LOCK_TTL_S (ls_key s), ls_pc := (ls_pc s)(w := Holding)\<rparr>"

text \<open>\<open>release\<close>: the renewal task is cancelled; \<open>GET\<close>, and \<open>DEL\<close> when the lock is this worker's.\<close>

definition release_get :: "string \<Rightarrow> LockState \<Rightarrow> LockState" where
  "release_get w s =
     s\<lparr>ls_pc := (ls_pc s)(w := (if redis_get (ls_now s) (ls_key s) = Some w then ReleaseDel else Idle))\<rparr>"

definition release_del :: "string \<Rightarrow> LockState \<Rightarrow> LockState" where
  "release_del w s = s\<lparr>ls_key := None, ls_pc := (ls_pc s)(w := Idle)\<rparr>"

text \<open>The worker's process ends without releasing.\<close>

definition crash :: "string \<Rightarrow> LockState \<Rightarrow> LockState" where
  "crash w s = s\<lparr>ls_pc := (ls_pc s)(w := Idle)\<rparr>"

inductive lock_step :: "LockState \<Rightarrow> LockState \<Rightarrow> bool" where
  acquire: "ls_pc s w = Idle \<Longrightarrow> lock_step s (acquire_set w s)"
| acquire2: "ls_pc s w = AcquireGet \<Longrightarrow> lock_step s (acquire_get w s)"
| renew: "ls_pc s w = Holding \<Longrightarrow> lock_step s (renew_get w s)"
| renew2: "ls_pc s w = RenewExpire \<Longrightarrow> lock_step s (renew_expire w s)"
| renew_failed: "ls_pc s w = RenewExpire \<Longrightarrow> lock_step s (s\<lparr>ls_pc := (ls_pc s)(w := Holding)\<rparr>)"
| release: "ls_pc s w \<in> {Holding, RenewExpire, HoldingLost} \<Longrightarrow> lock_step s (release_get w s)"
| release2: "ls_pc s w = ReleaseDel \<Longrightarrow> lock_step s (release_del w s)"
| crashed: "lock_step s (crash w s)"
| tick: "0 \<le> d \<Longrightarrow> lock_step s (s\<lparr>ls_now := ls_now s + d\<rparr>)"

text \<open>The workers that run the chain: from the acquisition until they release or crash.\<close>

definition runs_chain :: "LockState \<Rightarrow> string \<Rightarrow> bool" where
  "runs_chain s w \<longleftrightarrow> ls_pc s w \<in> {Holding, RenewExpire, HoldingLost}"

text \<open>
  No lease runs out under a holder: the renewal, every \<^const>\<open>RENEW_INTERVAL_S\<close> of \<^const>\<open>LOCK_TTL_S\<close> seconds, and
  the \<open>DEL\<close> of a release come in time.
\<close>

definition leases_kept :: "LockState \<Rightarrow> bool" where
  "leases_kept s \<longleftrightarrow>
     (\<forall>v d. ls_key s = Some (v, d) \<and> ls_pc s v \<in> {Holding, RenewExpire, ReleaseDel} \<longrightarrow> ls_now s < d)"

inductive lock_run :: "LockState \<Rightarrow> bool" where
  start: "lock_run lock_init"
| step: "lock_run s \<Longrightarrow> lock_step s s' \<Longrightarrow> lock_run s'"

inductive timely_run :: "LockState \<Rightarrow> bool" where
  start: "timely_run lock_init"
| step: "timely_run s \<Longrightarrow> lock_step s s' \<Longrightarrow> leases_kept s' \<Longrightarrow> timely_run s'"

section \<open>Exclusion\<close>

definition lock_inv :: "LockState \<Rightarrow> bool" where
  "lock_inv s \<longleftrightarrow>
     (\<forall>w. ls_pc s w \<noteq> HoldingLost \<and>
        (ls_pc s w \<in> {Holding, RenewExpire, ReleaseDel} \<longrightarrow> redis_get (ls_now s) (ls_key s) = Some w))"

lemma lock_invD:
  assumes "lock_inv s"
  shows "ls_pc s w \<noteq> HoldingLost"
    and "ls_pc s w \<in> {Holding, RenewExpire, ReleaseDel} \<Longrightarrow> redis_get (ls_now s) (ls_key s) = Some w"
  using assms unfolding lock_inv_def by blast+

text \<open>Two workers inside the lock are the same one.\<close>

lemma lock_inv_unique:
  assumes "lock_inv s"
    and "ls_pc s v \<in> {Holding, RenewExpire, ReleaseDel}" and "ls_pc s w \<in> {Holding, RenewExpire, ReleaseDel}"
  shows "v = w"
  using lock_invD(2) [OF assms(1,2)] lock_invD(2) [OF assms(1,3)] by simp

text \<open>A command that only moves its worker keeps the invariant when the worker's name is in Redis or it leaves the lock.\<close>

lemma lock_inv_move:
  assumes "lock_inv s" and "p \<noteq> HoldingLost"
    and "p \<in> {Holding, RenewExpire, ReleaseDel} \<Longrightarrow> redis_get (ls_now s) (ls_key s) = Some w"
  shows "lock_inv (s\<lparr>ls_pc := (ls_pc s)(w := p)\<rparr>)"
  unfolding lock_inv_def
proof (intro allI conjI impI)
  fix u let ?s = "s\<lparr>ls_pc := (ls_pc s)(w := p)\<rparr>"
  show "ls_pc ?s u \<noteq> HoldingLost" using assms(2) lock_invD(1) [OF assms(1)] by simp
  assume "ls_pc ?s u \<in> {Holding, RenewExpire, ReleaseDel}"
  then show "redis_get (ls_now ?s) (ls_key ?s) = Some u"
    using assms(3) lock_invD(2) [OF assms(1), of u] by (cases "u = w") simp_all
qed

text \<open>A command that sets the key does so while no other worker is inside the lock.\<close>

lemma lock_inv_set:
  assumes "lock_inv s" and "\<And>u. u \<noteq> w \<Longrightarrow> ls_pc s u \<notin> {Holding, RenewExpire, ReleaseDel}"
    and "p \<noteq> HoldingLost" and "p \<in> {Holding, RenewExpire, ReleaseDel} \<Longrightarrow> redis_get (ls_now s) k = Some w"
  shows "lock_inv (s\<lparr>ls_key := k, ls_pc := (ls_pc s)(w := p)\<rparr>)"
  unfolding lock_inv_def
proof (intro allI conjI impI)
  fix u let ?s = "s\<lparr>ls_key := k, ls_pc := (ls_pc s)(w := p)\<rparr>"
  show "ls_pc ?s u \<noteq> HoldingLost" using assms(3) lock_invD(1) [OF assms(1)] by simp
  assume "ls_pc ?s u \<in> {Holding, RenewExpire, ReleaseDel}"
  then show "redis_get (ls_now ?s) (ls_key ?s) = Some u"
    using assms(2) [of u] assms(4) by (cases "u = w") simp_all
qed

lemma lock_inv_step:
  assumes "lock_step s s'" and "lock_inv s" and "leases_kept s'"
  shows "lock_inv s'"
  using assms(1)
proof cases
  case (acquire w)
  show ?thesis
  proof (cases "redis_get (ls_now s) (ls_key s)")
    case None
    then have out: "ls_pc s v \<notin> {Holding, RenewExpire, ReleaseDel}" for v using lock_invD(2) [OF assms(2), of v] by auto
    show ?thesis unfolding acquire(1) acquire_set_def redis_set_nx_def using None
      by (simp, intro lock_inv_set [OF assms(2) out]) (simp_all add: redis_get_def LOCK_TTL_S_def)
  next
    case (Some v)
    then show ?thesis using acquire lock_inv_move [OF assms(2), of AcquireGet w] by (simp add: acquire_set_def redis_set_nx_def)
  qed
next
  case (acquire2 w)
  then show ?thesis unfolding acquire2(1) acquire_get_def
    by (intro lock_inv_move [OF assms(2)]) (auto split: if_splits)
next
  case (renew w)
  then show ?thesis unfolding renew(1) renew_get_def using lock_invD(2) [OF assms(2), of w]
    by (intro lock_inv_move [OF assms(2)]) (auto split: if_splits)
next
  case (renew2 w)
  have "redis_get (ls_now s) (redis_expire (ls_now s) LOCK_TTL_S (ls_key s)) = Some w"
    using renew2 lock_invD(2) [OF assms(2), of w] by (simp add: redis_expire_def redis_get_def LOCK_TTL_S_def)
  then show ?thesis unfolding renew2(1) renew_expire_def
    using renew2 lock_inv_unique [OF assms(2), of _ w] by (intro lock_inv_set [OF assms(2)]) auto
next
  case (renew_failed w)
  then show ?thesis unfolding renew_failed(1) using lock_invD(2) [OF assms(2), of w]
    by (intro lock_inv_move [OF assms(2)]) auto
next
  case (release w)
  then show ?thesis unfolding release(1) release_get_def
    by (intro lock_inv_move [OF assms(2)]) (auto split: if_splits)
next
  case (release2 w)
  then show ?thesis unfolding release2(1) release_del_def
    using lock_inv_unique [OF assms(2), of _ w] by (intro lock_inv_set [OF assms(2)]) auto
next
  case (crashed w)
  then show ?thesis unfolding crashed(1) crash_def by (intro lock_inv_move [OF assms(2)]) auto
next
  case (tick d)
  have "redis_get (ls_now s') (ls_key s') = Some w" if "ls_pc s w \<in> {Holding, RenewExpire, ReleaseDel}" for w
  proof -
    have "redis_get (ls_now s) (ls_key s) = Some w" using lock_invD(2) [OF assms(2) that] .
    then obtain dl where "ls_key s = Some (w, dl)" by (auto simp: redis_get_def split: option.splits if_splits)
    then show ?thesis using assms(3) that tick by (auto simp: leases_kept_def redis_get_def)
  qed
  then show ?thesis unfolding lock_inv_def using lock_invD(1) [OF assms(2)] tick by simp
qed

lemma timely_inv: "timely_run s \<Longrightarrow> lock_inv s"
proof (induction rule: timely_run.induct)
  case start
  show ?case by (simp add: lock_inv_def lock_init_def)
next
  case (step s s')
  then show ?case using lock_inv_step by blast
qed

text \<open>Once the deadline has passed, whoever asks gets the lock.\<close>

lemma expired_acquire:
  assumes "ls_key s = Some (v, d)" and "d \<le> ls_now s"
  shows "ls_pc (acquire_set w s) w = Holding"
  using assms by (simp add: acquire_set_def redis_set_nx_def redis_get_def)

text \<open>No deadline is ever further away than the time to live.\<close>

lemma lock_run_deadline:
  "lock_run s \<Longrightarrow> ls_key s = Some (v, d) \<Longrightarrow> d \<le> ls_now s + LOCK_TTL_S"
proof (induction arbitrary: v d rule: lock_run.induct)
  case start
  then show ?case by (simp add: lock_init_def)
next
  case (step s s')
  from step.hyps(2) show ?case
    using step.IH step.prems
    by cases
      (auto simp: acquire_set_def redis_set_nx_def acquire_get_def renew_get_def renew_expire_def redis_expire_def
        release_get_def release_del_def crash_def split: if_splits option.splits prod.splits)
qed

section \<open>Properties\<close>

text \<open>
  C20. Exclusion: in every run in which no holder's lease runs out, at most one worker runs the chain,
  and it is the one whose name is in Redis. In every run at all, a lock whose holder has crashed can
  be taken at the latest \<^const>\<open>LOCK_TTL_S\<close> seconds later, if nobody renewed it.
\<close>

theorem lock_excludes:
  "(timely_run s \<and> runs_chain s v \<and> runs_chain s w \<longrightarrow> v = w \<and> redis_get (ls_now s) (ls_key s) = Some w) \<and>
   (lock_run s \<and> LOCK_TTL_S \<le> d \<longrightarrow> ls_pc (acquire_set w (s\<lparr>ls_now := ls_now s + d\<rparr>)) w = Holding)"
proof (intro conjI impI)
  assume run: "timely_run s \<and> runs_chain s v \<and> runs_chain s w"
  then have inv: "lock_inv s" by (simp add: timely_inv)
  have held: "redis_get (ls_now s) (ls_key s) = Some u" if "runs_chain s u" for u
    using lock_invD [OF inv] that unfolding runs_chain_def by blast
  show "redis_get (ls_now s) (ls_key s) = Some w" using run held [of w] by simp
  then show "v = w" using run held [of v] by simp
next
  assume run: "lock_run s \<and> LOCK_TTL_S \<le> d"
  show "ls_pc (acquire_set w (s\<lparr>ls_now := ls_now s + d\<rparr>)) w = Holding"
  proof (cases "ls_key s")
    case None
    then show ?thesis by (simp add: acquire_set_def redis_set_nx_def redis_get_def)
  next
    case (Some vd)
    obtain u dl where "vd = (u, dl)" by (cases vd)
    then show ?thesis
      using Some run lock_run_deadline [of s u dl] expired_acquire [of "s\<lparr>ls_now := ls_now s + d\<rparr>" u dl w] by simp
  qed
qed

theorem lock_excludes_witness:
  "timely_run (acquire_set ''w1'' lock_init) \<and> runs_chain (acquire_set ''w1'' lock_init) ''w1'' \<and>
   redis_get 0 (ls_key (acquire_set ''w1'' lock_init)) = Some ''w1'' \<and>
   ls_pc (acquire_set ''w2'' ((acquire_set ''w1'' lock_init)\<lparr>ls_now := 30\<rparr>)) ''w2'' = Holding"
proof -
  let ?s = "acquire_set ''w1'' lock_init"
  have st: "lock_step lock_init ?s" by (rule lock_step.acquire) (simp add: lock_init_def)
  have s: "?s = \<lparr>ls_now = 0, ls_key = Some (''w1'', 30), ls_pc = (\<lambda>w. Idle)(''w1'' := Holding)\<rparr>"
    by (simp add: acquire_set_def lock_init_def redis_set_nx_def redis_get_def LOCK_TTL_S_def)
  have t: "timely_run ?s" and l: "lock_run ?s"
    using st timely_run.step [OF timely_run.start] lock_run.step [OF lock_run.start] by (auto simp: s leases_kept_def)
  show ?thesis
    using t l lock_excludes [of ?s "''w1''" "''w1''" 30] lock_excludes [of ?s "''w1''" "''w2''" 30]
    by (simp add: s runs_chain_def LOCK_TTL_S_def)
qed

text \<open>
  When a lease does run out, both workers run the chain, and the first goes on doing so after its
  renewal found the lock lost.
\<close>

theorem lost_lock_runs_on:
  "\<exists>s. lock_run s \<and> runs_chain s ''w1'' \<and> runs_chain s ''w2'' \<and> ls_pc s ''w1'' = HoldingLost"
proof -
  define s1 where "s1 = acquire_set ''w1'' lock_init"
  define s2 where "s2 = s1\<lparr>ls_now := ls_now s1 + 31\<rparr>"
  define s3 where "s3 = acquire_set ''w2'' s2"
  define s4 where "s4 = renew_get ''w1'' s3"
  note defs = s1_def s2_def s3_def s4_def acquire_set_def renew_get_def lock_init_def redis_set_nx_def redis_get_def LOCK_TTL_S_def
  have "lock_run s1" unfolding s1_def by (rule lock_run.step [OF lock_run.start], rule lock_step.acquire) (simp add: lock_init_def)
  then have "lock_run s2" unfolding s2_def by (rule lock_run.step, intro lock_step.tick) simp
  then have "lock_run s3" unfolding s3_def by (rule lock_run.step, intro lock_step.acquire) (simp add: defs)
  then have "lock_run s4" unfolding s4_def by (rule lock_run.step, intro lock_step.renew) (simp add: defs)
  moreover have "ls_pc s4 ''w1'' = HoldingLost" "ls_pc s4 ''w2'' = Holding" by (simp_all add: defs)
  ultimately show ?thesis by (auto simp: runs_chain_def)
qed

end
