(* ===== verification/Migrations.thy ===== *)
theory Migrations
  imports Config_Store
begin

text \<open>
  The revisions under \<^verbatim>\<open>migrations/versions\<close> that build the tables, and the tables that \<^verbatim>\<open>core/config/models.py\<close> declares.
  A database is here its schema: tables with columns, keys, references and indexes, the one row of
  \<open>config_version\<close>, and for each table the columns in which some row holds \<open>NULL\<close>. A revision is a pair of lists of schema
  operations; Alembic runs them along the \<open>down_revision\<close> links.

  The lemmas show that running all revisions gives the declared tables but for four columns, and that every revision can be
  undone, with one proviso on the data.
\<close>

section \<open>Schemas\<close>

datatype ColType =
  SaString nat | SaText | SaInteger | SaBigInteger | SaBoolean | SaJSON | SaDateTime | SaEnum string "string list"

datatype ServerDefault = Now | FalseLit | Literal string

record Column =
  co_name :: string
  co_type :: ColType
  co_nullable :: bool
  co_default :: "ServerDefault option"

datatype OnDelete = CASCADE | SET_NULL

record ForeignKey =
  fk_column :: string
  fk_table :: string
  fk_ref :: string
  fk_ondelete :: OnDelete

record Table =
  ta_columns :: "Column list"
  ta_primary_key :: "string list"
  ta_foreign_keys :: "ForeignKey list"
  ta_indexes :: "(string \<times> string) list"
  ta_nulls :: "string list"

record Store =
  st_tables :: "(string, Table) dict"
  st_config_version :: "int option"

definition store_empty :: Store where
  "store_empty = \<lparr>st_tables = [], st_config_version = None\<rparr>"

definition col :: "string \<Rightarrow> ColType \<Rightarrow> Column" where
  "col n t = \<lparr>co_name = n, co_type = t, co_nullable = False, co_default = None\<rparr>"

definition null :: "Column \<Rightarrow> Column" where
  "null c = c\<lparr>co_nullable := True\<rparr>"

definition dflt :: "ServerDefault \<Rightarrow> Column \<Rightarrow> Column" where
  "dflt d c = c\<lparr>co_default := Some d\<rparr>"

definition fkey :: "string \<Rightarrow> string \<Rightarrow> OnDelete \<Rightarrow> ForeignKey" where
  "fkey c t od = \<lparr>fk_column = c, fk_table = t, fk_ref = ''id'', fk_ondelete = od\<rparr>"

definition tab :: "Column list \<Rightarrow> string list \<Rightarrow> ForeignKey list \<Rightarrow> Table" where
  "tab cs pk fks = \<lparr>ta_columns = cs, ta_primary_key = pk, ta_foreign_keys = fks, ta_indexes = [], ta_nulls = []\<rparr>"

definition timestamps :: "Column list" where
  "timestamps = [dflt Now (col ''created_at'' SaDateTime), dflt Now (col ''updated_at'' SaDateTime)]"

section \<open>Schema operations\<close>

datatype SchemaOp =
  CreateTable string Table
| DropTable string
| CreateIndex string string string
| DropIndex string string
| AddColumn string Column
| DropColumn string string
| AlterNullable string string bool
| RenameTable string string
| SeedVersion int int

definition schema_error :: exn where
  "schema_error = ExternalError ''OperationalError''"

definition has_column :: "string \<Rightarrow> Table \<Rightarrow> bool" where
  "has_column c t \<longleftrightarrow> c \<in> set (map co_name (ta_columns t))"

definition alter_table :: "string \<Rightarrow> (Table \<Rightarrow> Table res) \<Rightarrow> Store \<Rightarrow> Store res" where
  "alter_table n f s =
     (case d_get (st_tables s) n of
        None \<Rightarrow> Inl schema_error
      | Some t \<Rightarrow> rbind (f t) (\<lambda>t'. Inr (s\<lparr>st_tables := d_set n t' (st_tables s)\<rparr>)))"

definition referenced :: "string \<Rightarrow> Store \<Rightarrow> bool" where
  "referenced n s \<longleftrightarrow> list_ex (\<lambda>(m, t). m \<noteq> n \<and> list_ex (\<lambda>f. fk_table f = n) (ta_foreign_keys t)) (st_tables s)"

fun exec_op :: "SchemaOp \<Rightarrow> Store \<Rightarrow> Store res" where
  "exec_op (CreateTable n t) s =
     (if d_has (st_tables s) n \<or> \<not> list_all (\<lambda>f. d_has (st_tables s) (fk_table f)) (ta_foreign_keys t) then Inl schema_error
      else Inr (s\<lparr>st_tables := d_set n t (st_tables s)\<rparr>))"
| "exec_op (DropTable n) s =
     (if \<not> d_has (st_tables s) n \<or> referenced n s then Inl schema_error
      else Inr (s\<lparr>st_tables := d_pop n (st_tables s),
                 st_config_version := if n = ''config_version'' then None else st_config_version s\<rparr>))"
| "exec_op (CreateIndex i n c) s =
     alter_table n (\<lambda>t. if has_column c t \<and> i \<notin> fst ` set (ta_indexes t) then Inr (t\<lparr>ta_indexes := ta_indexes t @ [(i, c)]\<rparr>)
                        else Inl schema_error) s"
| "exec_op (DropIndex i n) s =
     alter_table n (\<lambda>t. if i \<in> fst ` set (ta_indexes t) then Inr (t\<lparr>ta_indexes := filter (\<lambda>x. fst x \<noteq> i) (ta_indexes t)\<rparr>)
                        else Inl schema_error) s"
| "exec_op (AddColumn n c) s =
     alter_table n (\<lambda>t. if has_column (co_name c) t then Inl schema_error else Inr (t\<lparr>ta_columns := ta_columns t @ [c]\<rparr>)) s"
| "exec_op (DropColumn n c) s =
     alter_table n (\<lambda>t. if has_column c t
       then Inr (t\<lparr>ta_columns := filter (\<lambda>x. co_name x \<noteq> c) (ta_columns t), ta_nulls := filter (\<lambda>x. x \<noteq> c) (ta_nulls t)\<rparr>)
       else Inl schema_error) s"
| "exec_op (AlterNullable n c b) s =
     alter_table n (\<lambda>t. if \<not> has_column c t then Inl schema_error
       else if \<not> b \<and> c \<in> set (ta_nulls t) then Inl IntegrityError
       else Inr (t\<lparr>ta_columns := map (\<lambda>x. if co_name x = c then x\<lparr>co_nullable := b\<rparr> else x) (ta_columns t)\<rparr>)) s"
| "exec_op (RenameTable n m) s =
     (if \<not> d_has (st_tables s) n \<or> d_has (st_tables s) m then Inl schema_error
      else Inr (s\<lparr>st_tables := map (\<lambda>(k, t). (if k = n then m else k,
                t\<lparr>ta_foreign_keys := map (\<lambda>f. if fk_table f = n then f\<lparr>fk_table := m\<rparr> else f) (ta_foreign_keys t)\<rparr>)) (st_tables s)\<rparr>))"
| "exec_op (SeedVersion i v) s =
     (if \<not> d_has (st_tables s) ''config_version'' then Inl schema_error
      else if st_config_version s \<noteq> None then Inl IntegrityError else Inr (s\<lparr>st_config_version := Some v\<rparr>))"

fun exec_ops :: "SchemaOp list \<Rightarrow> Store \<Rightarrow> Store res" where
  "exec_ops [] s = Inr s"
| "exec_ops (o' # ops) s = rbind (exec_op o' s) (exec_ops ops)"

section \<open>The revisions\<close>

definition upgrade_0001 :: "SchemaOp list" where
  "upgrade_0001 =
    [CreateTable ''abis'' (tab ([col ''id'' (SaString 36), col ''name'' (SaString 255),
       col ''kind'' (SaEnum ''abi_kind'' [''evm_abi'', ''solana_idl'']), col ''body'' SaJSON] @ timestamps) [''id''] []),
     CreateTable ''chains'' (tab ([col ''id'' (SaString 64), col ''kind'' (SaEnum ''chain_kind'' [''evm'', ''solana'']),
       col ''rpc_http'' SaText, null (col ''rpc_ws'' SaText), col ''confirmations'' SaInteger, col ''poll_interval_ms'' SaInteger,
       col ''enabled'' SaBoolean] @ timestamps) [''id''] []),
     CreateTable ''channels'' (tab ([col ''id'' (SaString 36), col ''name'' (SaString 255),
       col ''type'' (SaEnum ''channel_type'' [''mq'', ''http'', ''ws'']), col ''config'' SaJSON] @ timestamps) [''id''] []),
     CreateTable ''config_version'' (tab [col ''id'' SaInteger, col ''version'' SaBigInteger] [''id''] []),
     CreateTable ''checkpoints'' (tab [col ''chain_id'' (SaString 64), col ''last_block'' SaBigInteger,
       col ''last_block_hash'' (SaString 80), dflt Now (col ''updated_at'' SaDateTime)] [''chain_id''] [fkey ''chain_id'' ''chains'' CASCADE]),
     CreateTable ''subscriptions'' (tab ([col ''id'' (SaString 36), col ''name'' (SaString 255), col ''chain_id'' (SaString 64),
       null (col ''address'' (SaString 128)), null (col ''abi_id'' (SaString 36)),
       col ''match_kind'' (SaEnum ''match_kind'' [''native_transfer'', ''token_transfer'', ''event'', ''call'']),
       null (col ''match_name'' (SaString 255)), col ''arg_filters'' SaJSON, col ''enabled'' SaBoolean] @ timestamps) [''id'']
       [fkey ''abi_id'' ''abis'' SET_NULL, fkey ''chain_id'' ''chains'' CASCADE]),
     CreateIndex ''ix_subscriptions_address'' ''subscriptions'' ''address'',
     CreateIndex ''ix_subscriptions_chain_id'' ''subscriptions'' ''chain_id'',
     CreateTable ''subscription_channels'' (tab [col ''subscription_id'' (SaString 36), col ''channel_id'' (SaString 36)]
       [''subscription_id'', ''channel_id''] [fkey ''channel_id'' ''channels'' CASCADE, fkey ''subscription_id'' ''subscriptions'' CASCADE]),
     SeedVersion 1 0]"

definition downgrade_0001 :: "SchemaOp list" where
  "downgrade_0001 =
    [DropTable ''subscription_channels'', DropIndex ''ix_subscriptions_chain_id'' ''subscriptions'',
     DropIndex ''ix_subscriptions_address'' ''subscriptions'', DropTable ''subscriptions'', DropTable ''checkpoints'',
     DropTable ''config_version'', DropTable ''channels'', DropTable ''chains'', DropTable ''abis'']"

definition upgrade_0002 :: "SchemaOp list" where
  "upgrade_0002 = [AddColumn ''chains'' (null (col ''commitment'' (SaString 32))),
     AddColumn ''chains'' (null (col ''trace_internal_calls'' SaBoolean))]"

definition downgrade_0002 :: "SchemaOp list" where
  "downgrade_0002 = [DropColumn ''chains'' ''trace_internal_calls'', DropColumn ''chains'' ''commitment'']"

definition upgrade_0003 :: "SchemaOp list" where
  "upgrade_0003 = [CreateTable ''failed_deliveries'' (tab [col ''id'' (SaString 36), col ''subscription_id'' (SaString 36),
     col ''channel_id'' (SaString 36), col ''chain_id'' (SaString 64), col ''event_payload'' SaJSON, col ''error'' SaText,
     dflt (Literal ''1'') (col ''attempts'' SaInteger), dflt (Literal ''failed'') (col ''status'' (SaString 16)),
     dflt Now (col ''created_at'' SaDateTime), null (col ''resolved_at'' SaDateTime)] [''id''] [])]"

definition downgrade_0003 :: "SchemaOp list" where
  "downgrade_0003 = [DropTable ''failed_deliveries'']"

definition upgrade_0004 :: "SchemaOp list" where
  "upgrade_0004 = [AddColumn ''subscriptions'' (null (col ''start_block'' SaBigInteger))]"

definition downgrade_0004 :: "SchemaOp list" where
  "downgrade_0004 = [DropColumn ''subscriptions'' ''start_block'']"

definition upgrade_0005 :: "SchemaOp list" where
  "upgrade_0005 = [AddColumn ''subscriptions'' (null (col ''last_processed_block'' SaBigInteger)),
     AlterNullable ''failed_deliveries'' ''error'' True]"

definition downgrade_0005 :: "SchemaOp list" where
  "downgrade_0005 = [DropColumn ''subscriptions'' ''last_processed_block'', AlterNullable ''failed_deliveries'' ''error'' False]"

definition upgrade_0006 :: "SchemaOp list" where
  "upgrade_0006 = [AddColumn ''chains'' (dflt (Literal ''100'') (col ''log_query_range_blocks'' SaInteger)),
     AddColumn ''chains'' (dflt (Literal ''1000'') (col ''slot_query_range_blocks'' SaInteger))]"

definition downgrade_0006 :: "SchemaOp list" where
  "downgrade_0006 = [DropColumn ''chains'' ''slot_query_range_blocks'', DropColumn ''chains'' ''log_query_range_blocks'']"

definition upgrade_0007 :: "SchemaOp list" where
  "upgrade_0007 = [RenameTable ''failed_deliveries'' ''delivery_records'']"

definition downgrade_0007 :: "SchemaOp list" where
  "downgrade_0007 = [RenameTable ''delivery_records'' ''failed_deliveries'']"

definition upgrade_0008 :: "SchemaOp list" where
  "upgrade_0008 = [AddColumn ''chains'' (dflt (Literal ''[]'') (col ''rpc_http_fallbacks'' SaJSON)),
     AddColumn ''chains'' (dflt (Literal ''10000'') (col ''rpc_timeout_ms'' SaInteger))]"

definition downgrade_0008 :: "SchemaOp list" where
  "downgrade_0008 = [DropColumn ''chains'' ''rpc_timeout_ms'', DropColumn ''chains'' ''rpc_http_fallbacks'']"

definition upgrade_0009 :: "SchemaOp list" where
  "upgrade_0009 = [AddColumn ''delivery_records'' (dflt FalseLit (col ''is_replay'' SaBoolean))]"

definition downgrade_0009 :: "SchemaOp list" where
  "downgrade_0009 = [DropColumn ''delivery_records'' ''is_replay'']"

definition upgrade_0010 :: "SchemaOp list" where
  "upgrade_0010 = [AddColumn ''subscriptions'' (null (col ''business_name'' (SaString 255)))]"

definition downgrade_0010 :: "SchemaOp list" where
  "downgrade_0010 = [DropColumn ''subscriptions'' ''business_name'']"

record Revision =
  rv_revision :: string
  rv_down_revision :: "string option"
  rv_upgrade :: "SchemaOp list"
  rv_downgrade :: "SchemaOp list"

definition rev_of :: "string \<Rightarrow> string option \<Rightarrow> SchemaOp list \<Rightarrow> SchemaOp list \<Rightarrow> Revision" where
  "rev_of r d up down = \<lparr>rv_revision = r, rv_down_revision = d, rv_upgrade = up, rv_downgrade = down\<rparr>"

definition versions :: "Revision list" where
  "versions =
    [rev_of ''0001'' None upgrade_0001 downgrade_0001, rev_of ''0002'' (Some ''0001'') upgrade_0002 downgrade_0002,
     rev_of ''0003'' (Some ''0002'') upgrade_0003 downgrade_0003, rev_of ''0004'' (Some ''0003'') upgrade_0004 downgrade_0004,
     rev_of ''0005'' (Some ''0004'') upgrade_0005 downgrade_0005, rev_of ''0006'' (Some ''0005'') upgrade_0006 downgrade_0006,
     rev_of ''0007'' (Some ''0006'') upgrade_0007 downgrade_0007, rev_of ''0008'' (Some ''0007'') upgrade_0008 downgrade_0008,
     rev_of ''0009'' (Some ''0008'') upgrade_0009 downgrade_0009, rev_of ''0010'' (Some ''0009'') upgrade_0010 downgrade_0010]"

text \<open>
  \<^verbatim>\<open>alembic upgrade head\<close> follows the links from the current revision; each revision is used at most once, so that the number of revisions is enough fuel.
\<close>

fun revision_path :: "nat \<Rightarrow> Revision list \<Rightarrow> string option \<Rightarrow> Revision list" where
  "revision_path 0 vs cur = []"
| "revision_path (Suc n) vs cur =
     (case List.find (\<lambda>r. rv_down_revision r = cur) vs of None \<Rightarrow> [] | Some r \<Rightarrow> r # revision_path n vs (Some (rv_revision r)))"

fun alembic_upgrade :: "Revision list \<Rightarrow> Store \<Rightarrow> Store res" where
  "alembic_upgrade [] s = Inr s"
| "alembic_upgrade (r # rs) s = rbind (exec_ops (rv_upgrade r) s) (alembic_upgrade rs)"

fun alembic_downgrade :: "Revision list \<Rightarrow> Store \<Rightarrow> Store res" where
  "alembic_downgrade [] s = Inr s"
| "alembic_downgrade (r # rs) s = rbind (exec_ops (rv_downgrade r) s) (alembic_downgrade rs)"

section \<open>The declared tables\<close>

definition chains_table :: Table where
  "chains_table = tab ([col ''id'' (SaString 64), col ''kind'' (SaEnum ''chain_kind'' [''evm'', ''solana'']), col ''rpc_http'' SaText,
     null (col ''rpc_ws'' SaText), col ''confirmations'' SaInteger, col ''poll_interval_ms'' SaInteger, col ''enabled'' SaBoolean,
     null (col ''commitment'' (SaString 32)), null (col ''trace_internal_calls'' SaBoolean),
     dflt (Literal ''100'') (col ''log_query_range_blocks'' SaInteger), dflt (Literal ''1000'') (col ''slot_query_range_blocks'' SaInteger),
     dflt (Literal ''[]'') (col ''rpc_http_fallbacks'' SaJSON), dflt (Literal ''10000'') (col ''rpc_timeout_ms'' SaInteger)] @ timestamps)
     [''id''] []"

definition abis_table :: Table where
  "abis_table = tab ([col ''id'' (SaString 36), col ''name'' (SaString 255),
     col ''kind'' (SaEnum ''abi_kind'' [''evm_abi'', ''solana_idl'']), col ''body'' SaJSON] @ timestamps) [''id''] []"

definition subscriptions_table :: Table where
  "subscriptions_table = (tab ([col ''id'' (SaString 36), col ''name'' (SaString 255), col ''chain_id'' (SaString 64),
     null (col ''address'' (SaString 128)), null (col ''abi_id'' (SaString 36)),
     col ''match_kind'' (SaEnum ''match_kind'' [''native_transfer'', ''token_transfer'', ''event'', ''call'']),
     null (col ''match_name'' (SaString 255)), col ''arg_filters'' SaJSON, col ''enabled'' SaBoolean,
     null (col ''start_block'' SaBigInteger), null (col ''last_processed_block'' SaBigInteger),
     null (col ''business_name'' (SaString 255))] @ timestamps) [''id'']
     [fkey ''chain_id'' ''chains'' CASCADE, fkey ''abi_id'' ''abis'' SET_NULL])
     \<lparr>ta_indexes := [(''ix_subscriptions_chain_id'', ''chain_id''), (''ix_subscriptions_address'', ''address'')]\<rparr>"

definition channel_types :: "string list" where
  "channel_types = [''mq'', ''http'', ''ws'', ''kafka'', ''rabbitmq'']"

definition channels_table :: Table where
  "channels_table = tab ([col ''id'' (SaString 36), col ''name'' (SaString 255), col ''type'' (SaEnum ''channel_type'' channel_types),
     col ''config'' SaJSON] @ timestamps) [''id''] []"

definition subscription_channels_table :: Table where
  "subscription_channels_table = tab [col ''subscription_id'' (SaString 36), col ''channel_id'' (SaString 36)]
     [''subscription_id'', ''channel_id''] [fkey ''subscription_id'' ''subscriptions'' CASCADE, fkey ''channel_id'' ''channels'' CASCADE]"

definition checkpoints_table :: Table where
  "checkpoints_table = tab [col ''chain_id'' (SaString 64), col ''last_block'' SaBigInteger, col ''last_block_hash'' (SaString 80),
     dflt Now (col ''updated_at'' SaDateTime)] [''chain_id''] [fkey ''chain_id'' ''chains'' CASCADE]"

definition config_version_table :: Table where
  "config_version_table = tab [col ''id'' SaInteger, col ''version'' SaBigInteger] [''id''] []"

definition delivery_records_table :: Table where
  "delivery_records_table = tab [col ''id'' (SaString 36), col ''subscription_id'' (SaString 36), col ''channel_id'' (SaString 36),
     col ''chain_id'' (SaString 64), col ''event_payload'' SaJSON, null (col ''error'' SaText), col ''attempts'' SaInteger,
     col ''status'' (SaString 16), dflt Now (col ''created_at'' SaDateTime), null (col ''resolved_at'' SaDateTime),
     dflt (Literal ''0'') (col ''is_replay'' SaBoolean)] [''id''] []"

definition declared :: "(string, Table) dict" where
  "declared = [(''chains'', chains_table), (''abis'', abis_table), (''subscriptions'', subscriptions_table), (''channels'', channels_table),
     (''subscription_channels'', subscription_channels_table), (''checkpoints'', checkpoints_table),
     (''config_version'', config_version_table), (''delivery_records'', delivery_records_table)]"

section \<open>Facts\<close>

text \<open>A schema as sets of facts: columns with type, nullability and server default, keys, references, indexes.\<close>

definition columns_of :: "(string, Table) dict \<Rightarrow> (string \<times> Column) list" where
  "columns_of d = concat (map (\<lambda>(n, t). map (Pair n) (ta_columns t)) d)"

definition keys_of :: "(string, Table) dict \<Rightarrow> (string \<times> string list \<times> ForeignKey set \<times> (string \<times> string) set) list" where
  "keys_of d = map (\<lambda>(n, t). (n, ta_primary_key t, set (ta_foreign_keys t), set (ta_indexes t))) d"

definition head :: Store where
  "head = (case alembic_upgrade (revision_path (length versions) versions None) store_empty of Inr s \<Rightarrow> s | Inl e \<Rightarrow> store_empty)"

lemma path_versions: "revision_path (length versions) versions None = versions"
  by code_simp

lemma head_reached: "alembic_upgrade versions store_empty = Inr head"
proof -
  have "\<not> isl (alembic_upgrade versions store_empty)" by code_simp
  then obtain s where "alembic_upgrade versions store_empty = Inr s" by (cases "alembic_upgrade versions store_empty") auto
  then show ?thesis by (simp add: head_def path_versions)
qed

text \<open>The check that every step of a path can be undone, and what it gives.\<close>

fun undoable :: "Revision list \<Rightarrow> Store \<Rightarrow> bool" where
  "undoable [] s = True"
| "undoable (r # rs) s =
     (case exec_ops (rv_upgrade r) s of Inl e \<Rightarrow> False | Inr s' \<Rightarrow> exec_ops (rv_downgrade r) s' = Inr s \<and> undoable rs s')"

lemma alembic_downgrade_append: "alembic_downgrade (xs @ ys) s = rbind (alembic_downgrade xs s) (alembic_downgrade ys)"
  by (induction xs arbitrary: s) (auto simp: rbind_def split: sum.splits)

lemma undoable_round_trip:
  "undoable rs s \<Longrightarrow> \<exists>s'. alembic_upgrade (take n rs) s = Inr s' \<and> alembic_downgrade (rev (take n rs)) s' = Inr s"
proof (induction rs s arbitrary: n rule: undoable.induct)
  case (2 r rs s)
  then obtain s1 where s1: "exec_ops (rv_upgrade r) s = Inr s1" "exec_ops (rv_downgrade r) s1 = Inr s" "undoable rs s1"
    by (auto split: sum.splits)
  show ?case
  proof (cases n)
    case (Suc m)
    then show ?thesis using 2(1) [OF s1(1,3), of m] s1 by (auto simp: alembic_downgrade_append)
  qed simp
qed simp

lemma versions_undoable: "undoable versions store_empty"
  by code_simp

section \<open>Properties\<close>

text \<open>
  The columns in which the migrated tables and the declared ones differ, each as it is declared and as the revisions leave it:
  the type of a channel is an enumeration without \<^verbatim>\<open>kafka\<close> and \<^verbatim>\<open>rabbitmq\<close>; the attempts and the status of a delivery have
  server defaults that the model does not declare, for the status the opposite of the default the model sets; and the
  replay flag has the same default in another spelling.
\<close>

definition divergent_columns :: "((string \<times> Column) \<times> Column) list" where
  "divergent_columns =
    [((''channels'', col ''type'' (SaEnum ''channel_type'' channel_types)), col ''type'' (SaEnum ''channel_type'' [''mq'', ''http'', ''ws''])),
     ((''delivery_records'', col ''attempts'' SaInteger), dflt (Literal ''1'') (col ''attempts'' SaInteger)),
     ((''delivery_records'', col ''status'' (SaString 16)), dflt (Literal ''failed'') (col ''status'' (SaString 16))),
     ((''delivery_records'', dflt (Literal ''0'') (col ''is_replay'' SaBoolean)), dflt FalseLit (col ''is_replay'' SaBoolean))]"

text \<open>
  The revisions form one line, and running them on an empty database succeeds and gives the declared tables: the same
  columns with the same types, nullability and server defaults, except for the four above; the same primary keys, foreign keys
  with their cascades and indexes. The version row they insert reads as the version of a database that has none.
\<close>

theorem migrations_build_models:
  "alembic_upgrade (revision_path (length versions) versions None) store_empty = Inr head \<and>
   set (columns_of (st_tables head)) =
     set (columns_of declared) - fst ` set divergent_columns \<union> (\<lambda>((t, c), c'). (t, c')) ` set divergent_columns \<and>
   fst ` set divergent_columns \<subseteq> set (columns_of declared) \<and>
   set (keys_of (st_tables head)) = set (keys_of declared) \<and>
   version_get (db\<lparr>db_version := st_config_version head\<rparr>) = version_get (db\<lparr>db_version := None\<rparr>)"
proof (intro conjI)
  show "alembic_upgrade (revision_path (length versions) versions None) store_empty = Inr head"
    by (simp add: path_versions head_reached)
  show "set (columns_of (st_tables head)) =
     set (columns_of declared) - fst ` set divergent_columns \<union> (\<lambda>((t, c), c'). (t, c')) ` set divergent_columns"
    by code_simp
  show "fst ` set divergent_columns \<subseteq> set (columns_of declared)" by code_simp
  show "set (keys_of (st_tables head)) = set (keys_of declared)" by code_simp
  have "st_config_version head = Some 0" by code_simp
  then show "version_get (db\<lparr>db_version := st_config_version head\<rparr>) = version_get (db\<lparr>db_version := None\<rparr>)"
    by (simp add: version_get_def)
qed

text \<open>
  Every revision can be undone: after any number of upgrades from the empty database the downgrades of the same revisions, in
  reverse order, succeed and restore it.
\<close>

theorem migrations_round_trip:
  "\<exists>s. alembic_upgrade (take n (revision_path (length versions) versions None)) store_empty = Inr s \<and>
       alembic_downgrade (rev (take n (revision_path (length versions) versions None))) s = Inr store_empty"
  unfolding path_versions by (rule undoable_round_trip [OF versions_undoable])

text \<open>
  With data it need not: a successful delivery is a record without an error, and once there is one the downgrade of
  revision 0005 cannot make the column mandatory again.
\<close>

lemma downgrade_blocked_by_success:
  "rbind (exec_op (AlterNullable ''delivery_records'' ''error'' True) head)
     (\<lambda>s. alembic_downgrade (rev (drop 4 versions)) (s\<lparr>st_tables := d_set ''delivery_records''
        ((the (d_get (st_tables s) ''delivery_records''))\<lparr>ta_nulls := [''error'']\<rparr>) (st_tables s)\<rparr>)) = Inl IntegrityError"
  by code_simp

text \<open>The labels a database with native enumerations accepts for the type of a channel.\<close>

lemma migrated_channel_types:
  "List.find (\<lambda>c. co_name c = ''type'') (ta_columns (the (d_get (st_tables head) ''channels''))) =
     Some (col ''type'' (SaEnum ''channel_type'' [''mq'', ''http'', ''ws'']))"
  by code_simp

end
