(* ===== verification/Settings.thy ===== *)
theory Settings
  imports Py_Values
begin

text \<open>
  \<^verbatim>\<open>core/settings.py\<close>: the settings of both processes, read from environment variables, a YAML file, a
  dotenv file and secrets. The classes are records with the defaults of the source; the merging of the
  sources, the conversion of single values and the YAML parser belong to libraries and are the parameter
  \<open>SettingsLib\<close>. Environment variables enter as the nested dictionary their prefix and delimiter spell.

  The lemmas say where the value of every field comes from, and what a section that is given in part
  means for the fields that have no default.
\<close>

section \<open>Sections\<close>

record DatabaseSettings =
  ds_url :: string
  ds_echo :: bool

record RedisSettings =
  rd_url :: string

record WorkerSettings =
  ws_default_confirmation_blocks :: int
  ws_default_poll_interval_ms :: int
  ws_notify_concurrency :: int
  ws_config_reload_interval_s :: int
  ws_shutdown_grace_s :: int

record WebSettings =
  wb_host :: string
  wb_port :: int

record LoggingSettings =
  lg_level :: string
  lg_format :: string

record MetricsSettings =
  ms_enabled :: bool
  ms_port :: int

record RpcPoolSettings =
  rp_failure_threshold :: int
  rp_cooldown_s :: real

record DeliveryRecordsSettings =
  de_max_success_rows :: int
  de_cleanup_interval_seconds :: int
  de_cleanup_batch_size :: int

record ReplaySettings =
  re_max_replay_blocks :: int

record Settings =
  st_database :: DatabaseSettings
  st_redis :: RedisSettings
  st_worker :: WorkerSettings
  st_web :: WebSettings
  st_logging :: LoggingSettings
  st_delivery_records :: DeliveryRecordsSettings
  st_metrics :: MetricsSettings
  st_rpc_pool :: RpcPoolSettings
  st_replay :: ReplaySettings

type_synonym source = "(string, pv) dict"

record SettingsLib =
  sl_yaml :: "string \<Rightarrow> pv res"
  sl_str :: "pv \<Rightarrow> string res"
  sl_int :: "pv \<Rightarrow> int res"
  sl_bool :: "pv \<Rightarrow> bool res"
  sl_float :: "pv \<Rightarrow> real res"
  sl_merge :: "source list \<Rightarrow> source"

section \<open>Reading a section\<close>

definition field :: "(pv \<Rightarrow> 'a res) \<Rightarrow> 'a \<Rightarrow> source \<Rightarrow> string \<Rightarrow> 'a res" where
  "field conv deflt fs k = (case d_get fs k of None \<Rightarrow> Inr deflt | Some v \<Rightarrow> conv v)"

definition required :: "(pv \<Rightarrow> 'a res) \<Rightarrow> source \<Rightarrow> string \<Rightarrow> 'a res" where
  "required conv fs k = (case d_get fs k of None \<Rightarrow> Inl ValueError | Some v \<Rightarrow> conv v)"

definition one_of :: "SettingsLib \<Rightarrow> string list \<Rightarrow> pv \<Rightarrow> string res" where
  "one_of L allowed v = rbind (sl_str L v) (\<lambda>s. if s \<in> set allowed then Inr s else Inl ValueError)"

definition database_settings :: "SettingsLib \<Rightarrow> source \<Rightarrow> DatabaseSettings res" where
  "database_settings L fs =
     rbind (required (sl_str L) fs ''url'') (\<lambda>u.
     rbind (field (sl_bool L) False fs ''echo'') (\<lambda>e. Inr \<lparr>ds_url = u, ds_echo = e\<rparr>))"

definition redis_settings :: "SettingsLib \<Rightarrow> source \<Rightarrow> RedisSettings res" where
  "redis_settings L fs = rbind (required (sl_str L) fs ''url'') (\<lambda>u. Inr \<lparr>rd_url = u\<rparr>)"

definition worker_settings :: "SettingsLib \<Rightarrow> source \<Rightarrow> WorkerSettings res" where
  "worker_settings L fs =
     rbind (field (sl_int L) 12 fs ''default_confirmation_blocks'') (\<lambda>a.
     rbind (field (sl_int L) 3000 fs ''default_poll_interval_ms'') (\<lambda>b.
     rbind (field (sl_int L) 50 fs ''notify_concurrency'') (\<lambda>c.
     rbind (field (sl_int L) 5 fs ''config_reload_interval_s'') (\<lambda>d.
     rbind (field (sl_int L) 30 fs ''shutdown_grace_s'') (\<lambda>e.
       Inr \<lparr>ws_default_confirmation_blocks = a, ws_default_poll_interval_ms = b, ws_notify_concurrency = c,
            ws_config_reload_interval_s = d, ws_shutdown_grace_s = e\<rparr>)))))"

definition web_settings :: "SettingsLib \<Rightarrow> source \<Rightarrow> WebSettings res" where
  "web_settings L fs =
     rbind (field (sl_str L) ''0.0.0.0'' fs ''host'') (\<lambda>h.
     rbind (field (sl_int L) 8000 fs ''port'') (\<lambda>p. Inr \<lparr>wb_host = h, wb_port = p\<rparr>))"

definition logging_settings :: "SettingsLib \<Rightarrow> source \<Rightarrow> LoggingSettings res" where
  "logging_settings L fs =
     rbind (field (one_of L [''DEBUG'', ''INFO'', ''WARNING'', ''ERROR'']) ''INFO'' fs ''level'') (\<lambda>l.
     rbind (field (one_of L [''json'', ''console'']) ''json'' fs ''format'') (\<lambda>f. Inr \<lparr>lg_level = l, lg_format = f\<rparr>))"

definition metrics_settings :: "SettingsLib \<Rightarrow> source \<Rightarrow> MetricsSettings res" where
  "metrics_settings L fs =
     rbind (field (sl_bool L) True fs ''enabled'') (\<lambda>e.
     rbind (field (sl_int L) 9091 fs ''port'') (\<lambda>p. Inr \<lparr>ms_enabled = e, ms_port = p\<rparr>))"

definition rpc_pool_settings :: "SettingsLib \<Rightarrow> source \<Rightarrow> RpcPoolSettings res" where
  "rpc_pool_settings L fs =
     rbind (field (sl_int L) 3 fs ''failure_threshold'') (\<lambda>n.
     rbind (field (sl_float L) 30 fs ''cooldown_s'') (\<lambda>c. Inr \<lparr>rp_failure_threshold = n, rp_cooldown_s = c\<rparr>))"

definition delivery_records_settings :: "SettingsLib \<Rightarrow> source \<Rightarrow> DeliveryRecordsSettings res" where
  "delivery_records_settings L fs =
     rbind (field (sl_int L) 50000 fs ''max_success_rows'') (\<lambda>m.
     rbind (field (sl_int L) 300 fs ''cleanup_interval_seconds'') (\<lambda>i.
     rbind (field (sl_int L) 1000 fs ''cleanup_batch_size'') (\<lambda>b.
       Inr \<lparr>de_max_success_rows = m, de_cleanup_interval_seconds = i, de_cleanup_batch_size = b\<rparr>)))"

definition replay_settings :: "SettingsLib \<Rightarrow> source \<Rightarrow> ReplaySettings res" where
  "replay_settings L fs = rbind (field (sl_int L) 10000 fs ''max_replay_blocks'') (\<lambda>m. Inr \<lparr>re_max_replay_blocks = m\<rparr>)"

section \<open>The settings\<close>

text \<open>A section that no source names comes from its \<open>default_factory\<close>.\<close>

definition section_of :: "source \<Rightarrow> string \<Rightarrow> 'a res \<Rightarrow> (source \<Rightarrow> 'a res) \<Rightarrow> 'a res" where
  "section_of d name deflt build =
     (case d_get d name of
        None \<Rightarrow> deflt
      | Some (PDict fs) \<Rightarrow> build fs
      | Some v \<Rightarrow> Inl ValueError)"

definition settings_init :: "SettingsLib \<Rightarrow> source \<Rightarrow> Settings res" where
  "settings_init L d =
     rbind (section_of d ''database'' (Inr \<lparr>ds_url = ''sqlite+aiosqlite:///./chain_indexer.db'', ds_echo = False\<rparr>)
       (database_settings L)) (\<lambda>da.
     rbind (section_of d ''redis'' (Inr \<lparr>rd_url = ''redis://localhost:6379/0''\<rparr>) (redis_settings L)) (\<lambda>rd.
     rbind (section_of d ''worker'' (worker_settings L []) (worker_settings L)) (\<lambda>wk.
     rbind (section_of d ''web'' (web_settings L []) (web_settings L)) (\<lambda>wb.
     rbind (section_of d ''logging'' (logging_settings L []) (logging_settings L)) (\<lambda>lg.
     rbind (section_of d ''delivery_records'' (delivery_records_settings L []) (delivery_records_settings L)) (\<lambda>de.
     rbind (section_of d ''metrics'' (metrics_settings L []) (metrics_settings L)) (\<lambda>me.
     rbind (section_of d ''rpc_pool'' (rpc_pool_settings L []) (rpc_pool_settings L)) (\<lambda>rp.
     rbind (section_of d ''replay'' (replay_settings L []) (replay_settings L)) (\<lambda>re.
       Inr \<lparr>st_database = da, st_redis = rd, st_worker = wk, st_web = wb, st_logging = lg, st_delivery_records = de,
            st_metrics = me, st_rpc_pool = rp, st_replay = re\<rparr>)))))))))"

text \<open>\<open>settings_customise_sources\<close>: the sources in the order of their precedence.\<close>

definition customise_sources :: "source \<Rightarrow> source \<Rightarrow> source \<Rightarrow> source \<Rightarrow> source list" where
  "customise_sources init_settings env_settings dotenv_settings file_secret_settings =
     [env_settings, init_settings, dotenv_settings, file_secret_settings]"

text \<open>\<open>load_settings\<close>: \<open>file\<close> is the text of the file, if there is one.\<close>

definition yaml_base :: "SettingsLib \<Rightarrow> string option \<Rightarrow> source res" where
  "yaml_base L file =
     (case file of
        None \<Rightarrow> Inr []
      | Some text \<Rightarrow>
          rbind (sl_yaml L text) (\<lambda>v.
            if \<not> py_truthy v then Inr [] else case v of PDict d \<Rightarrow> Inr d | _ \<Rightarrow> Inl TypeError))"

definition load_settings :: "SettingsLib \<Rightarrow> string option \<Rightarrow> source \<Rightarrow> source \<Rightarrow> source \<Rightarrow> Settings res" where
  "load_settings L file env dotenv secrets =
     rbind (yaml_base L file) (\<lambda>base. settings_init L (sl_merge L (customise_sources base env dotenv secrets)))"

section \<open>Where a value comes from\<close>

definition at_path :: "source \<Rightarrow> string \<Rightarrow> string \<Rightarrow> pv option" where
  "at_path d sec k = (case d_get d sec of Some (PDict fs) \<Rightarrow> d_get fs k | _ \<Rightarrow> None)"

fun first_given :: "source list \<Rightarrow> string \<Rightarrow> string \<Rightarrow> pv option" where
  "first_given [] sec k = None"
| "first_given (d # ds) sec k = (case at_path d sec k of None \<Rightarrow> first_given ds sec k | Some v \<Rightarrow> Some v)"

text \<open>Every section a source names is a dictionary.\<close>

definition sectioned :: "source \<Rightarrow> bool" where
  "sectioned d \<longleftrightarrow> (\<forall>s v. d_get d s = Some v \<longrightarrow> (\<exists>fs. v = PDict fs))"

text \<open>
  What is documented of the merging: dictionaries are merged key by key, an earlier source wins, and a
  section is there when some source names it.
\<close>

definition merges :: "SettingsLib \<Rightarrow> bool" where
  "merges L \<longleftrightarrow> (\<forall>ds. (\<forall>d \<in> set ds. sectioned d) \<longrightarrow>
     sectioned (sl_merge L ds) \<and> (\<forall>s k. at_path (sl_merge L ds) s k = first_given ds s k) \<and>
     (\<forall>s. d_get (sl_merge L ds) s = None \<longleftrightarrow> (\<forall>d \<in> set ds. d_get d s = None)))"

text \<open>A field's value is what the first source that gives it says, else the default.\<close>

definition field_is :: "(pv \<Rightarrow> 'a res) \<Rightarrow> 'a \<Rightarrow> pv option \<Rightarrow> 'a \<Rightarrow> bool" where
  "field_is conv deflt given x \<longleftrightarrow> (case given of None \<Rightarrow> x = deflt | Some v \<Rightarrow> conv v = Inr x)"

lemma field_Inr: "field conv deflt fs k = Inr x \<longleftrightarrow> field_is conv deflt (d_get fs k) x"
  by (auto simp: field_def field_is_def split: option.splits)

lemma required_Inr: "required conv fs k = Inr x \<longleftrightarrow> (\<exists>v. d_get fs k = Some v \<and> conv v = Inr x)"
  by (auto simp: required_def split: option.splits)

text \<open>A section that is missing reads like an empty one, where every field has a default.\<close>

lemma section_read:
  assumes "section_of d name (build []) build = Inr x" and "sectioned d"
  shows "\<exists>fs. build fs = Inr x \<and> (\<forall>k. d_get fs k = at_path d name k)"
  using assms by (auto simp: section_of_def sectioned_def at_path_def split: option.splits pv.splits)

lemma sources_path:
  assumes "merges L" and "sectioned base" and "sectioned env" and "sectioned dotenv" and "sectioned secrets"
  shows "sectioned (sl_merge L (customise_sources base env dotenv secrets))"
    "at_path (sl_merge L (customise_sources base env dotenv secrets)) s k = first_given [env, base, dotenv, secrets] s k"
    "d_get (sl_merge L (customise_sources base env dotenv secrets)) s = None \<longleftrightarrow>
       d_get env s = None \<and> d_get base s = None \<and> d_get dotenv s = None \<and> d_get secrets s = None"
  using assms unfolding merges_def customise_sources_def by (auto dest!: spec [of _ "[env, base, dotenv, secrets]"])


lemma section_path:
  "sectioned d \<Longrightarrow> d_get d name = Some v \<Longrightarrow> \<exists>fs. v = PDict fs \<and> (\<forall>k. d_get fs k = at_path d name k)"
  by (fastforce simp: sectioned_def at_path_def)

text \<open>The sections all of whose fields have defaults, and the two that need a URL once they are named.\<close>

definition optional_sections_read :: "SettingsLib \<Rightarrow> (string \<Rightarrow> string \<Rightarrow> pv option) \<Rightarrow> Settings \<Rightarrow> bool" where
  "optional_sections_read L g s \<longleftrightarrow>
     field_is (sl_int L) 12 (g ''worker'' ''default_confirmation_blocks'') (ws_default_confirmation_blocks (st_worker s)) \<and>
     field_is (sl_int L) 3000 (g ''worker'' ''default_poll_interval_ms'') (ws_default_poll_interval_ms (st_worker s)) \<and>
     field_is (sl_int L) 50 (g ''worker'' ''notify_concurrency'') (ws_notify_concurrency (st_worker s)) \<and>
     field_is (sl_int L) 5 (g ''worker'' ''config_reload_interval_s'') (ws_config_reload_interval_s (st_worker s)) \<and>
     field_is (sl_int L) 30 (g ''worker'' ''shutdown_grace_s'') (ws_shutdown_grace_s (st_worker s)) \<and>
     field_is (sl_str L) ''0.0.0.0'' (g ''web'' ''host'') (wb_host (st_web s)) \<and>
     field_is (sl_int L) 8000 (g ''web'' ''port'') (wb_port (st_web s)) \<and>
     field_is (one_of L [''DEBUG'', ''INFO'', ''WARNING'', ''ERROR'']) ''INFO'' (g ''logging'' ''level'') (lg_level (st_logging s)) \<and>
     field_is (one_of L [''json'', ''console'']) ''json'' (g ''logging'' ''format'') (lg_format (st_logging s)) \<and>
     field_is (sl_int L) 50000 (g ''delivery_records'' ''max_success_rows'') (de_max_success_rows (st_delivery_records s)) \<and>
     field_is (sl_int L) 300 (g ''delivery_records'' ''cleanup_interval_seconds'') (de_cleanup_interval_seconds (st_delivery_records s)) \<and>
     field_is (sl_int L) 1000 (g ''delivery_records'' ''cleanup_batch_size'') (de_cleanup_batch_size (st_delivery_records s)) \<and>
     field_is (sl_bool L) True (g ''metrics'' ''enabled'') (ms_enabled (st_metrics s)) \<and>
     field_is (sl_int L) 9091 (g ''metrics'' ''port'') (ms_port (st_metrics s)) \<and>
     field_is (sl_int L) 3 (g ''rpc_pool'' ''failure_threshold'') (rp_failure_threshold (st_rpc_pool s)) \<and>
     field_is (sl_float L) 30 (g ''rpc_pool'' ''cooldown_s'') (rp_cooldown_s (st_rpc_pool s)) \<and>
     field_is (sl_int L) 10000 (g ''replay'' ''max_replay_blocks'') (re_max_replay_blocks (st_replay s))"

text \<open>The fields of one section, read through a lookup function.\<close>

lemma worker_read:
  assumes "\<exists>fs. worker_settings L fs = Inr x \<and> (\<forall>k. d_get fs k = g k)"
  shows "field_is (sl_int L) 12 (g ''default_confirmation_blocks'') (ws_default_confirmation_blocks x)"
    "field_is (sl_int L) 3000 (g ''default_poll_interval_ms'') (ws_default_poll_interval_ms x)"
    "field_is (sl_int L) 50 (g ''notify_concurrency'') (ws_notify_concurrency x)"
    "field_is (sl_int L) 5 (g ''config_reload_interval_s'') (ws_config_reload_interval_s x)"
    "field_is (sl_int L) 30 (g ''shutdown_grace_s'') (ws_shutdown_grace_s x)"
  using assms by (auto simp: worker_settings_def rbind_Inr_iff field_Inr)

lemma web_read:
  assumes "\<exists>fs. web_settings L fs = Inr x \<and> (\<forall>k. d_get fs k = g k)"
  shows "field_is (sl_str L) ''0.0.0.0'' (g ''host'') (wb_host x)"
    "field_is (sl_int L) 8000 (g ''port'') (wb_port x)"
  using assms by (auto simp: web_settings_def rbind_Inr_iff field_Inr)

lemma logging_read:
  assumes "\<exists>fs. logging_settings L fs = Inr x \<and> (\<forall>k. d_get fs k = g k)"
  shows "field_is (one_of L [''DEBUG'', ''INFO'', ''WARNING'', ''ERROR'']) ''INFO'' (g ''level'') (lg_level x)"
    "field_is (one_of L [''json'', ''console'']) ''json'' (g ''format'') (lg_format x)"
  using assms by (auto simp: logging_settings_def rbind_Inr_iff field_Inr)

lemma delivery_records_read:
  assumes "\<exists>fs. delivery_records_settings L fs = Inr x \<and> (\<forall>k. d_get fs k = g k)"
  shows "field_is (sl_int L) 50000 (g ''max_success_rows'') (de_max_success_rows x)"
    "field_is (sl_int L) 300 (g ''cleanup_interval_seconds'') (de_cleanup_interval_seconds x)"
    "field_is (sl_int L) 1000 (g ''cleanup_batch_size'') (de_cleanup_batch_size x)"
  using assms by (auto simp: delivery_records_settings_def rbind_Inr_iff field_Inr)

lemma metrics_read:
  assumes "\<exists>fs. metrics_settings L fs = Inr x \<and> (\<forall>k. d_get fs k = g k)"
  shows "field_is (sl_bool L) True (g ''enabled'') (ms_enabled x)"
    "field_is (sl_int L) 9091 (g ''port'') (ms_port x)"
  using assms by (auto simp: metrics_settings_def rbind_Inr_iff field_Inr)

lemma rpc_pool_read:
  assumes "\<exists>fs. rpc_pool_settings L fs = Inr x \<and> (\<forall>k. d_get fs k = g k)"
  shows "field_is (sl_int L) 3 (g ''failure_threshold'') (rp_failure_threshold x)"
    "field_is (sl_float L) 30 (g ''cooldown_s'') (rp_cooldown_s x)"
  using assms by (auto simp: rpc_pool_settings_def rbind_Inr_iff field_Inr)

lemma replay_read:
  assumes "\<exists>fs. replay_settings L fs = Inr x \<and> (\<forall>k. d_get fs k = g k)"
  shows "field_is (sl_int L) 10000 (g ''max_replay_blocks'') (re_max_replay_blocks x)"
  using assms by (auto simp: replay_settings_def rbind_Inr_iff field_Inr)

lemma optional_sections:
  assumes "settings_init L d = Inr s" and "sectioned d"
  shows "optional_sections_read L (at_path d) s"
proof -
  have w: "section_of d ''worker'' (worker_settings L []) (worker_settings L) = Inr (st_worker s)"
    and b: "section_of d ''web'' (web_settings L []) (web_settings L) = Inr (st_web s)"
    and l: "section_of d ''logging'' (logging_settings L []) (logging_settings L) = Inr (st_logging s)"
    and e: "section_of d ''delivery_records'' (delivery_records_settings L []) (delivery_records_settings L) = Inr (st_delivery_records s)"
    and m: "section_of d ''metrics'' (metrics_settings L []) (metrics_settings L) = Inr (st_metrics s)"
    and p: "section_of d ''rpc_pool'' (rpc_pool_settings L []) (rpc_pool_settings L) = Inr (st_rpc_pool s)"
    and r: "section_of d ''replay'' (replay_settings L []) (replay_settings L) = Inr (st_replay s)"
    using assms(1) unfolding settings_init_def by (auto simp: rbind_Inr_iff)
  note read = section_read [OF _ assms(2)]
  show ?thesis
    unfolding optional_sections_read_def
    using worker_read [OF read [OF w]] web_read [OF read [OF b]] logging_read [OF read [OF l]]
      delivery_records_read [OF read [OF e]] metrics_read [OF read [OF m]] rpc_pool_read [OF read [OF p]]
      replay_read [OF read [OF r]]
    by (intro conjI) assumption+
qed

definition required_sections_read :: "SettingsLib \<Rightarrow> (string \<Rightarrow> bool) \<Rightarrow> (string \<Rightarrow> string \<Rightarrow> pv option) \<Rightarrow> Settings \<Rightarrow> bool" where
  "required_sections_read L named g s \<longleftrightarrow>
     (if named ''database''
      then (\<exists>v. g ''database'' ''url'' = Some v \<and> sl_str L v = Inr (ds_url (st_database s))) \<and>
           field_is (sl_bool L) False (g ''database'' ''echo'') (ds_echo (st_database s))
      else st_database s = \<lparr>ds_url = ''sqlite+aiosqlite:///./chain_indexer.db'', ds_echo = False\<rparr>) \<and>
     (if named ''redis''
      then \<exists>v. g ''redis'' ''url'' = Some v \<and> sl_str L v = Inr (rd_url (st_redis s))
      else st_redis s = \<lparr>rd_url = ''redis://localhost:6379/0''\<rparr>)"

lemma required_sections:
  assumes "settings_init L d = Inr s" and "sectioned d"
  shows "required_sections_read L (\<lambda>sec. d_get d sec \<noteq> None) (at_path d) s"
proof -
  let ?url = "\<lparr>ds_url = ''sqlite+aiosqlite:///./chain_indexer.db'', ds_echo = False\<rparr>"
  have d: "section_of d ''database'' (Inr ?url) (database_settings L) = Inr (st_database s)"
    and r: "section_of d ''redis'' (Inr \<lparr>rd_url = ''redis://localhost:6379/0''\<rparr>) (redis_settings L) = Inr (st_redis s)"
    using assms(1) unfolding settings_init_def by (auto simp: rbind_Inr_iff)
  have "if d_get d ''database'' \<noteq> None
      then (\<exists>v. at_path d ''database'' ''url'' = Some v \<and> sl_str L v = Inr (ds_url (st_database s))) \<and>
        field_is (sl_bool L) False (at_path d ''database'' ''echo'') (ds_echo (st_database s))
      else st_database s = ?url"
    using d section_path [OF assms(2), of "''database''"]
    by (cases "st_database s") (auto simp: section_of_def database_settings_def rbind_Inr_iff required_Inr field_Inr split: option.splits)
  moreover have "if d_get d ''redis'' \<noteq> None
      then \<exists>v. at_path d ''redis'' ''url'' = Some v \<and> sl_str L v = Inr (rd_url (st_redis s))
      else st_redis s = \<lparr>rd_url = ''redis://localhost:6379/0''\<rparr>"
    using r section_path [OF assms(2), of "''redis''"]
    by (cases "st_redis s") (auto simp: section_of_def redis_settings_def rbind_Inr_iff required_Inr split: option.splits)
  ultimately show ?thesis by (simp add: required_sections_read_def)
qed

section \<open>Properties\<close>

text \<open>
  Settings that load take every field from the first source that gives it, in the order environment,
  YAML file, dotenv file, secrets, and from the default when none does; a database or Redis section that some
  source names, if only in part, must have its URL from a source too: the default URL stands only when no source names the section.
\<close>

theorem settings_precedence:
  assumes "merges L" and "yaml_base L file = Inr base" and "sectioned base" and "sectioned env" and "sectioned dotenv" and "sectioned secrets"
    and "load_settings L file env dotenv secrets = Inr s"
  shows "optional_sections_read L (first_given [env, base, dotenv, secrets]) s \<and>
    required_sections_read L (\<lambda>sec. \<exists>d \<in> {env, base, dotenv, secrets}. d_get d sec \<noteq> None) (first_given [env, base, dotenv, secrets]) s"
proof -
  let ?d = "sl_merge L (customise_sources base env dotenv secrets)"
  note src = sources_path [OF assms(1,3-6)]
  have path: "at_path ?d = first_given [env, base, dotenv, secrets]" by (intro ext) (rule src(2))
  have named: "(\<lambda>sec. d_get ?d sec \<noteq> None) = (\<lambda>sec. \<exists>d \<in> {env, base, dotenv, secrets}. d_get d sec \<noteq> None)"
    by (intro ext) (simp only: src(3), auto)
  have "settings_init L ?d = Inr s" using assms(2,7) by (simp add: load_settings_def)
  from optional_sections [OF this src(1)] required_sections [OF this src(1)] show ?thesis unfolding path named ..
qed

text \<open>A library that merges by putting the sources' entries in front of each other, and converts what has the right type.\<close>

definition entries :: "source \<Rightarrow> string \<Rightarrow> source" where
  "entries d s = (case d_get d s of Some (PDict fs) \<Rightarrow> fs | _ \<Rightarrow> [])"

definition ex_merge :: "source list \<Rightarrow> source" where
  "ex_merge ds = map (\<lambda>s. (s, PDict (concat (map (\<lambda>d. entries d s) ds)))) (concat (map d_keys ds))"

definition ex_settings_lib :: SettingsLib where
  "ex_settings_lib =
     \<lparr>sl_yaml = (\<lambda>text. Inr (PDict [(''web'', PDict [(''host'', PStr ''localhost''), (''port'', PInt 80)])])),
      sl_str = (\<lambda>v. case v of PStr s \<Rightarrow> Inr s | _ \<Rightarrow> Inl ValueError), sl_int = (\<lambda>v. case v of PInt i \<Rightarrow> Inr i | _ \<Rightarrow> Inl ValueError),
      sl_bool = (\<lambda>v. case v of PBool b \<Rightarrow> Inr b | _ \<Rightarrow> Inl ValueError), sl_float = (\<lambda>v. case v of PFloat x \<Rightarrow> Inr x | _ \<Rightarrow> Inl ValueError),
      sl_merge = ex_merge\<rparr>"

lemma ex_merge_get:
  "d_get (ex_merge ds) s = (if \<exists>d \<in> set ds. d_get d s \<noteq> None then Some (PDict (concat (map (\<lambda>d. entries d s) ds))) else None)"
proof -
  have "d_get (map (\<lambda>s. (s, f s)) ks) s = (if s \<in> set ks then Some (f s) else None)" for f :: "string \<Rightarrow> pv" and ks
    by (induction ks) auto
  moreover have "s \<in> set (concat (map d_keys ds)) \<longleftrightarrow> (\<exists>d \<in> set ds. d_get d s \<noteq> None)"
    by (auto simp: map_of_eq_None_iff image_iff)
  ultimately show ?thesis unfolding ex_merge_def by simp
qed

lemma ex_merge_path: "d_get (concat (map (\<lambda>d. entries d s) ds)) k = first_given ds s k"
  by (induction ds) (auto simp: entries_def at_path_def map_add_def split: option.splits pv.splits)

lemma first_given_None: "\<forall>d \<in> set ds. d_get d s = None \<Longrightarrow> first_given ds s k = None"
  by (induction ds) (simp_all add: at_path_def)

lemma ex_merge_at: "at_path (ex_merge ds) s k = first_given ds s k"
proof (cases "\<exists>d \<in> set ds. d_get d s \<noteq> None")
  case True
  then show ?thesis by (simp add: at_path_def ex_merge_get ex_merge_path)
next
  case False
  then have "first_given ds s k = None" by (intro first_given_None) simp
  with False show ?thesis by (simp add: at_path_def ex_merge_get)
qed

lemma ex_merges: "merges ex_settings_lib"
  by (auto simp: merges_def ex_settings_lib_def ex_merge_at sectioned_def ex_merge_get split: if_splits)

theorem settings_precedence_witness:
  "case load_settings ex_settings_lib (Some ''web: ...'') [(''web'', PDict [(''port'', PInt 81)])] [] [] of
     Inl e \<Rightarrow> False
   | Inr s \<Rightarrow> wb_host (st_web s) = ''localhost'' \<and> wb_port (st_web s) = 81 \<and> ms_port (st_metrics s) = 9091"
proof -
  let ?env = "[(''web'', PDict [(''port'', PInt 81)])]"
  let ?base = "[(''web'', PDict [(''host'', PStr ''localhost''), (''port'', PInt 80)])]"
  have yaml: "yaml_base ex_settings_lib (Some ''web: ...'') = Inr ?base" by (simp add: yaml_base_def ex_settings_lib_def)
  have loads: "\<not> isl (load_settings ex_settings_lib (Some ''web: ...'') ?env [] [])" by code_simp
  then obtain s where s: "load_settings ex_settings_lib (Some ''web: ...'') ?env [] [] = Inr s" by (metis sum.collapse(2))
  have "optional_sections_read ex_settings_lib (first_given [?env, ?base, [], []]) s"
    using settings_precedence [OF ex_merges yaml _ _ _ _ s] by (simp add: sectioned_def split: if_splits)
  then show ?thesis
    unfolding s by (simp add: optional_sections_read_def field_is_def at_path_def ex_settings_lib_def)
qed

text \<open>Naming the database section without a URL, say to switch on \<open>echo\<close>, makes loading fail.\<close>

lemma partial_database_fails:
  assumes "merges L" and "yaml_base L file = Inr base" and "sectioned base" and "sectioned env" and "sectioned dotenv" and "sectioned secrets"
    and "d_get env ''database'' \<noteq> None" and "first_given [env, base, dotenv, secrets] ''database'' ''url'' = None"
  shows "load_settings L file env dotenv secrets = Inl ValueError"
proof -
  let ?d = "sl_merge L (customise_sources base env dotenv secrets)"
  note src = sources_path [OF assms(1,3-6)]
  obtain v where v: "d_get ?d ''database'' = Some v" using assms(7) src(3) [of "''database''"] by auto
  obtain fs where fs: "v = PDict fs" "d_get fs ''url'' = None" using section_path [OF src(1) v] src(2) [of "''database''" "''url''"] assms(8) by auto
  then have "database_settings L fs = Inl ValueError" by (simp add: database_settings_def required_def)
  then show ?thesis using assms(2) v fs by (simp add: load_settings_def settings_init_def section_of_def)
qed

end
