(* ===== verification/Web_Bodies.thy ===== *)
theory Web_Bodies
  imports Web_Api Settings
begin

text \<open>
  The bodies of \<^verbatim>\<open>apps/web/schemas.py\<close> as JSON: how the request models read one, with the default of every
  field, and what the response models write. The conversions of pydantic are the parameter \<open>JsonLib\<close>.

  The lemmas show that what a client reads of a chain, a channel or a subscription it can send back
  unchanged, except for the rows of chains that predate the column for internal calls.
\<close>

section \<open>Reading bodies\<close>

record JsonLib =
  jl_str :: "pv \<Rightarrow> string res"
  jl_int :: "pv \<Rightarrow> int res"
  jl_bool :: "pv \<Rightarrow> bool res"
  jl_filter :: "pv \<Rightarrow> pv res"

definition nullable :: "(pv \<Rightarrow> 'a res) \<Rightarrow> pv \<Rightarrow> 'a option res" where
  "nullable conv v = (if v = PNone then Inr None else rbind (conv v) (\<lambda>x. Inr (Some x)))"

definition listed :: "(pv \<Rightarrow> 'a res) \<Rightarrow> pv \<Rightarrow> 'a list res" where
  "listed conv v = (case v of PList xs \<Rightarrow> rmap conv xs | _ \<Rightarrow> Inl ValueError)"

definition dict_body :: "(pv \<Rightarrow> pv res) \<Rightarrow> pv \<Rightarrow> (string, pv) dict res" where
  "dict_body conv v =
     (case v of PDict d \<Rightarrow> rmap (\<lambda>(k, x). rbind (conv x) (\<lambda>y. Inr (k, y))) d | _ \<Rightarrow> Inl ValueError)"

text \<open>A \<open>Literal\<close>: one of the strings of an enumeration.\<close>

definition literal :: "(string \<times> 'a) list \<Rightarrow> pv \<Rightarrow> 'a res" where
  "literal table v =
     (case v of PStr s \<Rightarrow> (case d_get table s of None \<Rightarrow> Inl ValueError | Some x \<Rightarrow> Inr x) | _ \<Rightarrow> Inl ValueError)"

definition chain_kinds :: "(string \<times> ChainKind) list" where
  "chain_kinds = [(''evm'', CK_evm), (''solana'', CK_solana)]"

definition body_channel_types :: "(string \<times> ChannelType) list" where
  "body_channel_types = [(''mq'', CT_mq), (''http'', CT_http), (''ws'', CT_ws), (''kafka'', CT_kafka), (''rabbitmq'', CT_rabbitmq)]"

definition match_kinds :: "(string \<times> MatchKind) list" where
  "match_kinds = map (\<lambda>k. (kind_str k, k)) [MK_native_transfer, MK_token_transfer, MK_event, MK_call]"

definition read_chain_body :: "JsonLib \<Rightarrow> (string, pv) dict \<Rightarrow> ChainCreate res" where
  "read_chain_body J d =
     rbind (required (jl_str J) d ''id'') (\<lambda>i.
     rbind (required (literal chain_kinds) d ''kind'') (\<lambda>k.
     rbind (required (jl_str J) d ''rpc_http'') (\<lambda>h.
     rbind (field (nullable (jl_str J)) None d ''rpc_ws'') (\<lambda>w.
     rbind (field (jl_int J) 0 d ''confirmations'') (\<lambda>c.
     rbind (field (jl_int J) 3000 d ''poll_interval_ms'') (\<lambda>p.
     rbind (field (nullable (literal [(''confirmed'', ''confirmed''), (''finalized'', ''finalized'')])) None d ''commitment'') (\<lambda>m.
     rbind (field (jl_bool J) False d ''trace_internal_calls'') (\<lambda>t.
     rbind (field (jl_int J) 100 d ''log_query_range_blocks'') (\<lambda>l.
     rbind (field (jl_int J) 1000 d ''slot_query_range_blocks'') (\<lambda>s.
     rbind (field (listed (jl_str J)) [] d ''rpc_http_fallbacks'') (\<lambda>f.
     rbind (field (jl_int J) 10000 d ''rpc_timeout_ms'') (\<lambda>o'.
     rbind (field (jl_bool J) True d ''enabled'') (\<lambda>e.
       Inr \<lparr>pc_id = i, pc_kind = k, pc_rpc_http = h, pc_rpc_ws = w, pc_confirmations = c, pc_poll_interval_ms = p,
            pc_commitment = m, pc_trace_internal_calls = t, pc_log_query_range_blocks = l, pc_slot_query_range_blocks = s,
            pc_rpc_http_fallbacks = f, pc_rpc_timeout_ms = o', pc_enabled = e\<rparr>)))))))))))))"

definition read_channel_body :: "JsonLib \<Rightarrow> (string, pv) dict \<Rightarrow> ChannelCreate res" where
  "read_channel_body J d =
     rbind (required (jl_str J) d ''name'') (\<lambda>n.
     rbind (required (literal body_channel_types) d ''type'') (\<lambda>t.
     rbind (field (dict_body Inr) [] d ''config'') (\<lambda>c. Inr \<lparr>pn_name = n, pn_type = t, pn_config = c\<rparr>)))"

definition read_subscription_body :: "JsonLib \<Rightarrow> (string, pv) dict \<Rightarrow> SubscriptionCreate res" where
  "read_subscription_body J d =
     rbind (required (jl_str J) d ''name'') (\<lambda>n.
     rbind (field (nullable (jl_str J)) None d ''business_name'') (\<lambda>b.
     rbind (required (jl_str J) d ''chain_id'') (\<lambda>c.
     rbind (field (nullable (jl_str J)) None d ''address'') (\<lambda>a.
     rbind (field (nullable (jl_str J)) None d ''abi_id'') (\<lambda>i.
     rbind (required (literal match_kinds) d ''match_kind'') (\<lambda>k.
     rbind (field (nullable (jl_str J)) None d ''match_name'') (\<lambda>m.
     rbind (field (dict_body (jl_filter J)) [] d ''arg_filters'') (\<lambda>f.
     rbind (field (nullable (jl_int J)) None d ''start_block'') (\<lambda>s.
     rbind (field (jl_bool J) True d ''enabled'') (\<lambda>e.
       Inr \<lparr>ps_name = n, ps_business_name = b, ps_chain_id = c, ps_address = a, ps_abi_id = i, ps_match_kind = k,
            ps_match_name = m, ps_arg_filters = f, ps_start_block = s, ps_enabled = e\<rparr>))))))))))"

section \<open>Writing bodies\<close>

fun json_opt :: "('a \<Rightarrow> pv) \<Rightarrow> 'a option \<Rightarrow> pv" where
  "json_opt f None = PNone"
| "json_opt f (Some x) = f x"

fun chain_kind_str :: "ChainKind \<Rightarrow> string" where
  "chain_kind_str CK_evm = ''evm''"
| "chain_kind_str CK_solana = ''solana''"

definition chain_out :: "Chain \<Rightarrow> (string, pv) dict" where
  "chain_out c =
     [(''id'', PStr (ch_id c)), (''kind'', PStr (chain_kind_str (ch_kind c))), (''rpc_http'', PStr (ch_rpc_http c)),
      (''rpc_ws'', json_opt PStr (ch_rpc_ws c)), (''confirmations'', PInt (ch_confirmations c)),
      (''poll_interval_ms'', PInt (ch_poll_interval_ms c)), (''commitment'', json_opt PStr (ch_commitment c)),
      (''trace_internal_calls'', json_opt PBool (ch_trace_internal_calls c)),
      (''log_query_range_blocks'', PInt (ch_log_query_range_blocks c)),
      (''slot_query_range_blocks'', PInt (ch_slot_query_range_blocks c)),
      (''rpc_http_fallbacks'', PList (map PStr (ch_rpc_http_fallbacks c))), (''rpc_timeout_ms'', PInt (ch_rpc_timeout_ms c)),
      (''enabled'', PBool (ch_enabled c))]"

definition channel_out :: "Config_Store.Channel \<Rightarrow> (string, pv) dict" where
  "channel_out c =
     [(''id'', PStr (cn_id c)), (''name'', PStr (cn_name c)), (''type'', PStr (channel_type_str (cn_type c))),
      (''config'', PDict (cn_config c))]"

definition subscription_out :: "Subscription \<Rightarrow> (string, pv) dict" where
  "subscription_out s =
     [(''id'', PStr (su_id s)), (''name'', PStr (su_name s)), (''business_name'', json_opt PStr (su_business_name s)),
      (''chain_id'', PStr (su_chain_id s)), (''address'', json_opt PStr (su_address s)), (''abi_id'', json_opt PStr (su_abi_id s)),
      (''match_kind'', PStr (kind_str (su_match_kind s))), (''match_name'', json_opt PStr (su_match_name s)),
      (''arg_filters'', PDict (su_arg_filters s)), (''start_block'', json_opt PInt (su_start_block s)),
      (''last_processed_block'', json_opt PInt (su_last_processed_block s)), (''enabled'', PBool (su_enabled s))]"

definition subscription_detail :: "Subscription \<times> string list \<Rightarrow> (string, pv) dict" where
  "subscription_detail d = subscription_out (fst d) @ [(''channel_ids'', PList (map PStr (snd d)))]"

definition abi_out :: "Abi \<Rightarrow> (string, pv) dict" where
  "abi_out a =
     [(''id'', PStr (ab_id a)), (''name'', PStr (ab_name a)),
      (''kind'', PStr (case ab_kind a of AK_evm_abi \<Rightarrow> ''evm_abi'' | AK_solana_idl \<Rightarrow> ''solana_idl'')), (''body'', ab_body a)]"

section \<open>Round trips\<close>

text \<open>What pydantic documents: a value that has the declared type already is taken as it is.\<close>

definition faithful :: "JsonLib \<Rightarrow> bool" where
  "faithful J \<longleftrightarrow> (\<forall>s. jl_str J (PStr s) = Inr s) \<and> (\<forall>n. jl_int J (PInt n) = Inr n) \<and> (\<forall>b. jl_bool J (PBool b) = Inr b) \<and>
     (\<forall>v. arg_filter_value v \<longrightarrow> jl_filter J v = Inr v)"

lemma nullable_json: "(\<And>x. conv (f x) = Inr x) \<Longrightarrow> (\<And>x. f x \<noteq> PNone) \<Longrightarrow> nullable conv (json_opt f v) = Inr v"
  by (cases v) (auto simp: nullable_def)

lemma rmap_map_id: "(\<And>x. x \<in> set xs \<Longrightarrow> conv (f x) = Inr x) \<Longrightarrow> rmap conv (map f xs) = Inr xs"
  by (induction xs) auto

lemma listed_json: "(\<And>x. conv (f x) = Inr x) \<Longrightarrow> listed conv (PList (map f xs)) = Inr xs"
  by (simp add: listed_def rmap_map_id)

lemma dict_body_id: "(\<And>k v. (k, v) \<in> set d \<Longrightarrow> conv v = Inr v) \<Longrightarrow> dict_body conv (PDict d) = Inr d"
proof -
  assume conv: "\<And>k v. (k, v) \<in> set d \<Longrightarrow> conv v = Inr v"
  have "rmap (\<lambda>(k, x). rbind (conv x) (\<lambda>y. Inr (k, y))) (map id d) = Inr d"
    by (rule rmap_map_id) (auto simp: conv)
  then show ?thesis by (simp add: dict_body_def)
qed

lemma literal_kinds:
  "literal chain_kinds (PStr (chain_kind_str k)) = Inr k" "literal match_kinds (PStr (kind_str m)) = Inr m"
  "literal body_channel_types (PStr (channel_type_str t)) = Inr t"
  by (cases k; cases m; cases t; simp add: literal_def chain_kinds_def match_kinds_def body_channel_types_def)+

lemma literal_commitment:
  "c \<in> {None, Some ''confirmed'', Some ''finalized''} \<Longrightarrow>
     nullable (literal [(''confirmed'', ''confirmed''), (''finalized'', ''finalized'')]) (json_opt PStr c) = Inr c"
  by (auto simp: nullable_def literal_def)

lemma read_chain_out:
  assumes "faithful J" and "ch_trace_internal_calls c = Some t" and "ch_commitment c \<in> {None, Some ''confirmed'', Some ''finalized''}"
  shows "read_chain_body J (chain_out c) =
    Inr \<lparr>pc_id = ch_id c, pc_kind = ch_kind c, pc_rpc_http = ch_rpc_http c, pc_rpc_ws = ch_rpc_ws c,
      pc_confirmations = ch_confirmations c, pc_poll_interval_ms = ch_poll_interval_ms c, pc_commitment = ch_commitment c,
      pc_trace_internal_calls = t, pc_log_query_range_blocks = ch_log_query_range_blocks c,
      pc_slot_query_range_blocks = ch_slot_query_range_blocks c, pc_rpc_http_fallbacks = ch_rpc_http_fallbacks c,
      pc_rpc_timeout_ms = ch_rpc_timeout_ms c, pc_enabled = ch_enabled c\<rparr>"
proof -
  have J: "jl_str J (PStr s) = Inr s" "jl_int J (PInt n) = Inr n" "jl_bool J (PBool b) = Inr b" for s n b
    using assms(1) by (simp_all add: faithful_def)
  note ws = nullable_json [of "jl_str J" PStr, OF J(1)] and fb = listed_json [of "jl_str J" PStr, OF J(1)]
  show ?thesis
    by (simp add: read_chain_body_def chain_out_def required_def field_def J ws fb literal_kinds literal_commitment [OF assms(3)] assms(2))
qed

lemma read_subscription_out:
  assumes "faithful J" and "filter_shape_ok (su_arg_filters s)"
  shows "read_subscription_body J (subscription_out s) =
    Inr \<lparr>ps_name = su_name s, ps_business_name = su_business_name s, ps_chain_id = su_chain_id s, ps_address = su_address s,
      ps_abi_id = su_abi_id s, ps_match_kind = su_match_kind s, ps_match_name = su_match_name s,
      ps_arg_filters = su_arg_filters s, ps_start_block = su_start_block s, ps_enabled = su_enabled s\<rparr>"
proof -
  have J: "jl_str J (PStr x) = Inr x" "jl_int J (PInt n) = Inr n" "jl_bool J (PBool b) = Inr b" for x n b
    using assms(1) by (simp_all add: faithful_def)
  note strs = nullable_json [of "jl_str J" PStr, OF J(1)] and ints = nullable_json [of "jl_int J" PInt, OF J(2)]
  have filters: "dict_body (jl_filter J) (PDict (su_arg_filters s)) = Inr (su_arg_filters s)"
    using assms by (intro dict_body_id) (auto simp: faithful_def filter_shape_ok_def list_all_iff)
  show ?thesis
    by (simp add: read_subscription_body_def subscription_out_def required_def field_def J strs ints filters literal_kinds)
qed

lemma read_channel_out:
  assumes "faithful J"
  shows "read_channel_body J (channel_out c) = Inr \<lparr>pn_name = cn_name c, pn_type = cn_type c, pn_config = cn_config c\<rparr>"
  using assms dict_body_id [of "cn_config c" Inr]
  by (simp add: faithful_def read_channel_body_def channel_out_def required_def field_def literal_kinds)

lemma business_name_idem: "normalize_business_name (normalize_business_name b) = normalize_business_name b"
  by (auto simp: normalize_business_name_def Let_def strip_idem split: option.splits)

lemma subscription_model_idem:
  assumes "subscription_create_model s0 = Inr s"
  shows "subscription_create_model s = Inr s" "filter_shape_ok (ps_arg_filters s)"
proof -
  have s_eq: "s = s0\<lparr>ps_business_name := normalize_business_name (ps_business_name s0)\<rparr>"
    and valid: "str_between 1 255 (ps_name s0)" "filter_shape_ok (ps_arg_filters s0)"
      "\<not> (\<exists>x \<in> set_option (normalize_business_name (ps_business_name s0)). 255 < length x)"
      "check_operator_grammar (ps_arg_filters s0) = Inr (ps_arg_filters s0)"
    using assms by (auto simp: subscription_create_model_def Let_def rbind_Inr_iff check_operator_grammar_def split: if_splits sum.splits)
  show "subscription_create_model s = Inr s"
    using valid by (simp add: s_eq subscription_create_model_def business_name_idem Let_def)
  show "filter_shape_ok (ps_arg_filters s)" using valid(2) by (simp add: s_eq)
qed

section \<open>Properties\<close>

text \<open>
  C21. What the API has stored it takes back: the answer to reading a chain, a subscription (at any progress) or a channel
  made from an accepted body, sent as the body of a \<open>PUT\<close>, is read, passes validation unchanged and leaves the row
  as it is.
\<close>

theorem get_put_unchanged:
  assumes "faithful J" and "chain_create_model p0 = Inr p" and "subscription_create_model s0 = Inr s"
    and "channel_create_model c0 = Inr c"
    and row_def: "row = chain_row p" and srow_def: "srow = (sub_row i s)\<lparr>su_last_processed_block := n\<rparr>"
    and crow_def: "crow = \<lparr>cn_id = j, cn_name = pn_name c, cn_type = pn_type c, cn_config = pn_config c\<rparr>"
  shows "(\<exists>q. read_chain_body J (chain_out row) = Inr q \<and> chain_create_model q = Inr q \<and> chain_assign q row = row) \<and>
    (\<exists>q. read_subscription_body J (subscription_out srow) = Inr q \<and> subscription_create_model q = Inr q \<and> sub_assign q srow = srow) \<and>
    (\<exists>q. read_channel_body J (channel_out crow) = Inr q \<and> channel_create_model q = Inr q \<and> channel_assign q crow = crow)"
proof (intro conjI)
  have again: "chain_create_model p = Inr p" and ok: "chain_fields_ok p" using chain_body_normal [OF assms(2)] by blast+
  have "read_chain_body J (chain_out row) = Inr p"
    using read_chain_out [OF assms(1), of row "pc_trace_internal_calls p"] ok
    by (cases "pc_commitment p") (auto simp: row_def chain_row_def chain_fields_ok_def)
  then show "\<exists>q. read_chain_body J (chain_out row) = Inr q \<and> chain_create_model q = Inr q \<and> chain_assign q row = row"
    using again by (simp add: row_def chain_assign_def chain_row_def)
  note s = subscription_model_idem [OF assms(3)]
  have "read_subscription_body J (subscription_out srow) = Inr s"
    using read_subscription_out [OF assms(1), of srow] s(2) by (simp add: srow_def sub_row_def)
  then show "\<exists>q. read_subscription_body J (subscription_out srow) = Inr q \<and> subscription_create_model q = Inr q \<and> sub_assign q srow = srow"
    using s(1) by (simp add: srow_def sub_assign_def sub_row_def)
  have "channel_create_model c = Inr c" using assms(4) by (auto simp: channel_create_model_def split: if_splits)
  moreover have "read_channel_body J (channel_out crow) = Inr c" using read_channel_out [OF assms(1), of crow] by (simp add: crow_def)
  ultimately show "\<exists>q. read_channel_body J (channel_out crow) = Inr q \<and> channel_create_model q = Inr q \<and> channel_assign q crow = crow"
    by (auto simp: crow_def channel_assign_def)
qed

definition ex_json :: JsonLib where
  "ex_json = \<lparr>jl_str = (\<lambda>v. case v of PStr s \<Rightarrow> Inr s | _ \<Rightarrow> Inl ValueError), jl_int = (\<lambda>v. case v of PInt n \<Rightarrow> Inr n | _ \<Rightarrow> Inl ValueError),
     jl_bool = (\<lambda>v. case v of PBool b \<Rightarrow> Inr b | _ \<Rightarrow> Inl ValueError), jl_filter = Inr\<rparr>"

theorem get_put_unchanged_witness:
  "\<exists>p s. chain_create_model ex_chain_body = Inr p \<and> subscription_create_model ex_sub_body = Inr s \<and>
     (\<exists>q. read_chain_body ex_json (chain_out (chain_row p)) = Inr q \<and> chain_assign q (chain_row p) = chain_row p) \<and>
     (\<exists>q. read_subscription_body ex_json (subscription_out ((sub_row ''s1'' s)\<lparr>su_last_processed_block := Some 9\<rparr>)) = Inr q)"
proof -
  have J: "faithful ex_json" by (simp add: faithful_def ex_json_def)
  have "\<not> isl (chain_create_model ex_chain_body)" "\<not> isl (subscription_create_model ex_sub_body)" by code_simp+
  then obtain p s where p: "chain_create_model ex_chain_body = Inr p" and s: "subscription_create_model ex_sub_body = Inr s"
    by (metis sum.collapse(2))
  have c: "channel_create_model \<lparr>pn_name = ''c'', pn_type = CT_http, pn_config = []\<rparr> = Inr \<lparr>pn_name = ''c'', pn_type = CT_http, pn_config = []\<rparr>"
    by code_simp
  from get_put_unchanged [where i = "''s1''" and n = "Some 9", OF J p s c refl refl refl] p s show ?thesis by blast
qed

text \<open>
  A chain row without a value for internal calls, as rows older than the column have, is answered with a
  null, which the request model does not take.
\<close>

lemma null_trace_not_accepted:
  assumes "ch_trace_internal_calls c = None" and "jl_bool J PNone = Inl e"
  shows "\<exists>e'. read_chain_body J (chain_out c) = Inl e'"
proof -
  have "field (jl_bool J) False (chain_out c) ''trace_internal_calls'' = Inl e"
    using assms by (simp add: field_def chain_out_def)
  then show ?thesis unfolding read_chain_body_def by (auto simp: rbind_def split: sum.splits)
qed

end
