(* ===== verification/Lifecycle.thy ===== *)
theory Lifecycle
  imports Worker Redis_Bus
begin

text \<open>
  The life of a worker process: \<open>_Worker.start\<close>, \<open>_Worker.shutdown\<close> and \<open>run_worker\<close> of
  \<^verbatim>\<open>apps/worker/main.py\<close>, with the database handle of \<^verbatim>\<open>core/config/db.py\<close>, the \<open>stop\<close> methods of the two
  watchers and of the chain runner, and what each of them gets and gives back.

  What the outside answers (the engine, the Redis client, the port of the metrics server) and how a
  cancelled task ends are the parameter \<open>LifeEnv\<close>. The state holds the replays under
  way, whose tasks nothing keeps. The lemmas show that a process that ends gives back the rest in the right order, however far its
  start got, when what it closes raises nothing and no reconciliation is under way; and what is left in the other cases.
\<close>

section \<open>The database handle\<close>

text \<open>The engine and the session maker are set and cleared together.\<close>

record Database =
  da_engine :: bool

definition database_init :: Database where
  "database_init = \<lparr>da_engine = False\<rparr>"

definition database_connect :: "unit res \<Rightarrow> Database \<Rightarrow> unit res \<times> Database" where
  "database_connect created d =
     (case created of Inl e \<Rightarrow> (Inl e, d) | Inr u \<Rightarrow> (Inr (), d\<lparr>da_engine := True\<rparr>))"

definition database_disconnect :: "unit res \<Rightarrow> Database \<Rightarrow> unit res \<times> Database" where
  "database_disconnect disposed d =
     (if \<not> da_engine d then (Inr (), d)
      else case disposed of Inl e \<Rightarrow> (Inl e, d) | Inr u \<Rightarrow> (Inr (), d\<lparr>da_engine := False\<rparr>))"

text \<open>\<open>session\<close>: the body runs in a session of its own; what it raises passes through.\<close>

definition database_session :: "Database \<Rightarrow> 'a res \<Rightarrow> 'a res" where
  "database_session d body = (if da_engine d then body else Inl AssertionError)"

section \<open>Connections\<close>

text \<open>
  What \<open>shutdown\<close> and the web process rely on of both handles: opening that succeeds leaves the connection up, closing
  that succeeds leaves it down, a failed closing changes nothing, and closing what is down is no error.
\<close>

locale connection =
  fixes up :: "'c \<Rightarrow> bool" and open_with :: "'a \<Rightarrow> 'c \<Rightarrow> unit res \<times> 'c" and close_with :: "unit res \<Rightarrow> 'c \<Rightarrow> unit res \<times> 'c"
  assumes opened: "open_with a c = (Inr (), c') \<Longrightarrow> up c'"
    and shut: "close_with (Inr ()) c = (r, c') \<Longrightarrow> r = Inr () \<and> \<not> up c'"
    and close_failed: "close_with answer c = (Inl e, c') \<Longrightarrow> c' = c \<and> up c \<and> answer = Inl e"
    and close_idle: "\<not> up c \<Longrightarrow> close_with answer c = (Inr (), c)"
begin

lemma close_twice: "close_with (Inr ()) c = (r, c') \<Longrightarrow> close_with answer c' = (Inr (), c')"
  using shut close_idle by blast

lemma retry_close: "close_with answer c = (Inl e, c') \<Longrightarrow> \<not> up (snd (close_with (Inr ()) c'))"
  using shut by (metis prod.collapse)

end

interpretation database: connection da_engine database_connect database_disconnect
  by unfold_locales (auto simp: database_connect_def database_disconnect_def split: sum.splits if_splits)

interpretation bus: connection rb_client "\<lambda>(opened, ping). bus_connect opened ping" bus_disconnect
  by unfold_locales
    (auto simp: bus_connect_def bus_disconnect_def rbind_Inr_iff split: sum.splits if_splits)

text \<open>Both handles may be disconnected again, whatever the engine or the client would answer then.\<close>

lemma disconnect_guarded:
  "database_disconnect (Inr ()) d = (r, d') \<Longrightarrow> database_disconnect answer d' = (Inr (), d')"
  "bus_disconnect (Inr ()) b = (r, b') \<Longrightarrow> bus_disconnect answer b' = (Inr (), b')"
  by (rule database.close_twice, assumption) (rule bus.close_twice, assumption)

section \<open>Stopping a runner\<close>

text \<open>
  \<open>ChainRunner.stop\<close>. \<open>timed_out\<close> is \<open>Some k\<close> when the notifier had stopped \<open>k\<close> channels as the grace period
  ended: it is cancelled there and keeps its channels. A failing disconnect of the adapter is logged.
  The second component lists the channels that were stopped, the third what the adapter answered.
\<close>

definition runner_stop ::
  "(Channels.Channel \<Rightarrow> unit res) \<Rightarrow> nat option \<Rightarrow> unit res \<Rightarrow> ChainRunner \<Rightarrow> ChainRunner \<times> string list \<times> unit res" where
  "runner_stop clo timed_out disconnected r =
     (case timed_out of
        Some k \<Rightarrow> (r, take k (d_keys (nt_channels (cr_notifier r))), disconnected)
      | None \<Rightarrow> (r\<lparr>cr_notifier := snd (notifier_stop clo (cr_notifier r))\<rparr>, d_keys (nt_channels (cr_notifier r)), disconnected))"

section \<open>The process\<close>

text \<open>
  A watcher's tasks and the clean-up task are present (\<open>True\<close>) from their creation until they have been
  cancelled and awaited. \<open>pr_watcher\<close> and \<open>pr_replay\<close> are \<open>None\<close> as long as the watcher was not made.
  \<open>pr_replays\<close> are the replays under way, each with its chain and its request: \<open>_on_replay_request\<close> creates
  their tasks and keeps no reference to them.
\<close>

record Process =
  pr_stopping :: bool
  pr_database :: Database
  pr_bus :: RedisBus
  pr_log_client :: bool
  pr_watcher :: "bool option"
  pr_replay :: "bool option"
  pr_metrics_up :: bool
  pr_cleanup :: bool
  pr_worker :: Worker
  pr_replays :: "(string \<times> (string, pv) dict) list"

definition process_init :: Process where
  "process_init =
     \<lparr>pr_stopping = False, pr_database = database_init, pr_bus = bus_init, pr_log_client = False,
      pr_watcher = None, pr_replay = None, pr_metrics_up = False, pr_cleanup = False, pr_worker = worker_init,
      pr_replays = []\<rparr>"

text \<open>
  \<open>le_metrics\<close> is \<open>None\<close> when metrics are switched off, else what opening the port answers.
  \<open>le_sub_end\<close>, \<open>le_poll_end\<close> and \<open>le_replay_end\<close> are the exceptions the cancelled tasks of the watchers end
  with; \<open>None\<close> stands for a task that returned or was cancelled. \<open>le_release\<close> is what Redis answers the release of a
  chain's lock during the shutdown.
\<close>

record LifeEnv =
  le_engine :: "unit res"
  le_open :: "unit res"
  le_ping :: "bool res"
  le_metrics :: "unit res option"
  le_sub_end :: "exn option"
  le_poll_end :: "exn option"
  le_replay_end :: "exn option"
  le_release :: "string \<Rightarrow> unit res"
  le_aclose :: "unit res"
  le_dispose :: "unit res"

text \<open>\<open>start\<close>: the initial load of the configuration never raises, and creating a task does not either.\<close>

definition worker_start :: "LifeEnv \<Rightarrow> Process \<Rightarrow> exn option \<times> Process" where
  "worker_start env p =
     (case database_connect (le_engine env) (pr_database p) of
        (Inl e, d) \<Rightarrow> (Some e, p\<lparr>pr_database := d\<rparr>)
      | (Inr u, d) \<Rightarrow>
          (case bus_connect (le_open env) (le_ping env) (pr_bus p) of
             (Inl e, b) \<Rightarrow> (Some e, p\<lparr>pr_database := d, pr_bus := b\<rparr>)
           | (Inr u, b) \<Rightarrow>
               let p1 = p\<lparr>pr_database := d, pr_bus := b, pr_log_client := True, pr_watcher := Some True, pr_replay := Some True\<rparr>
               in case le_metrics env of
                    Some (Inl e) \<Rightarrow> (Some e, p1)
                  | Some (Inr u) \<Rightarrow> (None, p1\<lparr>pr_metrics_up := True, pr_cleanup := True\<rparr>)
                  | None \<Rightarrow> (None, p1\<lparr>pr_cleanup := True\<rparr>)))"

text \<open>\<open>ConfigWatcher.stop\<close>: each task is cancelled and awaited, and what it raises is logged.\<close>

fun await_logged :: "exn option list \<Rightarrow> exn list" where
  "await_logged [] = []"
| "await_logged (None # rest) = await_logged rest"
| "await_logged (Some e # rest) = e # await_logged rest"

definition config_watcher_stop :: "exn option \<Rightarrow> exn option \<Rightarrow> bool \<Rightarrow> exn list \<times> bool" where
  "config_watcher_stop sub_end poll_end tasks =
     (if tasks then (await_logged [sub_end, poll_end], False) else ([], False))"

text \<open>\<open>ReplayWatcher.stop\<close>: only the cancellation is suppressed.\<close>

definition replay_watcher_stop :: "exn option \<Rightarrow> bool \<Rightarrow> exn option \<times> bool" where
  "replay_watcher_stop task_end task =
     (if \<not> task then (None, False) else case task_end of Some e \<Rightarrow> (Some e, True) | None \<Rightarrow> (None, False))"

datatype Teardown = StopRunner string | ReleaseLock string "unit res" | CloseBus | DisposeEngine

text \<open>
  \<open>shutdown\<close>. While it waits for the runners to stop, the main loop may still be inside a reconciliation:
  \<open>late\<close> is the rest of its second loop, if any. The trace lists what was stopped and closed, a release with its
  answer. The replays under way are neither awaited nor cancelled.
\<close>

definition worker_shutdown ::
  "LifeEnv \<Rightarrow> (WorkerEnv \<times> ConfigSnapshot \<times> (string \<times> SnapshotChain) list) option \<Rightarrow> Process \<Rightarrow>
   exn option \<times> Process \<times> Teardown list" where
  "worker_shutdown env late p =
     (if pr_stopping p then (None, p, [])
      else
        let p1 = p\<lparr>pr_stopping := True, pr_cleanup := False,
               pr_watcher := map_option (\<lambda>ts. snd (config_watcher_stop (le_sub_end env) (le_poll_end env) ts)) (pr_watcher p)\<rparr>
        in case (case pr_replay p1 of
                   None \<Rightarrow> (None, None)
                 | Some t \<Rightarrow> (case replay_watcher_stop (le_replay_end env) t of (ex, t') \<Rightarrow> (ex, Some t'))) of
             (Some e, r) \<Rightarrow> (Some e, p1\<lparr>pr_replay := r\<rparr>, [])
           | (None, r) \<Rightarrow>
               let stops = map StopRunner (d_keys (wk_runners (pr_worker p1)));
                   w1 = stop_runners (pr_worker p1);
                   w2 = (case late of None \<Rightarrow> w1 | Some (wenv, snap, rest) \<Rightarrow> snd (start_enabled wenv snap rest w1))
               in case release_locks (le_release env) w2 of
                    (w3, released) \<Rightarrow>
                      let p2 = p1\<lparr>pr_replay := r, pr_worker := w3\<rparr>;
                          trace = stops @ map (\<lambda>(c, answer). ReleaseLock c answer) released
                      in case bus_disconnect (le_aclose env) (pr_bus p2) of
                           (Inl e, b) \<Rightarrow> (Some e, p2\<lparr>pr_bus := b\<rparr>, trace)
                         | (Inr u, b) \<Rightarrow>
                             let shut = trace @ (if rb_client (pr_bus p2) then [CloseBus] else [])
                             in case database_disconnect (le_dispose env) (pr_database p2) of
                                  (Inl e, d) \<Rightarrow> (Some e, p2\<lparr>pr_bus := b, pr_database := d\<rparr>, shut)
                                | (Inr u, d) \<Rightarrow>
                                    (None, p2\<lparr>pr_bus := b, pr_database := d\<rparr>,
                                     shut @ (if da_engine (pr_database p2) then [DisposeEngine] else [])))"

text \<open>
  What a running worker meets: a snapshot from the queue; a replay request from its watcher, for which a task is created
  when the chain has a runner; the end of such a task. An exception of a reconciliation ends the main loop.
\<close>

datatype WorkEvent =
    SnapshotTaken WorkerEnv ConfigSnapshot
  | ReplayAsked "(string, pv) dict"
  | ReplayEnded nat

definition replay_asked :: "(string, pv) dict \<Rightarrow> Process \<Rightarrow> Process" where
  "replay_asked msg p =
     (case on_replay_request msg (pr_worker p) of
        None \<Rightarrow> p
      | Some r \<Rightarrow> p\<lparr>pr_replays := pr_replays p @ [(sn_id (cr_chain r), msg)]\<rparr>)"

fun process_run :: "WorkEvent list \<Rightarrow> Process \<Rightarrow> exn option \<times> Process" where
  "process_run [] p = (None, p)"
| "process_run (SnapshotTaken env snap # rest) p =
     (case reconcile env snap (pr_worker p) of
        (Some e, w) \<Rightarrow> (Some e, p\<lparr>pr_worker := w\<rparr>)
      | (None, w) \<Rightarrow> process_run rest (p\<lparr>pr_worker := w\<rparr>))"
| "process_run (ReplayAsked msg # rest) p = process_run rest (replay_asked msg p)"
| "process_run (ReplayEnded i # rest) p =
     process_run rest (p\<lparr>pr_replays := take i (pr_replays p) @ drop (Suc i) (pr_replays p)\<rparr>)"

fun snapshots :: "WorkEvent list \<Rightarrow> (WorkerEnv \<times> ConfigSnapshot) list" where
  "snapshots [] = []"
| "snapshots (SnapshotTaken env snap # rest) = (env, snap) # snapshots rest"
| "snapshots (ReplayAsked msg # rest) = snapshots rest"
| "snapshots (ReplayEnded i # rest) = snapshots rest"

text \<open>
  \<open>run_worker\<close>: a start that fails is followed by a shutdown and raised again; otherwise the worker runs
  until the stop event (the end of the list) or an exception, and the shutdown comes
  before the main loop is cancelled and awaited. An exception of the shutdown hides the other one.
\<close>

definition run_worker ::
  "LifeEnv \<Rightarrow> WorkEvent list \<Rightarrow> (WorkerEnv \<times> ConfigSnapshot \<times> (string \<times> SnapshotChain) list) option \<Rightarrow>
   exn option \<times> Process \<times> Teardown list" where
  "run_worker env events late =
     (case worker_start env process_init of
        (Some e, p) \<Rightarrow>
          (case worker_shutdown env None p of
             (Some e', p', trace) \<Rightarrow> (Some e', p', trace)
           | (None, p', trace) \<Rightarrow> (Some e, p', trace))
      | (None, p) \<Rightarrow>
          (case process_run events p of
             (ex, p1) \<Rightarrow>
               (case worker_shutdown env (if ex = None then late else None) p1 of
                  (Some e', p', trace) \<Rightarrow> (Some e', p', trace)
                | (None, p', trace) \<Rightarrow> (ex, p', trace))))"

section \<open>What is given back\<close>

text \<open>
  The reference that the log sink keeps to the client is not among it, nor are the replays: nothing takes those back.
\<close>

definition all_released :: "Process \<Rightarrow> bool" where
  "all_released p \<longleftrightarrow>
     \<not> da_engine (pr_database p) \<and> \<not> rb_client (pr_bus p) \<and> pr_watcher p \<noteq> Some True \<and> pr_replay p \<noteq> Some True \<and>
     \<not> pr_cleanup p \<and> wk_runners (pr_worker p) = [] \<and> wk_locks (pr_worker p) = []"

text \<open>The phases of a shutdown, in the order the comment in the code asks for.\<close>

fun phase :: "Teardown \<Rightarrow> nat" where
  "phase (StopRunner c) = 0"
| "phase (ReleaseLock c answer) = 1"
| "phase CloseBus = 2"
| "phase DisposeEngine = 3"

text \<open>The states a process can be in when it is shut down.\<close>

definition clean_env :: "LifeEnv \<Rightarrow> bool" where
  "clean_env env \<longleftrightarrow> le_replay_end env = None \<and> le_aclose env = Inr () \<and> le_dispose env = Inr ()"

lemma shutdown_clean_eq:
  assumes "clean_env env" and "\<not> pr_stopping p"
  shows "worker_shutdown env None p =
    (None,
     p\<lparr>pr_stopping := True, pr_cleanup := False, pr_watcher := map_option (\<lambda>ts. False) (pr_watcher p),
       pr_replay := map_option (\<lambda>t. False) (pr_replay p), pr_worker := (stop_runners (pr_worker p))\<lparr>wk_locks := []\<rparr>,
       pr_bus := (pr_bus p)\<lparr>rb_client := False\<rparr>, pr_database := (pr_database p)\<lparr>da_engine := False\<rparr>\<rparr>,
     map StopRunner (d_keys (wk_runners (pr_worker p))) @
     map (\<lambda>c. ReleaseLock c (le_release env c)) (d_keys (wk_locks (pr_worker p))) @
     (if rb_client (pr_bus p) then [CloseBus] else []) @ (if da_engine (pr_database p) then [DisposeEngine] else []))"
  using assms
  by (cases "pr_bus p"; cases "pr_database p")
    (auto simp: worker_shutdown_def clean_env_def replay_watcher_stop_def config_watcher_stop_def
      bus_disconnect_def database_disconnect_def release_locks_def stop_runners_spec Let_def split: option.splits)

lemma sorted_const: "sorted (map (\<lambda>x. k) xs)"
  by (induction xs) auto

lemma teardown_members:
  assumes "trace = map StopRunner as @ map (\<lambda>c. ReleaseLock c (rel c)) bs @ (if b then [CloseBus] else []) @
      (if d then [DisposeEngine] else [])"
  shows "{(c, a). ReleaseLock c a \<in> set trace} = {(c, rel c) | c. c \<in> set bs}" "{c. StopRunner c \<in> set trace} = set as"
    "CloseBus \<in> set trace \<longleftrightarrow> b" "DisposeEngine \<in> set trace \<longleftrightarrow> d"
  using assms by auto

lemma shutdown_clean:
  assumes "clean_env env" and "\<not> pr_stopping p" and "worker_shutdown env None p = (ex, p', trace)"
  shows "ex = None" "all_released p'" "sorted (map phase trace)" "pr_replays p' = pr_replays p"
    "{(c, a). ReleaseLock c a \<in> set trace} = {(c, le_release env c) | c. c \<in> set (d_keys (wk_locks (pr_worker p)))}"
    "{c. StopRunner c \<in> set trace} = set (d_keys (wk_runners (pr_worker p)))"
    "CloseBus \<in> set trace \<longleftrightarrow> rb_client (pr_bus p)" "DisposeEngine \<in> set trace \<longleftrightarrow> da_engine (pr_database p)"
proof -
  note r = assms(3) [unfolded shutdown_clean_eq [OF assms(1,2)] prod.inject]
  show "ex = None" using r by simp
  show "all_released p'" using r by (auto simp: all_released_def stop_runners_spec)
  show "sorted (map phase trace)" using r by (auto simp: sorted_append comp_def sorted_const)
  show "pr_replays p' = pr_replays p" using r by auto
  note m = teardown_members [OF conjunct2 [OF conjunct2 [OF r], symmetric]]
  show "{(c, a). ReleaseLock c a \<in> set trace} = {(c, le_release env c) | c. c \<in> set (d_keys (wk_locks (pr_worker p)))}"
    by (rule m(1))
  show "{c. StopRunner c \<in> set trace} = set (d_keys (wk_runners (pr_worker p)))" by (rule m(2))
  show "CloseBus \<in> set trace \<longleftrightarrow> rb_client (pr_bus p)" by (rule m(3))
  show "DisposeEngine \<in> set trace \<longleftrightarrow> da_engine (pr_database p)" by (rule m(4))
qed

text \<open>The replays do not touch what the snapshots do, and leave the handles alone.\<close>

lemma process_run_worker:
  "process_run events p = (ex, p') \<Longrightarrow>
     worker_run (snapshots events) (pr_worker p) = (ex, pr_worker p') \<and>
     (\<exists>w reps. p' = p\<lparr>pr_worker := w, pr_replays := reps\<rparr>)"
proof (induction events arbitrary: p)
  case Nil
  then show ?case by simp (metis Process.surjective Process.update_convs(9,10))
next
  case (Cons event events)
  show ?case
  proof (cases event)
    case (SnapshotTaken env snap)
    obtain ex1 w where r: "reconcile env snap (pr_worker p) = (ex1, w)" by (metis prod.collapse)
    show ?thesis
    proof (cases ex1)
      case None
      then show ?thesis using Cons.IH [of "p\<lparr>pr_worker := w\<rparr>"] Cons.prems SnapshotTaken r by auto
    next
      case (Some e)
      then have "ex = Some e" "p' = p\<lparr>pr_worker := w\<rparr>" using Cons.prems SnapshotTaken r by auto
      then show ?thesis using SnapshotTaken r Some by simp (metis Process.surjective Process.update_convs(9,10))
    qed
  next
    case (ReplayAsked msg)
    have "\<exists>reps. replay_asked msg p = p\<lparr>pr_replays := reps\<rparr>"
      by (simp add: replay_asked_def split: option.split) (metis Process.surjective Process.update_convs(10))
    then obtain reps where "replay_asked msg p = p\<lparr>pr_replays := reps\<rparr>" by blast
    then show ?thesis using Cons.IH [of "p\<lparr>pr_replays := reps\<rparr>"] Cons.prems ReplayAsked by auto
  next
    case (ReplayEnded i)
    then show ?thesis
      using Cons.IH [of "p\<lparr>pr_replays := take i (pr_replays p) @ drop (Suc i) (pr_replays p)\<rparr>"] Cons.prems by auto
  qed
qed

lemma start_not_stopping: "worker_start env process_init = (ex, p) \<Longrightarrow> \<not> pr_stopping p \<and> pr_worker p = worker_init \<and> pr_replays p = []"
  by (auto simp: worker_start_def process_init_def Let_def split: prod.splits sum.splits option.splits)

lemma start_succeeds:
  "worker_start env process_init = (None, p) \<longleftrightarrow>
     (\<exists>b. le_engine env = Inr () \<and> le_open env = Inr () \<and> le_ping env = Inr b) \<and> le_metrics env \<in> {None, Some (Inr ())} \<and>
     p = process_init\<lparr>pr_database := \<lparr>da_engine = True\<rparr>, pr_bus := \<lparr>rb_client = True\<rparr>, pr_log_client := True,
       pr_watcher := Some True, pr_replay := Some True, pr_metrics_up := (le_metrics env \<noteq> None), pr_cleanup := True\<rparr>"
  by (auto simp: worker_start_def process_init_def Let_def database_connect_def bus_connect_def database_init_def bus_init_def
      rbind_Inr_iff split: prod.splits sum.splits option.splits)

text \<open>A runner that was stopped in time sends nothing more.\<close>

lemma runner_stop_silent:
  "dispatch E net clk (cr_notifier (fst (runner_stop clo None disconnected r))) ev hits rp = []"
  by (simp add: runner_stop_def dispatch_stopped)

section \<open>Properties\<close>

text \<open>
  C22. A worker that ends gives back what it keeps, however far its start got and whatever its reconciliations
  did, when the stop event does not come inside one: if the tasks and connections close without an exception, no engine,
  no Redis client, no task of its own, no runner and no lock is left in it; every lock held at the end has had its
  release tried once, with the answer the trace shows; runners are stopped before any
  lock is released and locks are released before the connections are closed; the exception that ended it is the one of the
  start or of the main loop. The exception are the replays under way: their tasks are left as they are. (A stop event inside a
  reconciliation can leave a runner: \<open>late_runner_without_lock\<close>.)
\<close>

theorem worker_gives_back:
  assumes "le_replay_end env = None" and "le_aclose env = Inr ()" and "le_dispose env = Inr ()"
    and "run_worker env events None = (ex, p, trace)"
  shows "all_released p \<and> sorted (map phase trace) \<and>
    (case worker_start env process_init of
       (Some e, p0) \<Rightarrow> ex = Some e \<and> pr_replays p = []
     | (None, p0) \<Rightarrow>
         ex = fst (worker_run (snapshots events) worker_init) \<and> CloseBus \<in> set trace \<and> DisposeEngine \<in> set trace \<and>
         {(c, a). ReleaseLock c a \<in> set trace} =
           {(c, le_release env c) | c. c \<in> set (d_keys (wk_locks (snd (worker_run (snapshots events) worker_init))))} \<and>
         {c. StopRunner c \<in> set trace} = set (d_keys (wk_runners (snd (worker_run (snapshots events) worker_init)))) \<and>
         pr_replays p = pr_replays (snd (process_run events p0)))"
proof -
  have clean: "clean_env env" using assms(1-3) by (simp add: clean_env_def)
  obtain ex0 p0 where s: "worker_start env process_init = (ex0, p0)" by (metis prod.collapse)
  note s0 = start_not_stopping [OF s]
  show ?thesis
  proof (cases ex0)
    case (Some e)
    obtain ex2 p2 tr where d: "worker_shutdown env None p0 = (ex2, p2, tr)" by (metis prod.collapse)
    have "ex2 = None" "all_released p2" "sorted (map phase tr)" "pr_replays p2 = []"
      using shutdown_clean(1-4) [OF clean _ d] s0 by auto
    then show ?thesis using assms(4) s d unfolding Some by (auto simp: run_worker_def)
  next
    case None
    obtain ex1 p1 where run: "process_run events p0 = (ex1, p1)" by (metis prod.collapse)
    obtain w reps where p1: "worker_run (snapshots events) worker_init = (ex1, pr_worker p1)" "p1 = p0\<lparr>pr_worker := w, pr_replays := reps\<rparr>"
      using process_run_worker [OF run] s0 by auto
    obtain ex2 p2 tr where d: "worker_shutdown env None p1 = (ex2, p2, tr)" by (metis prod.collapse)
    have n: "\<not> pr_stopping p1" using s0 p1(2) by simp
    have up: "rb_client (pr_bus p1)" "da_engine (pr_database p1)" using s None p1(2) start_succeeds by auto
    note c = shutdown_clean [OF clean n d]
    show ?thesis using assms(4) s d None run p1(1) c up by (simp add: run_worker_def)
  qed
qed

definition ex_life :: LifeEnv where
  "ex_life = \<lparr>le_engine = Inr (), le_open = Inr (), le_ping = Inr True, le_metrics = Some (Inr ()), le_sub_end = Some (RuntimeError ''lost''),
     le_poll_end = None, le_replay_end = None, le_release = (\<lambda>c. Inr ()), le_aclose = Inr (), le_dispose = Inr ()\<rparr>"

lemma ex_worker_runs: "worker_run [(ex_worker_env, ex_worker_snap)] worker_init = (None, ex_worker)"
  using ex_worker_keys by (simp add: ex_worker_def case_prod_beta)

theorem worker_gives_back_witness:
  "all_released (fst (snd (run_worker ex_life [SnapshotTaken ex_worker_env ex_worker_snap] None))) \<and>
   ReleaseLock ''eth'' (Inr ()) \<in> set (snd (snd (run_worker ex_life [SnapshotTaken ex_worker_env ex_worker_snap] None)))"
proof -
  let ?events = "[SnapshotTaken ex_worker_env ex_worker_snap]"
  obtain ex p trace where r: "run_worker ex_life ?events None = (ex, p, trace)" by (metis prod.collapse)
  have run: "worker_run (snapshots ?events) worker_init = (None, ex_worker)" by (simp add: ex_worker_runs del: worker_run.simps)
  obtain p0 where s: "worker_start ex_life process_init = (None, p0)"
    by (auto simp: start_succeeds ex_life_def)
  have "all_released p \<and>
      {(c, a). ReleaseLock c a \<in> set trace} = {(c, le_release ex_life c) | c. c \<in> set (d_keys (wk_locks ex_worker))}"
    using worker_gives_back [OF _ _ _ r] s unfolding run by (simp add: ex_life_def)
  moreover have "''eth'' \<in> set (d_keys (wk_locks ex_worker))" using ex_worker_keys by simp
  ultimately have "all_released p" "(''eth'', le_release ex_life ''eth'') \<in> {(c, a). ReleaseLock c a \<in> set trace}" by auto
  then show ?thesis unfolding r by (simp add: ex_life_def)
qed

text \<open>
  A replay that is under way when the worker stops is still there when the connections it uses have been closed; nothing
  waits for it. It ends by itself, before its next block, since its runner was stopped.
\<close>

lemma replay_outlives_worker:
  "case run_worker ex_life [SnapshotTaken ex_worker_env ex_worker_snap, ReplayAsked [(''chain_id'', PStr ''eth'')]] None of
     (ex, p, trace) \<Rightarrow> ex = None \<and> all_released p \<and> pr_replays p = [(''eth'', [(''chain_id'', PStr ''eth'')])]"
  by code_simp

text \<open>
  C23. A replay watcher whose task has ended with an exception, as it does on a lost connection or on
  a message that is no JSON, makes the shutdown raise that exception when it has stopped only the clean-up task and the
  configuration watcher: the runners, the locks, the bus and the engine stay as they were, and a second shutdown does nothing.
\<close>

theorem failed_replay_watcher_blocks_shutdown:
  assumes "snd (replay_watcher_run L on_replay raws) = Some e" and "le_replay_end env = Some e"
    and "worker_start env process_init = (None, p0)" and "worker_run (snapshots events) worker_init = (ex, w)"
  shows "\<exists>p. run_worker env events late = (Some e, p, []) \<and> pr_worker p = w \<and> rb_client (pr_bus p) \<and> da_engine (pr_database p) \<and>
    worker_shutdown env' late' p = (None, p, [])"
proof -
  obtain ex1 p1 where run: "process_run events p0 = (ex1, p1)" by (metis prod.collapse)
  obtain w' reps where p1: "worker_run (snapshots events) (pr_worker p0) = (ex1, pr_worker p1)" "p1 = p0\<lparr>pr_worker := w', pr_replays := reps\<rparr>"
    using process_run_worker [OF run] by auto
  have p0: "pr_replay p0 = Some True" "rb_client (pr_bus p0)" "da_engine (pr_database p0)" "\<not> pr_stopping p0" "pr_worker p0 = worker_init"
    using assms(3) start_not_stopping [OF assms(3)] by (auto simp: start_succeeds)
  then have "pr_worker p1 = w" using p1(1) assms(4) by simp
  moreover have "pr_replay p1 = Some True" "rb_client (pr_bus p1)" "da_engine (pr_database p1)" "\<not> pr_stopping p1"
    using p0 p1(2) by simp_all
  ultimately show ?thesis
    using assms(2,3) run by (simp add: run_worker_def worker_shutdown_def replay_watcher_stop_def Let_def)
qed

theorem failed_replay_watcher_blocks_shutdown_witness:
  "wk_runners (pr_worker (fst (snd (run_worker (ex_life\<lparr>le_replay_end := Some ValueError\<rparr>)
     [SnapshotTaken ex_worker_env ex_worker_snap] None)))) \<noteq> []"
proof -
  let ?env = "ex_life\<lparr>le_replay_end := Some ValueError\<rparr>" and ?events = "[SnapshotTaken ex_worker_env ex_worker_snap]"
  have run: "worker_run (snapshots ?events) worker_init = (None, ex_worker)" by (simp add: ex_worker_runs del: worker_run.simps)
  obtain p0 where s: "worker_start ?env process_init = (None, p0)"
    by (auto simp: start_succeeds ex_life_def)
  have dead: "snd (replay_watcher_run ex_bus_lib (\<lambda>m. Inr ()) [Inl ValueError]) = Some ValueError"
    by (simp add: replay_watcher_run_def)
  from failed_replay_watcher_blocks_shutdown [where late = None, OF dead _ s run]
  obtain p where "run_worker ?env ?events None = (Some ValueError, p, [])" "pr_worker p = ex_worker"
    by (auto simp: ex_life_def)
  then show ?thesis using ex_worker_keys by auto
qed

text \<open>
  The main loop is cancelled only after the shutdown: when the stop event arrives inside a reconciliation,
  the chain it is about to start comes up while the other runners are being stopped, and runs on without its lock.
\<close>

lemma late_runner_without_lock:
  "case run_worker ex_life [] (Some (ex_worker_env, ex_worker_snap, enabled_chains ex_worker_snap)) of
     (ex, p, trace) \<Rightarrow> ex = None \<and> d_has (wk_runners (pr_worker p)) ''eth'' \<and> \<not> d_has (wk_locks (pr_worker p)) ''eth'' \<and>
       trace = [ReleaseLock ''eth'' (Inr ()), CloseBus, DisposeEngine]"
  by code_simp

end
