(* ===== verification/Metrics.thy ===== *)
theory Metrics
  imports Worker
begin

text \<open>
  \<^verbatim>\<open>core/metrics.py\<close> and the places that report to it. A metric is its declaration (\<open>Family\<close>); a report is a
  call on it with label values (\<open>MetricCall\<close>), and what the process reports is the list of its calls. The
  client library itself is not modelled: \<open>counter_value\<close> and \<open>gauge_value\<close> are the documented meaning of
  counters and gauges.

  The lemmas show that every call fits the declaration of its metric, and that the numbers say what
  happened: blocks processed, chain tips, sends by type and outcome, RPC calls by outcome.
\<close>

section \<open>Declarations\<close>

datatype MetricKind = Counter | Gauge | Histogram

record Family =
  fa_name :: string
  fa_kind :: MetricKind
  fa_labels :: "string list"

definition BLOCKS_PROCESSED_TOTAL :: Family where
  "BLOCKS_PROCESSED_TOTAL = \<lparr>fa_name = ''chain_indexer_blocks_processed_total'', fa_kind = Counter, fa_labels = [''chain'']\<rparr>"

definition CHAIN_TIP_BLOCK :: Family where
  "CHAIN_TIP_BLOCK = \<lparr>fa_name = ''chain_indexer_chain_tip_block'', fa_kind = Gauge, fa_labels = [''chain'']\<rparr>"

definition CHAIN_LAST_PROCESSED_BLOCK :: Family where
  "CHAIN_LAST_PROCESSED_BLOCK = \<lparr>fa_name = ''chain_indexer_chain_last_processed_block'', fa_kind = Gauge, fa_labels = [''chain'']\<rparr>"

definition RPC_REQUEST_SECONDS :: Family where
  "RPC_REQUEST_SECONDS = \<lparr>fa_name = ''chain_indexer_rpc_request_seconds'', fa_kind = Histogram, fa_labels = [''chain'', ''method'']\<rparr>"

definition RPC_REQUESTS_TOTAL :: Family where
  "RPC_REQUESTS_TOTAL =
     \<lparr>fa_name = ''chain_indexer_rpc_requests_total'', fa_kind = Counter, fa_labels = [''chain'', ''method'', ''status'']\<rparr>"

definition RPC_ENDPOINT_UP :: Family where
  "RPC_ENDPOINT_UP = \<lparr>fa_name = ''chain_indexer_rpc_endpoint_up'', fa_kind = Gauge, fa_labels = [''chain'', ''endpoint_index'']\<rparr>"

definition RPC_FAILOVER_TOTAL :: Family where
  "RPC_FAILOVER_TOTAL = \<lparr>fa_name = ''chain_indexer_rpc_failover_total'', fa_kind = Counter, fa_labels = [''chain'']\<rparr>"

definition CHANNEL_SEND_SECONDS :: Family where
  "CHANNEL_SEND_SECONDS = \<lparr>fa_name = ''chain_indexer_channel_send_seconds'', fa_kind = Histogram, fa_labels = [''channel_type'']\<rparr>"

definition CHANNEL_SENDS_TOTAL :: Family where
  "CHANNEL_SENDS_TOTAL =
     \<lparr>fa_name = ''chain_indexer_channel_sends_total'', fa_kind = Counter, fa_labels = [''channel_type'', ''status'']\<rparr>"

definition DISPATCH_IN_FLIGHT :: Family where
  "DISPATCH_IN_FLIGHT = \<lparr>fa_name = ''chain_indexer_dispatch_in_flight'', fa_kind = Gauge, fa_labels = []\<rparr>"

definition WORKER_UP :: Family where
  "WORKER_UP = \<lparr>fa_name = ''chain_indexer_worker_up'', fa_kind = Gauge, fa_labels = []\<rparr>"

definition WORKER_INFO :: Family where
  "WORKER_INFO = \<lparr>fa_name = ''chain_indexer_worker_info'', fa_kind = Gauge, fa_labels = [''worker_id'', ''version'']\<rparr>"

definition API_REQUEST_SECONDS :: Family where
  "API_REQUEST_SECONDS = \<lparr>fa_name = ''chain_indexer_api_request_seconds'', fa_kind = Histogram, fa_labels = [''method'', ''path'']\<rparr>"

definition API_REQUESTS_TOTAL :: Family where
  "API_REQUESTS_TOTAL =
     \<lparr>fa_name = ''chain_indexer_api_requests_total'', fa_kind = Counter, fa_labels = [''method'', ''path'', ''status'']\<rparr>"

lemmas family_defs = BLOCKS_PROCESSED_TOTAL_def CHAIN_TIP_BLOCK_def CHAIN_LAST_PROCESSED_BLOCK_def RPC_REQUEST_SECONDS_def
  RPC_REQUESTS_TOTAL_def RPC_ENDPOINT_UP_def RPC_FAILOVER_TOTAL_def CHANNEL_SEND_SECONDS_def CHANNEL_SENDS_TOTAL_def
  DISPATCH_IN_FLIGHT_def WORKER_UP_def WORKER_INFO_def API_REQUEST_SECONDS_def API_REQUESTS_TOTAL_def

section \<open>Calls and readings\<close>

datatype MetricCall =
    Inc (family: Family) (labels: "string list")
  | Dec (family: Family) (labels: "string list")
  | SetTo (family: Family) (labels: "string list") int
  | Observe (family: Family) (labels: "string list") real

text \<open>The library raises when the label values do not fit the declaration or the kind has no such method.\<close>

fun metric_call_ok :: "MetricCall \<Rightarrow> bool" where
  "metric_call_ok (Inc f ls) \<longleftrightarrow> fa_kind f \<in> {Counter, Gauge} \<and> length ls = length (fa_labels f)"
| "metric_call_ok (Dec f ls) \<longleftrightarrow> fa_kind f = Gauge \<and> length ls = length (fa_labels f)"
| "metric_call_ok (SetTo f ls v) \<longleftrightarrow> fa_kind f = Gauge \<and> length ls = length (fa_labels f)"
| "metric_call_ok (Observe f ls v) \<longleftrightarrow> fa_kind f = Histogram \<and> length ls = length (fa_labels f)"

definition counter_value :: "Family \<Rightarrow> string list \<Rightarrow> MetricCall list \<Rightarrow> nat" where
  "counter_value f ls calls = count_list calls (Inc f ls)"

fun gauge_step :: "Family \<Rightarrow> string list \<Rightarrow> MetricCall \<Rightarrow> int \<Rightarrow> int" where
  "gauge_step f ls (Inc g ks) v = (if g = f \<and> ks = ls then v + 1 else v)"
| "gauge_step f ls (Dec g ks) v = (if g = f \<and> ks = ls then v - 1 else v)"
| "gauge_step f ls (SetTo g ks n) v = (if g = f \<and> ks = ls then n else v)"
| "gauge_step f ls (Observe g ks x) v = v"

definition gauge_value :: "Family \<Rightarrow> string list \<Rightarrow> MetricCall list \<Rightarrow> int" where
  "gauge_value f ls calls = fold (gauge_step f ls) calls 0"

section \<open>What is reported\<close>

text \<open>How an awaited body ends; a cancellation is no \<open>Exception\<close>.\<close>

datatype 'a Awaited = Returned 'a | Raised exn | Cancelled

text \<open>\<open>track_rpc\<close>: the body's outcome passes through.\<close>

definition track_rpc :: "string \<Rightarrow> string \<Rightarrow> real \<Rightarrow> 'a Awaited \<Rightarrow> 'a Awaited \<times> MetricCall list" where
  "track_rpc chain method elapsed body =
     (let status = (case body of Raised e \<Rightarrow> ''error'' | _ \<Rightarrow> ''success'')
      in (body, [Observe RPC_REQUEST_SECONDS [chain, method] elapsed, Inc RPC_REQUESTS_TOTAL [chain, method, status]]))"

text \<open>The class attribute \<open>type\<close> of a channel driver.\<close>

fun driver_type :: "Channels.Channel \<Rightarrow> string" where
  "driver_type (Http c) = ''http''"
| "driver_type (RedisStreams c) = ''mq''"
| "driver_type (Kafka c) = ''kafka''"
| "driver_type (RabbitMQ c) = ''rabbitmq''"
| "driver_type (WebSocket c) = ''ws''"

text \<open>The \<open>finally\<close> of \<open>_send_one\<close>, and all of them for one dispatch.\<close>

definition send_metrics :: "real \<Rightarrow> SendTask \<Rightarrow> SendOutcome \<Rightarrow> MetricCall list" where
  "send_metrics elapsed t out =
     [Observe CHANNEL_SEND_SECONDS [driver_type (tk_channel t)] elapsed,
      Inc CHANNEL_SENDS_TOTAL [driver_type (tk_channel t), so_status out]]"

definition sends_metrics :: "ChannelEnv \<Rightarrow> (nat \<Rightarrow> net) \<Rightarrow> (nat \<Rightarrow> real) \<Rightarrow> Notifier \<Rightarrow> (nat \<times> SendTask) list \<Rightarrow> MetricCall list" where
  "sends_metrics E net elapsed n ts = concat (map (\<lambda>(i, t). send_metrics (elapsed i) t (send_one E (net i) n t)) ts)"

text \<open>
  What a runner reports along its effects: the tip gauge for a live head; \<open>_tracked_dispatch\<close> around a
  dispatch, but not around that of a replay; the block counter and gauge after a checkpoint.
\<close>

fun effect_metrics :: "string \<Rightarrow> Effect \<Rightarrow> MetricCall list" where
  "effect_metrics chain (TipPublished n) = [SetTo CHAIN_TIP_BLOCK [chain] n]"
| "effect_metrics chain (Dispatched ev hits rp) = (if rp then [] else [Inc DISPATCH_IN_FLIGHT [], Dec DISPATCH_IN_FLIGHT []])"
| "effect_metrics chain (SaveCheckpoint n h) = [Inc BLOCKS_PROCESSED_TOTAL [chain], SetTo CHAIN_LAST_PROCESSED_BLOCK [chain] n]"
| "effect_metrics chain (BlockProcessed ids n) = []"

text \<open>The worker's own metrics, set when the server is up.\<close>

definition worker_metrics :: "string \<Rightarrow> string option \<Rightarrow> MetricCall list" where
  "worker_metrics worker_id pkg_version =
     [SetTo WORKER_UP [] 1,
      SetTo WORKER_INFO [worker_id, case pkg_version of Some v \<Rightarrow> v | None \<Rightarrow> ''dev''] 1]"

text \<open>
  The dispatches of a block run concurrently, so that their reports come in any order; all other reports
  keep theirs.
\<close>

definition reports :: "string \<Rightarrow> Effect list \<Rightarrow> MetricCall list \<Rightarrow> bool" where
  "reports chain es calls \<longleftrightarrow>
     mset calls = mset (concat (map (effect_metrics chain) es)) \<and>
     filter (\<lambda>c. family c \<noteq> DISPATCH_IN_FLIGHT) calls =
       filter (\<lambda>c. family c \<noteq> DISPATCH_IN_FLIGHT) (concat (map (effect_metrics chain) es))"

section \<open>Reading the reports of a runner\<close>

lemma families_distinct:
  "DISPATCH_IN_FLIGHT \<notin> {BLOCKS_PROCESSED_TOTAL, CHAIN_TIP_BLOCK, CHAIN_LAST_PROCESSED_BLOCK, CHANNEL_SENDS_TOTAL}"
  "BLOCKS_PROCESSED_TOTAL \<notin> {CHAIN_TIP_BLOCK, CHAIN_LAST_PROCESSED_BLOCK}" "CHAIN_TIP_BLOCK \<noteq> CHAIN_LAST_PROCESSED_BLOCK"
  "CHANNEL_SENDS_TOTAL \<noteq> CHANNEL_SEND_SECONDS"
  by (simp_all add: family_defs)

lemma effect_metrics_ok: "list_all metric_call_ok (effect_metrics chain e)"
  by (cases e) (simp_all add: family_defs)

lemma other_metrics_ok:
  "list_all metric_call_ok (snd (track_rpc chain method elapsed body))" "list_all metric_call_ok (send_metrics elapsed t out)"
  "list_all metric_call_ok (worker_metrics worker_id v)"
  by (simp_all add: track_rpc_def send_metrics_def worker_metrics_def family_defs)

text \<open>A gauge depends only on the calls of its own metric.\<close>

lemma gauge_filter:
  "f \<noteq> g \<Longrightarrow> fold (gauge_step f ls) (filter (\<lambda>c. family c \<noteq> g) calls) v = fold (gauge_step f ls) calls v"
proof (induction calls arbitrary: v)
  case (Cons c calls)
  then show ?case by (cases c) auto
qed simp

text \<open>A gauge that is only counted up and down reads the difference, in any order of the calls.\<close>

lemma gauge_counts:
  "(\<forall>c \<in> set calls. \<forall>n. c \<noteq> SetTo f ls n) \<Longrightarrow>
   fold (gauge_step f ls) calls v = v + int (count_list calls (Inc f ls)) - int (count_list calls (Dec f ls))"
proof (induction calls arbitrary: v)
  case (Cons c calls)
  then show ?case by (cases c) auto
qed simp

definition tips_published :: "Effect list \<Rightarrow> int list" where
  "tips_published = List.map_filter (\<lambda>e. case e of TipPublished n \<Rightarrow> Some n | _ \<Rightarrow> None)"

lemma tips_simps [simp]:
  "tips_published [] = []" "tips_published (TipPublished n # es) = n # tips_published es" "tips_published (SaveCheckpoint n h # es) = tips_published es"
  "tips_published (Dispatched ev hits rp # es) = tips_published es" "tips_published (BlockProcessed ids n # es) = tips_published es"
  "tips_published (es @ es') = tips_published es @ tips_published es'"
  by (simp_all add: tips_published_def List.map_filter_simps)

definition last_or :: "'a \<Rightarrow> 'a list \<Rightarrow> 'a" where
  "last_or x xs = (if xs = [] then x else last xs)"

lemma last_or_simps [simp]: "last_or x [] = x" "last_or x (y # ys) = last_or y ys"
  by (auto simp: last_or_def)

lemma sequential_readings:
  "fold (gauge_step CHAIN_LAST_PROCESSED_BLOCK [chain]) (concat (map (effect_metrics chain) es)) v = last_or v (checkpoints es)"
  "fold (gauge_step CHAIN_TIP_BLOCK [chain]) (concat (map (effect_metrics chain) es)) v = last_or v (tips_published es)"
  "count_list (concat (map (effect_metrics chain) es)) (Inc BLOCKS_PROCESSED_TOTAL [chain]) = length (checkpoints es)"
  "count_list (concat (map (effect_metrics chain) es)) (Inc DISPATCH_IN_FLIGHT []) =
     count_list (concat (map (effect_metrics chain) es)) (Dec DISPATCH_IN_FLIGHT [])"
  "SetTo DISPATCH_IN_FLIGHT [] n \<notin> set (concat (map (effect_metrics chain) es))"
proof (induction es arbitrary: v)
  case (Cons e es)
  { case 1 then show ?case using Cons families_distinct by (cases e) auto }
  { case 2 then show ?case using Cons families_distinct by (cases e) auto }
  { case 3 then show ?case using Cons families_distinct by (cases e) auto }
  { case 4 then show ?case using Cons families_distinct by (cases e) auto }
  { case 5 then show ?case using Cons families_distinct by (cases e) auto }
qed simp_all

lemma reports_readings:
  assumes "reports chain es calls"
  shows "counter_value BLOCKS_PROCESSED_TOTAL [chain] calls = length (checkpoints es)"
    "gauge_value CHAIN_LAST_PROCESSED_BLOCK [chain] calls = last_or 0 (checkpoints es)"
    "gauge_value CHAIN_TIP_BLOCK [chain] calls = last_or 0 (tips_published es)"
    "gauge_value DISPATCH_IN_FLIGHT [] calls = 0" "list_all metric_call_ok calls"
proof -
  let ?seq = "concat (map (effect_metrics chain) es)"
  have m: "mset calls = mset ?seq" and f: "filter (\<lambda>c. family c \<noteq> DISPATCH_IN_FLIGHT) calls = filter (\<lambda>c. family c \<noteq> DISPATCH_IN_FLIGHT) ?seq"
    using assms by (simp_all add: reports_def)
  have counts: "count_list calls c = count_list ?seq c" for c using arg_cong [OF m, of "\<lambda>s. count s c"] by (simp add: count_mset)
  have sets: "set calls = set ?seq" using m by (metis set_mset_mset)
  have gauges: "fold (gauge_step g ls) calls 0 = fold (gauge_step g ls) ?seq 0" if "g \<noteq> DISPATCH_IN_FLIGHT" for g ls
    using gauge_filter [OF that, of ls calls 0] gauge_filter [OF that, of ls ?seq 0] f by simp
  show "counter_value BLOCKS_PROCESSED_TOTAL [chain] calls = length (checkpoints es)"
    by (simp add: counter_value_def counts sequential_readings(3))
  show "gauge_value CHAIN_LAST_PROCESSED_BLOCK [chain] calls = last_or 0 (checkpoints es)"
    unfolding gauge_value_def by (rule trans [OF gauges sequential_readings(1)]) (use families_distinct(1) in auto)
  show "gauge_value CHAIN_TIP_BLOCK [chain] calls = last_or 0 (tips_published es)"
    unfolding gauge_value_def by (rule trans [OF gauges sequential_readings(2)]) (use families_distinct(1) in auto)
  have "\<forall>c \<in> set calls. \<forall>n. c \<noteq> SetTo DISPATCH_IN_FLIGHT [] n" using sequential_readings(5) sets by metis
  then show "gauge_value DISPATCH_IN_FLIGHT [] calls = 0"
    by (simp add: gauge_value_def gauge_counts counts sequential_readings(4))
  show "list_all metric_call_ok calls" using sets effect_metrics_ok by (auto simp: list_all_iff)
qed


section \<open>The tips a runner reports\<close>

lemma block_segment_tips: "block_segment m chain n h r es \<Longrightarrow> tips_published es = []"
proof -
  assume seg: "block_segment m chain n h r es"
  have "tips_published ds = []" if "list_all (deliver_effect m chain n h) ds" for ds
    using that by (induction ds) (auto simp: deliver_effect_def)
  with seg show ?thesis by (auto simp: block_segment_def split: sum.splits)
qed

lemma process_at_tips: "process_at env chain m n logs reg = (r, es, reg') \<Longrightarrow> tips_published es = []"
  by (cases "re_block env n") (auto simp: act_of_def act_bind_def dest!: process_block_segment block_segment_tips)

lemma catchup_blocks_tips: "catchup_blocks env chain m logs ns reg = (r, es, reg') \<Longrightarrow> tips_published es = []"
proof (induction ns arbitrary: reg r es reg')
  case (Cons n ns)
  obtain r1 es1 reg1 where p: "process_at env chain m n (d_get_default logs n []) reg = (r1, es1, reg1)" by (metis prod.collapse)
  obtain r2 es2 reg2 where q: "catchup_blocks env chain m logs ns reg1 = (r2, es2, reg2)" by (metis prod.collapse)
  show ?case using Cons.prems Cons.IH [OF q] process_at_tips [OF p] p q by (cases r1) (auto split: if_splits)
qed simp

lemma catchup_loop_tips: "catchup_loop fuel env chain safe_tip a reg = Some (r, es, reg') \<Longrightarrow> tips_published es = []"
proof (induction fuel arbitrary: a reg r es reg')
  case (Suc fuel)
  define b where "b = min (a + sn_log_query_range_blocks chain - 1) safe_tip"
  obtain r1 es1 reg1 where w: "catchup_window env chain a b reg = (r1, es1, reg1)" by (metis prod.collapse)
  have "tips_published es1 = []" using w by (auto simp: catchup_window_def Let_def dest: catchup_blocks_tips split: sum.splits)
  then show ?case using Suc.prems Suc.IH [of "b + 1" reg1] w
    by (auto simp: b_def [symmetric] Let_def split: if_splits LoopEnd.splits option.splits)
qed (auto split: if_splits)

lemma catchup_evm_tips: "catchup_evm fuel env r reg = Some (res, es, reg') \<Longrightarrow> tips_published es = []"
  by (auto simp: catchup_evm_def dest: catchup_loop_tips split: list.splits sum.splits option.splits)

lemma act_each_tips:
  "(\<And>x reg r es reg'. f x reg = (r, es, reg') \<Longrightarrow> tips_published es = []) \<Longrightarrow> act_each f xs reg = (r, es, reg') \<Longrightarrow> tips_published es = []"
proof (induction xs arbitrary: reg r es reg')
  case (Cons x xs)
  obtain r1 es1 reg1 where p: "f x reg = (r1, es1, reg1)" by (metis prod.collapse)
  obtain r2 es2 reg2 where q: "act_each f xs reg1 = (r2, es2, reg2)" by (metis prod.collapse)
  show ?case using Cons.prems(2) Cons.IH [OF Cons.prems(1) q] Cons.prems(1) [OF p] p q by (cases r1) (auto simp: act_bind_def)
qed (simp add: act_return_def)

lemma process_confirmed_tips: "process_confirmed_block env chain m f n reg = (r, es, reg') \<Longrightarrow> tips_published es = []"
  by (auto simp: process_confirmed_block_def act_of_def act_bind_def dest: process_block_segment block_segment_tips
      split: sum.splits prod.splits if_splits)

lemma handle_head_tips: "handle_evm_head env r header reg = ((res, es, reg'), r') \<Longrightarrow> tips_published es = [bh_number header]"
proof -
  assume h: "handle_evm_head env r header reg = ((res, es, reg'), r')"
  have "tips_published es' = [bh_number header]"
    if "act_seq (act_emit [TipPublished (bh_number header)])
      (act_each (\<lambda>h. process_confirmed_block env chain m f (bh_number h)) hs) reg = (res', es', reg'')" for chain m f hs res' es' reg''
  proof -
    obtain r1 es1 reg1 where q: "act_each (\<lambda>h. process_confirmed_block env chain m f (bh_number h)) hs reg = (r1, es1, reg1)"
      by (metis prod.collapse)
    have "tips_published es1 = []" by (rule act_each_tips [OF _ q]) (rule process_confirmed_tips)
    then show ?thesis using that q by (auto simp: act_bind_def act_emit_def)
  qed
  with h show ?thesis
    by (auto simp: handle_evm_head_def Let_def split: option.splits sum.splits prod.splits)
qed

lemma live_loop_tips:
  "live_loop heads r reg = (res, es, r') \<Longrightarrow>
     \<exists>k \<le> length heads. tips_published es = map (bh_number \<circ> fst) (take k heads) \<and> (res = Finished \<longrightarrow> k = length heads)"
proof (induction heads arbitrary: r reg res es r')
  case (Cons hd1 rest)
  obtain header env stop where hd1: "hd1 = (header, env, stop)" by (cases hd1)
  obtain r1 es1 reg1 r2 where h: "handle_evm_head env r header reg = ((r1, es1, reg1), r2)" by (metis prod.collapse)
  obtain res3 es3 r3 where l: "live_loop rest r2 reg1 = (res3, es3, r3)" by (metis prod.collapse)
  show ?case
  proof (cases stop)
    case False
    show ?thesis
    proof (cases r1)
      case (Inl e)
      then show ?thesis using Cons.prems False h handle_head_tips [OF h] by (intro exI [of _ 1]) (auto simp: hd1)
    next
      case (Inr u)
      obtain k where "k \<le> length rest" "tips_published es3 = map (bh_number \<circ> fst) (take k rest)" "res3 = Finished \<longrightarrow> k = length rest"
        using Cons.IH [OF l] by blast
      then show ?thesis using Cons.prems False h l Inr handle_head_tips [OF h] by (intro exI [of _ "Suc k"]) (auto simp: hd1)
    qed
  qed (use Cons.prems in \<open>auto simp: hd1 intro: exI [of _ 0]\<close>)
qed simp

lemma process_slot_tips: "process_solana_slot env chain m slot reg = (r, es, reg') \<Longrightarrow> tips_published es = []"
  by (auto dest!: process_slot_segment block_segment_tips)

lemma catchup_slots_tips: "catchup_slots env chain ss reg = (r, es, reg') \<Longrightarrow> tips_published es = []"
proof (induction ss arbitrary: reg r es reg')
  case (Cons s ss)
  obtain r1 es1 reg1 where p: "process_solana_slot env chain (re_matcher env s) s reg = (r1, es1, reg1)" by (metis prod.collapse)
  obtain r2 es2 reg2 where q: "catchup_slots env chain ss reg1 = (r2, es2, reg2)" by (metis prod.collapse)
  show ?case using Cons.prems Cons.IH [OF q] process_slot_tips [OF p] p q by (auto split: if_splits)
qed simp

lemma catchup_slot_loop_tips: "catchup_slot_loop fuel env chain tip a reg = Some (r, es, reg') \<Longrightarrow> tips_published es = []"
proof (induction fuel arbitrary: a reg r es reg')
  case (Suc fuel)
  define b where "b = min (a + sn_slot_query_range_blocks chain - 1) tip"
  show ?case
  proof (cases "get_blocks_classified env a b")
    case (Inr valid)
    obtain r1 es1 reg1 where w: "catchup_slots env chain valid reg = (r1, es1, reg1)" by (metis prod.collapse)
    show ?thesis using Suc.prems Suc.IH [of "b + 1" reg1] w Inr catchup_slots_tips [OF w]
      by (auto simp: b_def [symmetric] Let_def split: if_splits LoopEnd.splits option.splits)
  qed (use Suc.prems in \<open>auto simp: b_def [symmetric] Let_def split: if_splits\<close>)
qed (auto split: if_splits)

lemma catchup_solana_tips: "catchup_solana fuel env r reg = Some (res, es, reg') \<Longrightarrow> tips_published es = []"
  by (auto simp: catchup_solana_def dest: catchup_slot_loop_tips split: list.splits sum.splits option.splits)

lemma live_slots_tips:
  "live_slots slots r reg = (res, es, reg') \<Longrightarrow>
     \<exists>k \<le> length slots. tips_published es = map fst (take k slots) \<and> (res = Finished \<longrightarrow> k = length slots)"
proof (induction slots arbitrary: reg res es reg')
  case (Cons s1 rest)
  obtain slot env stop where s1: "s1 = (slot, env, stop)" by (cases s1)
  obtain r1 es1 reg1 where p: "process_solana_slot env (cr_chain r) (cr_matcher r) slot reg = (r1, es1, reg1)" by (metis prod.collapse)
  obtain res3 es3 reg3 where l: "live_slots rest r reg1 = (res3, es3, reg3)" by (metis prod.collapse)
  have act: "act_seq (act_emit [TipPublished slot]) (process_solana_slot env (cr_chain r) (cr_matcher r) slot) reg =
      (r1, TipPublished slot # es1, reg1)"
    using p by (simp add: act_bind_def act_emit_def)
  show ?case
  proof (cases stop)
    case False
    show ?thesis
    proof (cases r1)
      case (Inl e)
      then show ?thesis using Cons.prems False act process_slot_tips [OF p] by (intro exI [of _ 1]) (auto simp: s1)
    next
      case (Inr u)
      obtain k where "k \<le> length rest" "tips_published es3 = map fst (take k rest)" "res3 = Finished \<longrightarrow> k = length rest"
        using Cons.IH [OF l] by blast
      then show ?thesis using Cons.prems False act l Inr process_slot_tips [OF p] by (intro exI [of _ "Suc k"]) (auto simp: s1)
    qed
  qed (use Cons.prems in \<open>auto simp: s1 intro: exI [of _ 0]\<close>)
qed simp

section \<open>A runner of either kind\<close>

text \<open>
  \<open>ChainRunner.run\<close>: what the loop of the chain's kind does; an exception is logged and raised again. An EVM chain
  gets live heads, a Solana chain slots.
\<close>

definition chain_runner_run ::
  "nat \<Rightarrow> RunnerEnv \<Rightarrow> (BlockHeader \<times> RunnerEnv \<times> bool) list \<Rightarrow> (int \<times> RunnerEnv \<times> bool) list \<Rightarrow> ChainRunner \<Rightarrow>
   AbiRegistry option \<Rightarrow> (LoopEnd \<times> Effect list) option" where
  "chain_runner_run fuel env heads slots r reg =
     (if sn_kind (cr_chain r) = CK_solana
      then map_option (\<lambda>(res, es, reg'). (res, es)) (run_solana fuel env slots r reg)
      else map_option (\<lambda>(res, es, r'). (res, es)) (run_evm fuel env heads r reg))"

definition live_numbers :: "ChainRunner \<Rightarrow> (BlockHeader \<times> RunnerEnv \<times> bool) list \<Rightarrow> (int \<times> RunnerEnv \<times> bool) list \<Rightarrow> int list" where
  "live_numbers r heads slots =
     (if sn_kind (cr_chain r) = CK_solana then map fst slots else map (bh_number \<circ> fst) heads)"

lemma run_tips:
  assumes "chain_runner_run fuel env heads slots r reg = Some (res, es)"
  defines "ns \<equiv> live_numbers r heads slots"
  shows "\<exists>k \<le> length ns. tips_published es = take k ns \<and> (res = Finished \<longrightarrow> k = length ns)"
proof (cases "sn_kind (cr_chain r) = CK_solana")
  case False
  obtain r' where run: "run_evm fuel env heads r reg = Some (res, es, r')" using assms(1) False by (auto simp: chain_runner_run_def)
  have ns: "ns = map (bh_number \<circ> fst) heads" using False by (simp add: ns_def live_numbers_def)
  show ?thesis
  proof (cases "cr_buffer r")
    case None
    then have "es = []" "res = Failed AssertionError" using run by (simp_all add: run_evm_def)
    then show ?thesis by (intro exI [of _ 0]) simp
  next
    case (Some b)
    obtain c es1 reg1 where c: "catchup_evm fuel env r reg = Some (c, es1, reg1)" using run Some by (auto simp: run_evm_def split: option.splits)
    obtain res2 es2 r2 where l: "live_loop heads r reg1 = (res2, es2, r2)" by (metis prod.collapse)
    have "es = es1 @ es2" "res = res2" using run Some c l by (simp_all add: run_evm_def)
    moreover obtain k where "k \<le> length heads" "tips_published es2 = map (bh_number \<circ> fst) (take k heads)" "res2 = Finished \<longrightarrow> k = length heads"
      using live_loop_tips [OF l] by blast
    ultimately show ?thesis using catchup_evm_tips [OF c] by (intro exI [of _ k]) (simp add: ns take_map)
  qed
next
  case True
  obtain reg' where run: "run_solana fuel env slots r reg = Some (res, es, reg')" using assms(1) True by (auto simp: chain_runner_run_def)
  have ns: "ns = map fst slots" using True by (simp add: ns_def live_numbers_def)
  obtain c es1 reg1 where c: "catchup_solana fuel env r reg = Some (c, es1, reg1)" using run by (auto simp: run_solana_def split: option.splits)
  obtain res2 es2 reg2 where l: "live_slots slots r reg1 = (res2, es2, reg2)" by (metis prod.collapse)
  note t1 = catchup_solana_tips [OF c]
  show ?thesis
  proof (cases "\<exists>e. c = Failed e")
    case True
    then show ?thesis using run c t1 by (intro exI [of _ 0]) (auto simp: run_solana_def)
  next
    case False
    then have "es = es1 @ es2" "res = res2" using run c l by (cases c; simp add: run_solana_def)+
    moreover obtain k where "k \<le> length slots" "tips_published es2 = map fst (take k slots)" "res2 = Finished \<longrightarrow> k = length slots"
      using live_slots_tips [OF l] by blast
    ultimately show ?thesis using t1 by (intro exI [of _ k]) (simp add: ns take_map)
  qed
qed

section \<open>Sends\<close>

definition type_of_channel :: "Notifier \<Rightarrow> string \<Rightarrow> string option" where
  "type_of_channel n channel_id = map_option driver_type (d_get (nt_channels n) channel_id)"

lemma dispatch_tasks_channel: "t \<in> set (dispatch_tasks n clk ev rp hits) \<Longrightarrow> d_get (nt_channels n) (tk_chan t) = Some (tk_channel t)"
  by (induction n clk ev rp hits rule: dispatch_tasks.induct) (auto simp: Let_def map_filter_mem split: option.splits)

lemma sends_counted:
  "\<forall>(i, t) \<in> set ts. d_get (nt_channels n) (tk_chan t) = Some (tk_channel t) \<Longrightarrow>
   counter_value CHANNEL_SENDS_TOTAL [ty, st] (sends_metrics E net elapsed n ts) =
     length (filter (\<lambda>out. type_of_channel n (so_chan out) = Some ty \<and> so_status out = st)
       (map (\<lambda>(i, t). send_one E (net i) n t) ts))"
  by (induction ts) (auto simp: counter_value_def sends_metrics_def send_metrics_def type_of_channel_def)

lemma filter_length_list_all2:
  "list_all2 R xs ys \<Longrightarrow> (\<And>x y. R x y \<Longrightarrow> x \<in> set xs \<Longrightarrow> P x = Q y) \<Longrightarrow> length (filter P xs) = length (filter Q ys)"
  by (induction rule: list_all2_induct) auto

lemma send_one_status: "so_status (send_one E net n t) \<in> {''success'', ''failed''}"
  by (auto simp: send_one_def Let_def split: prod.splits sum.splits)


section \<open>Properties\<close>

text \<open>
  C24. The metrics of a runner of either kind say what it did, whatever order its concurrent dispatches report in:
  the block counter is the number of checkpoints saved, the block gauge the last of them, no dispatch is left in
  flight, and the tip gauge is the last live head that was handled, which catching up never touches.
\<close>

theorem runner_metrics_exact:
  assumes "chain_runner_run fuel env heads slots r reg = Some (res, es)" and "reports chain es calls"
  shows "counter_value BLOCKS_PROCESSED_TOTAL [chain] calls = length (checkpoints es) \<and>
    gauge_value CHAIN_LAST_PROCESSED_BLOCK [chain] calls = last_or 0 (checkpoints es) \<and>
    gauge_value DISPATCH_IN_FLIGHT [] calls = 0 \<and> list_all metric_call_ok calls \<and>
    (\<exists>k \<le> length (live_numbers r heads slots). gauge_value CHAIN_TIP_BLOCK [chain] calls = last_or 0 (take k (live_numbers r heads slots)) \<and>
       (res = Finished \<longrightarrow> k = length (live_numbers r heads slots)))"
  using reports_readings [OF assms(2)] run_tips [OF assms(1)] by metis

theorem runner_metrics_exact_witness:
  "\<exists>res es. chain_runner_run 2 (ex_run_env 8) [(ex_head 9, ex_run_env 9, False)] [] ex_runner None = Some (res, es) \<and>
     counter_value BLOCKS_PROCESSED_TOTAL [''eth''] (concat (map (effect_metrics ''eth'') es)) = length (checkpoints es)"
proof -
  have "\<exists>out. catchup_loop 2 (ex_run_env 8) Evm_Runner.ex_chain 6 5 None = Some out"
    by (rule catchup_loop_terminates) (simp_all add: ex_env_facts)
  then have "\<exists>out. catchup_evm 2 (ex_run_env 8) ex_runner None = Some out"
    by (auto simp: catchup_evm_def ex_candidates ex_env_facts)
  moreover have "\<exists>b. cr_buffer ex_runner = Some b" by (simp add: ex_runner_def)
  ultimately have "\<exists>out. run_evm 2 (ex_run_env 8) [(ex_head 9, ex_run_env 9, False)] ex_runner None = Some out"
    by (auto simp: run_evm_def simp del: live_loop.simps split: prod.splits)
  then obtain res es where run: "chain_runner_run 2 (ex_run_env 8) [(ex_head 9, ex_run_env 9, False)] [] ex_runner None = Some (res, es)"
    by (auto simp: chain_runner_run_def ex_runner_def Evm_Runner.ex_chain_def)
  have "reports ''eth'' es (concat (map (effect_metrics ''eth'') es))" by (simp add: reports_def)
  from runner_metrics_exact [OF run this] run show ?thesis by blast
qed

text \<open>
  The send counters agree with the database: after a dispatch whose callbacks all reach it, in whatever order its sends ended, the
  counter of a channel type and an outcome has grown by the number of delivery records written for channels of
  that type with that status.
\<close>

theorem send_counters_match_records:
  assumes "nt_on_failure n" and "nt_on_success n" and "mset (map rp_outcome ps) = mset (dispatch E net clk n ev hits rp)"
    and "distinct (map rp_id ps)" and "rp_id ` set ps \<inter> dr_id ` set (db_deliveries db) = {}"
    and "list_all (\<lambda>p. rp_answer p = Inr ()) ps"
    and "mset calls = mset (sends_metrics E net elapsed n (enumerate 0 (dispatch_tasks n clk ev rp hits)))"
    and "(st, ds) \<in> {(''success'', DS_success), (''failed'', DS_failed)}"
  shows "\<exists>rs. record_all repr_of ps db = db\<lparr>db_deliveries := db_deliveries db @ rs\<rparr> \<and>
    counter_value CHANNEL_SENDS_TOTAL [ty, st] calls =
      length (filter (\<lambda>r. type_of_channel n (dr_channel_id r) = Some ty \<and> dr_status r = ds) rs)"
proof -
  let ?ts = "dispatch_tasks n clk ev rp hits" and ?outs = "dispatch E net clk n ev hits rp"
  let ?P = "\<lambda>out. type_of_channel n (so_chan out) = Some ty \<and> so_status out = st"
  have sent: "\<forall>p \<in> set ps. sent_for (ev_chain_id ev) rp n (rp_outcome p)"
    using mset_eq_setD [OF assms(3)] dispatch_sent by fastforce
  have all: "filter (\<lambda>p. rp_answer p = Inr ()) ps = ps" using assms(6) by (simp add: list_all_iff)
  from record_all_spec [OF assms(1,2) sent assms(4,5), of repr_of] obtain rs where
    rs: "record_all repr_of ps db = db\<lparr>db_deliveries := db_deliveries db @ rs\<rparr>"
      "list_all2 (\<lambda>p r. dr_id r = rp_id p \<and> record_of (ev_chain_id ev) rp (rp_outcome p) r) ps rs"
    unfolding all by blast
  have "\<forall>(i, t) \<in> set (enumerate 0 ?ts). d_get (nt_channels n) (tk_chan t) = Some (tk_channel t)"
  proof (intro ballI, clarify)
    fix i t assume "(i, t) \<in> set (enumerate 0 ?ts)"
    then have "t \<in> set ?ts" unfolding enumerate_eq_zip by (rule set_zip_rightD)
    then show "d_get (nt_channels n) (tk_chan t) = Some (tk_channel t)" by (rule dispatch_tasks_channel)
  qed
  from sends_counted [OF this] have "counter_value CHANNEL_SENDS_TOTAL [ty, st] calls = length (filter ?P ?outs)"
    using assms(7) by (simp add: counter_value_def dispatch_def flip: count_mset)
  also have "\<dots> = length (filter ?P (map rp_outcome ps))" 
    using arg_cong [OF assms(3), of "\<lambda>M. size (filter_mset ?P M)"] by (simp only: mset_filter [symmetric] size_mset)
  also have "\<dots> = length (filter (\<lambda>p. ?P (rp_outcome p)) ps)" by (simp add: filter_map comp_def)
  also have "\<dots> = length (filter (\<lambda>r. type_of_channel n (dr_channel_id r) = Some ty \<and> dr_status r = ds) rs)"
    using rs(2)
  proof (rule filter_length_list_all2)
    fix p r assume rec: "dr_id r = rp_id p \<and> record_of (ev_chain_id ev) rp (rp_outcome p) r" and "p \<in> set ps"
    then obtain E' net' t where "rp_outcome p = send_one E' net' n t" using sent unfolding sent_for_def by blast
    then have st: "so_status (rp_outcome p) \<in> {''success'', ''failed''}" using send_one_status by simp
    show "?P (rp_outcome p) = (type_of_channel n (dr_channel_id r) = Some ty \<and> dr_status r = ds)"
      using assms(8) st rec by (auto simp: record_of_def outcome_status_def)
  qed
  finally show ?thesis using rs(1) by blast
qed

theorem send_counters_match_records_witness:
  "\<exists>rs. record_all (\<lambda>e. ''error'') [ex_report (Inr ())] ex_db = ex_db\<lparr>db_deliveries := db_deliveries ex_db @ rs\<rparr> \<and>
     counter_value CHANNEL_SENDS_TOTAL [''http'', ''success'']
       (sends_metrics ex_env (\<lambda>i w k. Inr 200) (\<lambda>i. 0) ex_notifier
         (enumerate 0 (dispatch_tasks ex_notifier (\<lambda>i. (0, ''d'')) ex_transfer False (match_hits (matcher_init ex_snapshot) ex_transfer)))) =
     length (filter (\<lambda>r. type_of_channel ex_notifier (dr_channel_id r) = Some ''http'' \<and> dr_status r = DS_success) rs)"
proof (rule send_counters_match_records)
  have "length ex_outcomes =
      length (dispatch_tasks ex_notifier (\<lambda>i. (0, ''d'')) ex_transfer False (match_hits (matcher_init ex_snapshot) ex_transfer))"
    by (simp add: ex_outcomes_def dispatch_def)
  also have "\<dots> = 1" by code_simp
  finally obtain x where x: "ex_outcomes = [x]" by (auto simp: length_Suc_conv)
  have "mset (map rp_outcome [ex_report (Inr ())]) = mset ex_outcomes" by (simp add: ex_report_def x)
  then show "mset (map rp_outcome [ex_report (Inr ())]) = mset (dispatch ex_env (\<lambda>i w k. Inr 200) (\<lambda>i. (0, ''d'')) ex_notifier
      ex_transfer (match_hits (matcher_init ex_snapshot) ex_transfer) False)"
    unfolding ex_outcomes_def .
  show "nt_on_failure ex_notifier" "nt_on_success ex_notifier" by (simp_all add: ex_notifier_def)
  show "rp_id ` set [ex_report (Inr ())] \<inter> dr_id ` set (db_deliveries ex_db) = {}" by (simp add: ex_db_def db_empty_def)
  show "list_all (\<lambda>p. rp_answer p = Inr ()) [ex_report (Inr ())]" by (simp add: ex_report_def)
qed (simp, rule refl, simp)

text \<open>A cancelled RPC call is counted as a success: the status changes on an \<open>Exception\<close> only.\<close>

lemma track_rpc_counts:
  "snd (track_rpc chain method elapsed body) =
     [Observe RPC_REQUEST_SECONDS [chain, method] elapsed,
      Inc RPC_REQUESTS_TOTAL [chain, method, if (\<exists>e. body = Raised e) then ''error'' else ''success'']]"
  by (cases body) (simp_all add: track_rpc_def)

end
