(* ===== verification/Web_App.thy ===== *)
theory Web_App
  imports Lifecycle Metrics
begin

text \<open>
  \<^verbatim>\<open>apps/web/main.py\<close> and \<^verbatim>\<open>apps/web/deps.py\<close>: what surrounds the routers of the web process. The lifespan opens
  and closes the database handle and the bus, the dependencies hand them to the routes, \<open>/healthz\<close> asks
  both, one middleware counts the requests and another answers unknown pages with the single-page front end.

  The framework that runs the routes is the function \<open>app\<close> from a request to its response; the answers of
  the database and of Redis are those of \<open>LifeEnv\<close>.
\<close>

section \<open>Lifespan and dependencies\<close>

record AppState =
  ap_db :: "Database option"
  ap_bus :: "RedisBus option"

definition app_init :: AppState where
  "app_init = \<lparr>ap_db = None, ap_bus = None\<rparr>"

text \<open>
  \<open>lifespan\<close>: \<open>serve\<close> is what the application does with its state between start and end. A failing bus
  gives the database back; at the end the bus is closed first.
\<close>

definition lifespan :: "LifeEnv \<Rightarrow> (AppState \<Rightarrow> exn option) \<Rightarrow> exn option \<times> Database \<times> RedisBus" where
  "lifespan env serve =
     (case database_connect (le_engine env) database_init of
        (Inl e, d) \<Rightarrow> (Some e, d, bus_init)
      | (Inr u, d) \<Rightarrow>
          (case bus_connect (le_open env) (le_ping env) bus_init of
             (Inl e, b) \<Rightarrow>
               (case database_disconnect (le_dispose env) d of
                  (Inl e', d') \<Rightarrow> (Some e', d', b)
                | (Inr u, d') \<Rightarrow> (Some e, d', b))
           | (Inr u, b) \<Rightarrow>
               (let ended = serve \<lparr>ap_db = Some d, ap_bus = Some b\<rparr>
                in case bus_disconnect (le_aclose env) b of
                     (Inl e, b') \<Rightarrow> (Some e, d, b')
                   | (Inr u, b') \<Rightarrow>
                       (case database_disconnect (le_dispose env) d of
                          (Inl e, d') \<Rightarrow> (Some e, d', b')
                        | (Inr u, d') \<Rightarrow> (ended, d', b')))))"

text \<open>The dependencies read the application's state; an application without its lifespan has none.\<close>

definition get_db :: "AppState \<Rightarrow> Database res" where
  "get_db st = (case ap_db st of None \<Rightarrow> Inl AttributeError | Some d \<Rightarrow> Inr d)"

definition get_bus :: "AppState \<Rightarrow> RedisBus res" where
  "get_bus st = (case ap_bus st of None \<Rightarrow> Inl AttributeError | Some b \<Rightarrow> Inr b)"

definition get_session :: "AppState \<Rightarrow> 'a res \<Rightarrow> 'a res" where
  "get_session st body = rbind (get_db st) (\<lambda>d. database_session d body)"

section \<open>Health\<close>

text \<open>\<open>healthz\<close>: \<open>select\<close> is what \<^verbatim>\<open>SELECT 1\<close> answers. The status with the body.\<close>

definition healthz :: "unit res \<Rightarrow> bool res \<Rightarrow> AppState \<Rightarrow> (int \<times> (string \<times> pv) list) res" where
  "healthz select ping st =
     rbind (get_db st) (\<lambda>d.
     rbind (get_bus st) (\<lambda>b.
       let db_ok = (case database_session d select of Inl e \<Rightarrow> False | Inr u \<Rightarrow> True);
           redis_ok = bus_ping ping b
       in Inr (if db_ok \<and> redis_ok then 200 else 503,
            [(''db'', PStr (if db_ok then ''ok'' else ''fail'')), (''redis'', PStr (if redis_ok then ''ok'' else ''fail''))])))"

section \<open>Middleware\<close>

text \<open>\<open>rq_route\<close> is the path template of the route the framework found, if any.\<close>

record Request =
  rq_method :: string
  rq_path :: string
  rq_route :: "string option"

datatype Body = AppBody pv | IndexHtml

record WebResponse =
  rs_status :: int
  rs_body :: Body

definition metric_path :: "Request \<Rightarrow> string" where
  "metric_path req = (case rq_route req of Some template \<Rightarrow> template | None \<Rightarrow> rq_path req)"

text \<open>\<open>track_api_metrics\<close>: a request whose handling raises is not counted.\<close>

definition track_api_metrics ::
  "real \<Rightarrow> (Request \<Rightarrow> WebResponse res) \<Rightarrow> Request \<Rightarrow> WebResponse res \<times> MetricCall list" where
  "track_api_metrics elapsed call_next req =
     (if rq_path req = ''/metrics'' then (call_next req, [])
      else case call_next req of
          Inl e \<Rightarrow> (Inl e, [])
        | Inr resp \<Rightarrow>
            (Inr resp,
             [Observe API_REQUEST_SECONDS [rq_method req, metric_path req] elapsed,
              Inc API_REQUESTS_TOTAL [rq_method req, metric_path req, int_str (rs_status resp)]]))"

definition SPA_EXCLUDED :: "string list" where
  "SPA_EXCLUDED = [''/api'', ''/ws'', ''/healthz'', ''/assets'']"

definition spa_fallback :: "bool \<Rightarrow> WebResponse \<Rightarrow> Request \<Rightarrow> WebResponse" where
  "spa_fallback index_is_file resp req =
     (if rs_status resp = 404 \<and> rq_method req = ''GET'' \<and> \<not> (\<exists>p \<in> set SPA_EXCLUDED. startswith (rq_path req) p) \<and> index_is_file
      then \<lparr>rs_status = 200, rs_body = IndexHtml\<rparr> else resp)"

text \<open>
  The stack \<open>create_app\<close> builds: the fallback is added last and is outermost; without a built front end
  (\<open>index\<close> is \<open>None\<close>) it is not there.
\<close>

definition handle_request ::
  "bool option \<Rightarrow> (Request \<Rightarrow> WebResponse res) \<Rightarrow> real \<times> Request \<Rightarrow> WebResponse res \<times> MetricCall list" where
  "handle_request index app timed =
     (case track_api_metrics (fst timed) app (snd timed) of
        (Inl e, calls) \<Rightarrow> (Inl e, calls)
      | (Inr resp, calls) \<Rightarrow>
          (Inr (case index of None \<Rightarrow> resp | Some is_file \<Rightarrow> spa_fallback is_file resp (snd timed)), calls))"

section \<open>The end of a WebSocket session\<close>

text \<open>
  \<open>ws_endpoint\<close> after its first task has ended: the other one is cancelled, both are awaited, and what they
  raise is logged (in either order). Closing a socket that is closed already raises a \<open>RuntimeError\<close>, which is suppressed.
\<close>

definition ws_session_end :: "exn option \<Rightarrow> exn option \<Rightarrow> unit res \<Rightarrow> exn list \<times> unit res" where
  "ws_session_end producer_end consumer_end socket_closed =
     (await_logged [producer_end, consumer_end],
      case socket_closed of Inl (RuntimeError m) \<Rightarrow> Inr () | r \<Rightarrow> r)"

section \<open>Facts\<close>

lemma ws_session_quiet:
  "snd (ws_session_end p c socket_closed) = Inl e \<Longrightarrow> socket_closed = Inl e \<and> (\<forall>m. e \<noteq> RuntimeError m)"
  by (auto simp: ws_session_end_def split: sum.splits exn.splits)

lemma healthz_open:
  "healthz select ping \<lparr>ap_db = Some \<lparr>da_engine = True\<rparr>, ap_bus = Some \<lparr>rb_client = True\<rparr>\<rparr> = Inr (status, body) \<Longrightarrow>
     status = (if \<not> isl select \<and> ping = Inr True then 200 else 503)"
  by (cases select; cases ping) (auto simp: healthz_def get_db_def get_bus_def database_session_def bus_ping_def)

lemma handle_request_calls: "snd (handle_request index app t) = snd (track_api_metrics (fst t) app (snd t))"
  by (auto simp: handle_request_def split: prod.splits sum.splits)

definition counted :: "(Request \<Rightarrow> WebResponse res) \<Rightarrow> string \<Rightarrow> string \<Rightarrow> string \<Rightarrow> Request \<Rightarrow> bool" where
  "counted app m p st req \<longleftrightarrow> rq_path req \<noteq> ''/metrics'' \<and> rq_method req = m \<and> metric_path req = p \<and>
     (case app req of Inl e \<Rightarrow> False | Inr resp \<Rightarrow> int_str (rs_status resp) = st)"

lemma request_counted:
  "count_list (snd (track_api_metrics elapsed app req)) (Inc API_REQUESTS_TOTAL [m, p, st]) = (if counted app m p st req then 1 else 0)"
  by (auto simp: track_api_metrics_def counted_def split: sum.splits)

section \<open>Properties\<close>

text \<open>
  Whether the start fails or the application has served and however that ended, the lifespan gives the
  database pool back, provided closing raises nothing; the Redis client stays open exactly when it could be made
  and the ping after it failed.
\<close>

theorem lifespan_releases:
  assumes "le_aclose env = Inr ()" and "le_dispose env = Inr ()" and "lifespan env serve = (ex, d, b)"
  shows "\<not> da_engine d \<and>
    (rb_client b \<longleftrightarrow> le_engine env = Inr () \<and> le_open env = Inr () \<and> isl (le_ping env)) \<and>
    (ex = None \<longrightarrow> (\<exists>p. le_ping env = Inr p) \<and> serve \<lparr>ap_db = Some \<lparr>da_engine = True\<rparr>, ap_bus = Some \<lparr>rb_client = True\<rparr>\<rparr> = None)"
  using assms
  by (cases "le_engine env"; cases "le_open env"; cases "le_ping env")
    (auto simp: lifespan_def database_connect_def database_disconnect_def bus_connect_def bus_disconnect_def
      database_init_def bus_init_def)

theorem lifespan_releases_witness:
  "\<not> da_engine (fst (snd (lifespan (ex_life\<lparr>le_ping := Inl TimeoutError\<rparr>) (\<lambda>st. None)))) \<and>
   rb_client (snd (snd (lifespan (ex_life\<lparr>le_ping := Inl TimeoutError\<rparr>) (\<lambda>st. None))))"
proof -
  let ?env = "ex_life\<lparr>le_ping := Inl TimeoutError\<rparr>"
  obtain ex d b where l: "lifespan ?env (\<lambda>st. None) = (ex, d, b)" by (metis prod.collapse)
  have "le_aclose ?env = Inr ()" "le_dispose ?env = Inr ()" by (simp_all add: ex_life_def)
  from lifespan_releases [OF this l] show ?thesis unfolding l by (simp add: ex_life_def)
qed

text \<open>
  C26. Every request other than a scrape that the application answers is counted once, under its method,
  its route and the application's own status, also when the client gets the front end's index page in its place;
  that page replaces only a 404 to a GET outside the API, the sockets, the health check and the assets.
\<close>

theorem requests_counted_once:
  "counter_value API_REQUESTS_TOTAL [m, p, st] (concat (map (snd \<circ> handle_request index app) reqs)) =
     length (filter (counted app m p st \<circ> snd) reqs) \<and>
   list_all metric_call_ok (concat (map (snd \<circ> handle_request index app) reqs)) \<and>
   (\<forall>t resp. fst (handle_request index app t) = Inr resp \<longrightarrow> app (snd t) = Inr resp \<or>
      (\<exists>resp'. app (snd t) = Inr resp' \<and> rs_status resp' = 404 \<and> rq_method (snd t) = ''GET'' \<and>
         \<not> (\<exists>q \<in> {''/api'', ''/ws'', ''/healthz'', ''/assets''}. startswith (rq_path (snd t)) q) \<and>
         index = Some True \<and> resp = \<lparr>rs_status = 200, rs_body = IndexHtml\<rparr>))"
proof (intro conjI allI impI)
  show "counter_value API_REQUESTS_TOTAL [m, p, st] (concat (map (snd \<circ> handle_request index app) reqs)) =
      length (filter (counted app m p st \<circ> snd) reqs)"
    by (induction reqs) (auto simp: counter_value_def handle_request_calls request_counted)
  have "list_all metric_call_ok (snd (track_api_metrics elapsed app req))" for elapsed req
    by (auto simp: track_api_metrics_def family_defs split: sum.splits)
  then show "list_all metric_call_ok (concat (map (snd \<circ> handle_request index app) reqs))"
    by (induction reqs) (simp_all add: handle_request_calls)
  fix t resp assume "fst (handle_request index app t) = Inr resp"
  then show "app (snd t) = Inr resp \<or>
      (\<exists>resp'. app (snd t) = Inr resp' \<and> rs_status resp' = 404 \<and> rq_method (snd t) = ''GET'' \<and>
         \<not> (\<exists>q \<in> {''/api'', ''/ws'', ''/healthz'', ''/assets''}. startswith (rq_path (snd t)) q) \<and>
         index = Some True \<and> resp = \<lparr>rs_status = 200, rs_body = IndexHtml\<rparr>)"
    by (cases "app (snd t)")
      (auto simp: handle_request_def track_api_metrics_def spa_fallback_def SPA_EXCLUDED_def split: if_splits option.splits)
qed

theorem requests_counted_once_witness:
  "counter_value API_REQUESTS_TOTAL [''GET'', ''/nowhere'', ''404'']
     (snd (handle_request (Some True) (\<lambda>req. Inr \<lparr>rs_status = 404, rs_body = AppBody PNone\<rparr>)
        (0, \<lparr>rq_method = ''GET'', rq_path = ''/nowhere'', rq_route = None\<rparr>))) = 1"
proof -
  let ?app = "\<lambda>req. Inr \<lparr>rs_status = 404, rs_body = AppBody PNone\<rparr> :: WebResponse res"
  let ?req = "\<lparr>rq_method = ''GET'', rq_path = ''/nowhere'', rq_route = None\<rparr>"
  have "counted ?app ''GET'' ''/nowhere'' ''404'' ?req" by code_simp
  then show ?thesis
    using conjunct1 [OF requests_counted_once [where reqs = "[(0, ?req)]" and app = ?app and index = "Some True" and m = "''GET''"
          and p = "''/nowhere''" and st = "''404''"]] by simp
qed

text \<open>
  Only the exact path of the metrics endpoint is skipped: its form with a slash at the end, which the
  mounted application serves, is counted like any other, and so is every unknown path under its own name.
\<close>

lemma metrics_slash_counted:
  "app req = Inr resp \<Longrightarrow> rq_path req = ''/metrics/'' \<Longrightarrow> rq_route req = None \<Longrightarrow>
     Inc API_REQUESTS_TOTAL [rq_method req, ''/metrics/'', int_str (rs_status resp)] \<in> set (snd (track_api_metrics elapsed app req))"
  by (simp add: track_api_metrics_def metric_path_def)

end
