(* ===== verification/Entry_Points.thy ===== *)
theory Entry_Points
  imports Web_App Settings Web_Schemas
begin

text \<open>
  The entry points: \<open>_amain\<close> of \<^verbatim>\<open>apps/worker/main.py\<close>, which loads the settings and runs a worker with them, the lifespan
  of the web process under its settings, and \<^verbatim>\<open>scripts/validate_arg_filters.py\<close> as a command.

  What the settings decide are the arguments of the processes' models; the rest of the outside is \<open>MainEnv\<close>.
  The lemmas show that nothing is opened when the settings do not load, which of them decide what, and what the exit
  code of the script says.
\<close>

section \<open>From settings to processes\<close>

text \<open>What the engine, Redis and the port answer, by their settings; the rest as in \<open>LifeEnv\<close>.\<close>

record MainEnv =
  me_engine :: "string \<Rightarrow> bool \<Rightarrow> unit res"
  me_redis :: "string \<Rightarrow> unit res"
  me_port :: "int \<Rightarrow> unit res"
  me_signals :: "unit res"
  me_life :: LifeEnv

definition worker_life :: "Settings \<Rightarrow> MainEnv \<Rightarrow> LifeEnv" where
  "worker_life s m =
     (me_life m)\<lparr>le_engine := me_engine m (ds_url (st_database s)) (ds_echo (st_database s)),
       le_open := me_redis m (rd_url (st_redis s)),
       le_metrics := (if ms_enabled (st_metrics s) then Some (me_port m (ms_port (st_metrics s))) else None)\<rparr>"

text \<open>The web process passes no \<open>echo\<close> on, and serves its metrics itself.\<close>

definition web_life :: "Settings \<Rightarrow> MainEnv \<Rightarrow> LifeEnv" where
  "web_life s m = (me_life m)\<lparr>le_engine := me_engine m (ds_url (st_database s)) False, le_open := me_redis m (rd_url (st_redis s))\<rparr>"

text \<open>The adapters get the thresholds of the endpoint pool.\<close>

definition pooled_env :: "Settings \<Rightarrow> WorkerEnv \<Rightarrow> WorkerEnv" where
  "pooled_env s env =
     env\<lparr>we_threshold := rp_failure_threshold (st_rpc_pool s), we_cooldown := rp_cooldown_s (st_rpc_pool s)\<rparr>"

fun pooled_event :: "Settings \<Rightarrow> WorkEvent \<Rightarrow> WorkEvent" where
  "pooled_event s (SnapshotTaken env snap) = SnapshotTaken (pooled_env s env) snap"
| "pooled_event s event = event"

text \<open>
  \<open>_amain\<close>: the settings, the signal handlers (which raise where the event loop has none), the worker. The stop
  event of the signals is the end of the list of events.
\<close>

definition amain ::
  "Settings res \<Rightarrow> MainEnv \<Rightarrow> WorkEvent list \<Rightarrow>
   (WorkerEnv \<times> ConfigSnapshot \<times> (string \<times> SnapshotChain) list) option \<Rightarrow> exn option \<times> Process \<times> Teardown list" where
  "amain loaded m events late =
     (case loaded of
        Inl e \<Rightarrow> (Some e, process_init, [])
      | Inr s \<Rightarrow>
          (case me_signals m of
             Inl e \<Rightarrow> (Some e, process_init, [])
           | Inr u \<Rightarrow>
               run_worker (worker_life s m) (map (pooled_event s) events)
                 (map_option (\<lambda>(env, rest). (pooled_env s env, rest)) late)))"

text \<open>The lifespan, settings included.\<close>

definition web_lifespan :: "Settings res \<Rightarrow> MainEnv \<Rightarrow> (AppState \<Rightarrow> exn option) \<Rightarrow> exn option \<times> Database \<times> RedisBus" where
  "web_lifespan loaded m serve =
     (case loaded of Inl e \<Rightarrow> (Some e, database_init, bus_init) | Inr s \<Rightarrow> lifespan (web_life s m) serve)"

section \<open>The scan as a command\<close>

text \<open>\<open>_run\<close>: \<open>read\<close> is the outcome of the query. The exit code, the handle, and the offenders printed.\<close>

definition scan_main :: "unit res \<Rightarrow> unit res \<Rightarrow> Db res \<Rightarrow> int res \<times> Database \<times> Offender list" where
  "scan_main created disposed read =
     (case database_connect created database_init of
        (Inl e, d) \<Rightarrow> (Inl e, d, [])
      | (Inr u, d) \<Rightarrow>
          (case database_disconnect disposed d of
             (Inl e, d') \<Rightarrow> (Inl e, d', [])
           | (Inr u, d') \<Rightarrow>
               (case rbind read (\<lambda>db. Inr (scan_database db)) of
                  Inl e \<Rightarrow> (Inl e, d', [])
                | Inr offenders \<Rightarrow> (Inr (if offenders = [] then 0 else 1), d', offenders))))"

section \<open>Facts\<close>

lemma metrics_up_shutdown: "worker_shutdown env late p = (ex, p', trace) \<Longrightarrow> pr_metrics_up p' = pr_metrics_up p"
  by (auto simp: worker_shutdown_def Let_def split: if_splits option.splits prod.splits sum.splits)

lemma metrics_up_start:
  "worker_start env process_init = (ex, p) \<Longrightarrow> pr_metrics_up p \<longleftrightarrow> ex = None \<and> le_metrics env \<noteq> None"
  by (auto simp: worker_start_def process_init_def Let_def split: prod.splits sum.splits option.splits)

lemma metrics_up_run: "process_run events p = (ex, p') \<Longrightarrow> pr_metrics_up p' = pr_metrics_up p"
  using process_run_worker by fastforce

lemma metrics_up_worker:
  "run_worker env events late = (ex, p, trace) \<Longrightarrow>
     pr_metrics_up p \<longleftrightarrow> fst (worker_start env process_init) = None \<and> le_metrics env \<noteq> None"
  by (auto simp: run_worker_def metrics_up_start metrics_up_run dest: metrics_up_shutdown metrics_up_start metrics_up_run
      split: prod.splits option.splits if_splits)

text \<open>Nothing is opened when the settings do not load.\<close>

lemma unloaded_settings: "amain (Inl e) m events late = (Some e, process_init, [])" "web_lifespan (Inl e) m serve = (Some e, database_init, bus_init)"
  by (simp_all add: amain_def web_lifespan_def)

text \<open>The metrics of a worker are up exactly if they are enabled and its start succeeded.\<close>

lemma amain_metrics:
  assumes "amain (Inr s) m events late = (ex, p, trace)" and "me_signals m = Inr ()"
  shows "pr_metrics_up p \<longleftrightarrow> ms_enabled (st_metrics s) \<and> fst (worker_start (worker_life s m) process_init) = None"
  using assms metrics_up_worker by (fastforce simp: amain_def worker_life_def)

text \<open>
  The exit code is 0 exactly if the API would accept the filters of every stored row, and the connection is
  given back whether or not the scan could read them.
\<close>

lemma scan_main_exit:
  assumes "scan_main (Inr ()) (Inr ()) read = (code, d, printed)"
  shows "\<not> da_engine d \<and>
    (\<forall>db. read = Inr db \<longrightarrow> printed = scan_database db \<and> (code = Inr 0 \<longleftrightarrow> scan_database db = []) \<and> code \<in> {Inr 0, Inr 1})"
proof -
  let ?d0 = "database_init\<lparr>da_engine := True\<rparr>" and ?d1 = "database_init\<lparr>da_engine := False\<rparr>"
  have c: "database_connect (Inr ()) database_init = (Inr (), ?d0)" by (simp add: database_connect_def)
  have x: "database_disconnect (Inr ()) ?d0 = (Inr (), ?d1)" "\<not> da_engine ?d1" by (simp_all add: database_disconnect_def database_init_def)
  show ?thesis using assms c x by (cases read) (auto simp: scan_main_def split: if_splits)
qed

end
