(* ===== verification/Evm_Heads.thy ===== *)
theory Evm_Heads
  imports Evm_Adapter
begin

text \<open>
  \<open>EvmAdapter._subscribe_heads_ws\<close> of \<^verbatim>\<open>core/chains/evm.py\<close>: a task of web3 calls a handler with every head, the
  handler puts it on a queue, and the generator yields from the queue. The task and the generator interleave; the task
  may end at any moment with an exception, as it does when the connection is lost.

  The lemmas show that the generator yields every head once and in order, and that it waits forever once the task has ended.
\<close>

section \<open>Steps\<close>

datatype HandlerTask = Handling | HandlerEnded "exn option"

record HeadQueue =
  hq_task :: HandlerTask
  hq_queue :: "BlockHeader list"
  hq_handled :: "BlockHeader list"
  hq_yielded :: "BlockHeader list"

definition heads_start :: HeadQueue where
  "heads_start = \<lparr>hq_task = Handling, hq_queue = [], hq_handled = [], hq_yielded = []\<rparr>"

text \<open>
  \<open>_on_head\<close> reads the fields of the head before it puts it; what it raises ends the task. The generator only
  ever waits for the queue.
\<close>

inductive heads_step :: "Web3 \<Rightarrow> HeadQueue \<Rightarrow> HeadQueue \<Rightarrow> bool" for w where
  on_head: "hq_task s = Handling \<Longrightarrow> ws_head w msg = Inr h \<Longrightarrow>
    heads_step w s (s\<lparr>hq_queue := hq_queue s @ [h], hq_handled := hq_handled s @ [h]\<rparr>)"
| bad_head: "hq_task s = Handling \<Longrightarrow> ws_head w msg = Inl e \<Longrightarrow> heads_step w s (s\<lparr>hq_task := HandlerEnded (Some e)\<rparr>)"
| ended: "hq_task s = Handling \<Longrightarrow> heads_step w s (s\<lparr>hq_task := HandlerEnded ex\<rparr>)"
| yielded: "hq_queue s = h # hs \<Longrightarrow> heads_step w s (s\<lparr>hq_queue := hs, hq_yielded := hq_yielded s @ [h]\<rparr>)"

inductive heads_run :: "Web3 \<Rightarrow> HeadQueue \<Rightarrow> bool" for w where
  start: "heads_run w heads_start"
| step: "heads_run w s \<Longrightarrow> heads_step w s s' \<Longrightarrow> heads_run w s'"

inductive_cases heads_stepE: "heads_step w s s'"

section \<open>Properties\<close>

lemma heads_in_order: "heads_run w s \<Longrightarrow> hq_yielded s @ hq_queue s = hq_handled s"
proof (induction rule: heads_run.induct)
  case start
  show ?case by (simp add: heads_start_def)
next
  case (step s s')
  from step(2,3) show ?case by cases auto
qed

text \<open>
  Once the task has ended the queue is only emptied: after it nothing can happen any more, while the generator
  has neither ended nor raised, so the runner that reads from it waits for good and keeps its lock.
\<close>

lemma heads_ended_measure:
  "hq_task s = HandlerEnded ex \<Longrightarrow> heads_step w s s' \<Longrightarrow> hq_task s' = HandlerEnded ex \<and> length (hq_queue s') < length (hq_queue s)"
  by (erule heads_stepE) auto

lemma lost_connection_stalls:
  "hq_task s = HandlerEnded ex \<Longrightarrow> hq_queue s = [] \<Longrightarrow> \<not> heads_step w s s'"
  using heads_ended_measure [of s ex w s'] by auto

lemma stalled_reachable:
  assumes "ws_head w msg = Inr h"
  shows "\<exists>s. heads_run w s \<and> hq_yielded s = [h] \<and> (\<forall>s'. \<not> heads_step w s s')"
proof -
  let ?s1 = "heads_start\<lparr>hq_queue := [h], hq_handled := [h]\<rparr>"
  let ?s2 = "?s1\<lparr>hq_queue := [], hq_yielded := [h]\<rparr>"
  let ?s3 = "?s2\<lparr>hq_task := HandlerEnded (Some TimeoutError)\<rparr>"
  have "heads_step w heads_start ?s1" using heads_step.on_head [of heads_start w msg h] assms by (simp add: heads_start_def)
  moreover have "heads_step w ?s1 ?s2" using heads_step.yielded [of ?s1 h "[]" w] by (simp add: heads_start_def)
  moreover have "heads_step w ?s2 ?s3" using heads_step.ended [of ?s2 w "Some TimeoutError"] by (simp add: heads_start_def)
  ultimately have "heads_run w ?s3" by (meson heads_run.intros)
  moreover have "\<not> heads_step w ?s3 s'" for s' by (rule lost_connection_stalls) simp_all
  ultimately show ?thesis by (intro exI [of _ ?s3]) simp
qed

end
