(* ===== verification/Spec2Isabelle.thy ===== *)
theory Spec2Isabelle
  imports System Dispatch_Loop Web_Test Web_Fanout Replay_Request Chain_Lock Migrations Web_Bodies Entry_Points Evm_Heads
begin

text \<open>
  A verification of chain_indexer, a service that follows EVM and Solana chains, decodes what happens on
  them and delivers the events to the channels of the subscriptions that match.

  \<^bold>\<open>The program.\<close> A web process (\<^verbatim>\<open>src/apps/web\<close>) keeps the configuration (chains, ABIs, channels, subscriptions)
  in a database and announces every change on Redis. A worker (\<^verbatim>\<open>src/apps/worker\<close>) reloads the configuration when its
  version changes and runs one chain runner per chain whose lock it holds. A runner asks its adapter for blocks,
  catches up from the checkpoint, follows the heads through a confirmation buffer that guards against
  reorganisations, parses each block into events, matches them with the subscriptions, and hands the hits to a notifier, whose
  channel drivers transmit them with retries. Outcomes, progress and checkpoints go back into the
  database; past ranges can be replayed on request.

  \<^bold>\<open>The theories\<close>, in the order in which they build on each other, with the sources they model:

  \<^item> Foundations. \<^verbatim>\<open>Prelude\<close> (exceptions as a sum type, ordered dictionaries, the key-value interface \<open>kv_store\<close>, the
    collections of simplification rules), \<^verbatim>\<open>Py_Values\<close> (dynamic values and the string, number and byte operations of Python),
    \<^verbatim>\<open>Chain_Types\<close> (\<^verbatim>\<open>core/chains/types.py\<close>, \<^verbatim>\<open>core/parser/event.py\<close>).
  \<^item> Configuration. \<^verbatim>\<open>Snapshot\<close> and \<^verbatim>\<open>Config_Store\<close> (\<^verbatim>\<open>core/config/snapshot.py\<close>, \<^verbatim>\<open>models.py\<close>, \<^verbatim>\<open>repositories.py\<close>): the tables
    as a record of row lists, one definition per repository statement, \<open>load_snapshot\<close>. Lemmas: every statement keeps keys
    unique and references valid; a snapshot is closed; what the clean-up deletes. \<^verbatim>\<open>Migrations\<close> (\<^verbatim>\<open>migrations/versions\<close>): each
    revision as a list of schema operations, run on an abstract schema; together they build the tables of the data model but
    for four columns, which differ in an enumeration or in a server default.
  \<^item> Decoding. \<^verbatim>\<open>Abi_Decoder\<close>, \<^verbatim>\<open>Abi_Registry\<close>, \<^verbatim>\<open>Idl_Fetcher\<close> (\<^verbatim>\<open>core/abi\<close>): decoding with its exceptions; the caches of
    the registry are invisible; fetched IDLs are found by it.
  \<^item> Parsing. \<^verbatim>\<open>Parser_Base\<close>, \<^verbatim>\<open>Evm_Parsers\<close>, \<^verbatim>\<open>Solana_Parsers\<close> (\<^verbatim>\<open>core/parser\<close>): a generator is a run of events with an
    optional exception; every parser meets the interface \<open>event_parser\<close>; amounts and attributions are exact.
  \<^item> Matching. \<^verbatim>\<open>Filters\<close>, \<^verbatim>\<open>Matcher\<close>, \<^verbatim>\<open>Filter_Set\<close> (\<^verbatim>\<open>core/matcher\<close>): the index equals a scan; the filter given to the node
    loses nothing.
  \<^item> Delivery. \<^verbatim>\<open>Retry\<close>, \<^verbatim>\<open>Payload\<close>, \<^verbatim>\<open>Channels\<close>, \<^verbatim>\<open>Notifier\<close> (\<^verbatim>\<open>core/notifier\<close>): five drivers meet the interface
    \<open>channel_driver\<close> (accepted by exactly one transmission, or by none and an exception); every hit is sent
    once to each of its channels. \<^verbatim>\<open>Dispatch_Loop\<close>: the tasks of concurrent dispatches and the \<open>asyncio.Semaphore\<close> that \<open>_get_sem\<close> makes
    for them, with its queue of waiters; one is made, its limit is kept, and no schedule gets stuck.
  \<^item> Chains. \<^verbatim>\<open>Rpc_Pool\<close>, \<^verbatim>\<open>Confirmation_Buffer\<close>, \<^verbatim>\<open>Evm_Adapter\<close>, \<^verbatim>\<open>Solana_Adapter\<close> (\<^verbatim>\<open>core/chains\<close>): failover and circuit breaker;
    what is emitted as confirmed is one unbroken chain, given the interface \<open>parent_resolver\<close>; answers of nodes are read as
    they describe the chain. \<^verbatim>\<open>Evm_Heads\<close>: the WebSocket source of heads as a step relation, in order but stuck once its task has ended.
  \<^item> Running. \<^verbatim>\<open>Runner_Base\<close>, \<^verbatim>\<open>Evm_Runner\<close>, \<^verbatim>\<open>Solana_Runner\<close>, \<^verbatim>\<open>Replay\<close> (\<^verbatim>\<open>apps/worker/chain_runner.py\<close>): a run is a list
    of effects (deliveries, checkpoints, progress) in order; windows are invisible, checkpoints are prefixes, prefetching resolves
    every reorganisation, replays touch nothing else. What a catch-up of slots tries is stated for every way a node can list
    them, since the adapter answers an empty list where the node refuses.
  \<^item> The worker. \<^verbatim>\<open>Chain_Lock\<close> (\<^verbatim>\<open>core/worker/chain_lock.py\<close>), \<^verbatim>\<open>Config_Watcher\<close> (\<^verbatim>\<open>apps/worker/config_watcher.py\<close>), \<^verbatim>\<open>Redis_Bus\<close>
    (\<^verbatim>\<open>core/bus/redis_bus.py\<close>, \<^verbatim>\<open>apps/worker/replay_watcher.py\<close>) and \<^verbatim>\<open>Worker\<close> (\<^verbatim>\<open>apps/worker/main.py\<close>): locks and watchers as step
    relations between whose steps the other processes act; what a reconciliation leaves running; what is
    recorded of a delivery. \<^verbatim>\<open>Lifecycle\<close> (start and shutdown in \<^verbatim>\<open>apps/worker/main.py\<close>, \<^verbatim>\<open>core/config/db.py\<close>, the \<open>stop\<close> methods): what a
    process has taken when it ends at any point, and what it gives back; replays under way belong to its state and are left
    behind; both handles meet the interface \<open>connection\<close>. \<^verbatim>\<open>Metrics\<close> (\<^verbatim>\<open>core/metrics.py\<close> and its callers): the
    calls on each metric, and that their readings agree with checkpoints, heads and delivery records.
  \<^item> The web process. \<^verbatim>\<open>Web_Schemas\<close> (\<^verbatim>\<open>apps/web/schemas.py\<close>, \<^verbatim>\<open>scripts/validate_arg_filters.py\<close>), \<^verbatim>\<open>Web_Api\<close> (the routers for chains,
    channels, subscriptions and ABIs), \<^verbatim>\<open>Web_Bodies\<close> (the bodies as JSON, and that what is read can be sent back), \<^verbatim>\<open>Replay_Request\<close>, \<^verbatim>\<open>Web_Records\<close> (delivery records and logs), \<^verbatim>\<open>Web_Fanout\<close>
    (\<^verbatim>\<open>routers/ws.py\<close>) and \<^verbatim>\<open>Web_Test\<close> (\<^verbatim>\<open>routers/test.py\<close>; its reports are compared with the worker's own processing of the same block): a handler maps the state of the web process to an answer and a new state.
    The interface \<open>config_writer\<close> is what the watcher needs of them; requests refine their abstract effect; with what they build up
    a reconciliation raises nothing but what the refresh of the ABI registry raises. \<^verbatim>\<open>Web_App\<close> (\<^verbatim>\<open>apps/web/main.py\<close>, \<^verbatim>\<open>deps.py\<close>): the lifespan, the health check and the middlewares around the routes.
    \<^verbatim>\<open>Settings\<close> (\<^verbatim>\<open>core/settings.py\<close>): where every field of the settings of both processes comes from.
    \<^verbatim>\<open>Entry_Points\<close>: both processes and the scan of the filters as commands, under their settings.
  \<^item> The whole. \<^verbatim>\<open>System\<close>: requests, from the statement that reads the version to the commit, statements of a reload, the queue,
    reconciliations and progress as one step relation. In the runs whose requests do not overlap (\<open>serial_run\<close>) a version stands for one configuration,
    by the interface \<open>versioned_config\<close>, and every change reaches the matcher, the channels and the log filter of every runner; in a run with two that
    overlap (\<open>lost_bump_hides_change\<close>) a change stays hidden.

  \<^bold>\<open>Conventions.\<close> A class is a record, an enumeration a datatype, a method a function on the record; an operation that may raise
  returns \<open>exn + 'a\<close>. Integers are unbounded as in Python, bytes are 8-bit words, times are reals. Code outside the repository
  (web3, solders, eth_abi, borsh, zlib, jsonschema, Redis, brokers, the clock, id generators) is an argument: a record of
  functions, or the list of what it answers. What is assumed of it is a named hypothesis.

  \<^bold>\<open>Bounds and fuel.\<close> The catch-up loops take the number of windows as fuel, since with a window of no blocks the code
  does not end; the lemmas show that \<open>MAX_CATCHUP_BLOCKS\<close> (10000) windows always suffice for a positive size. Splitting
  log queries, type resolution and call trees end by measure or by the code's own depth limits (64 levels). The live
  loops take the list of heads they are given. The queue of a WebSocket session holds 256 messages, the log
  buffer 500 lines, a replay at most the configured number of blocks.

  \<^bold>\<open>Not modelled.\<close> What only calls libraries: the routing of FastAPI and its static files, the SQLAlchemy engine below the
  repository statements, the set-up of logging, signal handlers, the Alembic environment (\<^verbatim>\<open>migrations/env.py\<close>), the client
  library of Prometheus. \<^verbatim>\<open>core/chains/adapter.py\<close> declares types only; the user interface under \<^verbatim>\<open>web\<close> is not Python. A database
  statement is atomic; of a request's transaction the statement that reads the version and the commit are separate steps. A task is cancelled only at shutdown, and how it
  ends then is a parameter. The bound of eight snapshots on the worker's queue only delays the watcher and is left out.
  Text that is only logged is left out.
\<close>

end
